(* ===== verification/Py_Base.thy ===== *)
theory Py_Base
  imports Main "HOL-Library.Char_ord" "HOL-Library.List_Lexorder"
begin

text \<open>
  The prelude: what every component of the model takes from the Python language.
  Exceptions are values of the type \<open>pyexn\<close> (the class name and \<open>str(exc)\<close>), a call that
  can raise returns a sum, a call that also changes state returns the state with it. Python
  strings are \<open>string\<close>s, that is, code points below 256; ordering is lexicographic, as in
  Python. A dict whose order matters is an association list with one entry per key, kept
  in insertion order by \<open>dset\<close>.
\<close>

section \<open>Collections\<close>

named_theorems dict_simps \<open>reading a dict after it was written\<close>
named_theorems res_simps \<open>evaluation of raising computations\<close>
named_theorems keep_simps \<open>fields an operation leaves alone\<close>

section \<open>Exceptions\<close>

datatype pyexn = PyExn (exn_class: string) (exn_text: string)

type_synonym 'a res = "pyexn + 'a"

definition bind_res :: "'a res \<Rightarrow> ('a \<Rightarrow> 'b res) \<Rightarrow> 'b res" where
  "bind_res r f = (case r of Inl e \<Rightarrow> Inl e | Inr x \<Rightarrow> f x)"

lemma bind_res_simps [simp, res_simps]:
  "bind_res (Inl e) f = Inl e"
  "bind_res (Inr x) f = f x"
  by (simp_all add: bind_res_def)

lemma bind_res_Inr_iff:
  "bind_res r f = Inr y \<longleftrightarrow> (\<exists>x. r = Inr x \<and> f x = Inr y)"
  by (cases r) auto

lemma bind_res_InrE:
  assumes "bind_res r f = Inr y"
  obtains x where "r = Inr x" "f x = Inr y"
  using assms by (cases r) auto

lemma bind_res_Inl_iff:
  "bind_res r f = Inl e \<longleftrightarrow> r = Inl e \<or> (\<exists>x. r = Inr x \<and> f x = Inl e)"
  by (cases r) auto

lemma if_Inr_iff:
  "((if b then r1 else r2) = (Inr y :: 'a res)) \<longleftrightarrow> (b \<and> r1 = Inr y \<or> \<not> b \<and> r2 = Inr y)"
  by simp

definition value_error :: "string \<Rightarrow> 'a res" where
  "value_error msg = Inl (PyExn ''ValueError'' msg)"

definition type_error :: "string \<Rightarrow> 'a res" where
  "type_error msg = Inl (PyExn ''TypeError'' msg)"

text \<open>A comprehension over a raising body: the first element that raises ends it.\<close>

primrec map_res :: "('a \<Rightarrow> 'b res) \<Rightarrow> 'a list \<Rightarrow> 'b list res" where
  "map_res f [] = Inr []"
| "map_res f (x # xs) = bind_res (f x) (\<lambda>y. bind_res (map_res f xs) (\<lambda>ys. Inr (y # ys)))"

lemma map_res_length: "map_res f xs = Inr ys \<Longrightarrow> length ys = length xs"
  by (induction xs arbitrary: ys) (auto simp: bind_res_Inr_iff)

lemma map_res_nth:
  "map_res f xs = Inr ys \<Longrightarrow> i < length xs \<Longrightarrow> f (xs ! i) = Inr (ys ! i)"
proof (induction xs arbitrary: ys i)
  case Nil
  then show ?case by simp
next
  case (Cons x xs)
  then show ?case by (cases i) (auto simp: bind_res_Inr_iff)
qed

section \<open>Effects\<close>

text \<open>
  A method: it takes the object's state, and returns or raises with the state as it then is.
\<close>

type_synonym ('s, 'a) op = "'s \<Rightarrow> 'a res \<times> 's"

definition st_return :: "'a \<Rightarrow> ('s, 'a) op" where
  "st_return x s = (Inr x, s)"

definition st_raise :: "pyexn \<Rightarrow> ('s, 'a) op" where
  "st_raise e s = (Inl e, s)"

definition st_bind :: "('s, 'a) op \<Rightarrow> ('a \<Rightarrow> ('s, 'b) op) \<Rightarrow> ('s, 'b) op" where
  "st_bind m f s = (case m s of (Inl e, s') \<Rightarrow> (Inl e, s') | (Inr x, s') \<Rightarrow> f x s')"

definition st_lift :: "'a res \<Rightarrow> ('s, 'a) op" where
  "st_lift r s = (r, s)"

text \<open>\<open>try: m except Exception as e: h e\<close>: what \<open>m\<close> changed before it raised stays changed.\<close>

definition st_try :: "('s, 'a) op \<Rightarrow> (pyexn \<Rightarrow> ('s, 'a) op) \<Rightarrow> ('s, 'a) op" where
  "st_try m h s = (case m s of (Inl e, s') \<Rightarrow> h e s' | (Inr x, s') \<Rightarrow> (Inr x, s'))"

definition st_modify :: "('s \<Rightarrow> 's) \<Rightarrow> ('s, unit) op" where
  "st_modify f s = (Inr (), f s)"

definition st_get :: "('s \<Rightarrow> 'a) \<Rightarrow> ('s, 'a) op" where
  "st_get f s = (Inr (f s), s)"

text \<open>A \<open>for\<close> loop over a list, with the loop-carried value \<open>acc\<close>.\<close>

primrec st_fold :: "('a \<Rightarrow> 'b \<Rightarrow> ('s, 'b) op) \<Rightarrow> 'a list \<Rightarrow> 'b \<Rightarrow> ('s, 'b) op" where
  "st_fold f [] acc = st_return acc"
| "st_fold f (x # xs) acc = st_bind (f x acc) (st_fold f xs)"

lemmas st_defs = st_return_def st_raise_def st_bind_def st_lift_def st_try_def st_modify_def st_get_def

lemma st_bind_return [simp, res_simps]: "st_bind (st_return x) f = f x"
  by (simp add: st_defs fun_eq_iff)

lemma st_bind_lift [simp, res_simps]: "st_bind (st_lift (Inr x)) f = f x"
  by (simp add: st_defs fun_eq_iff)

lemma st_bind_Inr:
  "st_bind m f s = (Inr y, s'') \<longleftrightarrow> (\<exists>x s'. m s = (Inr x, s') \<and> f x s' = (Inr y, s''))"
  by (auto simp: st_bind_def split: prod.splits sum.splits)

lemma st_bind_app [res_simps]:
  "m s = (Inr x, s') \<Longrightarrow> st_bind m f s = f x s'"
  "m s = (Inl e, s') \<Longrightarrow> st_bind m f s = (Inl e, s')"
  by (simp_all add: st_bind_def)

text \<open>A loop keeps what its body keeps, up to where it returned.\<close>

lemma st_fold_inv:
  assumes "st_fold f xs acc s = (Inr acc', s')" "I acc s"
    and "\<And>x acc s acc' s'. x \<in> set xs \<Longrightarrow> I acc s \<Longrightarrow> f x acc s = (Inr acc', s') \<Longrightarrow> I acc' s'"
  shows "I acc' s'"
  using assms
proof (induction xs arbitrary: acc s)
  case Nil
  then show ?case by (simp add: st_return_def)
next
  case (Cons x xs)
  then obtain b t where "f x acc s = (Inr b, t)" "st_fold f xs b t = (Inr acc', s')"
    by (auto simp: st_bind_Inr)
  moreover have "I b t" using Cons.prems(2,3) calculation(1) by (meson list.set_intros(1))
  ultimately show ?case using Cons.IH [of b t] Cons.prems(3) by (meson list.set_intros(2))
qed

section \<open>Characters and strings\<close>

definition py_space :: "char \<Rightarrow> bool" where
  "py_space c = (let n = of_char c :: nat in
     (9 \<le> n \<and> n \<le> 13) \<or> (28 \<le> n \<and> n \<le> 32) \<or> n = 133 \<or> n = 160)"

definition is_digit :: "char \<Rightarrow> bool" where
  "is_digit c = (let n = of_char c :: nat in 48 \<le> n \<and> n \<le> 57)"

text \<open>\<open>\w\<close> on code points below 256.\<close>

definition word_char :: "char \<Rightarrow> bool" where
  "word_char c = (let n = of_char c :: nat in
     is_digit c \<or> n = 95 \<or> (65 \<le> n \<and> n \<le> 90) \<or> (97 \<le> n \<and> n \<le> 122) \<or>
     n \<in> {170, 178, 179, 181, 185, 186, 188, 189, 190} \<or> (192 \<le> n \<and> n \<noteq> 215 \<and> n \<noteq> 247))"

definition lower_char :: "char \<Rightarrow> char" where
  "lower_char c = (let n = of_char c :: nat in
     if (65 \<le> n \<and> n \<le> 90) \<or> (192 \<le> n \<and> n \<le> 222 \<and> n \<noteq> 215) then char_of (n + 32) else c)"

definition str_lower :: "string \<Rightarrow> string" where
  "str_lower s = map lower_char s"

definition upper_char :: "char \<Rightarrow> char" where
  "upper_char c = (let n = of_char c :: nat in if 97 \<le> n \<and> n \<le> 122 then char_of (n - 32) else c)"

text \<open>\<open>str.upper\<close> on ASCII text, which is all the code calls it on.\<close>

definition str_upper :: "string \<Rightarrow> string" where
  "str_upper s = map upper_char s"

definition lstrip_by :: "(char \<Rightarrow> bool) \<Rightarrow> string \<Rightarrow> string" where
  "lstrip_by p s = dropWhile p s"

definition rstrip_by :: "(char \<Rightarrow> bool) \<Rightarrow> string \<Rightarrow> string" where
  "rstrip_by p s = rev (dropWhile p (rev s))"

definition str_strip :: "string \<Rightarrow> string" where
  "str_strip s = rstrip_by py_space (lstrip_by py_space s)"

definition starts_with :: "string \<Rightarrow> string \<Rightarrow> bool" where
  "starts_with p s = (take (length p) s = p)"

definition ends_with :: "string \<Rightarrow> string \<Rightarrow> bool" where
  "ends_with p s = (length p \<le> length s \<and> drop (length s - length p) s = p)"

fun str_contains :: "string \<Rightarrow> string \<Rightarrow> bool" where
  "str_contains p [] = (p = [])"
| "str_contains p (c # s) = (starts_with p (c # s) \<or> str_contains p s)"

fun split_char :: "char \<Rightarrow> string \<Rightarrow> string list" where
  "split_char c [] = [[]]"
| "split_char c (x # xs) =
     (if x = c then [] # split_char c xs
      else (case split_char c xs of [] \<Rightarrow> [[x]] | y # ys \<Rightarrow> (x # y) # ys))"

text \<open>\<open>s.split(c, 1)\<close> for a separator that may be absent: the text before and after it.\<close>

definition split_once :: "char \<Rightarrow> string \<Rightarrow> string \<times> string option" where
  "split_once c s = (case dropWhile (\<lambda>x. x \<noteq> c) s of
     [] \<Rightarrow> (s, None)
   | _ # rest \<Rightarrow> (takeWhile (\<lambda>x. x \<noteq> c) s, Some rest))"

fun split_pred :: "(char \<Rightarrow> bool) \<Rightarrow> string \<Rightarrow> string list" where
  "split_pred p [] = [[]]"
| "split_pred p (x # xs) =
     (if p x then [] # split_pred p xs
      else (case split_pred p xs of [] \<Rightarrow> [[x]] | y # ys \<Rightarrow> (x # y) # ys))"

text \<open>\<open>s.split()\<close>: the maximal runs of characters that are not white space.\<close>

definition py_words :: "string \<Rightarrow> string list" where
  "py_words s = filter (\<lambda>w. w \<noteq> []) (split_pred py_space s)"

fun str_join :: "string \<Rightarrow> string list \<Rightarrow> string" where
  "str_join sep [] = []"
| "str_join sep [x] = x"
| "str_join sep (x # y # ys) = x @ sep @ str_join sep (y # ys)"

lemma starts_with_iff: "starts_with p s \<longleftrightarrow> (\<exists>t. s = p @ t)"
proof
  assume "starts_with p s"
  then have "s = p @ drop (length p) s"
    by (metis append_take_drop_id starts_with_def)
  then show "\<exists>t. s = p @ t" ..
qed (auto simp: starts_with_def)

lemma starts_with_append [simp]: "starts_with p (p @ t)"
  by (simp add: starts_with_def)

lemma ends_with_append [simp]: "ends_with t (s @ t)"
  by (simp add: ends_with_def)

lemma ends_with_iff: "ends_with p s \<longleftrightarrow> (\<exists>t. s = t @ p)"
proof
  assume "ends_with p s"
  then have "s = take (length s - length p) s @ p"
    by (metis append_take_drop_id ends_with_def)
  then show "\<exists>t. s = t @ p" ..
qed auto

lemma split_char_not_Nil [simp]: "split_char c s \<noteq> []"
  by (induction s) (auto split: list.splits)

lemma split_char_no_sep: "c \<notin> set s \<Longrightarrow> split_char c s = [s]"
  by (induction s) auto

lemma split_char_parts: "p \<in> set (split_char c s) \<Longrightarrow> c \<notin> set p"
  by (induction s arbitrary: p) (auto split: if_splits list.splits)

lemma split_char_append:
  "c \<notin> set a \<Longrightarrow> split_char c (a @ c # b) = a # split_char c b"
  by (induction a) auto

section \<open>Decimal numerals\<close>

definition digit_char :: "nat \<Rightarrow> char" where
  "digit_char d = char_of (48 + d)"

definition digit_val :: "char \<Rightarrow> nat" where
  "digit_val c = of_char c - 48"

fun nat_str :: "nat \<Rightarrow> string" where
  "nat_str n = (if n < 10 then [digit_char n] else nat_str (n div 10) @ [digit_char (n mod 10)])"

declare nat_str.simps [simp del]

definition int_str :: "int \<Rightarrow> string" where
  "int_str i = (if i < 0 then CHR ''-'' # nat_str (nat (- i)) else nat_str (nat i))"

definition digits_val :: "string \<Rightarrow> nat" where
  "digits_val s = foldl (\<lambda>n c. n * 10 + digit_val c) 0 s"

definition all_digits :: "string \<Rightarrow> bool" where
  "all_digits s = (s \<noteq> [] \<and> list_all is_digit s)"

lemma digit_char_is_digit [simp]: "d < 10 \<Longrightarrow> is_digit (digit_char d)"
  by (simp add: is_digit_def digit_char_def Let_def)

lemma digit_val_char [simp]: "d < 10 \<Longrightarrow> digit_val (digit_char d) = d"
  by (simp add: digit_val_def digit_char_def)

lemma nat_str_not_Nil [simp]: "nat_str n \<noteq> []"
  by (subst nat_str.simps) simp

lemma nat_str_all_digits [simp]: "all_digits (nat_str n)"
proof (induction n rule: nat_str.induct)
  case (1 n)
  then show ?case
    by (cases "n < 10") (auto simp: nat_str.simps [of n] all_digits_def)
qed

lemma digits_val_snoc [simp]: "digits_val (s @ [c]) = digits_val s * 10 + digit_val c"
  by (simp add: digits_val_def)

lemma digits_val_Nil [simp]: "digits_val [] = 0"
  by (simp add: digits_val_def)

lemma digits_val_nat_str [simp]: "digits_val (nat_str n) = n"
proof (induction n rule: nat_str.induct)
  case (1 n)
  show ?case
  proof (cases "n < 10")
    case True
    then have "nat_str n = [] @ [digit_char n]" by (simp add: nat_str.simps [of n])
    with True show ?thesis by (simp only: digits_val_snoc) simp
  next
    case False
    with 1 show ?thesis by (simp add: nat_str.simps [of n])
  qed
qed

text \<open>Fixed width, zero padded: \<open>%02d\<close> and its kin.\<close>

fun pad_nat :: "nat \<Rightarrow> nat \<Rightarrow> string" where
  "pad_nat 0 n = []"
| "pad_nat (Suc k) n = pad_nat k (n div 10) @ [digit_char (n mod 10)]"

lemma length_pad_nat [simp]: "length (pad_nat k n) = k"
  by (induction k arbitrary: n) auto

lemma pad_nat_digits: "list_all is_digit (pad_nat k n)"
  by (induction k arbitrary: n) auto

lemma digits_val_pad_nat: "n < 10 ^ k \<Longrightarrow> digits_val (pad_nat k n) = n"
proof (induction k arbitrary: n)
  case 0
  then show ?case by simp
next
  case (Suc k)
  then have "n div 10 < 10 ^ k" by (simp add: less_mult_imp_div_less mult.commute)
  then show ?case using Suc.IH by simp
qed

text \<open>
  \<open>int(text)\<close>: surrounding white space, an optional sign, decimal digits with single
  underscores between them.
\<close>

fun drop_underscores :: "string \<Rightarrow> string option" where
  "drop_underscores [] = None"
| "drop_underscores [c] = (if is_digit c then Some [c] else None)"
| "drop_underscores (c # d # s) =
     (if \<not> is_digit c then None
      else if d = CHR ''_'' then map_option ((#) c) (drop_underscores s)
      else map_option ((#) c) (drop_underscores (d # s)))"

definition parse_nat :: "string \<Rightarrow> nat option" where
  "parse_nat s = map_option digits_val (drop_underscores s)"

definition parse_int :: "string \<Rightarrow> int option" where
  "parse_int s = (case str_strip s of
     [] \<Rightarrow> None
   | c # t \<Rightarrow>
       if c = CHR ''-'' then map_option (\<lambda>n. - int n) (parse_nat t)
       else if c = CHR ''+'' then map_option int (parse_nat t)
       else map_option int (parse_nat (c # t)))"

lemma drop_underscores_digits: "all_digits s \<Longrightarrow> drop_underscores s = Some s"
proof (induction s rule: drop_underscores.induct)
  case (3 c d s)
  from "3.prems" have d: "is_digit d" and "d \<noteq> CHR ''_''"
    by (auto simp: all_digits_def is_digit_def)
  with 3 show ?case by (simp add: all_digits_def)
qed (auto simp: all_digits_def)

lemma parse_nat_nat_str [simp]: "parse_nat (nat_str n) = Some n"
  by (simp add: parse_nat_def drop_underscores_digits)

lemma is_digit_not_space: "is_digit c \<Longrightarrow> \<not> py_space c"
  by (auto simp: is_digit_def py_space_def Let_def)

lemma strip_id:
  assumes "s \<noteq> []" "\<not> py_space (hd s)" "\<not> py_space (last s)"
  shows "str_strip s = s"
proof -
  have "lstrip_by py_space s = s"
    using assms by (cases s) (auto simp: lstrip_by_def)
  moreover have "rstrip_by py_space s = s"
    using assms by (cases s rule: rev_cases) (auto simp: rstrip_by_def)
  ultimately show ?thesis by (simp add: str_strip_def)
qed

lemma digits_hd_last:
  assumes "all_digits s"
  shows "is_digit (hd s)" and "is_digit (last s)"
  using assms by (auto simp: all_digits_def list_all_iff)

lemma parse_int_int_str [simp]: "parse_int (int_str i) = Some i"
proof (cases "i < 0")
  case True
  let ?d = "nat_str (nat (- i))"
  have "\<not> py_space (last ?d)"
    using digits_hd_last(2) [OF nat_str_all_digits] is_digit_not_space by blast
  then have "str_strip (CHR ''-'' # ?d) = CHR ''-'' # ?d"
    by (intro strip_id) (simp_all add: py_space_def)
  with True show ?thesis by (simp add: parse_int_def int_str_def)
next
  case False
  let ?d = "nat_str (nat i)"
  obtain c t where d: "?d = c # t" by (cases ?d) auto
  have "all_digits ?d" by simp
  then have c: "is_digit c" using digits_hd_last(1) [of ?d] d by simp
  have "str_strip ?d = ?d"
    using digits_hd_last [OF \<open>all_digits ?d\<close>] is_digit_not_space by (intro strip_id) auto
  moreover have "c \<noteq> CHR ''-''" "c \<noteq> CHR ''+''" using c by (auto simp: is_digit_def)
  moreover have "parse_nat (c # t) = Some (nat i)" using parse_nat_nat_str [of "nat i"] d by simp
  ultimately show ?thesis using False d by (simp add: parse_int_def int_str_def)
qed

lemma nat_str_inject [simp]: "nat_str m = nat_str n \<longleftrightarrow> m = n"
  by (metis digits_val_nat_str)

section \<open>Dicts in insertion order\<close>

primrec dset :: "'k \<Rightarrow> 'v \<Rightarrow> ('k \<times> 'v) list \<Rightarrow> ('k \<times> 'v) list" where
  "dset k v [] = [(k, v)]"
| "dset k v (p # ps) = (if fst p = k then (k, v) # ps else p # dset k v ps)"

definition ddel :: "'k \<Rightarrow> ('k \<times> 'v) list \<Rightarrow> ('k \<times> 'v) list" where
  "ddel k d = filter (\<lambda>p. fst p \<noteq> k) d"

text \<open>\<open>d.setdefault(k, v)\<close>, and \<open>{**d, **e}\<close>, the update of one dict by another.\<close>

definition dsetdefault :: "'k \<Rightarrow> 'v \<Rightarrow> ('k \<times> 'v) list \<Rightarrow> ('k \<times> 'v) list" where
  "dsetdefault k v d = (if map_of d k = None then dset k v d else d)"

definition dupdate :: "('k \<times> 'v) list \<Rightarrow> ('k \<times> 'v) list \<Rightarrow> ('k \<times> 'v) list" where
  "dupdate d e = foldl (\<lambda>acc p. dset (fst p) (snd p) acc) d e"

definition dkeys :: "('k \<times> 'v) list \<Rightarrow> 'k list" where
  "dkeys d = map fst d"

definition is_dict :: "('k \<times> 'v) list \<Rightarrow> bool" where
  "is_dict d = distinct (map fst d)"

lemma map_of_dset [simp, dict_simps]:
  "map_of (dset k v d) = (map_of d)(k \<mapsto> v)"
  by (induction d) (auto simp: fun_eq_iff)

lemma map_of_ddel [simp, dict_simps]:
  "map_of (ddel k d) = (map_of d)(k := None)"
  by (induction d) (auto simp: ddel_def fun_eq_iff)

lemma keys_dset [simp]: "fst ` set (dset k v d) = insert k (fst ` set d)"
  by (induction d) auto

lemma keys_ddel [simp]: "fst ` set (ddel k d) = fst ` set d - {k}"
  by (auto simp: ddel_def)

lemma is_dict_Nil [simp]: "is_dict []"
  by (simp add: is_dict_def)

lemma is_dict_dset [simp]: "is_dict d \<Longrightarrow> is_dict (dset k v d)"
proof (induction d)
  case (Cons p d)
  have "fst ` set (dset k v d) = insert k (fst ` set d)" by simp
  with Cons show ?case by (auto simp: is_dict_def)
qed (simp add: is_dict_def)

lemma is_dict_filter [simp]: "is_dict d \<Longrightarrow> is_dict (filter p d)"
  by (simp add: is_dict_def distinct_map_filter)

lemma is_dict_ddel [simp]: "is_dict d \<Longrightarrow> is_dict (ddel k d)"
  by (simp add: ddel_def)

lemma map_of_dsetdefault [simp, dict_simps]:
  "map_of (dsetdefault k v d) k' =
     (if k' = k then Some (case map_of d k of None \<Rightarrow> v | Some w \<Rightarrow> w) else map_of d k')"
  by (auto simp: dsetdefault_def split: option.splits)

lemma is_dict_dsetdefault [simp]: "is_dict d \<Longrightarrow> is_dict (dsetdefault k v d)"
  by (simp add: dsetdefault_def)

lemma set_dset: "set (dset k v d) \<subseteq> insert (k, v) (set d)"
  by (induction d) auto

lemma in_dset_self [simp]: "(k, v) \<in> set (dset k v d)"
  by (induction d) auto

lemma map_of_is_dict: "is_dict d \<Longrightarrow> (k, v) \<in> set d \<longleftrightarrow> map_of d k = Some v"
  by (auto simp: is_dict_def intro: map_of_is_SomeI dest: map_of_SomeD)

lemma length_dset: "length (dset k v d) = (if k \<in> fst ` set d then length d else Suc (length d))"
  by (induction d) auto

lemma length_ddel_le: "length (ddel k d) \<le> length d"
  by (simp add: ddel_def)

lemma map_of_filter_dict:
  "is_dict d \<Longrightarrow> map_of (filter p d) k =
     (case map_of d k of None \<Rightarrow> None | Some v \<Rightarrow> if p (k, v) then Some v else None)"
proof (induction d)
  case (Cons a d)
  then have IH: "map_of (filter p d) k =
      (case map_of d k of None \<Rightarrow> None | Some v \<Rightarrow> if p (k, v) then Some v else None)"
    and a: "fst a \<notin> fst ` set d"
    by (auto simp: is_dict_def)
  show ?case
  proof (cases "fst a = k")
    case True
    then have "map_of d k = None" using a by (simp add: map_of_eq_None_iff)
    with True IH show ?thesis by (cases a) auto
  next
    case False
    with IH show ?thesis by (cases a) auto
  qed
qed (simp add: is_dict_def)

section \<open>Lists\<close>

text \<open>\<open>sorted(xs, key=f, reverse=True)\<close> keeps the order of equal elements.\<close>

definition sort_desc :: "('a \<Rightarrow> 'b::linorder) \<Rightarrow> 'a list \<Rightarrow> 'a list" where
  "sort_desc f xs = rev (sort_key f (rev xs))"

lemma set_sort_desc [simp]: "set (sort_desc f xs) = set xs"
  by (simp add: sort_desc_def)

lemma length_sort_desc [simp]: "length (sort_desc f xs) = length xs"
  by (simp add: sort_desc_def)

lemma sorted_sort_desc: "sorted (rev (map f (sort_desc f xs)))"
  by (simp add: sort_desc_def rev_map)

end
