(* ===== verification/Py_Value.thy ===== *)
theory Py_Value
  imports Py_Base
begin

text \<open>
  The dynamic values the program passes around: what \<open>json.loads\<close> produces, and so what
  alert details, decision parameters, event payloads and HTTP bodies hold. The operations
  are the ones the source uses on them: truth value, \<open>dict.get\<close>, \<open>str()\<close> and \<open>repr()\<close>,
  \<open>int()\<close> and \<open>float()\<close>, \<open>json.dumps\<close>.

  A finite float is the decimal \<open>m * 10 ^ e\<close> of its shortest representation, which is what
  Python prints. Shortest decimals order as the doubles they stand for, so comparisons,
  the only arithmetic the modelled code does on them, are exact. Negative zero is zero.
\<close>

section \<open>Floats\<close>

datatype pyfloat = FDec int int | FPosInf | FNegInf | FNaN

fun flt :: "pyfloat \<Rightarrow> pyfloat \<Rightarrow> bool" where
  "flt FNaN y = False"
| "flt x FNaN = False"
| "flt FNegInf y = (y \<noteq> FNegInf)"
| "flt x FNegInf = False"
| "flt FPosInf y = False"
| "flt x FPosInf = True"
| "flt (FDec m e) (FDec n f) = (m * 10 ^ nat (e - min e f) < n * 10 ^ nat (f - min e f))"

fun fzero :: "pyfloat \<Rightarrow> bool" where
  "fzero (FDec m e) = (m = 0)"
| "fzero _ = False"

text \<open>Python's two-argument \<open>max\<close> and \<open>min\<close> return the first argument unless the second beats it.\<close>

definition fmax :: "pyfloat \<Rightarrow> pyfloat \<Rightarrow> pyfloat" where
  "fmax a b = (if flt a b then b else a)"

definition fmin :: "pyfloat \<Rightarrow> pyfloat \<Rightarrow> pyfloat" where
  "fmin a b = (if flt b a then b else a)"

definition f0 :: pyfloat where "f0 = FDec 0 0"

definition f1 :: pyfloat where "f1 = FDec 1 0"

text \<open>\<open>max(0.0, min(1.0, c))\<close>, the clamp of every confidence.\<close>

definition clamp01 :: "pyfloat \<Rightarrow> pyfloat" where
  "clamp01 c = fmax f0 (fmin f1 c)"

definition unit_float :: "pyfloat \<Rightarrow> bool" where
  "unit_float c = (\<not> flt c f0 \<and> \<not> flt f1 c \<and> c \<noteq> FNaN)"

lemma flt_irrefl [simp]: "\<not> flt x x"
  by (cases x) auto

lemma flt_asym: "flt x y \<Longrightarrow> \<not> flt y x"
  by (cases x; cases y) (auto simp: min.commute)

lemma not_flt_f1_f0 [simp]: "\<not> flt f1 f0" "flt f0 f1"
  by (simp_all add: f0_def f1_def)

text \<open>The clamp lands in \<open>[0, 1]\<close> whatever it is given, a NaN included.\<close>

lemma clamp01_unit: "unit_float (clamp01 c)"
proof (cases c)
  case (FDec m e)
  show ?thesis
  proof (cases "flt c f1")
    case True
    then have "clamp01 c = (if flt f0 c then c else f0)"
      by (simp add: clamp01_def fmax_def fmin_def)
    moreover have "flt f0 c \<Longrightarrow> \<not> flt c f0 \<and> \<not> flt f1 c"
      using True flt_asym by blast
    ultimately show ?thesis
      using FDec by (auto simp: unit_float_def) (auto simp: f0_def f1_def)
  next
    case False
    then show ?thesis
      by (simp add: clamp01_def fmax_def fmin_def unit_float_def) (simp add: f0_def f1_def)
  qed
qed (simp_all add: clamp01_def fmax_def fmin_def unit_float_def f0_def f1_def)

section \<open>Values\<close>

datatype pyval =
    PNone
  | PBool bool
  | PInt int
  | PFloat pyfloat
  | PStr string
  | PList "pyval list"
  | PDict "(string \<times> pyval) list"

type_synonym pydict = "(string \<times> pyval) list"

fun truthy :: "pyval \<Rightarrow> bool" where
  "truthy PNone = False"
| "truthy (PBool b) = b"
| "truthy (PInt i) = (i \<noteq> 0)"
| "truthy (PFloat f) = (\<not> fzero f)"
| "truthy (PStr s) = (s \<noteq> [])"
| "truthy (PList xs) = (xs \<noteq> [])"
| "truthy (PDict d) = (d \<noteq> [])"

definition por :: "pyval \<Rightarrow> pyval \<Rightarrow> pyval" where
  "por a b = (if truthy a then a else b)"

text \<open>\<open>d.get(k)\<close> and \<open>d.get(k, default)\<close>.\<close>

definition pget :: "pydict \<Rightarrow> string \<Rightarrow> pyval" where
  "pget d k = (case map_of d k of None \<Rightarrow> PNone | Some v \<Rightarrow> v)"

definition pget_or :: "pydict \<Rightarrow> string \<Rightarrow> pyval \<Rightarrow> pyval" where
  "pget_or d k dflt = (case map_of d k of None \<Rightarrow> dflt | Some v \<Rightarrow> v)"

definition has_key :: "pydict \<Rightarrow> string \<Rightarrow> bool" where
  "has_key d k = (map_of d k \<noteq> None)"

definition is_pdict :: "pyval \<Rightarrow> bool" where
  "is_pdict v = (case v of PDict d \<Rightarrow> True | _ \<Rightarrow> False)"

text \<open>The class name, and \<open>v.get(k)\<close> on a value that need not be a dict.\<close>

fun type_name :: "pyval \<Rightarrow> string" where
  "type_name PNone = ''NoneType''"
| "type_name (PBool _) = ''bool''"
| "type_name (PInt _) = ''int''"
| "type_name (PFloat _) = ''float''"
| "type_name (PStr _) = ''str''"
| "type_name (PList _) = ''list''"
| "type_name (PDict _) = ''dict''"

definition no_attribute :: "pyval \<Rightarrow> string \<Rightarrow> 'a res" where
  "no_attribute v name = Inl (PyExn ''AttributeError''
     (CHR 0x27 # type_name v @ [CHR 0x27] @ '' object has no attribute '' @ CHR 0x27 # name @ [CHR 0x27]))"

definition as_dict :: "pyval \<Rightarrow> pydict res" where
  "as_dict v = (case v of PDict d \<Rightarrow> Inr d | _ \<Rightarrow> no_attribute v ''get'')"

lemma as_dict_PDict [simp]: "as_dict (PDict d) = Inr d"
  by (simp add: as_dict_def)

text \<open>\<open>v if isinstance(v, dict) else {}\<close>.\<close>

definition dict_or_empty :: "pyval \<Rightarrow> pydict" where
  "dict_or_empty v = (case v of PDict d \<Rightarrow> d | _ \<Rightarrow> [])"

text \<open>Iteration: over a list, the characters of a string or the keys of a dict.\<close>

definition py_iter :: "pyval \<Rightarrow> pyval list res" where
  "py_iter v = (case v of
     PList xs \<Rightarrow> Inr xs
   | PStr s \<Rightarrow> Inr (map (\<lambda>c. PStr [c]) s)
   | PDict d \<Rightarrow> Inr (map (\<lambda>p. PStr (fst p)) d)
   | _ \<Rightarrow> type_error (CHR 0x27 # type_name v @ [CHR 0x27] @ '' object is not iterable''))"

definition opt_str :: "string option \<Rightarrow> pyval" where
  "opt_str x = (case x of None \<Rightarrow> PNone | Some s \<Rightarrow> PStr s)"

lemma pget_dset [simp, dict_simps]: "pget (dset k v d) k' = (if k' = k then v else pget d k')"
  by (simp add: pget_def)

lemma pget_Nil [simp]: "pget [] k = PNone"
  by (simp add: pget_def)

lemma pget_Cons [simp]: "pget ((k, v) # d) k' = (if k' = k then v else pget d k')"
  by (simp add: pget_def)

lemma truthy_por: "truthy (por a b) \<longleftrightarrow> truthy a \<or> truthy b"
  by (simp add: por_def)

lemma por_PNone [simp]: "por PNone b = b" "por (PStr []) b = b"
  by (simp_all add: por_def)

section \<open>Text\<close>

definition hex_digit :: "nat \<Rightarrow> char" where
  "hex_digit n = (if n < 10 then digit_char n else char_of (87 + n))"

definition hex2 :: "nat \<Rightarrow> string" where
  "hex2 n = [hex_digit (n div 16), hex_digit (n mod 16)]"

text \<open>\<open>repr\<close> of a string: single quotes unless the text holds one and no double quote.\<close>

definition repr_char :: "char \<Rightarrow> char \<Rightarrow> string" where
  "repr_char q c = (let n = of_char c :: nat in
     if c = q \<or> c = CHR 0x5C then [CHR 0x5C, c]
     else if n = 10 then [CHR 0x5C, CHR ''n'']
     else if n = 13 then [CHR 0x5C, CHR ''r'']
     else if n = 9 then [CHR 0x5C, CHR ''t'']
     else if n < 32 \<or> (127 \<le> n \<and> n \<le> 160) \<or> n = 173 then CHR 0x5C # CHR ''x'' # hex2 n
     else [c])"

definition repr_str :: "string \<Rightarrow> string" where
  "repr_str s = (let q = (if CHR 0x27 \<in> set s \<and> CHR 0x22 \<notin> set s then CHR 0x22 else CHR 0x27)
     in q # concat (map (repr_char q) s) @ [q])"

function strip_zeros :: "nat \<Rightarrow> int \<Rightarrow> nat \<times> int" where
  "strip_zeros m e = (if m \<noteq> 0 \<and> m mod 10 = 0 then strip_zeros (m div 10) (e + 1) else (m, e))"
  by pat_completeness auto
termination
  by (relation "measure fst") auto

declare strip_zeros.simps [simp del]

text \<open>\<open>repr\<close> of a finite float: fixed notation for a decimal point in \<open>-3 .. 16\<close>, else scientific.\<close>

definition repr_dec :: "int \<Rightarrow> int \<Rightarrow> string" where
  "repr_dec m0 e0 = (if m0 = 0 then ''0.0'' else
     let (m, e) = strip_zeros (nat \<bar>m0\<bar>) e0; ds = nat_str m; n = int (length ds); p = n + e;
       body =
         (if - 4 < p \<and> p \<le> 16 then
            (if p \<le> 0 then ''0.'' @ replicate (nat (- p)) CHR ''0'' @ ds
             else if p < n then take (nat p) ds @ ''.'' @ drop (nat p) ds
             else ds @ replicate (nat (p - n)) CHR ''0'' @ ''.0'')
          else
            (let x = p - 1; mag = nat \<bar>x\<bar>; xs = (if mag < 10 then CHR ''0'' # nat_str mag else nat_str mag)
             in take 1 ds @ (if n > 1 then ''.'' @ drop 1 ds else []) @ ''e'' @
                (if x < 0 then ''-'' else ''+'') @ xs))
     in (if m0 < 0 then CHR ''-'' # body else body))"

fun repr_float :: "pyfloat \<Rightarrow> string" where
  "repr_float (FDec m e) = repr_dec m e"
| "repr_float FPosInf = ''inf''"
| "repr_float FNegInf = ''-inf''"
| "repr_float FNaN = ''nan''"

lemma size_pdict_item [termination_simp]:
  "p \<in> set d \<Longrightarrow> size (snd p) < Suc (size_list (size_prod (\<lambda>_. 0) size) d)"
  by (induction d) (auto simp: size_prod_def split: prod.splits)

fun py_repr :: "pyval \<Rightarrow> string" where
  "py_repr PNone = ''None''"
| "py_repr (PBool b) = (if b then ''True'' else ''False'')"
| "py_repr (PInt i) = int_str i"
| "py_repr (PFloat f) = repr_float f"
| "py_repr (PStr s) = repr_str s"
| "py_repr (PList xs) = ''['' @ str_join '', '' (map py_repr xs) @ '']''"
| "py_repr (PDict d) =
     ''{'' @ str_join '', '' (map (\<lambda>p. repr_str (fst p) @ '': '' @ py_repr (snd p)) d) @ ''}''"

definition py_str :: "pyval \<Rightarrow> string" where
  "py_str v = (case v of PStr s \<Rightarrow> s | _ \<Rightarrow> py_repr v)"

lemma py_str_PStr [simp]: "py_str (PStr s) = s"
  by (simp add: py_str_def)

text \<open>\<open>json.dumps\<close> with \<open>ensure_ascii\<close>, either separator style, keys sorted on request.\<close>

definition json_char :: "char \<Rightarrow> string" where
  "json_char c = (let n = of_char c :: nat in
     if n = 34 \<or> n = 92 then [CHR 0x5C, c]
     else if n = 10 then [CHR 0x5C, CHR ''n'']
     else if n = 13 then [CHR 0x5C, CHR ''r'']
     else if n = 9 then [CHR 0x5C, CHR ''t'']
     else if n = 8 then [CHR 0x5C, CHR ''b'']
     else if n = 12 then [CHR 0x5C, CHR ''f'']
     else if n < 32 \<or> 126 < n then CHR 0x5C # ''u00'' @ hex2 n
     else [c])"

definition json_str :: "string \<Rightarrow> string" where
  "json_str s = CHR 0x22 # concat (map json_char s) @ [CHR 0x22]"

fun json_float :: "pyfloat \<Rightarrow> string" where
  "json_float (FDec m e) = repr_dec m e"
| "json_float FPosInf = ''Infinity''"
| "json_float FNegInf = ''-Infinity''"
| "json_float FNaN = ''NaN''"

datatype json_style = JsonStyle (item_sep: string) (key_sep: string) (sort_keys: bool)

definition json_default :: json_style where
  "json_default = JsonStyle '', '' '': '' False"

definition json_sorted :: json_style where
  "json_sorted = JsonStyle '', '' '': '' True"

definition json_compact :: json_style where
  "json_compact = JsonStyle '','' '':'' False"

fun json_dumps :: "json_style \<Rightarrow> pyval \<Rightarrow> string" where
  "json_dumps st PNone = ''null''"
| "json_dumps st (PBool b) = (if b then ''true'' else ''false'')"
| "json_dumps st (PInt i) = int_str i"
| "json_dumps st (PFloat f) = json_float f"
| "json_dumps st (PStr s) = json_str s"
| "json_dumps st (PList xs) = ''['' @ str_join (item_sep st) (map (json_dumps st) xs) @ '']''"
| "json_dumps st (PDict d) =
     (let items = map (\<lambda>p. (fst p, json_str (fst p) @ key_sep st @ json_dumps st (snd p))) d
      in ''{'' @ str_join (item_sep st)
           (map snd (if sort_keys st then sort_key fst items else items)) @ ''}'')"

section \<open>Conversions\<close>

definition trunc_dec :: "int \<Rightarrow> int \<Rightarrow> int" where
  "trunc_dec m e = (if e \<ge> 0 then m * 10 ^ nat e else sgn m * (\<bar>m\<bar> div 10 ^ nat (- e)))"

fun py_int :: "pyval \<Rightarrow> int res" where
  "py_int (PInt i) = Inr i"
| "py_int (PBool b) = Inr (if b then 1 else 0)"
| "py_int (PFloat (FDec m e)) = Inr (trunc_dec m e)"
| "py_int (PFloat FNaN) = value_error ''cannot convert float NaN to integer''"
| "py_int (PFloat _) = Inl (PyExn ''OverflowError'' ''cannot convert float infinity to integer'')"
| "py_int (PStr s) = (case parse_int s of
     None \<Rightarrow> value_error (''invalid literal for int() with base 10: '' @ repr_str s)
   | Some i \<Rightarrow> Inr i)"
| "py_int _ = type_error ''int() argument must be a string, a bytes-like object or a real number''"

text \<open>
  \<open>float(text)\<close> for decimal literals, infinities and NaN. The decimal is kept as written:
  rounding to the nearest double is left out.
\<close>

definition parse_dec :: "string \<Rightarrow> pyfloat option" where
  "parse_dec s = (let (mant, expo) = split_once CHR ''e'' s; (ip, fp) = split_once CHR ''.'' mant;
       frac = (case fp of None \<Rightarrow> [] | Some f \<Rightarrow> f);
       ok = (\<lambda>t. t = [] \<or> drop_underscores t \<noteq> None);
       clean = (\<lambda>t. case drop_underscores t of None \<Rightarrow> [] | Some u \<Rightarrow> u)
     in if \<not> ok ip \<or> \<not> ok frac \<or> (ip = [] \<and> frac = []) then None
        else let ds = clean ip @ clean frac; m = int (digits_val ds); sh = - int (length (clean frac))
          in (case expo of
               None \<Rightarrow> Some (FDec m sh)
             | Some x \<Rightarrow> (case x of
                 [] \<Rightarrow> None
               | c # t \<Rightarrow>
                   map_option (\<lambda>k. FDec m (sh + k))
                     (if c = CHR ''-'' then map_option (\<lambda>n. - int n) (parse_nat t)
                      else if c = CHR ''+'' then map_option int (parse_nat t)
                      else map_option int (parse_nat x)))))"

fun fneg :: "pyfloat \<Rightarrow> pyfloat" where
  "fneg (FDec m e) = FDec (- m) e"
| "fneg FPosInf = FNegInf"
| "fneg FNegInf = FPosInf"
| "fneg FNaN = FNaN"

definition parse_float :: "string \<Rightarrow> pyfloat option" where
  "parse_float s = (let t = str_lower (str_strip s);
       (neg, u) = (case t of [] \<Rightarrow> (False, []) | c # v \<Rightarrow>
          (if c = CHR ''-'' then (True, v) else if c = CHR ''+'' then (False, v) else (False, t)));
       r = (if u = ''nan'' then Some FNaN
            else if u = ''inf'' \<or> u = ''infinity'' then Some FPosInf
            else parse_dec u)
     in if neg then map_option fneg r else r)"

fun py_float :: "pyval \<Rightarrow> pyfloat res" where
  "py_float (PFloat f) = Inr f"
| "py_float (PInt i) = Inr (FDec i 0)"
| "py_float (PBool b) = Inr (if b then f1 else f0)"
| "py_float (PStr s) = (case parse_float s of
     None \<Rightarrow> value_error (''could not convert string to float: '' @ repr_str s)
   | Some f \<Rightarrow> Inr f)"
| "py_float _ = type_error ''float() argument must be a string or a real number''"

end
