(* ===== verification/Py_Time.thy ===== *)
theory Py_Time
  imports Py_Value
begin

text \<open>
  Instants and ISO 8601 text. A \<open>datetime\<close> is its local time in microseconds since
  1970-01-01T00:00 and its UTC offset in seconds, \<open>None\<close> for a naive value. The calendar
  is \<open>datetime\<close>'s own: proleptic Gregorian ordinals, years 1 to 9999. \<open>from_iso\<close> reads the
  extended forms of Python 3.11's \<open>fromisoformat\<close>; its compact forms (\<open>20240131T0102\<close>), its
  week dates and an hour of 24 are refused here.
\<close>

section \<open>The calendar\<close>

definition leap_year :: "int \<Rightarrow> bool" where
  "leap_year y = (y mod 4 = 0 \<and> (y mod 100 \<noteq> 0 \<or> y mod 400 = 0))"

definition month_lengths :: "bool \<Rightarrow> nat list" where
  "month_lengths leap = [31, if leap then 29 else 28, 31, 30, 31, 30, 31, 31, 30, 31, 30, 31]"

definition days_before_year :: "int \<Rightarrow> int" where
  "days_before_year y = (let z = y - 1 in z * 365 + z div 4 - z div 100 + z div 400)"

definition ord_of_ymd :: "int \<Rightarrow> nat \<Rightarrow> nat \<Rightarrow> int" where
  "ord_of_ymd y m d =
     days_before_year y + int (sum_list (take (m - 1) (month_lengths (leap_year y)))) + int d"

fun month_day :: "nat list \<Rightarrow> nat \<Rightarrow> nat \<Rightarrow> nat \<times> nat" where
  "month_day [] m n = (m, n + 1)"
| "month_day (l # ls) m n = (if n < l then (m, n + 1) else month_day ls (m + 1) (n - l))"

definition ymd_of_ord :: "int \<Rightarrow> int \<times> nat \<times> nat" where
  "ymd_of_ord n0 =
     (let n = n0 - 1; a = n div 146097; n = n mod 146097; b = n div 36524; n = n mod 36524;
        c = n div 1461; n = n mod 1461; d = n div 365; n = n mod 365;
        y = 400 * a + 100 * b + 4 * c + d + 1
      in if d = 4 \<or> b = 4 then (y - 1, 12, 31)
         else (y, month_day (month_lengths (leap_year y)) 1 (nat n)))"

definition valid_ymd :: "int \<Rightarrow> nat \<Rightarrow> nat \<Rightarrow> bool" where
  "valid_ymd y m d = (1 \<le> y \<and> y \<le> 9999 \<and> 1 \<le> m \<and> m \<le> 12 \<and> 1 \<le> d \<and>
     d \<le> month_lengths (leap_year y) ! (m - 1))"

lemma month_day_spec:
  "n < sum_list ls \<Longrightarrow> month_day ls m n = (m', d) \<Longrightarrow>
     m \<le> m' \<and> m' < m + length ls \<and> 1 \<le> d \<and> d \<le> ls ! (m' - m) \<and>
     sum_list (take (m' - m) ls) + d = n + 1"
proof (induction ls m n rule: month_day.induct)
  case (2 l ls m n)
  show ?case
  proof (cases "n < l")
    case True
    with 2 show ?thesis by auto
  next
    case False
    with 2 have *: "m + 1 \<le> m' \<and> m' < m + 1 + length ls \<and> 1 \<le> d \<and> d \<le> ls ! (m' - (m + 1)) \<and>
        sum_list (take (m' - (m + 1)) ls) + d = n - l + 1"
      by auto
    then obtain k where "m' = m + Suc k" by (metis add_Suc_right add.commute le_Suc_ex plus_1_eq_Suc add.assoc)
    with * False show ?thesis by auto
  qed
qed auto

lemma month_lengths_sum: "sum_list (month_lengths leap) = (if leap then 366 else 365)"
  by (simp add: month_lengths_def)

lemma length_month_lengths [simp]: "length (month_lengths leap) = 12"
  by (simp add: month_lengths_def)

lemma div_unique_int: "(0::int) \<le> r \<Longrightarrow> r < k \<Longrightarrow> (x * k + r) div k = x"
  by simp

lemma days_before_year_parts:
  assumes "0 \<le> b" "b < 4" "0 \<le> c" "c < 25" "0 \<le> d" "d < 4"
  shows "days_before_year (400 * a + 100 * b + 4 * c + d + 1) =
           146097 * a + 36524 * b + 1461 * c + 365 * d"
proof -
  let ?z = "400 * a + 100 * b + 4 * c + d"
  have "?z = (100 * a + 25 * b + c) * 4 + d" by simp
  then have 4: "?z div 4 = 100 * a + 25 * b + c" using assms by (simp only: div_unique_int)
  have "?z = (4 * a + b) * 100 + (4 * c + d)" by simp
  then have 100: "?z div 100 = 4 * a + b" using assms by (simp only: div_unique_int)
  have "?z = a * 400 + (100 * b + 4 * c + d)" by simp
  then have 400: "?z div 400 = a" using assms by (simp only: div_unique_int)
  show ?thesis using 4 100 400 by (simp add: days_before_year_def Let_def)
qed

lemma leap_year_parts:
  assumes "0 \<le> b" "b < 4" "0 \<le> c" "c < 25" "0 \<le> d" "d < 4"
  shows "leap_year (400 * a + 100 * b + 4 * c + d + 1) \<longleftrightarrow> d = 3 \<and> (c \<noteq> 24 \<or> b = 3)"
proof -
  let ?y = "400 * a + 100 * b + 4 * c + d + 1"
  have "?y = (100 * a + 25 * b + c) * 4 + (d + 1)" by simp
  then have 4: "?y mod 4 = (d + 1) mod 4" by (metis mod_mult_self3)
  have "?y = (4 * a + b) * 100 + (4 * c + d + 1)" by simp
  then have 100: "?y mod 100 = (4 * c + d + 1) mod 100" by (metis mod_mult_self3)
  have "?y = a * 400 + (100 * b + 4 * c + d + 1)" by simp
  then have 400: "?y mod 400 = (100 * b + 4 * c + d + 1) mod 400" by (metis mod_mult_self3)
  have zero: "0 < x \<Longrightarrow> x \<le> k \<Longrightarrow> x mod k = 0 \<longleftrightarrow> x = k" for x k :: int
    by (metis mod_pos_pos_trivial mod_self order_le_less order_less_imp_not_less)
  have "?y mod 4 = 0 \<longleftrightarrow> d + 1 = 4" unfolding 4 using assms by (intro zero) auto
  moreover have "?y mod 100 = 0 \<longleftrightarrow> 4 * c + d + 1 = 100"
    unfolding 100 using assms by (intro zero) auto
  moreover have "?y mod 400 = 0 \<longleftrightarrow> 100 * b + 4 * c + d + 1 = 400"
    unfolding 400 using assms by (intro zero) auto
  moreover have "4 * c + d + 1 = 100 \<longleftrightarrow> c = 24 \<and> d = 3" using assms by presburger
  moreover have "100 * b + 4 * c + d + 1 = 400 \<longleftrightarrow> b = 3 \<and> c = 24 \<and> d = 3" using assms by linarith
  ultimately show ?thesis by (auto simp: leap_year_def)
qed

text \<open>The parts of an ordinal, and the two ends of a four-year or four-century cycle.\<close>

lemma ymd_of_ord_inverse:
  assumes "ymd_of_ord n = (y, m, d)"
  shows "ord_of_ymd y m d = n"
    and "1 \<le> m \<and> m \<le> 12 \<and> 1 \<le> d \<and> d \<le> month_lengths (leap_year y) ! (m - 1)"
    and "1 \<le> n \<Longrightarrow> n \<le> 3652059 \<Longrightarrow> 1 \<le> y \<and> y \<le> 9999"
proof -
  define a where "a = (n - 1) div 146097"
  define r1 where "r1 = (n - 1) mod 146097"
  define b where "b = r1 div 36524"
  define r2 where "r2 = r1 mod 36524"
  define c where "c = r2 div 1461"
  define r3 where "r3 = r2 mod 1461"
  define e where "e = r3 div 365"
  define r4 where "r4 = r3 mod 365"
  let ?y = "400 * a + 100 * b + 4 * c + e + 1"
  have q0: "n - 1 = 146097 * a + r1" by (simp add: a_def r1_def)
  have q1: "r1 = 36524 * b + r2" by (simp add: b_def r2_def)
  have q2: "r2 = 1461 * c + r3" by (simp add: c_def r3_def)
  have q3: "r3 = 365 * e + r4" by (simp add: e_def r4_def)
  have n: "n = 146097 * a + 36524 * b + 1461 * c + 365 * e + r4 + 1"
    using q0 q1 q2 q3 by linarith
  have r1: "0 \<le> r1" "r1 < 146097" by (simp_all add: r1_def)
  have r2: "0 \<le> r2" "r2 < 36524" by (simp_all add: r2_def)
  have r3: "0 \<le> r3" "r3 < 1461" by (simp_all add: r3_def)
  have r4: "0 \<le> r4" "r4 < 365" by (simp_all add: r4_def)
  have b: "0 \<le> b" "b \<le> 4" using r1 r2 q1 by linarith+
  have c: "0 \<le> c" "c \<le> 24" using r2 r3 q2 by linarith+
  have e: "0 \<le> e" "e \<le> 4" using r3 r4 q3 by linarith+
  have b4: "r2 = 0" if "b = 4" using r1 r2 q1 that by linarith
  have e4: "r4 = 0" if "e = 4" using r3 r4 q3 that by linarith
  have zero: "c = 0 \<and> e = 0 \<and> r4 = 0" if "b = 4"
    using b4 [OF that] by (simp add: c_def e_def r3_def r4_def)
  have c24: "c < 24" if "e = 4"
    using e4 [OF that] q3 q2 r2 c that by linarith
  have ymd: "(y, m, d) = (if e = 4 \<or> b = 4 then (?y - 1, 12, 31)
     else (?y, month_day (month_lengths (leap_year ?y)) 1 (nat r4)))"
    unfolding assms [symmetric] ymd_of_ord_def Let_def a_def b_def c_def e_def r4_def r3_def
      r2_def r1_def ..
  show "1 \<le> y \<and> y \<le> 9999" if "1 \<le> n" "n \<le> 3652059"
  proof -
    have a: "0 \<le> a" "a \<le> 24" using q0 r1 that by linarith+
    have "y = ?y \<or> y = ?y - 1 \<and> (e = 4 \<or> b = 4)" using ymd by (auto split: if_splits)
    moreover have "1 \<le> ?y - 1" if "e = 4 \<or> b = 4" using a b c e that by auto
    moreover have "?y \<le> 9999"
    proof (cases "a = 24")
      case True
      then have "r1 \<le> 145730" using q0 that by simp
      then have "b < 3 \<or> b = 3 \<and> r2 \<le> 36158" using q1 r2 b by linarith
      moreover have "c < 24 \<or> c = 24 \<and> r3 \<le> 1094" if "r2 \<le> 36158" using that q2 r3 c by linarith
      moreover have "e \<le> 2" if "r3 \<le> 1094" using that q3 r4 e by linarith
      moreover have "e \<le> 3" if "c = 24" using that c24 e by force
      ultimately show ?thesis using True b c e by auto
    next
      case False
      then have "a \<le> 23" using a by simp
      then show ?thesis using b c e by linarith
    qed
    ultimately show ?thesis using a b c e by auto
  qed
  show "ord_of_ymd y m d = n"
    and "1 \<le> m \<and> m \<le> 12 \<and> 1 \<le> d \<and> d \<le> month_lengths (leap_year y) ! (m - 1)"
  proof (atomize (full), cases "e = 4 \<or> b = 4")
    case True
    obtain b' c' where y: "?y - 1 = 400 * a + 100 * b' + 4 * c' + 3 + 1"
      and b': "0 \<le> b'" "b' < 4" and c': "0 \<le> c'" "c' < 25" and l: "c' \<noteq> 24 \<or> b' = 3"
      and n': "n = 146097 * a + 36524 * b' + 1461 * c' + 365 * 3 + 366"
    proof (cases "b = 4")
      case True
      then show ?thesis using that [of 3 24] zero n by simp
    next
      case False
      then have "e = 4" using True by simp
      with False show ?thesis using that [of b c] b c c24 e4 n by simp
    qed
    have "leap_year (?y - 1)" unfolding y using leap_year_parts [OF b' c', of 3 a] l by simp
    moreover have "days_before_year (?y - 1) = n - 366"
      unfolding y using days_before_year_parts [OF b' c', of 3 a] n' by simp
    ultimately show "ord_of_ymd y m d = n \<and>
        (1 \<le> m \<and> m \<le> 12 \<and> 1 \<le> d \<and> d \<le> month_lengths (leap_year y) ! (m - 1))"
      using True ymd by (simp add: ord_of_ymd_def month_lengths_def)
  next
    case False
    let ?l = "month_lengths (leap_year ?y)"
    have y: "y = ?y" and md: "month_day ?l 1 (nat r4) = (m, d)" using False ymd by auto
    have "nat r4 < sum_list ?l" using r4 by (auto simp: month_lengths_sum nat_less_iff)
    from month_day_spec [OF this md]
    have *: "1 \<le> m \<and> m < 13 \<and> 1 \<le> d \<and> d \<le> ?l ! (m - 1) \<and>
        sum_list (take (m - 1) ?l) + d = nat r4 + 1" by simp
    have "days_before_year ?y = n - r4 - 1"
      using days_before_year_parts [of b c e a] False b c e n by simp
    then have "ord_of_ymd y m d = n - r4 - 1 + int (sum_list (take (m - 1) ?l) + d)"
      by (simp add: ord_of_ymd_def y)
    also have "\<dots> = n" using * r4 by simp
    finally show "ord_of_ymd y m d = n \<and>
        (1 \<le> m \<and> m \<le> 12 \<and> 1 \<le> d \<and> d \<le> month_lengths (leap_year y) ! (m - 1))"
      using * y by auto
  qed
qed

section \<open>Datetimes\<close>

datatype datetime = DT (local_us: int) (tz_off: "int option")

definition us_per_day :: int where "us_per_day = 86400000000"

definition epoch_ord :: int where "epoch_ord = 719163"

definition seconds :: "int \<Rightarrow> int" where "seconds n = n * 1000000"

text \<open>An aware datetime as an instant in UTC; \<open>utc\<close> is the aware UTC datetime of an instant.\<close>

definition instant :: "datetime \<Rightarrow> int" where
  "instant t = local_us t - seconds (case tz_off t of None \<Rightarrow> 0 | Some o' \<Rightarrow> o')"

definition utc :: "int \<Rightarrow> datetime" where
  "utc us = DT us (Some 0)"

definition as_utc :: "datetime \<Rightarrow> datetime" where
  "as_utc t = (case tz_off t of None \<Rightarrow> DT (local_us t) (Some 0) | Some o' \<Rightarrow> t)"

text \<open>\<open>t.astimezone(timezone.utc)\<close> on an aware value.\<close>

definition to_utc :: "datetime \<Rightarrow> datetime" where
  "to_utc t = utc (instant t)"

lemma instant_utc [simp]: "instant (utc us) = us"
  by (simp add: instant_def utc_def seconds_def)

lemma as_utc_utc [simp]: "as_utc (utc us) = utc us"
  by (simp add: as_utc_def utc_def)

lemma instant_to_utc [simp]: "instant (to_utc t) = instant t"
  by (simp add: to_utc_def)

definition valid_datetime :: "datetime \<Rightarrow> bool" where
  "valid_datetime t =
     (let d = local_us t div us_per_day + epoch_ord in 1 \<le> d \<and> d \<le> 3652059 \<and>
       (case tz_off t of None \<Rightarrow> True | Some o' \<Rightarrow> \<bar>o'\<bar> < 86400))"

section \<open>ISO 8601\<close>

definition iso_date :: "int \<Rightarrow> string" where
  "iso_date d = (case ymd_of_ord (d + epoch_ord) of (y, m, dd) \<Rightarrow>
     pad_nat 4 (nat y) @ ''-'' @ pad_nat 2 m @ ''-'' @ pad_nat 2 dd)"

definition iso_time :: "int \<Rightarrow> string" where
  "iso_time us = (let s = us div 1000000; f = us mod 1000000 in
     pad_nat 2 (nat (s div 3600)) @ '':'' @ pad_nat 2 (nat (s div 60 mod 60)) @ '':'' @ pad_nat 2 (nat (s mod 60)) @
     (if f = 0 then [] else ''.'' @ pad_nat 6 (nat f)))"

definition iso_offset :: "int option \<Rightarrow> string" where
  "iso_offset o' = (case o' of None \<Rightarrow> [] | Some k \<Rightarrow> (let s = \<bar>k\<bar> in
     (if k < 0 then ''-'' else ''+'') @ pad_nat 2 (nat (s div 3600)) @ '':'' @ pad_nat 2 (nat (s div 60 mod 60)) @
     (if s mod 60 = 0 then [] else '':'' @ pad_nat 2 (nat (s mod 60)))))"

definition isoformat :: "datetime \<Rightarrow> string" where
  "isoformat t = iso_date (local_us t div us_per_day) @ ''T'' @
     iso_time (local_us t mod us_per_day) @ iso_offset (tz_off t)"

text \<open>A run of exactly \<open>k\<close> digits at the front, then the rest.\<close>

definition take_num :: "nat \<Rightarrow> string \<Rightarrow> (nat \<times> string) option" where
  "take_num k s = (if k \<le> length s \<and> list_all is_digit (take k s)
     then Some (digits_val (take k s), drop k s) else None)"

definition eat :: "char \<Rightarrow> string \<Rightarrow> string option" where
  "eat c s = (case s of [] \<Rightarrow> None | x # t \<Rightarrow> if x = c then Some t else None)"

definition parse_date :: "string \<Rightarrow> (int \<times> string) option" where
  "parse_date s =
     Option.bind (take_num 4 s) (\<lambda>(y, s). Option.bind (eat CHR ''-'' s) (\<lambda>s.
     Option.bind (take_num 2 s) (\<lambda>(m, s). Option.bind (eat CHR ''-'' s) (\<lambda>s.
     Option.bind (take_num 2 s) (\<lambda>(d, s).
       if valid_ymd (int y) m d then Some (ord_of_ymd (int y) m d - epoch_ord, s) else None)))))"

definition parse_frac :: "string \<Rightarrow> int option" where
  "parse_frac s = (if s = [] then Some 0
     else (case s of c # t \<Rightarrow>
       if (c = CHR ''.'' \<or> c = CHR '','') \<and> all_digits t
       then Some (int (digits_val (take 6 t)) * 10 ^ (6 - length t)) else None | [] \<Rightarrow> None))"

text \<open>\<open>HH[:MM[:SS[.ffffff]]]\<close>, in microseconds.\<close>

definition parse_clock :: "string \<Rightarrow> int option" where
  "parse_clock s = Option.bind (take_num 2 s) (\<lambda>(h, s).
     if 24 \<le> h then None else if s = [] then Some (int h * 3600000000)
     else Option.bind (eat CHR '':'' s) (\<lambda>s. Option.bind (take_num 2 s) (\<lambda>(m, s).
       if 60 \<le> m then None else if s = [] then Some (int h * 3600000000 + int m * 60000000)
       else Option.bind (eat CHR '':'' s) (\<lambda>s. Option.bind (take_num 2 s) (\<lambda>(sec, s).
         if 60 \<le> sec then None
         else map_option (\<lambda>f. int h * 3600000000 + int m * 60000000 + int sec * 1000000 + f) (parse_frac s))))))"

definition parse_offset :: "string \<Rightarrow> int option option" where
  "parse_offset s = (case s of [] \<Rightarrow> Some None
   | c # t \<Rightarrow>
       if c = CHR ''Z'' then (if t = [] then Some (Some 0) else None)
       else Option.bind (parse_clock t) (\<lambda>us.
         if us mod 1000000 \<noteq> 0 then None
         else Some (Some (if c = CHR ''-'' then - (us div 1000000) else us div 1000000))))"

definition is_tz_start :: "char \<Rightarrow> bool" where
  "is_tz_start c = (c = CHR ''+'' \<or> c = CHR ''-'' \<or> c = CHR ''Z'')"

definition from_iso :: "string \<Rightarrow> datetime option" where
  "from_iso s = Option.bind (parse_date s) (\<lambda>(d, s).
     (case s of [] \<Rightarrow> Some (DT (d * us_per_day) None)
      | _ # t \<Rightarrow>
          Option.bind (parse_clock (takeWhile (\<lambda>c. \<not> is_tz_start c) t)) (\<lambda>us.
          Option.bind (parse_offset (dropWhile (\<lambda>c. \<not> is_tz_start c) t)) (\<lambda>o'.
            Some (DT (d * us_per_day + us) o')))))"

subsection \<open>Reading back what \<open>isoformat\<close> wrote\<close>

lemma take_num_pad [simp]: "n < 10 ^ k \<Longrightarrow> take_num k (pad_nat k n @ s) = Some (n, s)"
  by (simp add: take_num_def pad_nat_digits digits_val_pad_nat)

lemma take_num_pad2 [simp]: "n < 100 \<Longrightarrow> take_num 2 (pad_nat 2 n @ s) = Some (n, s)"
  by (rule take_num_pad) simp

lemma take_num_pad4 [simp]: "n < 10000 \<Longrightarrow> take_num 4 (pad_nat 4 n @ s) = Some (n, s)"
  by (rule take_num_pad) simp

lemma eat_Cons [simp]: "eat c (c # s) = Some s"
  by (simp add: eat_def)

lemma parse_date_iso_date:
  assumes "1 \<le> d + epoch_ord" "d + epoch_ord \<le> 3652059"
  shows "parse_date (iso_date d @ s) = Some (d, s)"
proof -
  obtain y m dd where ymd: "ymd_of_ord (d + epoch_ord) = (y, m, dd)" by (cases "ymd_of_ord (d + epoch_ord)")
  note inv = ymd_of_ord_inverse [OF ymd]
  have "\<forall>l\<in>set (month_lengths (leap_year y)). l \<le> 31" by (auto simp: month_lengths_def)
  moreover have "month_lengths (leap_year y) ! (m - 1) \<in> set (month_lengths (leap_year y))"
    using inv(2) by (intro nth_mem) auto
  ultimately have "month_lengths (leap_year y) ! (m - 1) \<le> 31" by blast
  then have "valid_ymd y m dd" "nat y < 10000" "m < 100" "dd < 100" "0 \<le> y"
    using inv(2) inv(3) [OF assms] by (auto simp: valid_ymd_def)
  then show ?thesis by (simp add: iso_date_def ymd parse_date_def inv(1))
qed

lemma pad_nat_no_tz: "c \<in> set (pad_nat k n) \<Longrightarrow> \<not> is_tz_start c"
  using pad_nat_digits [of k n] by (auto simp: list_all_iff is_tz_start_def is_digit_def)

lemma iso_time_no_tz: "c \<in> set (iso_time us) \<Longrightarrow> \<not> is_tz_start c"
  by (auto simp: iso_time_def Let_def dest: pad_nat_no_tz split: if_splits)
    (auto simp: is_tz_start_def)

lemma parse_frac_pad:
  "0 \<le> f \<Longrightarrow> f < 1000000 \<Longrightarrow> parse_frac (if f = 0 then [] else CHR ''.'' # pad_nat 6 (nat f)) = Some f"
proof (cases "f = 0")
  case False
  assume f: "0 \<le> f" "f < 1000000"
  have "pad_nat 6 (nat f) \<noteq> []" by (metis length_pad_nat list.size(3) zero_neq_numeral)
  with f False show ?thesis
    using pad_nat_digits [of 6 "nat f"] digits_val_pad_nat [of "nat f" 6]
    by (simp add: parse_frac_def all_digits_def)
qed (simp add: parse_frac_def)

lemma parse_clock_parts:
  assumes "a < 24" "b < 60" "c < 60" "0 \<le> f" "f < 1000000"
  shows "parse_clock (pad_nat 2 a @ CHR '':'' # pad_nat 2 b @ CHR '':'' # pad_nat 2 c @
           (if f = 0 then [] else CHR ''.'' # pad_nat 6 (nat f))) =
         Some (int a * 3600000000 + int b * 60000000 + int c * 1000000 + f)"
  using assms by (simp only: parse_clock_def take_num_pad2 less_trans) (simp add: parse_frac_pad)

lemma parse_clock_offset:
  assumes "a < 24" "b < 60" "c < 60"
  shows "parse_clock (pad_nat 2 a @ CHR '':'' # pad_nat 2 b @
           (if c = 0 then [] else CHR '':'' # pad_nat 2 c)) =
         Some (int a * 3600000000 + int b * 60000000 + int c * 1000000)"
proof -
  have "take_num 2 (pad_nat 2 b) = Some (b, [])" "take_num 2 (pad_nat 2 c) = Some (c, [])"
    using assms take_num_pad2 [of b "[]"] take_num_pad2 [of c "[]"] by simp_all
  then show ?thesis using assms by (simp add: parse_clock_def parse_frac_def)
qed

lemma hms_sum:
  "s div 3600 * 3600 + s div 60 mod 60 * 60 + s mod 60 = (s :: int)"
proof -
  have "s div 3600 = s div 60 div 60" by (simp add: zdiv_zmult2_eq [symmetric])
  moreover have "s = s div 60 * 60 + s mod 60" by simp
  moreover have "s div 60 = s div 60 div 60 * 60 + s div 60 mod 60" by simp
  ultimately show ?thesis by linarith
qed

lemma int_nat_hms:
  assumes "0 \<le> (s :: int)"
  shows "int (nat (s div 3600)) = s div 3600" "int (nat (s div 60 mod 60)) = s div 60 mod 60"
    "int (nat (s mod 60)) = s mod 60"
  using assms by (simp_all add: pos_imp_zdiv_nonneg_iff)

lemma hms_us: "a * 3600000000 + b * 60000000 + c * 1000000 = (a * 3600 + b * 60 + c) * (1000000 :: int)"
  by simp

lemma parse_clock_iso_time:
  assumes "0 \<le> us" "us < 86400000000"
  shows "parse_clock (iso_time us) = Some us"
proof -
  let ?s = "us div 1000000" and ?f = "us mod 1000000"
  have s: "0 \<le> ?s" "?s < 86400" using assms by auto
  then have h: "nat (?s div 3600) < 24" by auto
  have m: "nat (x mod 60) < 60" for x :: int by simp
  have f: "0 \<le> ?f" "?f < 1000000" by simp_all
  have sum: "int (nat (?s div 3600)) * 3600000000 + int (nat (?s div 60 mod 60)) * 60000000 +
      int (nat (?s mod 60)) * 1000000 + ?f = us"
    unfolding int_nat_hms [OF s(1)] hms_us hms_sum by simp
  have eq: "iso_time us = pad_nat 2 (nat (?s div 3600)) @ CHR '':'' # pad_nat 2 (nat (?s div 60 mod 60)) @
      CHR '':'' # pad_nat 2 (nat (?s mod 60)) @ (if ?f = 0 then [] else CHR ''.'' # pad_nat 6 (nat ?f))"
    by (simp add: iso_time_def Let_def)
  show ?thesis unfolding eq parse_clock_parts [OF h m m f] sum ..
qed

lemma parse_offset_iso_offset:
  assumes "case o' of None \<Rightarrow> True | Some k \<Rightarrow> \<bar>k\<bar> < 86400"
  shows "parse_offset (iso_offset o') = Some o'"
proof (cases o')
  case None
  then show ?thesis by (simp add: parse_offset_def iso_offset_def)
next
  case (Some k)
  define s where "s = \<bar>k\<bar>"
  have k: "k = (if k < 0 then - s else s)" by (simp add: s_def)
  have s: "0 \<le> s" "s < 86400" using assms Some by (simp_all add: s_def)
  then have h: "nat (s div 3600) < 24" by auto
  have m: "nat (x mod 60) < 60" for x :: int by simp
  have sum: "int (nat (s div 3600)) * 3600000000 + int (nat (s div 60 mod 60)) * 60000000 +
      int (nat (s mod 60)) * 1000000 = s * 1000000"
    unfolding int_nat_hms [OF s(1)] hms_us hms_sum by simp
  have z: "s mod 60 = 0 \<longleftrightarrow> nat (s mod 60) = 0"
    using s(1) pos_mod_sign [of 60 s] by linarith
  have eq: "iso_offset o' = (if k < 0 then CHR ''-'' else CHR ''+'') # pad_nat 2 (nat (s div 3600)) @
      CHR '':'' # pad_nat 2 (nat (s div 60 mod 60)) @ (if nat (s mod 60) = 0 then [] else CHR '':'' # pad_nat 2 (nat (s mod 60)))"
    unfolding z [symmetric] by (simp add: iso_offset_def Some Let_def flip: s_def)
  have "parse_offset (iso_offset o') = Some (Some (if k < 0 then - s else s))"
    unfolding eq parse_offset_def list.case parse_clock_offset [OF h m m] sum by simp
  with k Some show ?thesis by simp
qed

text \<open>
  The round trip every stored timestamp relies on: reading what \<open>isoformat\<close> wrote gives
  the datetime back, offset included.
\<close>

theorem from_iso_isoformat:
  assumes "valid_datetime t"
  shows "from_iso (isoformat t) = Some t"
proof -
  let ?d = "local_us t div us_per_day" and ?r = "local_us t mod us_per_day"
  have d: "1 \<le> ?d + epoch_ord" "?d + epoch_ord \<le> 3652059"
    and off: "case tz_off t of None \<Rightarrow> True | Some k \<Rightarrow> \<bar>k\<bar> < 86400"
    using assms by (auto simp: valid_datetime_def Let_def)
  have r: "0 \<le> ?r" "?r < 86400000000" by (simp_all add: us_per_day_def)
  then have clock: "parse_clock (iso_time ?r) = Some ?r"
    by (rule parse_clock_iso_time)
  let ?i = "iso_time ?r" and ?o = "iso_offset (tz_off t)"
  have o: "?o = [] \<or> is_tz_start (hd ?o)"
    by (auto simp: iso_offset_def is_tz_start_def Let_def split: option.splits)
  have "takeWhile (\<lambda>c. \<not> is_tz_start c) (?i @ ?o) = ?i"
    using o by (subst takeWhile_append2) (auto dest: iso_time_no_tz simp: takeWhile_eq_Nil_iff)
  moreover have "dropWhile (\<lambda>c. \<not> is_tz_start c) (?i @ ?o) = ?o"
    using o by (subst dropWhile_append2) (auto dest: iso_time_no_tz simp: dropWhile_eq_self_iff)
  moreover have "?d * us_per_day + ?r = local_us t" by simp
  ultimately show ?thesis
    using r clock parse_offset_iso_offset [OF off] parse_date_iso_date [OF d]
    by (simp add: from_iso_def isoformat_def)
qed

lemma isoformat_not_Nil [simp]: "isoformat t \<noteq> []"
  by (simp add: isoformat_def)

lemma valid_utc: "valid_datetime (utc us) \<longleftrightarrow> 1 \<le> us div us_per_day + epoch_ord \<and> us div us_per_day + epoch_ord \<le> 3652059"
  by (simp add: valid_datetime_def utc_def Let_def)

text \<open>\<open>t + timedelta(seconds=n)\<close>: out of the years 1 to 9999 it raises.\<close>

definition dt_add :: "datetime \<Rightarrow> int \<Rightarrow> datetime res" where
  "dt_add t n = (let u = DT (local_us t + seconds n) (tz_off t) in
     if valid_datetime u then Inr u else Inl (PyExn ''OverflowError'' ''date value out of range''))"

text \<open>\<open>s <= t\<close>: comparing a naive with an aware datetime raises.\<close>

definition dt_le :: "datetime \<Rightarrow> datetime \<Rightarrow> bool res" where
  "dt_le s t = (if (tz_off s = None) \<noteq> (tz_off t = None)
     then type_error ''can't compare offset-naive and offset-aware datetimes''
     else Inr (instant s \<le> instant t))"

lemma dt_add_utc:
  "valid_datetime (utc (us + seconds n)) \<Longrightarrow> dt_add (utc us) n = Inr (utc (us + seconds n))"
  by (simp add: dt_add_def utc_def Let_def)

text \<open>\<open>raw.replace("Z", "+00:00")\<close>.\<close>

definition replace_z :: "string \<Rightarrow> string" where
  "replace_z s = concat (map (\<lambda>c. if c = CHR ''Z'' then ''+00:00'' else [c]) s)"

end
