(* ===== verification/Models.thy ===== *)
theory Models
  imports Py_Time
begin

text \<open>
  The shared runtime models, \<open>event_runtime/models.py\<close>: alerts, decisions, action results,
  scheduled tasks and domain events, with the wire forms that build and print them. The
  clock and the fresh identifiers (\<open>utc_now\<close>, \<open>uuid4\<close>) are arguments; SHA-256 is the
  parameter \<open>sha\<close>.
\<close>

section \<open>Alerts\<close>

datatype severity = SevInfo | SevWarning | SevCritical

fun severity_value :: "severity \<Rightarrow> string" where
  "severity_value SevInfo = ''info''"
| "severity_value SevWarning = ''warning''"
| "severity_value SevCritical = ''critical''"

definition severity_of :: "string \<Rightarrow> severity option" where
  "severity_of s = (if s = ''info'' then Some SevInfo else if s = ''warning'' then Some SevWarning
     else if s = ''critical'' then Some SevCritical else None)"

lemma severity_of_value [simp]: "severity_of (severity_value s) = Some s"
  by (cases s) (simp_all add: severity_of_def)

lemma severity_of_Some: "severity_of s = Some v \<Longrightarrow> s = severity_value v"
  by (auto simp: severity_of_def split: if_splits)

lemma severity_value_inject [simp]: "severity_value a = severity_value b \<longleftrightarrow> a = b"
  by (metis option.inject severity_of_value)

record alert =
  al_source :: string
  al_severity :: severity
  al_summary :: string
  al_details :: pydict
  al_namespace :: pyval
  al_resource_type :: pyval
  al_resource_name :: pyval
  al_fingerprint :: "string option"
  al_occurred_at :: datetime
  al_id :: string

definition alert_to_dict :: "alert \<Rightarrow> pydict" where
  "alert_to_dict a =
     [(''source'', PStr (al_source a)), (''severity'', PStr (severity_value (al_severity a))),
      (''summary'', PStr (al_summary a)), (''details'', PDict (al_details a)),
      (''namespace'', al_namespace a), (''resource_type'', al_resource_type a),
      (''resource_name'', al_resource_name a), (''fingerprint'', opt_str (al_fingerprint a)),
      (''occurred_at'', PStr (isoformat (al_occurred_at a))), (''alert_id'', PStr (al_id a))]"

text \<open>
  \<open>_parse_iso_timestamp\<close>: nothing means now, a trailing \<open>Z\<close> is UTC, a naive value is taken
  as UTC.
\<close>

definition parse_iso_timestamp :: "datetime \<Rightarrow> string \<Rightarrow> pyval \<Rightarrow> datetime res" where
  "parse_iso_timestamp now fld raw =
     (if raw = PNone \<or> raw = PStr [] then Inr now
      else
        (let txt = py_str raw;
           txt = (if ends_with ''Z'' txt then butlast txt @ ''+00:00'' else txt)
         in case from_iso txt of
              None \<Rightarrow> value_error (''Invalid '' @ fld @ '' timestamp: '' @ py_str raw)
            | Some t \<Rightarrow> Inr (as_utc t)))"

definition opt_text :: "pyval \<Rightarrow> pyval" where
  "opt_text v = (if v = PNone then PNone else PStr (py_str v))"

definition alert_from_dict :: "datetime \<Rightarrow> string \<Rightarrow> bool \<Rightarrow> pydict \<Rightarrow> alert res" where
  "alert_from_dict now fresh require_summary d =
     (let sv = str_lower (py_str (por (pget d ''severity'') (PStr ''info''))) in
      case severity_of sv of
        None \<Rightarrow> value_error (''Invalid severity: '' @ sv)
      | Some sev \<Rightarrow>
        (let summary = pget d ''summary'' in
         if require_summary \<and> \<not> truthy summary then value_error ''Missing required field: summary''
         else
           (case por (pget d ''details'') (PDict []) of
              PDict details \<Rightarrow>
                bind_res (parse_iso_timestamp now ''occurred_at'' (pget d ''occurred_at'')) (\<lambda>t. Inr
                  \<lparr>al_source = py_str (por (pget d ''source'') (PStr ''manual'')),
                   al_severity = sev,
                   al_summary = py_str (por summary (PStr [])),
                   al_details = details,
                   al_namespace = opt_text (pget d ''namespace''),
                   al_resource_type = opt_text (pget d ''resource_type''),
                   al_resource_name = opt_text (pget d ''resource_name''),
                   al_fingerprint = (if pget d ''fingerprint'' = PNone then None
                                     else Some (py_str (pget d ''fingerprint''))),
                   al_occurred_at = t,
                   al_id = py_str (por (pget d ''alert_id'') (PStr fresh))\<rparr>)
            | _ \<Rightarrow> value_error ''Field details must be an object'')))"

text \<open>The identity duplicate suppression works on: the alert's own fingerprint, else a digest.\<close>

definition stable_identity :: "alert \<Rightarrow> string" where
  "stable_identity a = json_dumps json_sorted (PDict
     [(''source'', PStr (al_source a)), (''severity'', PStr (severity_value (al_severity a))),
      (''summary'', PStr (al_summary a)), (''namespace'', al_namespace a),
      (''resource_type'', al_resource_type a), (''resource_name'', al_resource_name a)])"

definition effective_fingerprint :: "(string \<Rightarrow> string) \<Rightarrow> alert \<Rightarrow> string" where
  "effective_fingerprint sha a = (case al_fingerprint a of
     Some (c # s) \<Rightarrow> c # s | _ \<Rightarrow> sha (stable_identity a))"

section \<open>Decisions, tasks and results\<close>

record envelope =
  env_alert :: alert
  env_context :: pydict
  env_notes :: "string list"

record task =
  tk_name :: string
  tk_schedule :: string
  tk_rationale :: string
  tk_target :: pydict
  tk_parameters :: pydict
  tk_type :: string

definition task_to_dict :: "task \<Rightarrow> pydict" where
  "task_to_dict t = [(''name'', PStr (tk_name t)), (''schedule'', PStr (tk_schedule t)),
     (''rationale'', PStr (tk_rationale t)), (''target'', PDict (tk_target t)),
     (''parameters'', PDict (tk_parameters t)), (''task_type'', PStr (tk_type t))]"

record decision =
  dc_action :: string
  dc_confidence :: pyfloat
  dc_reasoning :: string
  dc_params :: pydict
  dc_checks :: "pyval list"
  dc_tasks :: "task list"

definition decision_to_dict :: "decision \<Rightarrow> pydict" where
  "decision_to_dict d = [(''action'', PStr (dc_action d)), (''confidence'', PFloat (dc_confidence d)),
     (''reasoning'', PStr (dc_reasoning d)), (''params'', PDict (dc_params d)),
     (''requested_checks'', PList (dc_checks d)),
     (''scheduled_tasks'', PList (map (\<lambda>t. PDict (task_to_dict t)) (dc_tasks d)))]"

record request =
  rq_alert :: alert
  rq_decision :: decision
  rq_context :: envelope

record action_result =
  ar_action :: string
  ar_success :: bool
  ar_message :: string
  ar_details :: pydict
  ar_executed_at :: datetime
  ar_quiet :: bool

definition result_to_dict :: "action_result \<Rightarrow> pydict" where
  "result_to_dict r = [(''action'', PStr (ar_action r)), (''success'', PBool (ar_success r)),
     (''message'', PStr (ar_message r)), (''details'', PDict (ar_details r)),
     (''executed_at'', PStr (isoformat (ar_executed_at r))), (''quiet'', PBool (ar_quiet r))]"

definition result_from_dict :: "datetime \<Rightarrow> pyval \<Rightarrow> action_result res" where
  "result_from_dict now payload = (case payload of
     PDict d \<Rightarrow>
       (case pget d ''action'' of
          PStr action \<Rightarrow>
            if action = [] then value_error ''Field action must be a non-empty string'' else
            (case pget_or d ''message'' (PStr []) of
               PStr message \<Rightarrow>
                 (case pget d ''success'' of
                    PBool success \<Rightarrow>
                      bind_res (case pget d ''details'' of PNone \<Rightarrow> Inr [] | PDict dd \<Rightarrow> Inr dd
                         | _ \<Rightarrow> value_error ''Field details must be a JSON object'') (\<lambda>details.
                      (case pget_or d ''quiet'' (PBool False) of
                         PBool quiet \<Rightarrow>
                           bind_res (parse_iso_timestamp now ''executed_at'' (pget d ''executed_at''))
                             (\<lambda>t. Inr \<lparr>ar_action = action, ar_success = success, ar_message = message,
                                ar_details = details, ar_executed_at = t, ar_quiet = quiet\<rparr>)
                       | q \<Rightarrow> value_error (''Field quiet must be a JSON boolean (got '' @ type_name q @ '')'')))
                  | PNone \<Rightarrow> value_error ''Missing required field: success''
                  | s \<Rightarrow> value_error (''Field success must be a JSON boolean (got '' @ type_name s @ '')''))
             | _ \<Rightarrow> value_error ''Field message must be a string'')
        | _ \<Rightarrow> value_error ''Field action must be a non-empty string'')
   | _ \<Rightarrow> value_error ''ActionResult payload must be a JSON object'')"

record domain_event =
  ev_type :: string
  ev_payload :: pydict
  ev_created_at :: datetime
  ev_id :: string

definition event_to_dict :: "domain_event \<Rightarrow> pydict" where
  "event_to_dict e = [(''event_id'', PStr (ev_id e)), (''event_type'', PStr (ev_type e)),
     (''created_at'', PStr (isoformat (ev_created_at e))), (''payload'', PDict (ev_payload e))]"

section \<open>Wire round trips\<close>

text \<open>An alert the wire can carry unchanged.\<close>

definition opt_text_ok :: "pyval \<Rightarrow> bool" where
  "opt_text_ok v = (case v of PNone \<Rightarrow> True | PStr _ \<Rightarrow> True | _ \<Rightarrow> False)"

definition wire_alert :: "alert \<Rightarrow> bool" where
  "wire_alert a = (al_source a \<noteq> [] \<and> al_summary a \<noteq> [] \<and> al_id a \<noteq> [] \<and>
     opt_text_ok (al_namespace a) \<and> opt_text_ok (al_resource_type a) \<and>
     opt_text_ok (al_resource_name a) \<and>
     valid_datetime (al_occurred_at a) \<and> tz_off (al_occurred_at a) \<noteq> None)"

lemma opt_text_id [simp]: "opt_text_ok v \<Longrightarrow> opt_text v = v"
  by (cases v) (auto simp: opt_text_ok_def opt_text_def)

lemma isoformat_last: "last (isoformat t) \<noteq> CHR ''Z''"
proof -
  have ne: "pad_nat k n \<noteq> []" if "0 < k" for k n
    using that by (metis length_pad_nat list.size(3) less_irrefl)
  have pd: "last (pad_nat k n) \<noteq> CHR ''Z''" if "0 < k" for k n
  proof -
    have "is_digit (last (pad_nat k n))"
      using pad_nat_digits [of k n] last_in_set [OF ne [OF that]] by (simp add: list_all_iff)
    then show ?thesis by (auto simp: is_digit_def)
  qed
  have t: "iso_time us \<noteq> [] \<and> last (iso_time us) \<noteq> CHR ''Z''" for us
    unfolding iso_time_def Let_def by (cases "us mod 1000000 = 0") (simp_all only: if_True if_False append_Nil2 last_append ne pd, simp_all add: pd ne)
  have o: "iso_offset o' = [] \<or> last (iso_offset o') \<noteq> CHR ''Z''" for o'
  proof (cases o')
    case (Some k)
    then show ?thesis
      unfolding iso_offset_def Let_def by (cases "\<bar>k\<bar> mod 60 = 0") (simp_all add: pd ne)
  qed (simp add: iso_offset_def)
  show ?thesis using t [of "local_us t mod us_per_day"] o [of "tz_off t"] by (auto simp: isoformat_def last_append)
qed

lemma parse_iso_timestamp_isoformat:
  assumes "valid_datetime t" "tz_off t \<noteq> None"
  shows "parse_iso_timestamp now fld (PStr (isoformat t)) = Inr t"
proof -
  have "\<not> ends_with ''Z'' (isoformat t)"
    using isoformat_last [of t] by (auto simp: ends_with_iff)
  then show ?thesis
    using assms by (auto simp: parse_iso_timestamp_def from_iso_isoformat as_utc_def Let_def)
qed

lemma alert_round_trip:
  assumes "wire_alert a"
  shows "alert_from_dict now fresh rs (alert_to_dict a) = Inr a"
proof -
  have lower: "str_lower (severity_value s) = severity_value s" for s
    by (cases s) (simp_all add: str_lower_def lower_char_def)
  have por_str: "s \<noteq> [] \<Longrightarrow> por (PStr s) v = PStr s" for s v by (simp add: por_def)
  have sev: "severity_value s \<noteq> []" for s by (cases s) simp_all
  have det: "por (PDict d) (PDict []) = PDict d" for d by (simp add: por_def)
  have fp: "opt_str x = PNone \<longleftrightarrow> x = None" for x by (cases x) (auto simp: opt_str_def)
  have fps: "x \<noteq> None \<Longrightarrow> Some (py_str (opt_str x)) = x" for x by (cases x) (auto simp: opt_str_def)
  show ?thesis
    using assms
    by (simp add: wire_alert_def alert_from_dict_def alert_to_dict_def Let_def por_str sev lower det
        parse_iso_timestamp_isoformat fp fps)
qed

lemma result_round_trip:
  assumes "ar_action r \<noteq> []" "valid_datetime (ar_executed_at r)" "tz_off (ar_executed_at r) \<noteq> None"
  shows "result_from_dict now (PDict (result_to_dict r)) = Inr r"
  using assms
  by (simp add: result_from_dict_def result_to_dict_def pget_or_def parse_iso_timestamp_isoformat)

text \<open>A result is only ever read from a payload whose \<open>success\<close> is a JSON boolean.\<close>

lemma result_from_dict_success:
  "result_from_dict now (PDict d) = Inr r \<Longrightarrow> pget d ''success'' = PBool (ar_success r)"
  by (auto simp: result_from_dict_def value_error_def bind_res_Inr_iff split: pyval.splits if_splits)

lemma effective_fingerprint_own:
  "al_fingerprint a = Some f \<Longrightarrow> f \<noteq> [] \<Longrightarrow> effective_fingerprint sha a = f"
  by (cases f) (simp_all add: effective_fingerprint_def)

text \<open>The alert the examples use.\<close>

definition sample_alert :: "string \<Rightarrow> severity \<Rightarrow> alert" where
  "sample_alert fp sev = \<lparr>al_source = ''probe'', al_severity = sev, al_summary = ''disk full'',
     al_details = [], al_namespace = PNone, al_resource_type = PNone, al_resource_name = PNone,
     al_fingerprint = Some fp, al_occurred_at = utc 0, al_id = ''a-1''\<rparr>"

end
