(* ===== verification/Activity.thy ===== *)
theory Activity
  imports Models "HOL-Library.Multiset"
begin

text \<open>
  The activity feed, \<open>event_runtime/activity.py\<close>: the fold of raw domain events into one record
  per alert (or job, or bare event), which is the one definition of an alert's status, action
  and outcome, and the filters over events and folded records.

  Events are JSON objects. \<open>dict(v)\<close> of a value that is no object is a \<open>TypeError\<close> here; a
  list of pairs, which Python would accept, is not distinguished.
\<close>

section \<open>Reading an event\<close>

definition event_payload :: "pydict \<Rightarrow> pydict res" where
  "event_payload e = as_dict (por (pget e ''payload'') (PDict []))"

definition extract_alert :: "pydict \<Rightarrow> pydict option" where
  "extract_alert payload = (case pget payload ''alert'' of
     PDict a \<Rightarrow> Some a
   | _ \<Rightarrow> (case pget payload ''job'' of
            PDict job \<Rightarrow> (case pget job ''alert'' of PDict a \<Rightarrow> Some a | _ \<Rightarrow> None)
          | _ \<Rightarrow> None))"

definition extract_job :: "pydict \<Rightarrow> pydict option" where
  "extract_job payload = (case pget payload ''job'' of PDict job \<Rightarrow> Some job | _ \<Rightarrow> None)"

definition or_empty :: "pydict option \<Rightarrow> pydict" where
  "or_empty x = (case x of None \<Rightarrow> [] | Some d \<Rightarrow> d)"

definition text_or_empty :: "pyval \<Rightarrow> string" where
  "text_or_empty v = py_str (por v (PStr []))"

definition alert_key :: "pydict \<Rightarrow> string res" where
  "alert_key e = bind_res (event_payload e) (\<lambda>p.
     Inr (text_or_empty (pget (or_empty (extract_alert p)) ''alert_id'')))"

definition created_at :: "pydict \<Rightarrow> string" where
  "created_at e = text_or_empty (pget e ''created_at'')"

text \<open>\<open>uid\<close> stands for \<open>id(event)\<close>.\<close>

definition activity_key :: "string \<Rightarrow> pydict \<Rightarrow> pydict option \<Rightarrow> pydict option \<Rightarrow> string" where
  "activity_key uid e a job =
     (if truthy (pget (or_empty a) ''alert_id'') then ''alert:'' @ py_str (pget (or_empty a) ''alert_id'')
      else if truthy (pget (or_empty job) ''job_id'') then ''job:'' @ py_str (pget (or_empty job) ''job_id'')
      else ''event:'' @ py_str (por (por (pget e ''event_id'') (pget e ''created_at'')) (PStr uid)))"

section \<open>The folded record\<close>

record entry =
  te_created_at :: string
  te_type :: string
  te_note :: pyval

record activity =
  ac_alert_id :: pyval
  ac_job_id :: pyval
  ac_source :: pyval
  ac_severity :: pyval
  ac_summary :: pyval
  ac_namespace :: pyval
  ac_resource_type :: pyval
  ac_resource_name :: pyval
  ac_status :: pyval
  ac_action :: pyval
  ac_reason :: pyval
  ac_message :: pyval
  ac_decision :: pyval
  ac_result :: pyval
  ac_success :: pyval
  ac_first :: string
  ac_latest :: string
  ac_count :: int
  ac_types :: "string list"
  ac_timeline :: "entry list"

text \<open>\<open>v or job.get("alert", {}).get(k)\<close>: the job is only looked at when \<open>v\<close> is falsy.\<close>

definition or_job_alert :: "pydict option \<Rightarrow> pydict option \<Rightarrow> string \<Rightarrow> pyval res" where
  "or_job_alert a job k = (let v = pget (or_empty a) k in
     if truthy v then Inr v
     else bind_res (as_dict (pget_or (or_empty job) ''alert'' (PDict []))) (\<lambda>ja. Inr (pget ja k)))"

definition new_activity :: "pydict \<Rightarrow> pydict option \<Rightarrow> pydict option \<Rightarrow> activity res" where
  "new_activity e a job =
     bind_res (or_job_alert a job ''summary'') (\<lambda>summary.
     bind_res (or_job_alert a job ''alert_id'') (\<lambda>aid.
     bind_res (or_job_alert a job ''source'') (\<lambda>src.
     bind_res (or_job_alert a job ''severity'') (\<lambda>sev.
     bind_res (or_job_alert a job ''namespace'') (\<lambda>ns.
     bind_res (or_job_alert a job ''resource_type'') (\<lambda>rt.
     bind_res (or_job_alert a job ''resource_name'') (\<lambda>rn. Inr
       \<lparr>ac_alert_id = aid, ac_job_id = pget (or_empty job) ''job_id'', ac_source = src, ac_severity = sev,
        ac_summary = por summary (PStr []), ac_namespace = ns, ac_resource_type = rt, ac_resource_name = rn,
        ac_status = PStr ''received'', ac_action = PNone, ac_reason = PNone, ac_message = PNone,
        ac_decision = PNone, ac_result = PNone, ac_success = PNone,
        ac_first = created_at e, ac_latest = created_at e, ac_count = 0, ac_types = [], ac_timeline = []\<rparr>)))))))"

definition note_of :: "string \<Rightarrow> pydict \<Rightarrow> pydict option \<Rightarrow> pyval res" where
  "note_of t payload job =
     bind_res (Inr (pget payload ''reason'')) (\<lambda>v.
     bind_res (if v = PNone \<and> t = ''decision_made''
        then bind_res (as_dict (por (pget payload ''decision'') (PDict []))) (\<lambda>d. Inr (pget d ''reasoning'')) else Inr v) (\<lambda>v.
     bind_res (if v = PNone \<and> t = ''action_completed''
        then bind_res (as_dict (por (pget payload ''result'') (PDict []))) (\<lambda>d. Inr (pget d ''message'')) else Inr v) (\<lambda>v.
     bind_res (Inr (if v = PNone \<and> (t = ''alert_job_failed'' \<or> t = ''action_missing'') then pget payload ''error'' else v)) (\<lambda>v.
     if v = PNone \<and> or_empty job \<noteq> []
     then bind_res (as_dict (por (pget (or_empty job) ''result'') (PDict []))) (\<lambda>d. Inr (pget d ''message'')) else Inr v))))"

definition timeline_entry :: "string \<Rightarrow> string \<Rightarrow> pydict \<Rightarrow> pydict option \<Rightarrow> entry res" where
  "timeline_entry t at payload job = bind_res (note_of t payload job) (\<lambda>note.
     Inr \<lparr>te_created_at = at, te_type = t, te_note = note\<rparr>)"

definition dict_of :: "pyval \<Rightarrow> pydict res" where
  "dict_of v = (case v of PDict d \<Rightarrow> Inr d | _ \<Rightarrow> type_error (CHR 0x27 # type_name v @ [CHR 0x27] @ '' object is not iterable''))"

definition or_none :: "pydict \<Rightarrow> pyval" where
  "or_none d = (if d = [] then PNone else PDict d)"

text \<open>Identity, times and timeline: the part every event contributes.\<close>

definition merge_identity :: "pydict option \<Rightarrow> pydict option \<Rightarrow> activity \<Rightarrow> activity" where
  "merge_identity a job x =
     (let x = (if or_empty a \<noteq> [] then
         x\<lparr>ac_alert_id := por (ac_alert_id x) (pget (or_empty a) ''alert_id''),
           ac_source := por (ac_source x) (pget (or_empty a) ''source''),
           ac_severity := por (ac_severity x) (pget (or_empty a) ''severity''),
           ac_summary := por (ac_summary x) (pget (or_empty a) ''summary''),
           ac_namespace := por (ac_namespace x) (pget (or_empty a) ''namespace''),
           ac_resource_type := por (ac_resource_type x) (pget (or_empty a) ''resource_type''),
           ac_resource_name := por (ac_resource_name x) (pget (or_empty a) ''resource_name'')\<rparr> else x)
      in if or_empty job \<noteq> [] then x\<lparr>ac_job_id := por (ac_job_id x) (pget (or_empty job) ''job_id'')\<rparr> else x)"

definition merge_times :: "string \<Rightarrow> string \<Rightarrow> entry \<Rightarrow> activity \<Rightarrow> activity" where
  "merge_times t at en x =
     x\<lparr>ac_latest := max (if ac_latest x = [] then at else ac_latest x) at,
       ac_first := min (if ac_first x = [] then at else ac_first x) at,
       ac_count := ac_count x + 1,
       ac_types := ac_types x @ [t],
       ac_timeline := ac_timeline x @ [en]\<rparr>"

text \<open>What the event type says of status, action and outcome.\<close>

definition merge_status :: "string \<Rightarrow> pydict \<Rightarrow> pydict option \<Rightarrow> activity \<Rightarrow> activity res" where
  "merge_status t payload job x =
     (if t = ''alert_received'' then Inr (x\<lparr>ac_status := PStr ''received''\<rparr>)
      else if t = ''alert_queued'' \<or> t = ''alert_job_deferred'' \<or> t = ''alert_job_restored'' then Inr (x\<lparr>ac_status := PStr ''queued''\<rparr>)
      else if t = ''alert_job_started'' then Inr (x\<lparr>ac_status := PStr ''running''\<rparr>)
      else if t = ''alert_suppressed'' then
        Inr (x\<lparr>ac_status := PStr ''suppressed'', ac_action := PStr ''suppressed'', ac_success := PBool True,
               ac_reason := pget payload ''reason''\<rparr>)
      else if t = ''alert_skipped'' then
        Inr (x\<lparr>ac_status := PStr ''logged'', ac_action := PStr ''log_only'', ac_success := PBool True,
               ac_reason := pget payload ''reason''\<rparr>)
      else if t = ''decision_made'' then
        bind_res (dict_of (por (pget payload ''decision'') (PDict []))) (\<lambda>d.
        Inr (x\<lparr>ac_decision := or_none d, ac_action := por (pget d ''action'') (ac_action x)\<rparr>))
      else if t = ''checks_requested'' then Inr x
      else if t = ''action_missing'' then
        bind_res (dict_of (por (pget payload ''decision'') (PDict []))) (\<lambda>d.
        let act = por (pget d ''action'') (ac_action x)
        in Inr (x\<lparr>ac_decision := (if d = [] then ac_decision x else PDict d), ac_status := PStr ''failed'',
              ac_action := act, ac_success := PBool False,
              ac_message := PStr (''No action handler registered for '' @ py_str (por act (PStr ''unknown'')))\<rparr>))
      else if t = ''action_completed'' then
        bind_res (dict_of (por (pget payload ''result'') (PDict []))) (\<lambda>r.
        Inr (x\<lparr>ac_status := PStr (if truthy (pget r ''success'') then ''completed'' else ''failed''),
               ac_action := por (pget r ''action'') (ac_action x),
               ac_success := PBool (truthy (pget r ''success'')),
               ac_message := por (pget r ''message'') (ac_message x),
               ac_result := or_none r\<rparr>))
      else if t = ''alert_job_completed'' then
        bind_res (dict_of (por (pget (or_empty job) ''result'') (PDict []))) (\<lambda>r.
        if r \<noteq> [] then
          Inr (x\<lparr>ac_action := por (pget r ''action'') (ac_action x),
                 ac_message := por (pget r ''message'') (ac_message x),
                 ac_result := PDict r,
                 ac_success := (if pget r ''success'' \<noteq> PNone then pget r ''success'' else ac_success x),
                 ac_status := por (pget r ''status'')
                   (if truthy (pget r ''success'') then PStr ''completed'' else ac_status x)\<rparr>)
        else Inr (x\<lparr>ac_status := PStr ''completed''\<rparr>))
      else if t = ''alert_job_failed'' then
        Inr (x\<lparr>ac_status := PStr ''failed'', ac_success := PBool False,
               ac_message := por (por (pget payload ''error'') (pget (or_empty job) ''error'')) (ac_message x)\<rparr>)
      else Inr x)"

definition merge_activity :: "pydict \<Rightarrow> pydict \<Rightarrow> pydict option \<Rightarrow> pydict option \<Rightarrow> activity \<Rightarrow> activity res" where
  "merge_activity e payload a job x =
     (let t = py_str (por (pget e ''event_type'') (PStr ''unknown''))
      in bind_res (timeline_entry t (created_at e) payload job) (\<lambda>en.
         merge_status t payload job (merge_times t (created_at e) en (merge_identity a job x))))"

section \<open>The fold\<close>

type_synonym groups = "(string \<times> activity) list"

definition feed_event :: "string \<times> pydict \<Rightarrow> groups \<Rightarrow> groups res" where
  "feed_event ue g = (let e = snd ue in
     bind_res (event_payload e) (\<lambda>p.
     let a = extract_alert p; job = extract_job p; k = activity_key (fst ue) e a job
     in bind_res (case map_of g k of Some x \<Rightarrow> Inr x | None \<Rightarrow> new_activity e a job) (\<lambda>x.
        bind_res (merge_activity e p a job x) (\<lambda>y. Inr (dset k y g)))))"

fun feed_events :: "(string \<times> pydict) list \<Rightarrow> groups \<Rightarrow> groups res" where
  "feed_events [] g = Inr g"
| "feed_events (ue # ues) g = bind_res (feed_event ue g) (feed_events ues)"

text \<open>Object identities: the position in the list that came in.\<close>

definition with_ids :: "pydict list \<Rightarrow> (string \<times> pydict) list" where
  "with_ids es = zip (map nat_str [0..<length es]) es"

definition build_activity_feed :: "pydict list \<Rightarrow> int \<Rightarrow> activity list res" where
  "build_activity_feed es limit =
     bind_res (feed_events (sort_key (\<lambda>ue. created_at (snd ue)) (with_ids es)) []) (\<lambda>g.
     Inr (take (nat (max 1 limit)) (sort_desc ac_latest (map snd g))))"

definition fold_alert :: "pydict list \<Rightarrow> activity res" where
  "fold_alert es = bind_res (map_res alert_key es) (\<lambda>ks.
     if length (remdups ks) \<noteq> 1 \<or> [] \<in> set ks
     then value_error (''fold_alert needs the events of exactly one alert, got '' @
            py_str (PList (map PStr (sort (remdups ks)))))
     else bind_res (build_activity_feed es 1) (\<lambda>xs. Inr (hd xs)))"

definition summarize_activity :: "activity \<Rightarrow> activity" where
  "summarize_activity x = x\<lparr>ac_timeline := [], ac_types := []\<rparr>"

section \<open>Filters\<close>

definition norm_filter :: "string option \<Rightarrow> string" where
  "norm_filter x = str_strip (case x of None \<Rightarrow> [] | Some s \<Rightarrow> s)"

definition matches :: "string \<Rightarrow> pyval \<Rightarrow> bool" where
  "matches want got = (want = [] \<or> got = PStr want)"

primrec filter_events_raw :: "string \<Rightarrow> string \<Rightarrow> string \<Rightarrow> pydict list \<Rightarrow> pydict list res" where
  "filter_events_raw t aid jid [] = Inr []"
| "filter_events_raw t aid jid (e # es) = bind_res (event_payload e) (\<lambda>p.
     bind_res (filter_events_raw t aid jid es) (\<lambda>rest.
       Inr (if matches t (pget e ''event_type'') \<and> matches aid (pget (or_empty (extract_alert p)) ''alert_id'')
               \<and> matches jid (pget (or_empty (extract_job p)) ''job_id'') then e # rest else rest)))"

definition filter_events :: "string option \<Rightarrow> string option \<Rightarrow> string option \<Rightarrow> pydict list \<Rightarrow> pydict list res" where
  "filter_events event_type alert_id job_id es =
     filter_events_raw (norm_filter event_type) (norm_filter alert_id) (norm_filter job_id) es"

definition filter_activities :: "string option \<Rightarrow> string option \<Rightarrow> activity list \<Rightarrow> activity list" where
  "filter_activities status action xs = filter (\<lambda>x. matches (norm_filter status) (ac_status x) \<and>
     matches (norm_filter action) (ac_action x)) xs"

section \<open>The fold loses and invents nothing\<close>

text \<open>What holds of a record after any number of events.\<close>

definition activity_ok :: "activity \<Rightarrow> bool" where
  "activity_ok x = (ac_count x = int (length (ac_types x)) \<and> length (ac_timeline x) = length (ac_types x) \<and>
     0 \<le> ac_count x \<and> ac_first x \<le> ac_latest x)"

lemma merge_status_times:
  assumes "merge_status t payload job x = Inr y"
  shows "ac_count y = ac_count x" "ac_types y = ac_types x" "ac_timeline y = ac_timeline x"
    "ac_first y = ac_first x" "ac_latest y = ac_latest x"
proof -
  have "ac_count y = ac_count x \<and> ac_types y = ac_types x \<and> ac_timeline y = ac_timeline x \<and>
    ac_first y = ac_first x \<and> ac_latest y = ac_latest x"
    using assms unfolding merge_status_def if_Inr_iff bind_res_Inr_iff Let_def
    by (elim disjE conjE exE) (simp_all only: sum.inject, auto)
  then show "ac_count y = ac_count x" "ac_types y = ac_types x" "ac_timeline y = ac_timeline x"
    "ac_first y = ac_first x" "ac_latest y = ac_latest x" by blast+
qed

lemma merge_identity_times [simp]:
  "ac_count (merge_identity a job x) = ac_count x" "ac_types (merge_identity a job x) = ac_types x"
  "ac_timeline (merge_identity a job x) = ac_timeline x" "ac_first (merge_identity a job x) = ac_first x"
  "ac_latest (merge_identity a job x) = ac_latest x"
  by (simp_all add: merge_identity_def Let_def)

lemma merge_activity_times:
  assumes "merge_activity e payload a job x = Inr y"
  shows "ac_count y = ac_count x + 1" "length (ac_types y) = Suc (length (ac_types x))"
    "length (ac_timeline y) = Suc (length (ac_timeline x))" "ac_first y \<le> ac_latest y"
    "created_at e \<le> ac_latest y"
proof -
  obtain en where st: "merge_status (py_str (por (pget e ''event_type'') (PStr ''unknown''))) payload job
      (merge_times (py_str (por (pget e ''event_type'') (PStr ''unknown''))) (created_at e) en (merge_identity a job x)) = Inr y"
    using assms by (auto simp: merge_activity_def Let_def bind_res_Inr_iff)
  note eqs = merge_status_times [OF st]
  show "ac_count y = ac_count x + 1" "length (ac_types y) = Suc (length (ac_types x))"
    "length (ac_timeline y) = Suc (length (ac_timeline x))"
    by (simp_all add: eqs merge_times_def)
  show "ac_first y \<le> ac_latest y" "created_at e \<le> ac_latest y"
    by (auto simp: eqs merge_times_def min_le_iff_disj le_max_iff_disj)
qed

lemma merge_keeps_ok: "merge_activity e payload a job x = Inr y \<Longrightarrow> activity_ok x \<Longrightarrow> activity_ok y"
  using merge_activity_times by (auto simp: activity_ok_def)

lemma new_activity_ok:
  assumes "new_activity e a job = Inr x"
  shows "activity_ok x" "ac_count x = 0"
  using assms by (auto simp: new_activity_def bind_res_Inr_iff activity_ok_def)

definition total_events :: "groups \<Rightarrow> int" where
  "total_events g = sum_list (map (\<lambda>p. ac_count (snd p)) g)"

definition groups_ok :: "groups \<Rightarrow> bool" where
  "groups_ok g = (is_dict g \<and> (\<forall>p \<in> set g. activity_ok (snd p)))"

lemma total_dset:
  "is_dict g \<Longrightarrow> total_events (dset k y g) = total_events g + ac_count y -
     (case map_of g k of None \<Rightarrow> 0 | Some x \<Rightarrow> ac_count x)"
proof (induction g)
  case (Cons p g)
  then have "fst p = k \<Longrightarrow> map_of g k = None" by (auto simp: is_dict_def map_of_eq_None_iff)
  then show ?case using Cons by (auto simp: total_events_def is_dict_def split: option.split)
qed (simp add: total_events_def)

lemma feed_event_step:
  assumes "feed_event ue g = Inr g'" "groups_ok g"
  shows "groups_ok g'" "total_events g' = total_events g + 1" "length g' \<le> Suc (length g)"
proof -
  obtain p where p: "event_payload (snd ue) = Inr p"
    using assms(1) by (auto simp: feed_event_def Let_def bind_res_Inr_iff)
  let ?a = "extract_alert p" and ?j = "extract_job p"
  let ?k = "activity_key (fst ue) (snd ue) ?a ?j"
  obtain x y where x: "(case map_of g ?k of Some x \<Rightarrow> Inr x | None \<Rightarrow> new_activity (snd ue) ?a ?j) = Inr x"
    and y: "merge_activity (snd ue) p ?a ?j x = Inr y" and g': "g' = dset ?k y g"
    using assms(1) p by (auto simp: feed_event_def Let_def bind_res_Inr_iff)
  have ok: "activity_ok x"
  proof (cases "map_of g ?k")
    case None
    then show ?thesis using x new_activity_ok(1) by simp
  next
    case (Some z)
    then have "(?k, z) \<in> set g" by (rule map_of_SomeD)
    then show ?thesis using x Some assms(2) by (auto simp: groups_ok_def)
  qed
  have cnt: "(case map_of g ?k of None \<Rightarrow> 0 | Some x \<Rightarrow> ac_count x) = ac_count x"
    using x new_activity_ok by (auto split: option.splits)
  show "groups_ok g'"
    using assms(2) merge_keeps_ok [OF y ok] set_dset [of ?k y g] by (auto simp: groups_ok_def g')
  show "total_events g' = total_events g + 1"
    using assms(2) merge_activity_times(1) [OF y] by (simp add: groups_ok_def g' total_dset cnt)
  show "length g' \<le> Suc (length g)" by (simp add: g' length_dset)
qed

lemma feed_events_step:
  assumes "feed_events ues g = Inr g'" "groups_ok g"
  shows "groups_ok g'" "total_events g' = total_events g + int (length ues)" "length g' \<le> length g + length ues"
proof -
  have "groups_ok g' \<and> total_events g' = total_events g + int (length ues) \<and> length g' \<le> length g + length ues"
    using assms
  proof (induction ues arbitrary: g)
    case (Cons ue ues)
    then obtain g1 where g1: "feed_event ue g = Inr g1" "feed_events ues g1 = Inr g'"
      by (auto simp: bind_res_Inr_iff)
    note st = feed_event_step [OF g1(1) Cons.prems(2)]
    from Cons.IH [OF g1(2) st(1)] st(2,3) show ?case by auto
  qed simp
  then show "groups_ok g'" "total_events g' = total_events g + int (length ues)" "length g' \<le> length g + length ues"
    by blast+
qed

lemma length_with_ids [simp]: "length (with_ids es) = length es"
  by (simp add: with_ids_def)

lemma map_snd_with_ids [simp]: "map snd (with_ids es) = es"
  by (simp add: with_ids_def)

lemma mset_sort_desc [simp]: "mset (sort_desc f xs) = mset xs"
  by (simp add: sort_desc_def)

lemma sum_list_sort_desc: "sum_list (map (f :: 'a \<Rightarrow> int) (sort_desc k xs)) = sum_list (map f xs)"
proof -
  have "mset (map f (sort_desc k xs)) = mset (map f xs)" by (simp only: mset_map mset_sort_desc)
  then show ?thesis by (metis sum_mset_sum_list)
qed

section \<open>Order of arrival\<close>

lemma map_insort_key: "map h (insort_key (\<lambda>x. f (h x)) x xs) = insort_key f (h x) (map h xs)"
  by (induction xs) auto

lemma map_sort_key: "map h (sort_key (\<lambda>x. f (h x)) xs) = sort_key f (map h xs)"
  by (induction xs) (simp_all add: map_insort_key)

lemma sort_key_unique:
  assumes "mset xs = mset ys" "distinct (map f xs)"
  shows "sort_key f xs = sort_key f ys"
proof (rule map_sorted_distinct_set_unique)
  have set: "set xs = set ys" using assms(1) by (metis set_mset_mset)
  have d: "distinct (map f ys)" using assms by (metis mset_eq_imp_distinct_iff mset_map)
  show "inj_on f (set (sort_key f xs) \<union> set (sort_key f ys))"
    using assms(2) set by (simp add: distinct_map)
  show "distinct (map f (sort_key f xs))" "distinct (map f (sort_key f ys))"
    using assms(2) d by (metis mset_eq_imp_distinct_iff mset_map mset_sort)+
  show "set (sort_key f xs) = set (sort_key f ys)" using set by simp
qed simp_all

lemma feed_event_uid:
  assumes "alert_key e = Inr k" "k \<noteq> []"
  shows "feed_event (u, e) g = feed_event (v, e) g"
proof -
  obtain p where p: "event_payload e = Inr p" "k = text_or_empty (pget (or_empty (extract_alert p)) ''alert_id'')"
    using assms(1) by (auto simp: alert_key_def bind_res_Inr_iff)
  then have "truthy (pget (or_empty (extract_alert p)) ''alert_id'')"
    using assms(2) by (auto simp: text_or_empty_def por_def split: if_splits)
  then show ?thesis by (simp add: feed_event_def p(1) activity_key_def)
qed

lemma feed_events_uid:
  assumes "map snd xs = map snd ys" "\<forall>e \<in> snd ` set xs. \<exists>k. alert_key e = Inr k \<and> k \<noteq> []"
  shows "feed_events xs g = feed_events ys g"
  using assms
proof (induction xs arbitrary: ys g)
  case (Cons x xs)
  then obtain y zs where ys: "ys = y # zs" "snd x = snd y" "map snd xs = map snd zs" by (cases ys) auto
  obtain k where "alert_key (snd x) = Inr k" "k \<noteq> []" using Cons.prems(2) by auto
  from feed_event_uid [OF this, of "fst x" g "fst y"] have "feed_event x g = feed_event y g"
    by (metis ys(2) prod.collapse)
  moreover have "feed_events xs h = feed_events zs h" for h using Cons.IH [OF ys(3)] Cons.prems(2) by simp
  ultimately show ?case by (simp add: ys(1) bind_res_def split: sum.split)
qed simp

section \<open>Properties\<close>

text \<open>C28: The feed loses and invents nothing: over all its records the event counts add up to
  the number of events; every record lists each of its events once in types and timeline and
  its first time is not after its latest; and the records come newest first.\<close>

theorem feed_conserves_events:
  assumes "build_activity_feed es limit = Inr acts" "int (length es) \<le> limit"
  shows "sum_list (map ac_count acts) = int (length es) \<and>
    (\<forall>x \<in> set acts. ac_count x = int (length (ac_types x)) \<and> length (ac_timeline x) = length (ac_types x) \<and>
       ac_first x \<le> ac_latest x) \<and>
    sorted (rev (map ac_latest acts))"
proof -
  let ?ues = "sort_key (\<lambda>ue. created_at (snd ue)) (with_ids es)"
  obtain g where g: "feed_events ?ues [] = Inr g"
    and acts: "acts = take (nat (max 1 limit)) (sort_desc ac_latest (map snd g))"
    using assms(1) by (auto simp: build_activity_feed_def bind_res_Inr_iff)
  have "groups_ok []" by (simp add: groups_ok_def)
  note st = feed_events_step [OF g this]
  have "length g \<le> nat (max 1 limit)" using st(3) assms(2) by simp
  then have acts': "acts = sort_desc ac_latest (map snd g)" by (simp add: acts)
  have "sum_list (map ac_count acts) = int (length es)"
    unfolding acts' sum_list_sort_desc using st(2) by (simp add: total_events_def comp_def)
  moreover have "\<forall>x \<in> set acts. activity_ok x" using st(1) by (auto simp: acts' groups_ok_def)
  ultimately show ?thesis using sorted_sort_desc by (auto simp: activity_ok_def acts')
qed

text \<open>C18: The answer does not depend on the order in which events of alerts were stored or
  read back: any permutation of events with different timestamps folds to the same feed,
  errors included. The outbox and the database can therefore answer alike.\<close>

theorem feed_independent_of_arrival:
  assumes "mset es = mset es'" "distinct (map created_at es)"
    and "\<forall>e \<in> set es. \<exists>k. alert_key e = Inr k \<and> k \<noteq> []"
  shows "build_activity_feed es limit = build_activity_feed es' limit"
proof -
  have m: "map snd (sort_key (\<lambda>ue. created_at (snd ue)) (with_ids xs)) = sort_key created_at xs" for xs
    using map_sort_key [of snd created_at "with_ids xs"] by simp
  have "map snd (sort_key (\<lambda>ue. created_at (snd ue)) (with_ids es)) =
      map snd (sort_key (\<lambda>ue. created_at (snd ue)) (with_ids es'))"
    unfolding m using assms(1,2) by (rule sort_key_unique)
  moreover have "\<forall>e \<in> snd ` set (sort_key (\<lambda>ue. created_at (snd ue)) (with_ids es)). \<exists>k. alert_key e = Inr k \<and> k \<noteq> []"
    using assms(3) by (metis list.set_map m set_sort)
  ultimately have "feed_events (sort_key (\<lambda>ue. created_at (snd ue)) (with_ids es)) [] =
      feed_events (sort_key (\<lambda>ue. created_at (snd ue)) (with_ids es')) []"
    by (rule feed_events_uid)
  then show ?thesis by (simp add: build_activity_feed_def)
qed

definition sample_event :: "string \<Rightarrow> string \<Rightarrow> pydict" where
  "sample_event t at = [(''event_type'', PStr t), (''created_at'', PStr at),
     (''payload'', PDict [(''alert'', PDict [(''alert_id'', PStr ''a'')]), (''result'', PDict [(''success'', PBool True)])])]"

lemma feed_conserves_events_witness:
  "sum_list (map ac_count (case build_activity_feed [sample_event ''action_completed'' ''2'', sample_event ''alert_received'' ''1''] 5
      of Inr xs \<Rightarrow> xs | Inl _ \<Rightarrow> [])) = int (length [sample_event ''action_completed'' ''2'', sample_event ''alert_received'' ''1''])"
proof -
  let ?es = "[sample_event ''action_completed'' ''2'', sample_event ''alert_received'' ''1'']"
  have "case build_activity_feed ?es 5 of Inr _ \<Rightarrow> True | Inl _ \<Rightarrow> False" by code_simp
  then obtain xs where xs: "build_activity_feed ?es 5 = Inr xs" by (auto split: sum.splits)
  from feed_conserves_events [OF xs] show ?thesis by (simp add: xs)
qed

lemma feed_independent_of_arrival_witness:
  "build_activity_feed [sample_event ''action_completed'' ''2'', sample_event ''alert_received'' ''1''] 5 =
   build_activity_feed [sample_event ''alert_received'' ''1'', sample_event ''action_completed'' ''2''] 5"
  by (rule feed_independent_of_arrival)
    (simp_all add: sample_event_def created_at_def text_or_empty_def por_def alert_key_def event_payload_def
      extract_alert_def or_empty_def)

end
