(* ===== verification/Alert_Store.thy ===== *)
theory Alert_Store
  imports Activity "HOL-Library.Product_Lexorder"
begin

text \<open>
  Querying alerts by their folded state, \<open>event_runtime/alert_store.py\<close>: the parameters of the
  HTTP query with their refusals, and the in-memory answer with keyset paging, to which the SQL
  store is held. The cursor text (JSON in base64) is opaque here: the parameters \<open>encode\<close> and
  \<open>decode\<close>; a page carries the key the cursor stands for. Alert ids are strings, as every
  event the runtime records has them; another truthy id, which Python could not order with
  strings, is a \<open>TypeError\<close>. \<open>casefold\<close> on code points below 256 is lower case and \<open>ss\<close> for the
  sharp s.
\<close>

section \<open>Queries\<close>

record alert_query =
  q_limit :: int
  q_after :: "(int \<times> string) option"
  q_status :: "string option"
  q_action :: "string option"
  q_source :: "string option"
  q_severity :: "string option"
  q_since :: "datetime option"
  q_until :: "datetime option"
  q_q :: "string option"
  q_full :: bool

definition max_limit :: int where "max_limit = 200"
definition default_limit :: int where "default_limit = 50"
definition max_filter_len :: nat where "max_filter_len = 64"
definition max_q_len :: nat where "max_q_len = 200"

definition query_params :: "string list" where
  "query_params = [''limit'', ''cursor'', ''status'', ''action'', ''source'', ''severity'', ''since'', ''until'', ''q'']"

definition parse_timestamp :: "string \<Rightarrow> datetime res" where
  "parse_timestamp v = (case from_iso (replace_z (str_strip v)) of
     None \<Rightarrow> value_error (''Invalid isoformat string: '' @ repr_str v)
   | Some t \<Rightarrow> Inr (to_utc t))"

definition param :: "(string \<times> string) list \<Rightarrow> string \<Rightarrow> string" where
  "param ps name = (case map_of ps name of None \<Rightarrow> [] | Some v \<Rightarrow> v)"

definition short_param :: "(string \<times> string) list \<Rightarrow> string \<Rightarrow> string option res" where
  "short_param ps name = (let v = str_strip (param ps name)
     in if v = [] then Inr None
        else if length v > max_filter_len
          then value_error (name @ '' is limited to '' @ nat_str max_filter_len @ '' characters'')
        else Inr (Some v))"

definition timestamp_param :: "(string \<times> string) list \<Rightarrow> string \<Rightarrow> datetime option res" where
  "timestamp_param ps name = (let v = str_strip (param ps name)
     in if v = [] then Inr None
        else case parse_timestamp v of
          Inl e \<Rightarrow> value_error (name @ '' must be an ISO 8601 timestamp'')
        | Inr t \<Rightarrow> Inr (Some t))"

definition limit_param :: "(string \<times> string) list \<Rightarrow> int res" where
  "limit_param ps = (let raw = param ps ''limit''
     in if raw = [] then Inr default_limit
        else case parse_int raw of
          None \<Rightarrow> value_error ''limit must be an integer''
        | Some n \<Rightarrow> if 1 \<le> n \<and> n \<le> max_limit then Inr n
                    else value_error (''limit must be between 1 and '' @ int_str max_limit))"

definition search_param :: "(string \<times> string) list \<Rightarrow> string option res" where
  "search_param ps = (let q = str_strip (param ps ''q'')
     in if q = [] then Inr None
        else if length q > max_q_len then value_error (''q is limited to '' @ nat_str max_q_len @ '' characters'')
        else Inr (Some q))"

definition severity_param :: "(string \<times> string) list \<Rightarrow> string option res" where
  "severity_param ps = bind_res (short_param ps ''severity'') (\<lambda>s. case s of
       Some v \<Rightarrow> if severity_of v = None then value_error ''severity must be one of info, warning, critical''
                 else Inr (Some v)
     | None \<Rightarrow> Inr None)"

definition parse_alert_query ::
  "(string \<Rightarrow> (int \<times> string) res) \<Rightarrow> (string \<times> string) list \<Rightarrow> alert_query res" where
  "parse_alert_query decode ps =
     (let unknown = sort (filter (\<lambda>k. k \<notin> set query_params) (remdups (map fst ps)))
      in if unknown \<noteq> [] then value_error (''Unknown parameter(s): '' @ str_join '', '' unknown)
      else bind_res (limit_param ps) (\<lambda>limit.
      bind_res (severity_param ps) (\<lambda>sev.
      bind_res (search_param ps) (\<lambda>q.
      bind_res (timestamp_param ps ''since'') (\<lambda>since.
      bind_res (timestamp_param ps ''until'') (\<lambda>until.
      if (case (since, until) of (Some s, Some u) \<Rightarrow> instant u \<le> instant s | _ \<Rightarrow> False)
      then value_error ''since must be earlier than until''
      else
      bind_res (if param ps ''cursor'' = [] then Inr None else map_sum id Some (decode (param ps ''cursor''))) (\<lambda>after.
      bind_res (short_param ps ''status'') (\<lambda>status.
      bind_res (short_param ps ''action'') (\<lambda>action.
      bind_res (short_param ps ''source'') (\<lambda>src. Inr
        \<lparr>q_limit = limit, q_after = after, q_status = status, q_action = action, q_source = src,
         q_severity = sev, q_since = since, q_until = until, q_q = q, q_full = False\<rparr>))))))))))"

section \<open>Answering a query\<close>

record alert_page =
  pg_alerts :: "activity list"
  pg_next :: "(int \<times> string) option"
  pg_store :: string

definition casefold :: "string \<Rightarrow> string" where
  "casefold s = concat (map (\<lambda>c. if (of_char c :: nat) = 223 then ''ss'' else [lower_char c]) s)"

text \<open>An absent or empty filter lets everything pass.\<close>

definition filter_passes :: "string option \<Rightarrow> pyval \<Rightarrow> bool" where
  "filter_passes f v = (case f of Some (c # s) \<Rightarrow> v = PStr (c # s) | _ \<Rightarrow> True)"

definition needle_found :: "string option \<Rightarrow> activity \<Rightarrow> bool" where
  "needle_found q x = (case q of Some (c # s) \<Rightarrow>
       (\<exists>v \<in> set [ac_summary x, ac_resource_name x, ac_namespace x, ac_alert_id x].
          str_contains (casefold (c # s)) (casefold (text_or_empty v)))
     | _ \<Rightarrow> True)"

definition row_matches :: "alert_query \<Rightarrow> int \<Rightarrow> activity \<Rightarrow> bool" where
  "row_matches q latest x =
     (filter_passes (q_status q) (ac_status x) \<and> filter_passes (q_action q) (ac_action x) \<and>
      filter_passes (q_source q) (ac_source x) \<and> filter_passes (q_severity q) (ac_severity x) \<and>
      (case q_since q of Some t \<Rightarrow> instant t \<le> latest | None \<Rightarrow> True) \<and>
      (case q_until q of Some t \<Rightarrow> latest < instant t | None \<Rightarrow> True) \<and>
      needle_found (q_q q) x)"

definition before_cursor :: "(int \<times> string) option \<Rightarrow> int \<times> string \<Rightarrow> bool" where
  "before_cursor after k = (case after of None \<Rightarrow> True | Some c \<Rightarrow> k < c)"

type_synonym row = "(int \<times> string) \<times> activity"

fun query_rows :: "alert_query \<Rightarrow> activity list \<Rightarrow> row list res" where
  "query_rows q [] = Inr []"
| "query_rows q (x # xs) =
     (if \<not> truthy (ac_alert_id x) then query_rows q xs
      else case ac_alert_id x of
        PStr aid \<Rightarrow>
          bind_res (parse_timestamp (ac_latest x)) (\<lambda>latest.
          bind_res (query_rows q xs) (\<lambda>rest.
          Inr (if row_matches q (instant latest) x \<and> before_cursor (q_after q) (instant latest, aid)
               then ((instant latest, aid), x) # rest else rest)))
      | _ \<Rightarrow> type_error ''alert ids are not comparable'')"

definition apply_query :: "activity list \<Rightarrow> alert_query \<Rightarrow> string \<Rightarrow> alert_page res" where
  "apply_query xs q store = bind_res (query_rows q xs) (\<lambda>rows.
     let rows = sort_desc fst rows; page = take (nat (q_limit q)) rows
     in Inr \<lparr>pg_alerts = map (\<lambda>r. if q_full q then snd r else summarize_activity (snd r)) page,
             pg_next = (if int (length rows) > q_limit q then Some (fst (last page)) else None),
             pg_store = store\<rparr>)"

section \<open>Paging\<close>

text \<open>A client that follows the cursors, at most \<open>n\<close> pages.\<close>

fun walk_pages :: "nat \<Rightarrow> activity list \<Rightarrow> alert_query \<Rightarrow> string \<Rightarrow> activity list res" where
  "walk_pages 0 xs q store = Inr []"
| "walk_pages (Suc n) xs q store = bind_res (apply_query xs q store) (\<lambda>p.
     case pg_next p of
       None \<Rightarrow> Inr (pg_alerts p)
     | Some k \<Rightarrow> bind_res (walk_pages n xs (q\<lparr>q_after := Some k\<rparr>) store) (\<lambda>rest. Inr (pg_alerts p @ rest)))"

lemma query_rows_after:
  assumes "query_rows q xs = Inr rows" "\<And>k. before_cursor (Some c) k \<Longrightarrow> before_cursor (q_after q) k"
  shows "query_rows (q\<lparr>q_after := Some c\<rparr>) xs = Inr (filter (\<lambda>r. fst r < c) rows)"
  using assms
proof (induction xs arbitrary: rows)
  case (Cons x xs)
  show ?case
  proof (cases "truthy (ac_alert_id x)")
    case False
    then show ?thesis using Cons by simp
  next
    case True
    then obtain aid where aid: "ac_alert_id x = PStr aid"
      using Cons.prems(1) by (auto simp: type_error_def split: pyval.splits)
    then obtain t rest where t: "parse_timestamp (ac_latest x) = Inr t" "query_rows q xs = Inr rest"
      using Cons.prems(1) True by (auto simp: bind_res_Inr_iff)
    have m: "row_matches (q\<lparr>q_after := Some c\<rparr>) = row_matches q" by (simp add: row_matches_def fun_eq_iff)
    have "before_cursor (q_after q) (instant t, aid)" if "(instant t, aid) < c"
      using Cons.prems(2) that by (simp add: before_cursor_def)
    then show ?thesis
      using Cons.prems(1) Cons.IH [OF t(2) Cons.prems(2)] True aid t m by (auto simp: before_cursor_def)
  qed
qed simp

lemma query_rows_before:
  "query_rows q xs = Inr rows \<Longrightarrow> r \<in> set rows \<Longrightarrow> before_cursor (q_after q) (fst r)"
  by (induction xs arbitrary: rows)
    (auto simp: bind_res_Inr_iff type_error_def split: if_splits pyval.splits)

lemma sort_desc_filter: "filter P (sort_desc f xs) = sort_desc f (filter P xs)"
  by (simp add: sort_desc_def filter_sort rev_filter [symmetric])

lemma distinct_desc: "distinct ks \<Longrightarrow> sorted_wrt (\<ge>) ks \<Longrightarrow> sorted_wrt (\<lambda>a b. b < a) (ks :: 'a::linorder list)"
  by (induction ks) (auto simp: less_le)

lemma strictly_desc:
  assumes "distinct (map f xs)"
  shows "sorted_wrt (\<lambda>a b. f b < f a) (sort_desc f xs)"
proof -
  have "mset (map f (sort_desc f xs)) = mset (map f xs)" by (simp only: mset_map mset_sort_desc)
  then have "distinct (map f (sort_desc f xs))" using assms by (metis mset_eq_imp_distinct_iff)
  moreover have "sorted_wrt (\<ge>) (map f (sort_desc f xs))"
    using sorted_sort_desc [of f xs] by (simp add: sorted_wrt_rev)
  ultimately have "sorted_wrt (\<lambda>a b. b < a) (map f (sort_desc f xs))"
    by (rule distinct_desc)
  then show ?thesis by (simp add: sorted_wrt_map)
qed

lemma desc_below:
  assumes "sorted_wrt (\<lambda>a b. fst b < fst a) rows" "0 < n" "n < length rows"
  shows "filter (\<lambda>r. fst r < fst (last (take n rows))) rows = drop n (rows :: row list)"
proof -
  let ?k = "fst (last (take n rows))"
  have ne: "take n rows \<noteq> []" using assms(2,3) by auto
  have "sorted_wrt (\<lambda>a b. fst b < fst a) (take n rows @ drop n rows)" using assms(1) by simp
  then have tail: "\<forall>r \<in> set (drop n rows). fst r < ?k" and head: "sorted_wrt (\<lambda>a b. fst b < fst a) (take n rows)"
    using last_in_set [OF ne] unfolding sorted_wrt_append by blast+
  have "sorted_wrt (\<lambda>a b. fst b < fst a) (butlast (take n rows) @ [last (take n rows)])" using head ne by simp
  then have "\<forall>r \<in> set (butlast (take n rows)). ?k < fst r" by (simp only: sorted_wrt_append) auto
  moreover have "set (take n rows) = insert (last (take n rows)) (set (butlast (take n rows)))"
    using ne by (metis Un_insert_right append_butlast_last_id list.simps(15) set_append sup_bot_right list.set(1))
  ultimately have "\<forall>r \<in> set (take n rows). \<not> fst r < ?k" by auto
  then have "filter (\<lambda>r. fst r < ?k) (take n rows) = []" by (simp add: filter_empty_conv)
  moreover have "filter (\<lambda>r. fst r < ?k) (drop n rows) = drop n rows" using tail by (simp add: filter_id_conv)
  ultimately have "filter (\<lambda>r. fst r < ?k) (take n rows @ drop n rows) = drop n rows" by (simp only: filter_append append_Nil)
  then show ?thesis by simp
qed

definition row_view :: "alert_query \<Rightarrow> row \<Rightarrow> activity" where
  "row_view q r = (if q_full q then snd r else summarize_activity (snd r))"

lemma walk_rows:
  assumes "query_rows q xs = Inr rows" "distinct (map fst rows)" "1 \<le> q_limit q" "length rows \<le> n"
  shows "walk_pages (Suc n) xs q store = Inr (map (row_view q) (sort_desc fst rows))"
  using assms
proof (induction n arbitrary: q rows rule: less_induct)
  case (less n)
  let ?S = "sort_desc fst rows" and ?l = "nat (q_limit q)"
  have app: "apply_query xs q store = Inr \<lparr>pg_alerts = map (row_view q) (take ?l ?S),
      pg_next = (if int (length rows) > q_limit q then Some (fst (last (take ?l ?S))) else None), pg_store = store\<rparr>"
    by (simp add: apply_query_def less.prems(1) Let_def row_view_def [abs_def])
  show ?case
  proof (cases "int (length rows) > q_limit q")
    case False
    then have "take ?l ?S = ?S" by simp
    then show ?thesis using False app by simp
  next
    case True
    let ?k = "fst (last (take ?l ?S))" and ?q = "q\<lparr>q_after := Some (fst (last (take ?l ?S)))\<rparr>"
    let ?rows = "filter (\<lambda>r. fst r < ?k) rows"
    have l: "0 < ?l" "?l < length ?S" using True less.prems(3) by auto
    have desc: "sort_desc fst ?rows = drop ?l ?S"
      using desc_below [OF strictly_desc [OF less.prems(2)] l] by (simp add: sort_desc_filter)
    have "last (take ?l ?S) \<in> set rows"
    proof -
      have "take ?l ?S \<noteq> []" using l by (cases ?S) simp_all
      then have "last (take ?l ?S) \<in> set ?S" by (metis in_set_takeD last_in_set)
      then show ?thesis by simp
    qed
    then have "before_cursor (q_after q) ?k" by (rule query_rows_before [OF less.prems(1)])
    then have "query_rows ?q xs = Inr ?rows"
    proof (intro query_rows_after [OF less.prems(1)])
      fix k
      assume "before_cursor (Some ?k) k"
      then have "k < ?k" by (simp only: before_cursor_def option.case)
      show "before_cursor (q_after q) k"
      proof (cases "q_after q")
        case (Some c)
        then have "?k < c" using \<open>before_cursor (q_after q) ?k\<close> by (simp only: before_cursor_def option.case)
        with \<open>k < ?k\<close> have "k < c" by (rule order.strict_trans)
        then show ?thesis by (simp only: Some before_cursor_def option.case)
      qed (simp add: before_cursor_def)
    qed
    moreover have "distinct (map fst ?rows)" using less.prems(2) by (simp add: distinct_map_filter)
    moreover have len: "length ?rows = length rows - ?l"
      using arg_cong [OF desc, of length] unfolding length_sort_desc length_drop .
    moreover have "0 < n" using l less.prems(4) by simp
    moreover have "length ?rows \<le> n - 1"
      unfolding len using l(1) less.prems(4) by linarith
    moreover have "1 \<le> q_limit ?q" using less.prems(3) by simp
    ultimately have "walk_pages (Suc (n - 1)) xs ?q store = Inr (map (row_view ?q) (drop ?l ?S))"
      using less.IH [of "n - 1" ?q ?rows] unfolding desc by (meson diff_less zero_less_one)
    moreover have "Suc (n - 1) = n" using l less.prems(4) by simp
    moreover have "row_view ?q = row_view q" by (simp add: row_view_def fun_eq_iff)
    moreover have "map f (take ?l ?S) @ map f (drop ?l ?S) = map f ?S" for f :: "row \<Rightarrow> activity"
      by (metis append_take_drop_id map_append)
    ultimately show ?thesis using True app by simp
  qed
qed

lemma query_rows_ids:
  "query_rows q xs = Inr rows \<Longrightarrow> r \<in> set rows \<Longrightarrow> snd r \<in> set xs \<and> PStr (snd (fst r)) = ac_alert_id (snd r)"
  by (induction xs arbitrary: rows)
    (auto simp: bind_res_Inr_iff type_error_def split: if_splits pyval.splits)

lemma query_rows_distinct:
  assumes "query_rows q xs = Inr rows" "distinct (map ac_alert_id xs)"
  shows "distinct (map fst rows)"
  using assms
proof (induction xs arbitrary: rows)
  case (Cons x xs)
  show ?case
  proof (cases "truthy (ac_alert_id x)")
    case False
    then show ?thesis using Cons by simp
  next
    case True
    then obtain aid t rest where r: "ac_alert_id x = PStr aid" "query_rows q xs = Inr rest"
      "rows = rest \<or> rows = ((instant t, aid), x) # rest"
      using Cons.prems(1) by (auto simp: bind_res_Inr_iff type_error_def split: pyval.splits if_splits)
    have "aid \<noteq> snd (fst p)" if "p \<in> set rest" for p
    proof -
      have "ac_alert_id (snd p) \<noteq> ac_alert_id x"
        using query_rows_ids [OF r(2) that] Cons.prems(2) by (metis distinct.simps(2) image_eqI list.simps(9) set_map)
      then show ?thesis using query_rows_ids [OF r(2) that] r(1) by auto
    qed
    then have "(instant t, aid) \<notin> fst ` set rest" by (metis imageE snd_conv)
    then show ?thesis using r Cons by auto
  qed
qed simp

section \<open>Properties\<close>

text \<open>C26: Paging is a partition: a client that follows the cursors of a query gets exactly the
  matching alerts, each once, newest first, the same list a single page without a limit would
  give; it needs no more pages than there are matching alerts, plus one.\<close>

theorem pages_partition:
  assumes "query_rows q xs = Inr rows" "distinct (map ac_alert_id xs)" "1 \<le> q_limit q" "length rows \<le> n"
  shows "walk_pages (Suc n) xs q store = Inr (map (row_view q) (sort_desc fst rows)) \<and>
    mset (map snd (sort_desc fst rows)) = mset (map snd rows)"
proof -
  have "mset (map snd (sort_desc fst rows)) = mset (map snd rows)" by (simp only: mset_map mset_sort_desc)
  then show ?thesis using walk_rows [OF assms(1) query_rows_distinct [OF assms(1,2)] assms(3,4)] by simp
qed

definition sample_activity :: "string \<Rightarrow> string \<Rightarrow> activity" where
  "sample_activity aid at = \<lparr>ac_alert_id = PStr aid, ac_job_id = PNone, ac_source = PNone, ac_severity = PNone,
     ac_summary = PNone, ac_namespace = PNone, ac_resource_type = PNone, ac_resource_name = PNone,
     ac_status = PStr ''failed'', ac_action = PNone, ac_reason = PNone, ac_message = PNone, ac_decision = PNone,
     ac_result = PNone, ac_success = PNone, ac_first = at, ac_latest = at, ac_count = 1, ac_types = [], ac_timeline = []\<rparr>"

definition sample_query :: alert_query where
  "sample_query = \<lparr>q_limit = 1, q_after = None, q_status = Some ''failed'', q_action = None, q_source = None,
     q_severity = None, q_since = None, q_until = None, q_q = None, q_full = True\<rparr>"

lemma pages_partition_witness:
  "walk_pages (Suc 2) [sample_activity ''a'' ''2024-01-01'', sample_activity ''b'' ''2024-01-02''] sample_query ''outbox'' =
     Inr (map (row_view sample_query) (sort_desc fst
       (case query_rows sample_query [sample_activity ''a'' ''2024-01-01'', sample_activity ''b'' ''2024-01-02''] of
          Inr rows \<Rightarrow> rows | Inl _ \<Rightarrow> [])))"
proof -
  let ?xs = "[sample_activity ''a'' ''2024-01-01'', sample_activity ''b'' ''2024-01-02'']"
  have "case query_rows sample_query ?xs of Inr rows \<Rightarrow> length rows = 2 | Inl _ \<Rightarrow> False" by code_simp
  then obtain rows where rows: "query_rows sample_query ?xs = Inr rows" "length rows = 2" by (auto split: sum.splits)
  have "walk_pages (Suc 2) ?xs sample_query ''outbox'' = Inr (map (row_view sample_query) (sort_desc fst rows))"
    using pages_partition [OF rows(1), of 2 "''outbox''"] rows(2) by (simp add: sample_activity_def sample_query_def)
  then show ?thesis unfolding rows(1) sum.case .
qed

text \<open>C22: A query that is accepted is within the documented bounds: only known parameters, a
  limit from 1 to 200, a real severity, filters of at most 64 and a search of at most 200
  characters, and an interval that is not empty. Everything else is refused.\<close>

theorem accepted_query_bounds:
  assumes "parse_alert_query decode ps = Inr q"
  shows "fst ` set ps \<subseteq> set query_params \<and> 1 \<le> q_limit q \<and> q_limit q \<le> 200 \<and>
    (\<forall>f \<in> set [q_status q, q_action q, q_source q, q_severity q]. \<forall>v. f = Some v \<longrightarrow> v \<noteq> [] \<and> length v \<le> 64) \<and>
    (\<forall>v. q_severity q = Some v \<longrightarrow> severity_of v \<noteq> None) \<and>
    (\<forall>v. q_q q = Some v \<longrightarrow> v \<noteq> [] \<and> length v \<le> 200) \<and>
    (\<forall>t u. q_since q = Some t \<longrightarrow> q_until q = Some u \<longrightarrow> instant t < instant u) \<and> \<not> q_full q"
proof -
  obtain limit sev qq since til after status action src where
    unknown: "sort (filter (\<lambda>k. k \<notin> set query_params) (remdups (map fst ps))) = []"
    and l: "limit_param ps = Inr limit" and sv: "severity_param ps = Inr sev" and qq: "search_param ps = Inr qq"
    and ord: "\<not> (case (since, til) of (Some s, Some u) \<Rightarrow> instant u \<le> instant s | _ \<Rightarrow> False)"
    and st: "short_param ps ''status'' = Inr status" and ac: "short_param ps ''action'' = Inr action"
    and sr: "short_param ps ''source'' = Inr src"
    and q: "q = \<lparr>q_limit = limit, q_after = after, q_status = status, q_action = action, q_source = src,
         q_severity = sev, q_since = since, q_until = til, q_q = qq, q_full = False\<rparr>"
    using assms
    unfolding parse_alert_query_def Let_def if_Inr_iff bind_res_Inr_iff value_error_def
    by auto
  have short: "v \<noteq> [] \<and> length v \<le> 64" if "short_param ps n = Inr (Some v)" for n v
    using that by (auto simp: short_param_def Let_def value_error_def max_filter_len_def split: if_splits)
  have sevs: "v \<noteq> [] \<and> length v \<le> 64 \<and> severity_of v \<noteq> None" if "sev = Some v" for v
  proof -
    have r: "severity_param ps = Inr (Some v)" using sv that by simp
    show ?thesis
    proof (cases "short_param ps ''severity''")
      case (Inl e)
      then show ?thesis using r by (simp add: severity_param_def)
    next
      case (Inr s)
      then obtain u where u: "s = Some u" using r by (cases s) (simp_all add: severity_param_def)
      then have "u = v" "severity_of u \<noteq> None"
        using r Inr by (simp_all add: severity_param_def value_error_def split: if_split_asm)
      then show ?thesis using short Inr u by simp
    qed
  qed
  have "set (sort (filter (\<lambda>k. k \<notin> set query_params) (remdups (map fst ps)))) = {}" using unknown by (metis set_empty)
  then have "fst ` set ps \<subseteq> set query_params" by auto
  moreover have "1 \<le> limit \<and> limit \<le> 200"
    using l by (auto simp: limit_param_def Let_def default_limit_def max_limit_def value_error_def split: if_splits option.splits)
  moreover have "\<forall>v. qq = Some v \<longrightarrow> v \<noteq> [] \<and> length v \<le> 200"
    using qq by (auto simp: search_param_def Let_def max_q_len_def value_error_def split: if_splits)
  ultimately show ?thesis using sevs short [of "''status''"] short [of "''action''"] short [of "''source''"] st ac sr ord
    by (auto simp: q split: option.splits)
qed

lemma accepted_query_bounds_witness:
  "1 \<le> q_limit (sample_query\<lparr>q_full := False\<rparr>) \<and> q_limit (sample_query\<lparr>q_full := False\<rparr>) \<le> 200"
proof -
  have "parse_alert_query (\<lambda>_. value_error []) [(''limit'', ''1''), (''status'', ''failed'')] =
      Inr (sample_query\<lparr>q_full := False\<rparr>)"
    by code_simp
  from accepted_query_bounds [OF this] show ?thesis by blast
qed

end
