(* ===== verification/Alert_Source.thy ===== *)
theory Alert_Source
  imports Models
begin

text \<open>
  The escalation ledger (\<open>event_runtime/escalation.py\<close>) and the Alertmanager poller
  (\<open>event_runtime/sources.py\<close>): which of the alerts Alertmanager reports reach the runtime,
  the single "Resolved:" alert of an escalation that cleared, and the backoff after failed
  polls. The HTTP exchange is the argument \<open>fetch\<close> of a poll; the iteration order of a Python
  set is the parameter \<open>order\<close>.
\<close>

section \<open>The escalation ledger\<close>

type_synonym ledger = "string set"

definition ledger_mark :: "string \<Rightarrow> ledger \<Rightarrow> ledger" where
  "ledger_mark fp l = (if fp = [] then l else insert fp l)"

definition ledger_take :: "string \<Rightarrow> ledger \<Rightarrow> bool \<times> ledger" where
  "ledger_take fp l = (if fp = [] then (False, l)
     else if fp \<in> l then (True, l - {fp}) else (False, l))"

definition ledger_len :: "ledger \<Rightarrow> nat" where
  "ledger_len l = card l"

lemma ledger_take_iff: "fst (ledger_take fp l) \<longleftrightarrow> fp \<noteq> [] \<and> fp \<in> l"
  by (simp add: ledger_take_def)

lemma ledger_take_gone: "fp \<noteq> [] \<Longrightarrow> fp \<notin> snd (ledger_take fp l)"
  by (simp add: ledger_take_def)

lemma ledger_take_others: "g \<noteq> fp \<Longrightarrow> g \<in> snd (ledger_take fp l) \<longleftrightarrow> g \<in> l"
  by (simp add: ledger_take_def)

section \<open>Normalising one reported alert\<close>

definition severity_map :: "string \<Rightarrow> severity" where
  "severity_map s = (if s = ''critical'' \<or> s = ''error'' then SevCritical
     else if s = ''warning'' then SevWarning
     else if s = ''info'' \<or> s = ''none'' then SevInfo else SevWarning)"

definition parse_iso :: "datetime \<Rightarrow> pyval \<Rightarrow> datetime res" where
  "parse_iso now raw = (if \<not> truthy raw then Inr now
     else case raw of
       PStr s \<Rightarrow> Inr (case from_iso (replace_z s) of None \<Rightarrow> now | Some t \<Rightarrow> as_utc t)
     | v \<Rightarrow> no_attribute v ''replace'')"

definition alert_details :: "bool \<Rightarrow> pydict \<Rightarrow> pydict \<Rightarrow> string \<Rightarrow> pyval \<Rightarrow> pydict" where
  "alert_details include_labels labels notes alertname status =
     (let d = (if include_labels then [(''labels'', PDict labels)] else []);
         d = (if notes \<noteq> [] then dset ''annotations'' (PDict notes) d else d);
         d = dset ''alertname'' (PStr alertname) d;
         d = (case status of
                PDict st \<Rightarrow> if truthy (pget st ''state'') then dset ''alertmanager_state'' (pget st ''state'') d else d
              | _ \<Rightarrow> d);
         host = por (pget labels ''node'') (pget labels ''instance'')
      in if truthy host then dset ''host'' host d else d)"

definition normalize :: "bool \<Rightarrow> datetime \<Rightarrow> string \<Rightarrow> pydict \<Rightarrow> alert option res" where
  "normalize include_labels now fresh raw =
     bind_res (as_dict (por (pget raw ''labels'') (PDict []))) (\<lambda>labels.
     let annotations = por (pget raw ''annotations'') (PDict []);
         alertname = py_str (por (pget labels ''alertname'') (PStr []))
     in if alertname = [] then Inr None else
     bind_res (as_dict annotations) (\<lambda>notes.
     let sev = severity_map (str_lower (py_str (por (pget labels ''severity'') (PStr ''warning''))));
         summary = py_str (por (por (pget notes ''summary'') (pget notes ''description'')) (PStr alertname));
         status = por (pget raw ''status'') (PDict []);
         rtype = (if truthy (pget labels ''pod'') then PStr ''pod''
                  else if truthy (pget labels ''node'') then PStr ''node''
                  else if truthy (pget labels ''instance'') then PStr ''instance'' else PNone)
     in bind_res (parse_iso now (pget raw ''startsAt'')) (\<lambda>t. Inr (Some
       \<lparr>al_source = ''alertmanager'', al_severity = sev, al_summary = summary,
        al_details = alert_details include_labels labels notes alertname status,
        al_namespace = pget labels ''namespace'', al_resource_type = rtype,
        al_resource_name = por (por (pget labels ''pod'') (pget labels ''node'')) (pget labels ''instance''),
        al_fingerprint = Some (py_str (por (pget raw ''fingerprint'') (PStr []))),
        al_occurred_at = t, al_id = fresh\<rparr>))))"

definition fingerprint_text :: "string option \<Rightarrow> string" where
  "fingerprint_text fp = (case fp of None \<Rightarrow> ''None'' | Some s \<Rightarrow> s)"

definition build_resolution_alert :: "datetime \<Rightarrow> string \<Rightarrow> alert \<Rightarrow> alert" where
  "build_resolution_alert now fresh a =
     \<lparr>al_source = ''alertmanager'', al_severity = SevInfo, al_summary = ''Resolved: '' @ al_summary a,
      al_details = (''resolution'', PBool True) #
        (if truthy (pget (al_details a) ''alertname'') then [(''alertname'', pget (al_details a) ''alertname'')] else []) @
        (if truthy (pget (al_details a) ''host'') then [(''host'', pget (al_details a) ''host'')] else []),
      al_namespace = al_namespace a, al_resource_type = al_resource_type a,
      al_resource_name = al_resource_name a,
      al_fingerprint = Some (fingerprint_text (al_fingerprint a) @ '':resolved''),
      al_occurred_at = now, al_id = fresh\<rparr>"

section \<open>The poller\<close>

text \<open>
  What \<open>urlopen\<close> and \<open>json.loads\<close> gave: a JSON document, one of the errors the source
  catches, or any other exception, which leaves \<open>poll\<close>.
\<close>

datatype fetch = FetchOk pyval | FetchError | FetchRaise pyexn

text \<open>Times of the monotonic clock are microseconds.\<close>

record source =
  so_seen :: "string set"
  so_failures :: nat
  so_backoff_until :: int
  so_active :: "(string \<times> alert) list"

definition source_init :: source where
  "source_init = \<lparr>so_seen = {}, so_failures = 0, so_backoff_until = 0, so_active = []\<rparr>"

definition backoff_seconds :: "int \<Rightarrow> nat \<Rightarrow> int" where
  "backoff_seconds max_backoff failures = min max_backoff (5 * 2 ^ min (failures - 1) 6)"

definition fetch_alerts :: "int \<Rightarrow> int \<Rightarrow> fetch \<Rightarrow> (source, pyval) op" where
  "fetch_alerts max_backoff clock f so = (case f of
     FetchOk v \<Rightarrow> (Inr v, so\<lparr>so_failures := 0, so_backoff_until := 0\<rparr>)
   | FetchError \<Rightarrow>
       (let n = so_failures so + 1
        in (Inr PNone, so\<lparr>so_failures := n, so_backoff_until := clock + seconds (backoff_seconds max_backoff n)\<rparr>))
   | FetchRaise e \<Rightarrow> (Inl e, so))"

text \<open>\<open>for raw in raw_alerts\<close> over whatever the document was.\<close>

definition iterate :: "pyval \<Rightarrow> pyval list res" where
  "iterate v = (case v of PList xs \<Rightarrow> Inr xs
     | PDict d \<Rightarrow> Inr (map (\<lambda>p. PStr (fst p)) d)
     | PStr s \<Rightarrow> Inr (map (\<lambda>c. PStr [c]) s)
     | _ \<Rightarrow> type_error (CHR 0x27 # type_name v @ [CHR 0x27] @ '' object is not iterable''))"

record poll_acc =
  pa_current :: "string set"
  pa_new :: "alert list"

definition poll_item ::
  "bool \<Rightarrow> bool \<Rightarrow> datetime \<Rightarrow> (nat \<Rightarrow> string) \<Rightarrow> pyval \<Rightarrow> poll_acc \<Rightarrow> (source, poll_acc) op" where
  "poll_item tracked include_labels now fresh raw acc =
     st_bind (st_lift (as_dict raw)) (\<lambda>d.
     let fp = py_str (por (pget d ''fingerprint'') (PStr []))
     in if fp = [] then st_return acc else
     st_bind (st_get so_seen) (\<lambda>seen.
     let acc = acc\<lparr>pa_current := insert fp (pa_current acc)\<rparr>
     in if fp \<in> seen then st_return acc else
     st_bind (st_lift (normalize include_labels now (fresh (length (pa_new acc))) d)) (\<lambda>oa.
     case oa of
       None \<Rightarrow> st_return acc
     | Some a \<Rightarrow>
         st_bind (st_modify (\<lambda>so. if tracked then so\<lparr>so_active := dset fp a (so_active so)\<rparr> else so)) (\<lambda>_.
         st_return (acc\<lparr>pa_new := pa_new acc @ [a]\<rparr>)))))"

text \<open>The loop over the fingerprints that disappeared.\<close>

fun resolve_gone ::
  "datetime \<Rightarrow> (nat \<Rightarrow> string) \<Rightarrow> string list \<Rightarrow> source \<times> ledger \<times> alert list \<Rightarrow> source \<times> ledger \<times> alert list" where
  "resolve_gone now fresh [] x = x"
| "resolve_gone now fresh (fp # fps) (so, l, new) =
     (let snapshot = map_of (so_active so) fp; so = so\<lparr>so_active := ddel fp (so_active so)\<rparr>
      in case snapshot of
           None \<Rightarrow> resolve_gone now fresh fps (so, l, new)
         | Some a \<Rightarrow>
             (case ledger_take fp l of
                (True, l') \<Rightarrow> resolve_gone now fresh fps (so, l', new @ [build_resolution_alert now (fresh (length new)) a])
              | (False, l') \<Rightarrow> resolve_gone now fresh fps (so, l', new)))"

text \<open>
  One poll. The ledger is \<open>None\<close> when the source was built without one; \<open>order\<close> is the order
  in which Python walks the set difference.
\<close>

definition poll ::
  "(string set \<Rightarrow> string list) \<Rightarrow> bool \<Rightarrow> int \<Rightarrow> datetime \<Rightarrow> (nat \<Rightarrow> string) \<Rightarrow> int \<Rightarrow> fetch \<Rightarrow>
     ledger option \<Rightarrow> source \<Rightarrow> alert list res \<times> ledger option \<times> source" where
  "poll order include_labels max_backoff now fresh clock f led so =
     (if clock < so_backoff_until so then (Inr [], led, so)
      else case fetch_alerts max_backoff clock f so of
        (Inl e, so) \<Rightarrow> (Inl e, led, so)
      | (Inr PNone, so) \<Rightarrow> (Inr [], led, so)
      | (Inr v, so) \<Rightarrow>
          (case st_bind (st_lift (iterate v)) (\<lambda>raws.
                  st_fold (poll_item (led \<noteq> None) include_labels now fresh) raws
                    \<lparr>pa_current = {}, pa_new = []\<rparr>) so of
             (Inl e, so) \<Rightarrow> (Inl e, led, so)
           | (Inr acc, so) \<Rightarrow>
               (case led of
                  None \<Rightarrow> (Inr (pa_new acc), None, so\<lparr>so_seen := pa_current acc\<rparr>)
                | Some l \<Rightarrow>
                    (case resolve_gone now fresh (order (so_seen so - pa_current acc)) (so, l, pa_new acc) of
                       (so, l, new) \<Rightarrow> (Inr new, Some l, so\<lparr>so_seen := pa_current acc\<rparr>)))))"

section \<open>What a poll emits\<close>

definition is_resolution :: "alert \<Rightarrow> bool" where
  "is_resolution a = truthy (pget (al_details a) ''resolution'')"

lemma build_resolution_is [simp]: "is_resolution (build_resolution_alert now fresh a)"
  by (simp add: is_resolution_def build_resolution_alert_def)

lemma alert_details_resolution [simp]:
  "pget (alert_details incl labels notes name status) ''resolution'' = PNone"
  by (simp add: alert_details_def Let_def split: pyval.split)

lemma normalize_alert:
  assumes "normalize incl now fresh raw = Inr (Some a)"
  shows "al_fingerprint a = Some (py_str (por (pget raw ''fingerprint'') (PStr [])))" "\<not> is_resolution a"
proof -
  obtain labels anns t where "as_dict (por (pget raw ''labels'') (PDict [])) = Inr labels"
    "as_dict (por (pget raw ''annotations'') (PDict [])) = Inr anns"
    "parse_iso now (pget raw ''startsAt'') = Inr t" "py_str (por (pget labels ''alertname'') (PStr [])) \<noteq> []"
    using assms by (auto simp: normalize_def bind_res_Inr_iff Let_def split: if_split_asm)
  with assms show "al_fingerprint a = Some (py_str (por (pget raw ''fingerprint'') (PStr [])))" "\<not> is_resolution a"
    by (auto simp: normalize_def Let_def is_resolution_def)
qed

definition fresh_alert :: "string set \<Rightarrow> string set \<Rightarrow> alert \<Rightarrow> bool" where
  "fresh_alert seen current a = (\<not> is_resolution a \<and>
     (\<exists>fp. al_fingerprint a = Some fp \<and> fp \<noteq> [] \<and> fp \<notin> seen \<and> fp \<in> current))"

lemma poll_item_cases:
  assumes "poll_item tracked incl now fresh raw acc so = (Inr acc', so')"
  obtains (skip) "acc' = acc" "so' = so"
  | (seen) fp where "acc' = acc\<lparr>pa_current := insert fp (pa_current acc)\<rparr>" "so' = so"
  | (fires) fp a where "fp \<noteq> []" "fp \<notin> so_seen so" "al_fingerprint a = Some fp" "\<not> is_resolution a"
      "acc' = acc\<lparr>pa_current := insert fp (pa_current acc), pa_new := pa_new acc @ [a]\<rparr>"
      "so' = (if tracked then so\<lparr>so_active := dset fp a (so_active so)\<rparr> else so)"
proof -
  obtain d where d: "as_dict raw = Inr d"
    using assms by (auto simp: poll_item_def st_bind_Inr st_lift_def)
  let ?fp = "py_str (por (pget d ''fingerprint'') (PStr []))"
  let ?n = "normalize incl now (fresh (length (pa_new acc))) d"
  have r: "poll_item tracked incl now fresh raw acc so =
    (if ?fp = [] then (Inr acc, so)
     else if ?fp \<in> so_seen so then (Inr (acc\<lparr>pa_current := insert ?fp (pa_current acc)\<rparr>), so)
     else case ?n of Inl e \<Rightarrow> (Inl e, so)
       | Inr None \<Rightarrow> (Inr (acc\<lparr>pa_current := insert ?fp (pa_current acc)\<rparr>), so)
       | Inr (Some a) \<Rightarrow> (Inr (acc\<lparr>pa_current := insert ?fp (pa_current acc), pa_new := pa_new acc @ [a]\<rparr>),
           if tracked then so\<lparr>so_active := dset ?fp a (so_active so)\<rparr> else so))"
    by (simp add: poll_item_def d st_defs Let_def split: sum.split option.split)
  show thesis
  proof (cases "?fp = []")
    case True
    then show ?thesis using r assms skip by simp
  next
    case fp: False
    show ?thesis
    proof (cases "?fp \<in> so_seen so")
      case True
      then show ?thesis using r assms seen fp by simp
    next
      case new: False
      show ?thesis
      proof (cases ?n)
        case (Inl e)
        then show ?thesis using r assms fp new by simp
      next
        case (Inr oa)
        show ?thesis
        proof (cases oa)
          case None
          then show ?thesis using r assms fp new seen [of ?fp] Inr by simp
        next
          case (Some a)
          with Inr have n: "?n = Inr (Some a)" by simp
          have "acc' = acc\<lparr>pa_current := insert ?fp (pa_current acc), pa_new := pa_new acc @ [a]\<rparr>"
            "so' = (if tracked then so\<lparr>so_active := dset ?fp a (so_active so)\<rparr> else so)"
            using r assms fp new n by simp_all
          with fires [OF fp new normalize_alert [OF n]] show ?thesis by blast
        qed
      qed
    qed
  qed
qed

lemma fresh_alert_mono: "fresh_alert seen c a \<Longrightarrow> c \<subseteq> d \<Longrightarrow> fresh_alert seen d a"
  by (auto simp: fresh_alert_def)

lemma poll_loop:
  assumes "st_fold (poll_item tracked incl now fresh) raws \<lparr>pa_current = {}, pa_new = []\<rparr> so = (Inr acc, so')"
  shows "so_seen so' = so_seen so" "\<forall>a \<in> set (pa_new acc). fresh_alert (so_seen so) (pa_current acc) a"
proof -
  have "so_seen so' = so_seen so \<and> (\<forall>a \<in> set (pa_new acc). fresh_alert (so_seen so) (pa_current acc) a)"
    using assms
  proof (rule st_fold_inv)
    fix x acc1 s1 acc2 s2
    assume inv: "so_seen s1 = so_seen so \<and> (\<forall>a \<in> set (pa_new acc1). fresh_alert (so_seen so) (pa_current acc1) a)"
      and "poll_item tracked incl now fresh x acc1 s1 = (Inr acc2, s2)"
    from this(2) show "so_seen s2 = so_seen so \<and> (\<forall>a \<in> set (pa_new acc2). fresh_alert (so_seen so) (pa_current acc2) a)"
    proof (cases rule: poll_item_cases)
      case (seen fp)
      then show ?thesis using inv by (auto intro: fresh_alert_mono)
    next
      case (fires fp a)
      then have "fresh_alert (so_seen so) (pa_current acc2) a" using inv by (simp add: fresh_alert_def)
      then show ?thesis using fires inv by (auto intro: fresh_alert_mono)
    qed (use inv in simp)
  qed simp
  then show "so_seen so' = so_seen so" "\<forall>a \<in> set (pa_new acc). fresh_alert (so_seen so) (pa_current acc) a"
    by blast+
qed

lemma resolve_gone_new:
  assumes "resolve_gone now fresh fps (so, l, new) = (so', l', new')"
  shows "\<exists>rs. new' = new @ rs \<and> (\<forall>a \<in> set rs. is_resolution a)"
  using assms
proof (induction fps arbitrary: so l new)
  case (Cons fp fps)
  show ?case
  proof (cases "map_of (so_active so) fp")
    case None
    then show ?thesis using Cons by (simp add: Let_def)
  next
    case (Some a)
    obtain b l1 where t: "ledger_take fp l = (b, l1)" by fastforce
    show ?thesis
    proof (cases b)
      case True
      then have "resolve_gone now fresh fps (so\<lparr>so_active := ddel fp (so_active so)\<rparr>, l1,
          new @ [build_resolution_alert now (fresh (length new)) a]) = (so', l', new')"
        using Cons.prems Some t by (simp add: Let_def)
      from Cons.IH [OF this] show ?thesis by auto
    next
      case False
      then show ?thesis using Cons Some t by (simp add: Let_def)
    qed
  qed
qed simp

text \<open>The three ways a poll can return.\<close>

lemma poll_returns:
  assumes "poll order incl max_backoff now fresh clock f led so = (Inr new, led', so')"
  obtains (idle) "new = []" "led' = led" "so_seen so' = so_seen so"
  | (silent) acc :: poll_acc where "led = None" "led' = None" "new = pa_new acc" "so_seen so' = pa_current acc"
      "\<forall>a \<in> set (pa_new acc). fresh_alert (so_seen so) (pa_current acc) a"
  | (tracked) acc :: poll_acc and so1 so2 :: source and l l' where "led = Some l" "led' = Some l'" "so_seen so' = pa_current acc"
      "\<forall>a \<in> set (pa_new acc). fresh_alert (so_seen so) (pa_current acc) a"
      "resolve_gone now fresh (order (so_seen so - pa_current acc)) (so1, l, pa_new acc) = (so2, l', new)"
proof (cases "clock < so_backoff_until so")
  case True
  then show thesis using assms idle by (simp add: poll_def)
next
  case False
  obtain v so0 where f: "fetch_alerts max_backoff clock f so = (Inr v, so0)"
    using assms False by (auto simp: poll_def split: prod.splits sum.splits)
  have s0: "so_seen so0 = so_seen so" using f by (auto simp: fetch_alerts_def Let_def split: fetch.splits)
  show thesis
  proof (cases "v = PNone")
    case True
    then show thesis using assms False f s0 idle by (simp add: poll_def)
  next
    case v: False
    let ?m = "st_bind (st_lift (iterate v)) (\<lambda>raws. st_fold (poll_item (led \<noteq> None) incl now fresh) raws
        \<lparr>pa_current = {}, pa_new = []\<rparr>)"
    have r: "poll order incl max_backoff now fresh clock f led so = (case ?m so0 of
        (Inl e, so) \<Rightarrow> (Inl e, led, so)
      | (Inr acc, so) \<Rightarrow> (case led of
            None \<Rightarrow> (Inr (pa_new acc), None, so\<lparr>so_seen := pa_current acc\<rparr>)
          | Some l \<Rightarrow> (case resolve_gone now fresh (order (so_seen so - pa_current acc)) (so, l, pa_new acc) of
                 (so, l, new) \<Rightarrow> (Inr new, Some l, so\<lparr>so_seen := pa_current acc\<rparr>))))"
      using False f v by (simp add: poll_def split: pyval.split)
    obtain acc so1 where m: "?m so0 = (Inr acc, so1)"
      using r assms by (cases "?m so0"; cases "fst (?m so0)") auto
    then obtain raws where "st_fold (poll_item (led \<noteq> None) incl now fresh) raws
        \<lparr>pa_current = {}, pa_new = []\<rparr> so0 = (Inr acc, so1)"
      by (auto simp: st_bind_Inr st_lift_def)
    note loop = poll_loop [OF this, unfolded s0]
    show thesis
    proof (cases led)
      case None
      then show thesis using silent [of acc] None loop(2) r m assms by auto
    next
      case (Some l)
      then show thesis using tracked [of l _ acc so1] Some loop r m assms
        by (auto split: prod.splits)
    qed
  qed
qed

lemma resolve_gone_step:
  assumes "resolve_gone now fresh fps (so, l, new) = (so', l', new')" "finite l"
  shows "\<exists>rs. new' = new @ rs \<and> (\<forall>a \<in> set rs. is_resolution a) \<and> l' \<subseteq> l \<and>
    card l = card l' + length rs \<and> l \<subseteq> l' \<union> set fps"
  using assms
proof (induction fps arbitrary: so l new)
  case (Cons fp fps)
  let ?so = "so\<lparr>so_active := ddel fp (so_active so)\<rparr>"
  show ?case
  proof (cases "map_of (so_active so) fp \<noteq> None \<and> fst (ledger_take fp l)")
    case False
    then have "ledger_take fp l = (False, l) \<or> map_of (so_active so) fp = None"
      by (auto simp: ledger_take_def split: if_splits)
    then have "resolve_gone now fresh fps (?so, l, new) = (so', l', new')"
      using Cons.prems(1) by (auto simp: Let_def split: option.splits)
    from Cons.IH [OF this Cons.prems(2)] show ?thesis by auto
  next
    case True
    then obtain a where a: "map_of (so_active so) fp = Some a" and mem: "fp \<in> l"
      and t: "ledger_take fp l = (True, l - {fp})"
      by (auto simp: ledger_take_def split: if_splits)
    let ?r = "build_resolution_alert now (fresh (length new)) a"
    have "resolve_gone now fresh fps (?so, l - {fp}, new @ [?r]) = (so', l', new')"
      using Cons.prems(1) a t by (simp add: Let_def)
    from Cons.IH [OF this] Cons.prems(2) obtain rs where
      rs: "new' = (new @ [?r]) @ rs" "\<forall>a \<in> set rs. is_resolution a" "l' \<subseteq> l - {fp}"
      "card (l - {fp}) = card l' + length rs" "l - {fp} \<subseteq> l' \<union> set fps" by blast
    have "card l = Suc (card (l - {fp}))" using mem Cons.prems(2) by (metis card.remove)
    then have "card l = card l' + length (?r # rs)" using rs(4) by simp
    moreover have "new' = new @ ?r # rs" "\<forall>a \<in> set (?r # rs). is_resolution a" using rs(1,2) by simp_all
    moreover have "l' \<subseteq> l" "l \<subseteq> l' \<union> set (fp # fps)" using rs(3,5) by auto
    ultimately show ?thesis by blast
  qed
qed simp

section \<open>Properties\<close>

text \<open>C15: An alert that fires is emitted once per firing window: what a poll returns, the
  resolutions apart, carries a fingerprint that the previous successful poll did not see and
  that the source now remembers.\<close>

theorem poll_emits_new:
  assumes "poll order incl max_backoff now fresh clock f led so = (Inr new, led', so')"
    and "a \<in> set new" "\<not> is_resolution a"
  shows "\<exists>fp. al_fingerprint a = Some fp \<and> fp \<notin> so_seen so \<and> fp \<in> so_seen so'"
  using assms(1)
proof (cases rule: poll_returns)
  case (silent acc)
  then show ?thesis using assms(2) by (auto simp: fresh_alert_def)
next
  case (tracked acc so1 so2 l l')
  from resolve_gone_new [OF tracked(5)] have "a \<in> set (pa_new acc)" using assms(2,3) by auto
  then show ?thesis using tracked(3,4) by (auto simp: fresh_alert_def)
qed (use assms(2) in simp)

text \<open>C37: The "Resolved:" alerts of a poll are paid for one by one out of the escalation
  ledger: each consumes one escalated fingerprint, only fingerprints that stopped firing in
  this very poll are consumed, and none is resolved twice.\<close>

theorem resolutions_paid_by_ledger:
  assumes "poll order incl max_backoff now fresh clock f (Some l) so = (Inr new, led', so')"
    and "finite l" "set (order (so_seen so - so_seen so')) = so_seen so - so_seen so'"
  shows "\<exists>l'. led' = Some l' \<and> l' \<subseteq> l \<and> l - l' \<subseteq> so_seen so - so_seen so' \<and>
    card l = card l' + length (filter is_resolution new)"
  using assms(1)
proof (cases rule: poll_returns)
  case (tracked acc so1 so2 l0 l')
  have l: "finite l0" "l0 = l" using tracked(1) assms(2) by auto
  obtain rs where "new = pa_new acc @ rs" "\<forall>a \<in> set rs. is_resolution a" "l' \<subseteq> l"
    "card l = card l' + length rs" "l \<subseteq> l' \<union> (so_seen so - pa_current acc)"
    using resolve_gone_step [OF tracked(5) l(1)] assms(3) unfolding l(2) tracked(3) by (metis (full_types))
  moreover have "filter is_resolution (pa_new acc) = []" using tracked(4) by (auto simp: filter_empty_conv fresh_alert_def)
  ultimately show ?thesis using tracked(2,3) by auto
qed (use assms in auto)

text \<open>C22: Backing off: a failed poll reports nothing and keeps the seen alerts, silences
  the source for at most 320 seconds and at most the configured maximum, never for less than
  the failure before it; until then no poll reaches Alertmanager.\<close>

theorem poll_backoff:
  fixes so :: source and max_backoff clock :: int
  defines "wait \<equiv> backoff_seconds max_backoff (so_failures so + 1)"
  defines "so' \<equiv> so\<lparr>so_failures := so_failures so + 1, so_backoff_until := clock + seconds wait\<rparr>"
  assumes "so_backoff_until so \<le> clock"
  shows "poll order incl max_backoff now fresh clock FetchError led so = (Inr [], led, so') \<and>
    wait \<le> max_backoff \<and> wait \<le> 320 \<and> backoff_seconds max_backoff (so_failures so) \<le> wait \<and>
    (clock' < clock + seconds wait \<longrightarrow>
      poll order incl max_backoff now2 fresh clock' f led so' = (Inr [], led, so'))"
proof -
  let ?n = "so_failures so"
  have p: "(2 :: int) ^ min ?n 6 \<le> 2 ^ 6" by (rule power_increasing) auto
  have q: "(2 :: int) ^ min (?n - 1) 6 \<le> 2 ^ min ?n 6" by (rule power_increasing) auto
  have r: "wait = min max_backoff (5 * 2 ^ min ?n 6)" by (simp add: backoff_seconds_def wait_def)
  show ?thesis
  proof (intro conjI impI)
    show "backoff_seconds max_backoff ?n \<le> wait"
      unfolding r backoff_seconds_def using q by (meson min.mono mult_left_mono order_refl zero_le_numeral)
    show "wait \<le> 320" unfolding r using p by simp
    show "wait \<le> max_backoff" unfolding r by simp
    show "poll order incl max_backoff now2 fresh clock' f led so' = (Inr [], led, so')"
      if "clock' < clock + seconds wait" using that by (simp add: poll_def so'_def)
  qed (use assms in \<open>simp add: poll_def fetch_alerts_def Let_def\<close>)
qed

section \<open>Witnesses\<close>

definition sample_raw :: pydict where
  "sample_raw = [(''fingerprint'', PStr ''ab''), (''labels'', PDict [(''alertname'', PStr ''Disk'')])]"

definition sample_firing :: alert where
  "sample_firing = \<lparr>al_source = ''alertmanager'', al_severity = SevWarning, al_summary = ''Disk'',
     al_details = alert_details True [(''alertname'', PStr ''Disk'')] [] ''Disk'' (PDict []),
     al_namespace = PNone, al_resource_type = PNone, al_resource_name = PNone,
     al_fingerprint = Some ''ab'', al_occurred_at = utc 0, al_id = ''id''\<rparr>"

definition sample_source :: source where
  "sample_source = \<lparr>so_seen = {''ab''}, so_failures = 0, so_backoff_until = 0, so_active = [(''ab'', sample_firing)]\<rparr>"

lemmas poll_eval = poll_def fetch_alerts_def iterate_def poll_item_def normalize_def st_defs Let_def
  sample_raw_def source_init_def por_def parse_iso_def severity_map_def str_lower_def lower_char_def
  sample_firing_def sample_source_def ledger_take_def

text \<open>The alert fires, escalates, and is gone from the next poll.\<close>

lemma sample_fires:
  "poll (\<lambda>_. []) True 300 (utc 0) (\<lambda>_. ''id'') 0 (FetchOk (PList [PDict sample_raw])) (Some {}) source_init =
     (Inr [sample_firing], Some {}, sample_source)"
  by (simp add: poll_eval)

lemma sample_clears:
  "poll (\<lambda>_. [''ab'']) True 300 (utc 0) (\<lambda>_. ''id'') 0 (FetchOk (PList [])) (Some {''ab''}) sample_source =
     (Inr [build_resolution_alert (utc 0) ''id'' sample_firing], Some {}, sample_source\<lparr>so_seen := {}, so_active := []\<rparr>)"
  by (simp add: poll_eval ddel_def)

lemma poll_emits_new_witness:
  "\<exists>fp. al_fingerprint sample_firing = Some fp \<and> fp \<notin> so_seen source_init \<and> fp \<in> so_seen sample_source"
  by (rule poll_emits_new [OF sample_fires]) (simp_all add: is_resolution_def sample_firing_def)

lemma resolutions_paid_by_ledger_witness:
  "\<exists>l'. Some {} = Some l' \<and> l' \<subseteq> {''ab''} \<and>
     {''ab''} - l' \<subseteq> so_seen sample_source - so_seen (sample_source\<lparr>so_seen := {}, so_active := []\<rparr>) \<and>
     card {''ab''} = card l' + length (filter is_resolution [build_resolution_alert (utc 0) ''id'' sample_firing])"
  by (rule resolutions_paid_by_ledger [OF sample_clears]) (simp_all add: sample_source_def)

lemma poll_backoff_witness:
  "poll (\<lambda>_. []) True 300 (utc 0) (\<lambda>_. ''id'') 7 FetchError None source_init =
     (Inr [], None, source_init\<lparr>so_failures := so_failures source_init + 1,
        so_backoff_until := 7 + seconds (backoff_seconds 300 (so_failures source_init + 1))\<rparr>)"
proof -
  have "so_backoff_until source_init \<le> 7" by (simp add: source_init_def)
  from poll_backoff [OF this, of "\<lambda>_. []" True 300 "utc 0" "\<lambda>_. ''id''" None 0 "utc 0" FetchError]
  show ?thesis by blast
qed

end
