(* ===== verification/Notify.thy ===== *)
theory Notify
  imports Models
begin

text \<open>
  Notifications, \<open>event_runtime/notifications.py\<close>: which completed actions notify, the text
  of a message, the line that hands an investigation over to a terminal, and the requests the
  Slack and ntfy sinks send. The outcome of the webhook POST is an argument.
\<close>

section \<open>The hand-over line\<close>

text \<open>
  \<open>str.isdigit\<close> also holds of the superscript digits, on which \<open>int()\<close> then raises.
\<close>

definition isdigit_text :: "string \<Rightarrow> bool" where
  "isdigit_text s = (s \<noteq> [] \<and> list_all (\<lambda>c. is_digit c \<or> (of_char c :: nat) \<in> {178, 179, 185}) s)"

definition coerce_investigation_id :: "pyval \<Rightarrow> int option res" where
  "coerce_investigation_id raw = (case raw of
     PBool _ \<Rightarrow> Inr None
   | PInt i \<Rightarrow> Inr (if i > 0 then Some i else None)
   | _ \<Rightarrow>
       (let txt = str_strip (py_str (por raw (PStr [])))
        in if \<not> isdigit_text txt then Inr None
           else case parse_int txt of
             None \<Rightarrow> value_error (''invalid literal for int() with base 10: '' @ repr_str txt)
           | Some n \<Rightarrow> Inr (if n > 0 then Some n else None)))"

definition attach_prefix :: string where
  "attach_prefix = ''Take over: cfassist attach ''"

definition details_or_empty :: "pydict option \<Rightarrow> pydict" where
  "details_or_empty details = (case details of None \<Rightarrow> [] | Some d \<Rightarrow> d)"

definition attach_hint :: "pydict option \<Rightarrow> string res" where
  "attach_hint details =
     (case por (pget (details_or_empty details) ''result_details'') (PDict []) of
        PDict rd \<Rightarrow> bind_res (coerce_investigation_id (pget rd ''investigation_id'')) (\<lambda>r.
          Inr (case r of None \<Rightarrow> [] | Some n \<Rightarrow> attach_prefix @ int_str n))
      | _ \<Rightarrow> Inr [])"

section \<open>Attribution and text\<close>

definition triage_attribution :: "pydict option \<Rightarrow> pyval res" where
  "triage_attribution details = (case details of
     None \<Rightarrow> Inr (PStr [])
   | Some d \<Rightarrow> if d = [] then Inr (PStr []) else
       bind_res (as_dict (por (pget d ''decision_params'') (PDict []))) (\<lambda>params.
       let backend = por (pget params ''triage_backend'') (PStr []);
           model = por (pget params ''triage_model'') (PStr [])
       in Inr (if truthy backend \<and> truthy model then PStr (py_str backend @ ''/'' @ py_str model)
               else por backend model)))"

definition served_attribution :: "pydict option \<Rightarrow> string res" where
  "served_attribution details = (case details of
     None \<Rightarrow> Inr []
   | Some d \<Rightarrow> if d = [] then Inr [] else
       bind_res (as_dict (por (pget d ''result_details'') (PDict []))) (\<lambda>rd.
       Inr (str_strip (py_str (por (pget rd ''provider'') (PStr []))))))"

definition link_keys :: "string list" where
  "link_keys = [''html_url'', ''pr_number'', ''issue_number'', ''url'', ''investigation_url'', ''investigation_id'']"

definition inline_sep :: string where
  "inline_sep = [CHR '' '', CHR '' '', CHR 0xB7, CHR '' '', CHR '' '']"

definition line_of :: "string \<Rightarrow> pyval \<Rightarrow> string list" where
  "line_of label v = (if truthy v then [label @ py_str v] else [])"

definition message_line :: "string \<Rightarrow> string \<Rightarrow> pydict \<Rightarrow> string \<Rightarrow> string \<Rightarrow> pyval \<Rightarrow> string" where
  "message_line summary sev d recommendation served triage =
     (let alert_summary = por (pget_or d ''alert_summary'' (PStr [])) (PStr summary)
      in (if truthy (pget d ''resolution'') then '':white_check_mark: Resolved: '' @ py_str alert_summary
          else ''['' @ sev @ ''] '' @ py_str alert_summary) @
         (if recommendation \<noteq> [] then inline_sep @ ''recommend: '' @ recommendation else []) @
         (if served \<noteq> [] then inline_sep @ ''investigated by '' @ served else []) @
         (if truthy triage then inline_sep @ ''triaged by '' @ py_str triage else []))"

definition message_parts ::
  "string \<Rightarrow> pydict \<Rightarrow> string \<Rightarrow> string \<Rightarrow> pyval \<Rightarrow> pydict \<Rightarrow> string \<Rightarrow> string list" where
  "message_parts summary d recommendation served triage rd hint =
     [summary] @
     line_of (if truthy (pget d ''resolution'') then ''Resolved: '' else ''Alert: '') (pget_or d ''alert_summary'' (PStr [])) @
     line_of ''Action: '' (pget_or d ''action'' (PStr [])) @
     line_of ''Result: '' (pget_or d ''result_message'' (PStr [])) @
     line_of ''Recommendation: '' (PStr recommendation) @
     line_of ''Investigated by: '' (PStr served) @
     line_of ''Triaged by: '' triage @
     map (\<lambda>k. k @ '': '' @ py_str (pget rd k)) (filter (has_key rd) link_keys) @
     (if hint \<noteq> [] then [hint] else [])"

definition newline :: string where
  "newline = [CHR 0x0A]"

definition format_message :: "string \<Rightarrow> string \<Rightarrow> pydict option \<Rightarrow> string res" where
  "format_message summary sev details =
     bind_res (triage_attribution details) (\<lambda>triage.
     bind_res (served_attribution details) (\<lambda>served.
     (case details of
        None \<Rightarrow> Inr summary
      | Some d \<Rightarrow>
         if d = [] then Inr summary else
         (let recommendation = str_strip (py_str (por (pget d ''recommendation'') (PStr [])))
          in if pget d ''action'' = PStr ''notify''
             then Inr (message_line summary sev d recommendation served triage)
             else bind_res (as_dict (por (pget d ''result_details'') (PDict []))) (\<lambda>rd.
               bind_res (attach_hint details) (\<lambda>hint.
               Inr (str_join newline (message_parts summary d recommendation served triage rd hint))))))))"

definition should_notify :: "string \<Rightarrow> bool \<Rightarrow> bool \<Rightarrow> string list \<Rightarrow> bool" where
  "should_notify action success quiet skip_actions =
     (if quiet then False else if action \<in> set skip_actions then False else True)"

definition default_skip_actions :: "string list" where
  "default_skip_actions = [''log_only'']"

section \<open>The sinks\<close>

text \<open>What a POST came to: a response status, or an error the sinks swallow.\<close>

datatype post = PostStatus nat | PostFailed

definition post_webhook :: "post \<Rightarrow> bool" where
  "post_webhook p = (case p of PostStatus st \<Rightarrow> 200 \<le> st \<and> st < 300 | PostFailed \<Rightarrow> False)"

definition slack_emoji :: "string \<Rightarrow> string" where
  "slack_emoji sev = (if sev = ''info'' then '':information_source:''
     else if sev = ''warning'' then '':warning:''
     else if sev = ''critical'' then '':rotating_light:'' else '':robot_face:'')"

text \<open>The request of a sink, if it makes one, and what the sink reports for its outcome.\<close>

definition slack_notify ::
  "string \<Rightarrow> string \<Rightarrow> string \<Rightarrow> pydict option \<Rightarrow> post \<Rightarrow> (bool \<times> (string \<times> pydict) option) res" where
  "slack_notify webhook_url summary sev details p =
     (if webhook_url = [] then Inr (False, None)
      else bind_res (format_message summary sev details) (\<lambda>txt.
        Inr (post_webhook p, Some (webhook_url, [(''text'', PStr (slack_emoji sev @
          '' *CFOperator Event Runtime*'' @ newline @ txt))]))))"

record ntfy =
  nt_base_url :: string
  nt_topic :: string
  nt_title :: string
  nt_priority_map :: "(string \<times> string) list"
  nt_tags_map :: "(string \<times> string) list"
  nt_token :: string
  nt_default_priority :: string

definition strip_slashes :: "string \<Rightarrow> string" where
  "strip_slashes s = rstrip_by (\<lambda>c. c = CHR ''/'') (lstrip_by (\<lambda>c. c = CHR ''/'') s)"

definition ntfy_init :: "string \<Rightarrow> string \<Rightarrow> string option \<Rightarrow> (string \<times> string) list option \<Rightarrow>
    (string \<times> string) list option \<Rightarrow> string \<Rightarrow> string option \<Rightarrow> ntfy" where
  "ntfy_init base_url topic title priority_map tags_map token default_priority =
     \<lparr>nt_base_url = rstrip_by (\<lambda>c. c = CHR ''/'') base_url,
      nt_topic = strip_slashes (str_strip topic),
      nt_title = (case title of None \<Rightarrow> ''CFOperator Event Runtime'' | Some t \<Rightarrow> t),
      nt_priority_map = (case priority_map of
         None \<Rightarrow> [(''info'', ''3''), (''warning'', ''4''), (''critical'', ''5'')] | Some m \<Rightarrow> m),
      nt_tags_map = (case tags_map of
         None \<Rightarrow> [(''info'', ''information_source''), (''warning'', ''warning''), (''critical'', ''rotating_light'')]
       | Some m \<Rightarrow> m),
      nt_token = token,
      nt_default_priority = (case default_priority of None \<Rightarrow> ''3'' | Some p \<Rightarrow> p)\<rparr>"

definition ntfy_url :: "ntfy \<Rightarrow> string" where
  "ntfy_url n = (if nt_base_url n = [] \<or> nt_topic n = [] then [] else nt_base_url n @ ''/'' @ nt_topic n)"

definition ntfy_headers :: "ntfy \<Rightarrow> string \<Rightarrow> (string \<times> string) list" where
  "ntfy_headers n sev =
     (let priority = (case map_of (nt_priority_map n) sev of None \<Rightarrow> nt_default_priority n | Some p \<Rightarrow> p);
          tags = (case map_of (nt_tags_map n) sev of None \<Rightarrow> [] | Some t \<Rightarrow> t)
      in [(''Content-Type'', ''text/plain; charset=utf-8'')] @
         (if nt_title n \<noteq> [] then [(''X-Title'', nt_title n)] else []) @
         (if priority \<noteq> [] then [(''X-Priority'', priority)] else []) @
         (if tags \<noteq> [] then [(''X-Tags'', tags)] else []) @
         (if nt_token n \<noteq> [] then [(''Authorization'', ''Bearer '' @ nt_token n)] else []))"

definition ntfy_notify ::
  "ntfy \<Rightarrow> string \<Rightarrow> string \<Rightarrow> pydict option \<Rightarrow> post \<Rightarrow>
     (bool \<times> (string \<times> string \<times> (string \<times> string) list) option) res" where
  "ntfy_notify n summary sev details p =
     (if ntfy_url n = [] then Inr (False, None)
      else bind_res (format_message summary sev details) (\<lambda>txt.
        Inr (post_webhook p, Some (ntfy_url n, txt, ntfy_headers n sev))))"

section \<open>Properties\<close>

lemma coerce_positive: "coerce_investigation_id raw = Inr (Some n) \<Longrightarrow> 0 < n"
  by (cases raw) (auto simp: coerce_investigation_id_def Let_def value_error_def split: if_splits option.splits)

lemma attach_hint_shape:
  assumes "attach_hint details = Inr hint" "hint \<noteq> []"
  shows "\<exists>n. hint = attach_prefix @ int_str n \<and> 0 < n"
proof -
  obtain raw r where "coerce_investigation_id raw = Inr r"
    and "hint = (case r of None \<Rightarrow> [] | Some n \<Rightarrow> attach_prefix @ int_str n)"
    using assms by (auto simp: attach_hint_def bind_res_Inr_iff split: pyval.split_asm)
  with assms(2) show ?thesis by (cases r) (auto dest: coerce_positive)
qed

lemma message_parts_hint:
  "hint \<noteq> [] \<Longrightarrow> \<exists>xs. message_parts summary d rec served triage rd hint = (summary # xs) @ [hint]"
  unfolding message_parts_def by (simp only: append_assoc [symmetric] append_Cons append_Nil) auto

lemma str_join_snoc: "xs \<noteq> [] \<Longrightarrow> str_join sep (xs @ [x]) = str_join sep xs @ sep @ x"
  by (induction sep xs rule: str_join.induct) auto

text \<open>C27: The hand-over line. The message of any action but \<open>notify\<close> whose result carries an
  investigation ends with \<open>cfassist attach\<close> and that id on a line of its own; the id printed is
  always a positive integer, so nobody is given a command like \<open>cfassist attach None\<close>.\<close>

theorem attach_line_is_last:
  assumes "format_message summary sev (Some d) = Inr msg" "d \<noteq> []" "pget d ''action'' \<noteq> PStr ''notify''"
    and "attach_hint (Some d) = Inr hint" "hint \<noteq> []"
  shows "\<exists>body n. msg = body @ newline @ attach_prefix @ int_str n \<and> 0 < n"
proof -
  obtain n where n: "hint = attach_prefix @ int_str n" "0 < n" using attach_hint_shape assms(4,5) by blast
  obtain rec served triage rd where "msg = str_join newline (message_parts summary d rec served triage rd hint)"
    using assms by (auto simp: format_message_def bind_res_Inr_iff Let_def)
  then obtain xs where "msg = str_join newline ((summary # xs) @ [hint])"
    using message_parts_hint [OF assms(5)] by metis
  then show ?thesis using n by (subst (asm) str_join_snoc) auto
qed

lemma attach_line_is_last_witness:
  "\<exists>body n. ''done'' @ newline @ ''Action: investigate'' @ newline @ ''investigation_id: 42'' @ newline @
      ''Take over: cfassist attach 42'' = body @ newline @ attach_prefix @ int_str n \<and> 0 < n"
  by (rule attach_line_is_last [where summary = "''done''" and sev = "''info''" and hint = "''Take over: cfassist attach 42''"
      and d = "[(''action'', PStr ''investigate''), (''result_details'', PDict [(''investigation_id'', PInt 42)])]"];
    code_simp)

text \<open>
  A superscript digit passes the \<open>isdigit\<close> guard and then raises in \<open>int()\<close>, so the whole
  message is lost, not only its last line.
\<close>

lemma coerce_superscript_raises:
  "\<exists>e. coerce_investigation_id (PStr [CHR 0xB2]) = Inl e"
  "\<exists>e. format_message s sev (Some [(''result_details'', PDict [(''investigation_id'', PStr [CHR 0xB2])])]) = Inl e"
  by (simp_all add: coerce_investigation_id_def isdigit_text_def str_strip_def lstrip_by_def rstrip_by_def
      py_space_def is_digit_def parse_int_def parse_nat_def value_error_def por_def Let_def format_message_def
      triage_attribution_def served_attribution_def attach_hint_def details_or_empty_def)

end
