(* ===== verification/Dedupe_Policy.thy ===== *)
theory Dedupe_Policy
  imports Models "HOL-Library.Multiset"
begin

text \<open>
  Duplicate suppression, \<open>event_runtime/dedupe.py\<close>: a JSON-file-backed map from fingerprint to
  expiry timestamp, and the two policies over it, the cooldown and the recurrence window.
  The locale \<open>window_policy\<close> states what both promise; the rule that two admissions of one
  fingerprint are a window apart is proved once inside it.
\<close>

section \<open>The fingerprint state\<close>

text \<open>
  \<open>xp_disk\<close> is the parsed JSON file, \<open>None\<close> when it is missing or unreadable. Expiries are the
  ISO text the code stores.
\<close>

record expiring =
  xp_state :: "(string \<times> string) list"
  xp_disk :: "pyval option"

definition load_state :: "pyval option \<Rightarrow> (string \<times> string) list" where
  "load_state disk = (case disk of
     Some (PDict d) \<Rightarrow> map (\<lambda>p. (fst p, py_str (snd p))) d
   | _ \<Rightarrow> [])"

definition persist_state :: "expiring \<Rightarrow> expiring" where
  "persist_state x = x\<lparr>xp_disk := Some (PDict (map (\<lambda>p. (fst p, PStr (snd p)))
     (sort_key fst (xp_state x))))\<rparr>"

definition open_state :: "pyval option \<Rightarrow> expiring" where
  "open_state disk = \<lparr>xp_state = load_state disk, xp_disk = disk\<rparr>"

text \<open>An unreadable expiry is stale; a naive one makes the comparison raise.\<close>

definition stale :: "datetime \<Rightarrow> string \<Rightarrow> bool res" where
  "stale now expires = (case from_iso expires of None \<Rightarrow> Inr True | Some t \<Rightarrow> dt_le t now)"

definition prune :: "datetime \<Rightarrow> expiring \<Rightarrow> expiring res" where
  "prune now x = bind_res (map_res (\<lambda>p. stale now (snd p)) (xp_state x)) (\<lambda>marks.
     Inr (x\<lparr>xp_state := map fst (filter (\<lambda>q. \<not> snd q) (zip (xp_state x) marks))\<rparr>))"

definition claim :: "string \<Rightarrow> datetime \<Rightarrow> datetime \<Rightarrow> expiring \<Rightarrow> string option res \<times> expiring" where
  "claim fp now expires x = (case prune now x of
     Inl e \<Rightarrow> (Inl e, x)
   | Inr y \<Rightarrow>
       (case map_of (xp_state y) fp of
          Some (c # cs) \<Rightarrow> (Inr (Some (c # cs)), y)
        | _ \<Rightarrow> (Inr None, persist_state (y\<lparr>xp_state := dset fp (isoformat expires) (xp_state y)\<rparr>))))"

section \<open>The two policies\<close>

definition evaluate_window ::
  "string \<Rightarrow> (string \<Rightarrow> string) \<Rightarrow> int \<Rightarrow> alert \<Rightarrow> int \<Rightarrow> expiring \<Rightarrow> (bool \<times> string option) res \<times> expiring" where
  "evaluate_window prefix sha window a now x = (case dt_add (utc now) window of
     Inl e \<Rightarrow> (Inl e, x)
   | Inr expires \<Rightarrow>
       (case claim (effective_fingerprint sha a) (utc now) expires x of
          (Inl e, y) \<Rightarrow> (Inl e, y)
        | (Inr (Some current), y) \<Rightarrow> (Inr (False, Some (prefix @ current)), y)
        | (Inr None, y) \<Rightarrow> (Inr (True, None), y)))"

definition cooldown_evaluate ::
  "(string \<Rightarrow> string) \<Rightarrow> int \<Rightarrow> alert \<Rightarrow> int \<Rightarrow> expiring \<Rightarrow> (bool \<times> string option) res \<times> expiring" where
  "cooldown_evaluate sha cooldown a now x =
     evaluate_window ''duplicate suppressed until '' sha cooldown a now x"

definition recurrence_window :: "int \<Rightarrow> int \<Rightarrow> alert \<Rightarrow> int" where
  "recurrence_window window critical a =
     (if severity_value (al_severity a) = ''critical'' then critical else window)"

definition recurrence_evaluate ::
  "(string \<Rightarrow> string) \<Rightarrow> int \<Rightarrow> int \<Rightarrow> alert \<Rightarrow> int \<Rightarrow> expiring \<Rightarrow> (bool \<times> string option) res \<times> expiring" where
  "recurrence_evaluate sha window critical a now x =
     evaluate_window ''recurring finding suppressed until '' sha (recurrence_window window critical a) a now x"

definition policy_health :: "expiring \<Rightarrow> nat" where
  "policy_health x = length (xp_state x)"

section \<open>What a window policy promises\<close>

text \<open>
  \<open>expiry s k\<close> is when the key \<open>k\<close> may be admitted again, \<open>live\<close> drops what has expired.
\<close>

definition live :: "int \<Rightarrow> (string \<Rightarrow> int option) \<Rightarrow> string \<Rightarrow> int option" where
  "live now m k = (case m k of None \<Rightarrow> None | Some e \<Rightarrow> if e \<le> now then None else Some e)"

text \<open>A policy asked about a series of alerts: which of them it admitted.\<close>

fun run_policy :: "(alert \<Rightarrow> int \<Rightarrow> 's \<Rightarrow> (bool \<times> string option) res \<times> 's) \<Rightarrow>
    (alert \<times> int) list \<Rightarrow> 's \<Rightarrow> bool list \<times> 's" where
  "run_policy ev [] s = ([], s)"
| "run_policy ev ((a, now) # es) s = (case ev a now s of
     (r, s') \<Rightarrow> (case run_policy ev es s' of
        (bs, s'') \<Rightarrow> ((case r of Inr (b, _) \<Rightarrow> b | Inl _ \<Rightarrow> False) # bs, s'')))"

definition timely :: "(alert \<Rightarrow> int \<Rightarrow> bool) \<Rightarrow> int \<Rightarrow> (alert \<times> int) list \<Rightarrow> bool" where
  "timely ok t es = (sorted (t # map snd es) \<and> (\<forall>(a, now) \<in> set es. ok a now))"

locale window_policy =
  fixes evaluate :: "alert \<Rightarrow> int \<Rightarrow> 's \<Rightarrow> (bool \<times> string option) res \<times> 's"
    and key :: "alert \<Rightarrow> string"
    and window :: "alert \<Rightarrow> int"
    and expiry :: "'s \<Rightarrow> string \<Rightarrow> int option"
    and inv :: "'s \<Rightarrow> bool"
    and ok :: "alert \<Rightarrow> int \<Rightarrow> bool"
  assumes admit: "inv s \<Longrightarrow> ok a now \<Longrightarrow> live now (expiry s) (key a) = None \<Longrightarrow>
      \<exists>s'. evaluate a now s = (Inr (True, None), s') \<and> inv s' \<and>
        expiry s' = (live now (expiry s))(key a \<mapsto> now + seconds (window a))"
    and refuse: "inv s \<Longrightarrow> ok a now \<Longrightarrow> live now (expiry s) (key a) = Some e \<Longrightarrow>
      \<exists>s' why. evaluate a now s = (Inr (False, Some why), s') \<and> inv s' \<and> expiry s' = live now (expiry s)"
begin

lemma step:
  assumes "inv s" "ok a now"
  obtains s' b why where "evaluate a now s = (Inr (b, why), s')" "inv s'"
    "b \<longleftrightarrow> live now (expiry s) (key a) = None"
    "expiry s' = (if b then (live now (expiry s))(key a \<mapsto> now + seconds (window a)) else live now (expiry s))"
proof (cases "live now (expiry s) (key a)")
  case None
  then show thesis using admit [OF assms None] that by fastforce
next
  case (Some e)
  then show thesis using refuse [OF assms Some] that by fastforce
qed

text \<open>While a key is held, nothing is admitted under it.\<close>

lemma held:
  "inv s \<Longrightarrow> timely ok t es \<Longrightarrow> expiry s k = Some e \<Longrightarrow> i < length es \<Longrightarrow> key (fst (es ! i)) = k \<Longrightarrow>
     fst (run_policy evaluate es s) ! i \<Longrightarrow> e \<le> snd (es ! i)"
proof (induction es arbitrary: s t i)
  case Nil
  then show ?case by simp
next
  case (Cons ev es)
  obtain a now where ev: "ev = (a, now)" by (cases ev)
  have ok: "ok a now" and tl: "timely ok now es" and le: "\<And>j. j < length es \<Longrightarrow> now \<le> snd (es ! j)"
    using Cons.prems(2) unfolding ev by (auto simp: timely_def)
  obtain s' b why where st: "evaluate a now s = (Inr (b, why), s')" "inv s'"
    and b: "b \<longleftrightarrow> live now (expiry s) (key a) = None"
    and e': "expiry s' = (if b then (live now (expiry s))(key a \<mapsto> now + seconds (window a)) else live now (expiry s))"
    using step [OF Cons.prems(1) ok] .
  show ?case
  proof (cases i)
    case 0
    then have "b" "key a = k" using Cons.prems(5,6) st(1) ev by (auto split: prod.splits)
    then show ?thesis using b Cons.prems(3) 0 ev by (auto simp: live_def split: if_splits)
  next
    case (Suc j)
    show ?thesis
    proof (cases "e \<le> now")
      case True
      have "j < length es" using Cons.prems(4) Suc by simp
      from le [OF this] True show ?thesis using Suc by simp
    next
      case False
      then have "live now (expiry s) k = Some e" using Cons.prems(3) by (simp add: live_def)
      moreover from this have "\<not> (b \<and> key a = k)" using b by auto
      ultimately have "expiry s' k = Some e" using e' by auto
      moreover have "fst (run_policy evaluate es s') ! j" using Cons.prems(6) st(1) ev Suc by (auto split: prod.splits)
      ultimately show ?thesis
        using Cons.IH [OF st(2) tl, of j] Cons.prems(4,5) Suc by simp
    qed
  qed
qed

text \<open>Two admissions of one key are at least the first one's window apart.\<close>

lemma spaced:
  "inv s \<Longrightarrow> timely ok t es \<Longrightarrow> i < j \<Longrightarrow> j < length es \<Longrightarrow> fst (run_policy evaluate es s) ! i \<Longrightarrow> fst (run_policy evaluate es s) ! j \<Longrightarrow>
     key (fst (es ! i)) = key (fst (es ! j)) \<Longrightarrow>
     snd (es ! i) + seconds (window (fst (es ! i))) \<le> snd (es ! j)"
proof (induction es arbitrary: s t i j)
  case Nil
  then show ?case by simp
next
  case (Cons ev es)
  obtain a now where ev: "ev = (a, now)" by (cases ev)
  have ok: "ok a now" and tl: "timely ok now es"
    using Cons.prems(2) unfolding ev by (auto simp: timely_def)
  obtain s' b why where st: "evaluate a now s = (Inr (b, why), s')" "inv s'"
    and b: "b \<longleftrightarrow> live now (expiry s) (key a) = None"
    and e': "expiry s' = (if b then (live now (expiry s))(key a \<mapsto> now + seconds (window a)) else live now (expiry s))"
    using step [OF Cons.prems(1) ok] .
  have fr: "fst (run_policy evaluate (ev # es) s) = b # fst (run_policy evaluate es s')" using st(1) ev by (simp split: prod.splits)
  obtain j' where j: "j = Suc j'" using Cons.prems(3) by (cases j) auto
  have len: "j' < length es" using Cons.prems(4) j by simp
  have adm: "fst (run_policy evaluate es s') ! j'" using Cons.prems(6) fr j by simp
  show ?case
  proof (cases i)
    case 0
    then have "b" using Cons.prems(5) fr by simp
    then have "expiry s' (key a) = Some (now + seconds (window a))" using e' by simp
    from held [OF st(2) tl this len _ adm] show ?thesis
      using Cons.prems(7) 0 j ev by simp
  next
    case (Suc i')
    then show ?thesis
      using Cons.IH [OF st(2) tl, of i' j'] Cons.prems(3,5,7) len adm fr j by simp
  qed
qed

end

section \<open>The code's policies keep the promise\<close>

text \<open>Every stored expiry reads back as an aware datetime, and keys are unique.\<close>

definition xp_inv :: "expiring \<Rightarrow> bool" where
  "xp_inv x = (is_dict (xp_state x) \<and>
     (\<forall>p \<in> set (xp_state x). \<exists>t. from_iso (snd p) = Some t \<and> tz_off t \<noteq> None))"

definition xp_expiry :: "expiring \<Rightarrow> string \<Rightarrow> int option" where
  "xp_expiry x k = map_option (\<lambda>s. instant (case from_iso s of Some t \<Rightarrow> t | None \<Rightarrow> utc 0)) (map_of (xp_state x) k)"

definition keep_live :: "int \<Rightarrow> string \<times> string \<Rightarrow> bool" where
  "keep_live now p = (case from_iso (snd p) of None \<Rightarrow> False | Some t \<Rightarrow> now < instant t)"

lemma map_res_total: "(\<And>x. x \<in> set xs \<Longrightarrow> f x = Inr (g x)) \<Longrightarrow> map_res f xs = Inr (map g xs)"
  by (induction xs) auto

lemma filter_zip_map: "map fst (filter (\<lambda>q. \<not> snd q) (zip xs (map g xs))) = filter (\<lambda>x. \<not> g x) xs"
  by (induction xs) auto

lemma prune_inv:
  assumes "xp_inv x"
  shows "prune (utc now) x = Inr (x\<lparr>xp_state := filter (keep_live now) (xp_state x)\<rparr>)"
proof -
  have "stale (utc now) (snd p) = Inr (\<not> keep_live now p)" if "p \<in> set (xp_state x)" for p
    using that assms
    by (auto simp: xp_inv_def stale_def keep_live_def dt_le_def utc_def not_less instant_def seconds_def
        split: option.splits)
  then have "map_res (\<lambda>p. stale (utc now) (snd p)) (xp_state x) =
      Inr (map (\<lambda>p. \<not> keep_live now p) (xp_state x))"
    by (rule map_res_total)
  then show ?thesis by (simp add: prune_def filter_zip_map)
qed

lemma expiry_pruned:
  assumes "xp_inv x"
  shows "xp_expiry (x\<lparr>xp_state := filter (keep_live now) (xp_state x)\<rparr>) = live now (xp_expiry x)"
proof
  fix k
  show "xp_expiry (x\<lparr>xp_state := filter (keep_live now) (xp_state x)\<rparr>) k = live now (xp_expiry x) k"
    using assms
    by (fastforce simp: xp_expiry_def live_def map_of_filter_dict xp_inv_def keep_live_def
        split: option.splits dest: map_of_SomeD)
qed

lemma xp_inv_pruned: "xp_inv x \<Longrightarrow> xp_inv (x\<lparr>xp_state := filter f (xp_state x)\<rparr>)"
  by (auto simp: xp_inv_def)

lemma xp_inv_persist [simp]: "xp_inv (persist_state x) = xp_inv x"
  by (simp add: xp_inv_def persist_state_def)

lemma xp_expiry_persist [simp]: "xp_expiry (persist_state x) = xp_expiry x"
  by (simp add: xp_expiry_def persist_state_def fun_eq_iff)

lemma xp_inv_dset:
  "xp_inv x \<Longrightarrow> valid_datetime (utc e) \<Longrightarrow> xp_inv (x\<lparr>xp_state := dset fp (isoformat (utc e)) (xp_state x)\<rparr>)"
  using set_dset [of fp "isoformat (utc e)" "xp_state x"]
  by (auto simp: xp_inv_def from_iso_isoformat utc_def)

lemma xp_expiry_dset:
  "valid_datetime (utc e) \<Longrightarrow>
     xp_expiry (x\<lparr>xp_state := dset fp (isoformat (utc e)) (xp_state x)\<rparr>) = (xp_expiry x)(fp \<mapsto> e)"
  by (auto simp: xp_expiry_def from_iso_isoformat fun_eq_iff)

definition clock_ok :: "(alert \<Rightarrow> int) \<Rightarrow> alert \<Rightarrow> int \<Rightarrow> bool" where
  "clock_ok window a now = valid_datetime (utc (now + seconds (window a)))"

lemma evaluate_admits:
  assumes "xp_inv x" "valid_datetime (utc (now + seconds w))"
    and "live now (xp_expiry x) (effective_fingerprint sha a) = None"
  shows "\<exists>y. evaluate_window pre sha w a now x = (Inr (True, None), y) \<and> xp_inv y \<and>
    xp_expiry y = (live now (xp_expiry x))(effective_fingerprint sha a \<mapsto> now + seconds w)"
proof -
  let ?y = "x\<lparr>xp_state := filter (keep_live now) (xp_state x)\<rparr>"
  let ?z = "?y\<lparr>xp_state := dset (effective_fingerprint sha a) (isoformat (utc (now + seconds w))) (xp_state ?y)\<rparr>"
  have "xp_expiry ?y (effective_fingerprint sha a) = None" using assms(1,3) by (simp only: expiry_pruned)
  then have "map_of (xp_state ?y) (effective_fingerprint sha a) = None" by (simp only: xp_expiry_def option.map_disc_iff)
  then have "claim (effective_fingerprint sha a) (utc now) (utc (now + seconds w)) x = (Inr None, persist_state ?z)"
    by (simp add: claim_def prune_inv [OF assms(1)])
  moreover have "xp_inv ?y" using assms(1) by (rule xp_inv_pruned)
  then have "xp_inv ?z" using assms(2) by (rule xp_inv_dset)
  moreover have "xp_expiry ?z = (xp_expiry ?y)(effective_fingerprint sha a \<mapsto> now + seconds w)"
    using assms(2) by (rule xp_expiry_dset)
  ultimately show ?thesis
    by (simp add: evaluate_window_def dt_add_utc [OF assms(2)] expiry_pruned [OF assms(1)])
qed

lemma evaluate_refuses:
  assumes "xp_inv x" "valid_datetime (utc (now + seconds w))"
    and "live now (xp_expiry x) (effective_fingerprint sha a) = Some e"
  shows "\<exists>y. (\<exists>why. evaluate_window pre sha w a now x = (Inr (False, Some why), y)) \<and> xp_inv y \<and>
    xp_expiry y = live now (xp_expiry x)"
proof -
  let ?y = "x\<lparr>xp_state := filter (keep_live now) (xp_state x)\<rparr>"
  have "xp_expiry ?y (effective_fingerprint sha a) = Some e" using assms(1,3) by (simp only: expiry_pruned)
  then obtain s where s: "map_of (xp_state ?y) (effective_fingerprint sha a) = Some s"
    by (auto simp: xp_expiry_def)
  then have "(effective_fingerprint sha a, s) \<in> set (xp_state ?y)" by (rule map_of_SomeD)
  then obtain t where "from_iso s = Some t" using assms(1) by (auto simp: xp_inv_def)
  moreover have "from_iso [] = None" by (simp add: from_iso_def parse_date_def take_num_def)
  ultimately obtain c cs where "s = c # cs" by (cases s) auto
  with s have "claim (effective_fingerprint sha a) (utc now) (utc (now + seconds w)) x = (Inr (Some s), ?y)"
    by (simp add: claim_def prune_inv [OF assms(1)])
  moreover have "xp_inv ?y" using assms(1) by (rule xp_inv_pruned)
  ultimately show ?thesis
    by (simp add: evaluate_window_def dt_add_utc [OF assms(2)] expiry_pruned [OF assms(1)])
qed

interpretation cooldown: window_policy "cooldown_evaluate sha w" "effective_fingerprint sha" "\<lambda>_. w"
    xp_expiry xp_inv "clock_ok (\<lambda>_. w)"
  by unfold_locales (simp_all add: cooldown_evaluate_def clock_ok_def evaluate_admits evaluate_refuses)

interpretation recurrence: window_policy "recurrence_evaluate sha w c" "effective_fingerprint sha"
    "recurrence_window w c" xp_expiry xp_inv "clock_ok (recurrence_window w c)"
  by unfold_locales (simp_all add: recurrence_evaluate_def clock_ok_def evaluate_admits evaluate_refuses)

section \<open>Restarts\<close>

text \<open>What a claim recorded is what the next process loads.\<close>

lemma map_of_eqI_perm:
  assumes "is_dict d" "mset e = mset d"
  shows "map_of e = map_of d"
proof -
  have "set e = set d" using assms(2) by (metis set_mset_mset)
  moreover have "is_dict e" using assms
    by (metis is_dict_def mset_map mset_eq_imp_distinct_iff)
  ultimately show ?thesis using assms(1) by (metis is_dict_def map_of_inject_set)
qed

lemma map_of_sort_key: "is_dict d \<Longrightarrow> map_of (sort_key fst d) = map_of d"
  by (rule map_of_eqI_perm) simp_all

lemma load_persisted:
  assumes "is_dict (xp_state x)"
  shows "map_of (load_state (xp_disk (persist_state x))) = map_of (xp_state x)"
proof -
  have "map (\<lambda>p. (fst p, py_str (snd p))) (map (\<lambda>p. (fst p, PStr (snd p))) ps) = ps" for ps :: "(string \<times> string) list"
    by (induction ps) auto
  then show ?thesis using assms by (simp add: load_state_def persist_state_def map_of_sort_key)
qed


lemma load_persisted_set:
  "set (load_state (xp_disk (persist_state x))) = set (xp_state x)"
proof -
  have "map (\<lambda>p. (fst p, py_str (snd p))) (map (\<lambda>p. (fst p, PStr (snd p))) ps) = ps" for ps :: "(string \<times> string) list"
    by (induction ps) auto
  then show ?thesis by (simp add: load_state_def persist_state_def)
qed

lemma load_persisted_is_dict: "is_dict (xp_state x) \<Longrightarrow> is_dict (load_state (xp_disk (persist_state x)))"
  by (simp add: load_state_def persist_state_def is_dict_def comp_def distinct_map inj_on_def)

lemma reopen_persisted:
  assumes "xp_inv x"
  shows "xp_inv (open_state (xp_disk (persist_state x)))"
    and "xp_expiry (open_state (xp_disk (persist_state x))) = xp_expiry x"
proof -
  have st: "xp_state (open_state d) = load_state d" for d by (simp add: open_state_def)
  show "xp_inv (open_state (xp_disk (persist_state x)))"
    using assms load_persisted_is_dict [of x] by (simp add: xp_inv_def st load_persisted_set)
  have "is_dict (xp_state x)" using assms by (simp add: xp_inv_def)
  then show "xp_expiry (open_state (xp_disk (persist_state x))) = xp_expiry x"
    by (simp add: xp_expiry_def st load_persisted fun_eq_iff)
qed

lemma admission_persists:
  assumes "xp_inv x" "clock_ok (\<lambda>_. w) a now" "cooldown_evaluate sha w a now x = (Inr (True, why), y)"
  shows "xp_inv (open_state (xp_disk y))"
    and "xp_expiry (open_state (xp_disk y)) (effective_fingerprint sha a) = Some (now + seconds w)"
proof -
  obtain y' b why' where e: "cooldown_evaluate sha w a now x = (Inr (b, why'), y')" and inv: "xp_inv y'"
    and upd: "xp_expiry y' = (if b then (live now (xp_expiry x))(effective_fingerprint sha a \<mapsto> now + seconds w)
      else live now (xp_expiry x))"
    by (rule cooldown.step [OF assms(1,2), where sha = sha])
  then have y: "y' = y" "b" using assms(3) by auto
  obtain z where z: "y = persist_state z"
    using assms(3)
    by (auto simp: cooldown_evaluate_def evaluate_window_def claim_def split: sum.splits prod.splits
        option.splits list.splits if_splits)
  have "xp_inv z" using inv unfolding y z by simp
  moreover have "xp_expiry z (effective_fingerprint sha a) = Some (now + seconds w)"
    using upd unfolding y(1) z by (simp add: y)
  ultimately show "xp_inv (open_state (xp_disk y))"
    and "xp_expiry (open_state (xp_disk y)) (effective_fingerprint sha a) = Some (now + seconds w)"
    unfolding z by (simp_all only: reopen_persisted)
qed

section \<open>Properties\<close>

text \<open>C25: Asked about any series of alerts in time order, the cooldown policy admits two
  alerts of one fingerprint only if they are at least the cooldown apart.\<close>

theorem cooldown_spacing:
  assumes "xp_inv x" "timely (clock_ok (\<lambda>_. w)) t es" "i < j" "j < length es"
    and "fst (run_policy (cooldown_evaluate sha w) es x) ! i"
    and "fst (run_policy (cooldown_evaluate sha w) es x) ! j"
    and "effective_fingerprint sha (fst (es ! i)) = effective_fingerprint sha (fst (es ! j))"
  shows "snd (es ! i) + seconds w \<le> snd (es ! j)"
  using assms by (rule cooldown.spaced)

lemma xp_inv_empty [simp]: "xp_inv (open_state None)"
  by (simp add: xp_inv_def open_state_def load_state_def)

lemma utc_fields [simp]: "tz_off (utc t) = Some 0" "instant (utc t) = t"
  by (simp_all add: utc_def instant_def seconds_def)

lemmas policy_eval = cooldown_evaluate_def recurrence_evaluate_def recurrence_window_def evaluate_window_def
  claim_def prune_def stale_def dt_le_def dt_add_utc valid_utc from_iso_isoformat sample_alert_def
  effective_fingerprint_def open_state_def load_state_def persist_state_def seconds_def us_per_day_def epoch_ord_def
  timely_def clock_ok_def

lemma cooldown_spacing_witness:
  "snd ([(sample_alert ''fp'' SevWarning, 1000000), (sample_alert ''fp'' SevWarning, 90000000)] ! 0) + seconds 60
     \<le> snd ([(sample_alert ''fp'' SevWarning, 1000000), (sample_alert ''fp'' SevWarning, 90000000)] ! Suc 0)"
  by (rule cooldown_spacing [where x = "open_state None" and t = 0 and sha = "\<lambda>s. s"], rule xp_inv_empty; simp add: policy_eval)

text \<open>C17: The same for the recurrence policy, whose window for a critical alert is its own:
  the first of the two admissions decides the distance.\<close>

theorem recurrence_spacing:
  assumes "xp_inv x" "timely (clock_ok (recurrence_window w c)) t es" "i < j" "j < length es"
    and "fst (run_policy (recurrence_evaluate sha w c) es x) ! i"
    and "fst (run_policy (recurrence_evaluate sha w c) es x) ! j"
    and "effective_fingerprint sha (fst (es ! i)) = effective_fingerprint sha (fst (es ! j))"
  shows "snd (es ! i) + seconds (recurrence_window w c (fst (es ! i))) \<le> snd (es ! j)"
  using assms by (rule recurrence.spaced)

lemma recurrence_spacing_witness:
  "snd ([(sample_alert ''fp'' SevCritical, 1000000), (sample_alert ''fp'' SevInfo, 90000000)] ! 0) +
      seconds (recurrence_window 3600 60 (fst ([(sample_alert ''fp'' SevCritical, 1000000::int), (sample_alert ''fp'' SevInfo, 90000000)] ! 0)))
     \<le> snd ([(sample_alert ''fp'' SevCritical, 1000000), (sample_alert ''fp'' SevInfo, 90000000)] ! Suc 0)"
  by (rule recurrence_spacing [where x = "open_state None" and t = 0 and sha = "\<lambda>s. s"], rule xp_inv_empty; simp add: policy_eval)

text \<open>C29: A claim outlives the process: a policy reopened on the state file an admission
  left behind admits nothing under that fingerprint before the cooldown has run out.\<close>

theorem claim_survives_restart:
  assumes "xp_inv x" "clock_ok (\<lambda>_. w) a now" "cooldown_evaluate sha w a now x = (Inr (True, why), y)"
    and "timely (clock_ok (\<lambda>_. w)) t es" "i < length es"
    and "effective_fingerprint sha (fst (es ! i)) = effective_fingerprint sha a"
    and "fst (run_policy (cooldown_evaluate sha w) es (open_state (xp_disk y))) ! i"
  shows "now + seconds w \<le> snd (es ! i)"
  using admission_persists(1) [OF assms(1-3)] assms(4) admission_persists(2) [OF assms(1-3)] assms(5-7)
  by (rule cooldown.held)

lemma claim_survives_restart_witness:
  "1000000 + seconds 60 \<le> snd ([(sample_alert ''fp'' SevWarning, 90000000)] ! 0)"
  by (rule claim_survives_restart [where x = "open_state None" and t = 0 and sha = "\<lambda>s. s" and why = None
        and a = "sample_alert ''fp'' SevInfo"
        and y = "snd (cooldown_evaluate (\<lambda>s. s) 60 (sample_alert ''fp'' SevInfo) 1000000 (open_state None))"], rule xp_inv_empty; simp add: policy_eval)

end
