(* ===== verification/Engine.thy ===== *)
theory Engine
  imports Alert_Source Notify Dedupe_Policy
begin

text \<open>
  The orchestration engine, \<open>event_runtime/engine.py\<close>: one alert from intake over policies,
  context, decision and action to notification and follow-up tasks. The registered plugins are
  a record of operations over a world \<open>'w\<close> of their own; each may raise. Next to that world
  the state holds the escalation ledger and the trace of the calls the engine made, in order:
  the trace is not read by the engine, the properties are about it.
\<close>

section \<open>Plugins, state and trace\<close>

type_synonym 'w policy = "alert \<Rightarrow> ('w, bool \<times> string option) op"

type_synonym 'w scheduler = "task \<Rightarrow> ('w, pydict) op"

record 'w plugins =
  pl_policies :: "(string \<times> 'w policy) list"
  pl_contexts :: "(alert \<Rightarrow> envelope \<Rightarrow> ('w, envelope) op) list"
  pl_decide :: "envelope \<Rightarrow> ('w, decision) op"
  pl_handlers :: "(string \<times> (request \<Rightarrow> ('w, action_result) op)) list"
  pl_sinks :: "(string \<times> (string \<Rightarrow> string \<Rightarrow> pydict \<Rightarrow> ('w, bool) op)) list"
  pl_observers :: "(string \<times> (alert \<Rightarrow> action_result \<Rightarrow> ('w, unit) op)) list"
  pl_schedulers :: "(string \<times> 'w scheduler) list"
  pl_append :: "pydict list \<Rightarrow> ('w, unit) op"
  pl_stamp :: "('w, datetime \<times> string) op"

datatype call =
    CAppend string pydict
  | CPoll
  | CPolicy string
  | CContext
  | CDecide
  | CExecute string
  | CMark string
  | CObserve string
  | CNotify string
  | CSchedule string

record 'w engine =
  en_world :: 'w
  en_ledger :: "ledger option"
  en_trace :: "call list"

text \<open>A call into a plugin, recorded before it runs.\<close>

definition plug :: "call \<Rightarrow> ('w, 'a) op \<Rightarrow> ('w engine, 'a) op" where
  "plug c m s = (case m (en_world s) of
     (r, w) \<Rightarrow> (r, s\<lparr>en_world := w, en_trace := en_trace s @ [c]\<rparr>))"

section \<open>Recording events\<close>

definition record_event :: "'w plugins \<Rightarrow> string \<Rightarrow> pydict \<Rightarrow> ('w engine, unit) op" where
  "record_event pl event_type payload =
     plug (CAppend event_type payload)
       (st_bind (pl_stamp pl) (\<lambda>(now, fresh).
          pl_append pl [event_to_dict \<lparr>ev_type = event_type, ev_payload = payload, ev_created_at = now, ev_id = fresh\<rparr>]))"

section \<open>After an action\<close>

definition result_outcome :: "action_result \<Rightarrow> string" where
  "result_outcome r = py_str (por (pget (ar_details r) ''outcome'') (PStr []))"

definition maybe_mark_escalation :: "alert \<Rightarrow> action_result \<Rightarrow> ('w engine, unit) op" where
  "maybe_mark_escalation a r s = (case (en_ledger s, al_fingerprint a) of
     (Some l, Some (c # fp)) \<Rightarrow>
       if result_outcome r = ''escalated''
       then (Inr (), s\<lparr>en_ledger := Some (ledger_mark (c # fp) l), en_trace := en_trace s @ [CMark (c # fp)]\<rparr>)
       else (Inr (), s)
   | _ \<Rightarrow> (Inr (), s))"

definition observe_completion :: "'w plugins \<Rightarrow> alert \<Rightarrow> action_result \<Rightarrow> ('w engine, unit) op" where
  "observe_completion pl a r =
     (if ar_quiet r then st_return ()
      else st_fold (\<lambda>(name, observe) _. st_try (plug (CObserve name) (observe a r)) (\<lambda>_. st_return ()))
        (pl_observers pl) ())"

text \<open>Tier-2 routing: what pages in real time and what waits for the digest.\<close>

definition digest_low_severity :: "string option \<Rightarrow> bool" where
  "digest_low_severity env = (str_lower (str_strip (case env of None \<Rightarrow> ''true'' | Some v \<Rightarrow> v))
     \<notin> {''0'', ''false'', ''no''})"

definition is_realtime_worthy :: "string \<Rightarrow> string \<Rightarrow> bool \<Rightarrow> bool" where
  "is_realtime_worthy sev outcome is_res =
     (if sev = ''critical'' then True
      else if outcome \<in> {''escalated'', ''failed'', ''needs_action''} then True
      else if is_res \<or> outcome \<in> {''resolved'', ''monitoring''} then False
      else if sev = ''info'' then False
      else True)"

definition notify_details :: "alert \<Rightarrow> action_result \<Rightarrow> decision option \<Rightarrow> pydict" where
  "notify_details a r dec =
     (let d = [(''alert_summary'', PStr (al_summary a)), (''action'', PStr (ar_action r)),
               (''result_message'', PStr (ar_message r)), (''result_details'', PDict (ar_details r))];
          d = (case dec of
                 Some x \<Rightarrow> if dc_params x \<noteq> [] then dset ''decision_params'' (PDict (dc_params x)) d else d
               | None \<Rightarrow> d);
          remediation = por (por (pget (al_details a) ''remediation'') (pget (ar_details r) ''remediation''))
                          (pget (ar_details r) ''recommendation'');
          d = (if truthy remediation then dset ''recommendation'' (PStr (py_str remediation)) d else d)
      in if truthy (pget (al_details a) ''resolution'') then dset ''resolution'' (PBool True) d else d)"

definition pages :: "string option \<Rightarrow> alert \<Rightarrow> action_result \<Rightarrow> bool" where
  "pages env a r = (\<not> (digest_low_severity env \<and>
     \<not> is_realtime_worthy (severity_value (al_severity a)) (result_outcome r)
         (truthy (pget (al_details a) ''resolution''))))"

definition notify_action_completed ::
  "'w plugins \<Rightarrow> string option \<Rightarrow> alert \<Rightarrow> action_result \<Rightarrow> decision option \<Rightarrow> ('w engine, unit) op" where
  "notify_action_completed pl env a r dec =
     (if pl_sinks pl = [] then st_return ()
      else if \<not> should_notify (ar_action r) (ar_success r) (ar_quiet r) default_skip_actions then st_return ()
      else if \<not> pages env a r then st_return ()
      else
        (let summary = ''Action '' @ (if ar_success r then ''completed'' else ''failed'') @ '': '' @ ar_action r
         in st_fold (\<lambda>(name, notify) _.
              st_try (st_bind (plug (CNotify name)
                  (notify summary (severity_value (al_severity a)) (notify_details a r dec))) (\<lambda>_. st_return ()))
                (\<lambda>_. st_return ()))
            (pl_sinks pl) ()))"

section \<open>Follow-up tasks\<close>

text \<open>The schedulers in turn until one reports success; the last answer counts.\<close>

fun schedule_chain :: "(string \<times> 'w scheduler) list \<Rightarrow> task \<Rightarrow> pydict option \<Rightarrow> ('w engine, pydict option) op" where
  "schedule_chain [] t r = st_return r"
| "schedule_chain ((name, sch) # rest) t r =
     st_bind (plug (CSchedule name) (sch t)) (\<lambda>res.
       let res = dsetdefault ''scheduler'' (PStr name) res
       in if truthy (pget res ''success'') then st_return (Some res)
          else schedule_chain rest t (Some res))"

definition schedule_task :: "'w plugins \<Rightarrow> task \<Rightarrow> pydict list \<Rightarrow> ('w engine, pydict list) op" where
  "schedule_task pl t results =
     (if pl_schedulers pl = [] then
        (let result = [(''task'', PDict (task_to_dict t)), (''success'', PBool False),
                       (''message'', PStr ''No scheduler registered'')]
         in st_bind (record_event pl ''scheduled_task_missing''
                [(''scheduled_task'', PDict (task_to_dict t)), (''result'', PDict result)]) (\<lambda>_.
            st_return (results @ [result])))
      else st_bind (schedule_chain (pl_schedulers pl) t None) (\<lambda>r.
        let result = (case r of Some x \<Rightarrow> x
              | None \<Rightarrow> [(''success'', PBool False), (''message'', PStr ''Scheduler chain returned no result'')])
        in st_bind (record_event pl ''scheduled_task_created''
               [(''scheduled_task'', PDict (task_to_dict t)), (''result'', PDict result)]) (\<lambda>_.
           st_return (results @ [result]))))"

definition schedule_tasks :: "'w plugins \<Rightarrow> task list \<Rightarrow> ('w engine, pydict list) op" where
  "schedule_tasks pl ts = st_fold (schedule_task pl) ts []"

section \<open>Handling an alert\<close>

definition alert_item :: "alert \<Rightarrow> string \<times> pyval" where
  "alert_item a = (''alert'', PDict (alert_to_dict a))"

fun run_policies :: "'w plugins \<Rightarrow> alert \<Rightarrow> (string \<times> 'w policy) list \<Rightarrow> ('w engine, pydict option) op" where
  "run_policies pl a [] = st_return None"
| "run_policies pl a ((name, evaluate) # rest) =
     st_bind (plug (CPolicy name) (evaluate a)) (\<lambda>(allowed, reason).
       if allowed then run_policies pl a rest
       else
         (let why = (case reason of Some (c # s) \<Rightarrow> c # s | _ \<Rightarrow> ''suppressed'')
          in st_bind (record_event pl ''alert_suppressed''
                 [alert_item a, (''policy'', PStr name), (''reason'', PStr why)]) (\<lambda>_.
             st_return (Some [(''alert_id'', PStr (al_id a)), (''status'', PStr ''suppressed''),
               (''action'', PStr ''suppressed''), (''success'', PBool True), (''reason'', PStr why)]))))"

definition severity_gate :: "alert \<Rightarrow> bool" where
  "severity_gate a = (al_severity a = SevInfo \<and> \<not> truthy (pget (al_details a) ''resolution''))"

definition gather_context :: "'w plugins \<Rightarrow> alert \<Rightarrow> ('w engine, envelope) op" where
  "gather_context pl a = st_fold (\<lambda>provide env. plug CContext (provide a env)) (pl_contexts pl)
     \<lparr>env_alert = a, env_context = [], env_notes = []\<rparr>"

text \<open>From the decision on; \<open>execute_decision\<close> is the part with a handler.\<close>

definition execute_decision ::
  "'w plugins \<Rightarrow> string option \<Rightarrow> alert \<Rightarrow> envelope \<Rightarrow> decision \<Rightarrow> (request \<Rightarrow> ('w, action_result) op) \<Rightarrow> ('w engine, pydict) op" where
  "execute_decision pl env a ctx dec handler =
     st_bind (plug (CExecute (dc_action dec)) (handler \<lparr>rq_alert = a, rq_decision = dec, rq_context = ctx\<rparr>)) (\<lambda>r.
     st_bind (maybe_mark_escalation a r) (\<lambda>_.
     st_bind (record_event pl ''action_completed''
        [alert_item a, (''decision'', PDict (decision_to_dict dec)), (''result'', PDict (result_to_dict r))]) (\<lambda>_.
     st_bind (observe_completion pl a r) (\<lambda>_.
     st_bind (notify_action_completed pl env a r (Some dec)) (\<lambda>_.
     st_bind (schedule_tasks pl (dc_tasks dec)) (\<lambda>scheduled.
     st_return [(''alert_id'', PStr (al_id a)), (''status'', PStr (if ar_success r then ''completed'' else ''failed'')),
       (''action'', PStr (ar_action r)), (''success'', PBool (ar_success r)), (''message'', PStr (ar_message r)),
       (''scheduled_tasks'', PList (map PDict scheduled))]))))))"

definition act_on :: "'w plugins \<Rightarrow> string option \<Rightarrow> alert \<Rightarrow> envelope \<Rightarrow> decision \<Rightarrow> ('w engine, pydict) op" where
  "act_on pl env a ctx dec = (case map_of (pl_handlers pl) (dc_action dec) of
     None \<Rightarrow> st_bind (record_event pl ''action_missing'' [alert_item a, (''decision'', PDict (decision_to_dict dec))]) (\<lambda>_.
       st_return [(''alert_id'', PStr (al_id a)), (''status'', PStr ''failed''), (''action'', PStr (dc_action dec)),
         (''success'', PBool False), (''error'', PStr (''No action handler registered for '' @ dc_action dec))])
   | Some handler \<Rightarrow> execute_decision pl env a ctx dec handler)"

definition record_checks :: "'w plugins \<Rightarrow> alert \<Rightarrow> decision \<Rightarrow> ('w engine, unit) op" where
  "record_checks pl a dec = (if dc_checks dec \<noteq> []
     then record_event pl ''checks_requested'' [alert_item a, (''checks'', PList (dc_checks dec))]
     else st_return ())"

definition decided :: "'w plugins \<Rightarrow> string option \<Rightarrow> alert \<Rightarrow> envelope \<Rightarrow> decision \<Rightarrow> ('w engine, pydict) op" where
  "decided pl env a ctx dec =
     st_bind (record_event pl ''decision_made'' [alert_item a, (''decision'', PDict (decision_to_dict dec))]) (\<lambda>_.
     st_bind (record_checks pl a dec) (\<lambda>_. act_on pl env a ctx dec))"

definition decide_and_act :: "'w plugins \<Rightarrow> string option \<Rightarrow> alert \<Rightarrow> ('w engine, pydict) op" where
  "decide_and_act pl env a =
     st_bind (gather_context pl a) (\<lambda>ctx. st_bind (plug CDecide (pl_decide pl ctx)) (decided pl env a ctx))"

definition skip_alert :: "'w plugins \<Rightarrow> alert \<Rightarrow> ('w engine, pydict) op" where
  "skip_alert pl a =
     st_bind (record_event pl ''alert_skipped'' [alert_item a, (''reason'', PStr ''severity_gate'')]) (\<lambda>_.
     st_return [(''alert_id'', PStr (al_id a)), (''status'', PStr ''logged''), (''action'', PStr ''log_only''),
       (''success'', PBool True)])"

definition admitted_alert :: "'w plugins \<Rightarrow> string option \<Rightarrow> alert \<Rightarrow> ('w engine, pydict) op" where
  "admitted_alert pl env a = (if severity_gate a then skip_alert pl a else decide_and_act pl env a)"

definition handle_alert :: "'w plugins \<Rightarrow> string option \<Rightarrow> bool \<Rightarrow> alert \<Rightarrow> ('w engine, pydict) op" where
  "handle_alert pl env admitted a =
     st_bind (record_event pl ''alert_received'' [alert_item a]) (\<lambda>_.
     st_bind (run_policies pl a (if admitted then [] else pl_policies pl)) (\<lambda>suppressed.
     case suppressed of Some result \<Rightarrow> st_return result | None \<Rightarrow> admitted_alert pl env a))"

definition poll_sources ::
  "'w plugins \<Rightarrow> string option \<Rightarrow> ('w, alert list) op list \<Rightarrow> ('w engine, pydict list) op" where
  "poll_sources pl env sources =
     st_fold (\<lambda>src results.
        st_bind (plug CPoll src) (\<lambda>as.
        st_fold (\<lambda>a rs. st_bind (handle_alert pl env False a) (\<lambda>r. st_return (rs @ [r]))) as results)) sources []"

definition record_external_action_completion ::
  "'w plugins \<Rightarrow> string option \<Rightarrow> alert \<Rightarrow> action_result \<Rightarrow> ('w engine, unit) op" where
  "record_external_action_completion pl env a r =
     st_bind (maybe_mark_escalation a r) (\<lambda>_.
     st_bind (record_event pl ''action_completed''
        [alert_item a, (''result'', PDict (result_to_dict r)), (''source'', PStr ''external'')]) (\<lambda>_.
     st_bind (observe_completion pl a r) (\<lambda>_. notify_action_completed pl env a r None)))"

section \<open>Reasoning about the trace\<close>

text \<open>
  \<open>runs m Q\<close>: from every state, \<open>m\<close> extends the trace by calls \<open>tr\<close> such that \<open>Q tr r\<close> holds
  with its result \<open>r\<close>, a raise included.
\<close>

definition runs :: "('w engine, 'a) op \<Rightarrow> (call list \<Rightarrow> 'a res \<Rightarrow> bool) \<Rightarrow> bool" where
  "runs m Q = (\<forall>s. \<exists>tr. en_trace (snd (m s)) = en_trace s @ tr \<and> Q tr (fst (m s)))"

lemma runs_returnI: "Q [] (Inr x) \<Longrightarrow> runs (st_return x) Q"
  by (simp add: runs_def st_return_def)

lemma runs_plugI: "(\<And>r. Q [c] r) \<Longrightarrow> runs (plug c m) Q"
  by (simp add: runs_def plug_def split: prod.split)

lemma runs_recordI: "(\<And>r. Q [CAppend t p] r) \<Longrightarrow> runs (record_event pl t p) Q"
  unfolding record_event_def by (rule runs_plugI)

lemma runs_mono: "runs m P \<Longrightarrow> (\<And>tr r. P tr r \<Longrightarrow> Q tr r) \<Longrightarrow> runs m Q"
  unfolding runs_def by blast

lemma runs_conj: "runs m P \<Longrightarrow> runs m Q \<Longrightarrow> runs m (\<lambda>tr r. P tr r \<and> Q tr r)"
  unfolding runs_def by (metis same_append_eq)

lemma runs_bind:
  assumes "runs m P" "\<And>tr e. P tr (Inl e) \<Longrightarrow> Q tr (Inl e)"
    and "\<And>tr x. P tr (Inr x) \<Longrightarrow> runs (f x) (\<lambda>tr' r. Q (tr @ tr') r)"
  shows "runs (st_bind m f) Q"
  unfolding runs_def
proof
  fix s
  obtain r s' where m: "m s = (r, s')" by fastforce
  then obtain tr where tr: "en_trace s' = en_trace s @ tr" "P tr r"
    using assms(1) by (metis fst_conv runs_def snd_conv)
  show "\<exists>tr. en_trace (snd (st_bind m f s)) = en_trace s @ tr \<and> Q tr (fst (st_bind m f s))"
  proof (cases r)
    case (Inl e)
    then show ?thesis using m tr assms(2) by (auto simp: st_bind_def)
  next
    case (Inr x)
    then have "runs (f x) (\<lambda>tr' r. Q (tr @ tr') r)" using tr(2) assms(3) by blast
    then obtain tr' where "en_trace (snd (f x s')) = en_trace s' @ tr'" "Q (tr @ tr') (fst (f x s'))"
      by (auto simp: runs_def)
    then show ?thesis using m Inr tr(1) by (intro exI [of _ "tr @ tr'"]) (simp add: st_bind_def)
  qed
qed

text \<open>A post-condition on the calls alone, closed under concatenation, is kept by loops.\<close>

lemma runs_fold:
  assumes "\<And>x b. x \<in> set xs \<Longrightarrow> runs (f x b) (\<lambda>tr _. P tr)" "P []" "\<And>t u. P t \<Longrightarrow> P u \<Longrightarrow> P (t @ u)"
  shows "runs (st_fold f xs b) (\<lambda>tr _. P tr)"
  using assms(1)
proof (induction xs arbitrary: b)
  case Nil
  then show ?case using assms(2) by (simp add: runs_returnI)
next
  case (Cons x xs)
  have "runs (f x b) (\<lambda>tr _. P tr)" using Cons.prems by simp
  then show ?case
    unfolding st_fold.simps
  proof (rule runs_bind)
    fix tr c
    assume "P tr"
    moreover have "runs (st_fold f xs c) (\<lambda>tr _. P tr)" using Cons by simp
    ultimately show "runs (st_fold f xs c) (\<lambda>tr' r. P (tr @ tr'))" using assms(3) by (auto elim: runs_mono)
  qed
qed

section \<open>The phases of handling an alert\<close>

fun phase :: "call \<Rightarrow> nat" where
  "phase (CAppend t p) =
     (if t = ''alert_received'' then 0
      else if t = ''alert_suppressed'' \<or> t = ''alert_skipped'' then 2
      else if t = ''decision_made'' then 5
      else if t = ''checks_requested'' then 6
      else if t = ''action_missing'' then 7
      else if t = ''action_completed'' then 10
      else if t = ''scheduled_task_missing'' \<or> t = ''scheduled_task_created'' then 13 else 14)"
| "phase CPoll = 14"
| "phase (CPolicy n) = 1"
| "phase CContext = 3"
| "phase CDecide = 4"
| "phase (CExecute a) = 8"
| "phase (CMark fp) = 9"
| "phase (CObserve n) = 11"
| "phase (CNotify n) = 12"
| "phase (CSchedule n) = 13"

text \<open>The phases with several calls: policies, context providers, observers, sinks, schedulers.\<close>

definition repeats :: "nat \<Rightarrow> bool" where
  "repeats n = (n = 1 \<or> n = 3 \<or> n = 11 \<or> n = 12 \<or> n = 13)"

definition precedes :: "call \<Rightarrow> call \<Rightarrow> bool" where
  "precedes c d = (phase c < phase d \<or> phase c = phase d \<and> repeats (phase c))"

definition in_phases :: "nat \<Rightarrow> nat \<Rightarrow> call list \<Rightarrow> bool" where
  "in_phases lo hi tr = (sorted_wrt precedes tr \<and> (\<forall>c \<in> set tr. lo \<le> phase c \<and> phase c \<le> hi))"

lemma in_phases_Nil [simp]: "in_phases lo hi []"
  by (simp add: in_phases_def)

lemma in_phases_one [simp]: "in_phases lo hi [c] \<longleftrightarrow> lo \<le> phase c \<and> phase c \<le> hi"
  by (simp add: in_phases_def)

lemma in_phases_widen: "in_phases a b tr \<Longrightarrow> a' \<le> a \<Longrightarrow> b \<le> b' \<Longrightarrow> in_phases a' b' tr"
  by (fastforce simp: in_phases_def)

lemma in_phases_append:
  assumes "in_phases a b t" "in_phases c d u" "b < c \<or> b = c \<and> repeats b" "a \<le> c" "b \<le> d"
  shows "in_phases a d (t @ u)"
proof -
  have "precedes x y" if "x \<in> set t" "y \<in> set u" for x y
  proof -
    have "phase x \<le> b" "c \<le> phase y" using assms(1,2) that by (auto simp: in_phases_def)
    with assms(3) have "phase x < phase y \<or> phase x = b \<and> phase y = b \<and> repeats b" by linarith
    then show ?thesis by (auto simp: precedes_def)
  qed
  with assms show ?thesis by (fastforce simp: in_phases_def sorted_wrt_append)
qed

lemma phases_widen:
  "runs m (\<lambda>tr _. in_phases a b tr) \<Longrightarrow> a' \<le> a \<Longrightarrow> b \<le> b' \<Longrightarrow> runs m (\<lambda>tr _. in_phases a' b' tr)"
  by (erule runs_mono) (rule in_phases_widen)

lemma phases_bind:
  assumes "runs m (\<lambda>tr _. in_phases a b tr)" "\<And>x. runs (f x) (\<lambda>tr _. in_phases c d tr)"
    and "b < c \<or> b = c \<and> repeats b" "a \<le> c" "b \<le> d"
  shows "runs (st_bind m f) (\<lambda>tr _. in_phases a d tr)"
  using assms(1)
proof (rule runs_bind)
  fix tr x
  assume "in_phases a b tr"
  then show "runs (f x) (\<lambda>tr' r. in_phases a d (tr @ tr'))"
    by (intro runs_mono [OF assms(2)]) (rule in_phases_append [OF _ _ assms(3-5)])
qed (auto intro: in_phases_widen assms)

lemma phases_fold:
  assumes "\<And>x b. runs (f x b) (\<lambda>tr _. in_phases n n tr)" "repeats n"
  shows "runs (st_fold f xs b) (\<lambda>tr _. in_phases n n tr)"
  by (rule runs_fold) (use assms in \<open>auto intro: in_phases_append\<close>)

lemma phases_plug: "lo \<le> phase c \<Longrightarrow> phase c \<le> hi \<Longrightarrow> runs (plug c m) (\<lambda>tr _. in_phases lo hi tr)"
  by (rule runs_plugI) simp

lemma phases_record:
  "lo \<le> phase (CAppend t p) \<Longrightarrow> phase (CAppend t p) \<le> hi \<Longrightarrow> runs (record_event pl t p) (\<lambda>tr _. in_phases lo hi tr)"
  by (rule runs_recordI) simp

lemma phases_return: "runs (st_return x) (\<lambda>tr _. in_phases lo hi tr)"
  by (rule runs_returnI) simp

lemma phases_try:
  assumes "runs m (\<lambda>tr _. in_phases lo hi tr)"
  shows "runs (st_try m (\<lambda>_. st_return x)) (\<lambda>tr _. in_phases lo hi tr)"
  unfolding runs_def
proof
  fix s
  obtain r s' where m: "m s = (r, s')" by fastforce
  moreover obtain tr where "en_trace s' = en_trace s @ tr" "in_phases lo hi tr"
    using assms m by (metis runs_def snd_conv)
  ultimately show "\<exists>tr. en_trace (snd (st_try m (\<lambda>_. st_return x) s)) = en_trace s @ tr \<and> in_phases lo hi tr"
    by (auto simp: st_try_def st_return_def split: sum.split)
qed

lemmas phases_intros = phases_plug phases_record phases_return phases_fold phases_try

text \<open>The policies: only a refusal records an event.\<close>

definition policies_trace :: "call list \<Rightarrow> pydict option res \<Rightarrow> bool" where
  "policies_trace tr r = (in_phases 1 2 tr \<and> (r = Inr None \<longrightarrow> in_phases 1 1 tr))"

lemma phases_policies: "runs (run_policies pl a ps) policies_trace"
proof (induction ps)
  case Nil
  then show ?case by (simp add: runs_returnI policies_trace_def)
next
  case (Cons p ps)
  obtain name ev where p: "p = (name, ev)" by fastforce
  have sup: "runs (st_bind (record_event pl ''alert_suppressed'' x) (\<lambda>_. st_return (Some y)))
      (\<lambda>tr r. policies_trace (CPolicy name # tr) r)" for x y
    by (rule runs_bind [OF runs_recordI, where P = "\<lambda>tr _. tr = [CAppend ''alert_suppressed'' x]"])
      (auto intro!: runs_returnI simp: policies_trace_def in_phases_def precedes_def)
  have go: "policies_trace (CPolicy name # tr) r" if "policies_trace tr r" for tr r
    using that in_phases_append [of 1 1 "[CPolicy name]" 1 _ tr] by (simp add: policies_trace_def repeats_def)
  show ?case
    unfolding p run_policies.simps Let_def
  proof (rule runs_bind [OF runs_plugI, where P = "\<lambda>tr _. tr = [CPolicy name]"])
    fix tr x
    assume "tr = [CPolicy name]"
    then show "runs (case x of (allowed, reason) \<Rightarrow> if allowed then run_policies pl a ps else
        st_bind (record_event pl ''alert_suppressed'' [alert_item a, (''policy'', PStr name),
            (''reason'', PStr (case reason of Some (c # s) \<Rightarrow> c # s | _ \<Rightarrow> ''suppressed''))]) (\<lambda>_.
        st_return (Some [(''alert_id'', PStr (al_id a)), (''status'', PStr ''suppressed''),
          (''action'', PStr ''suppressed''), (''success'', PBool True),
          (''reason'', PStr (case reason of Some (c # s) \<Rightarrow> c # s | _ \<Rightarrow> ''suppressed''))])))
      (\<lambda>tr' r. policies_trace (tr @ tr') r)"
      using sup by (auto intro: runs_mono [OF Cons.IH] go split: prod.split)
  qed (simp_all add: policies_trace_def)
qed

lemma phases_gather: "runs (gather_context pl a) (\<lambda>tr _. in_phases 3 3 tr)"
  unfolding gather_context_def by (rule phases_fold) (auto intro: phases_plug simp: repeats_def)

lemma phases_mark: "runs (maybe_mark_escalation a r) (\<lambda>tr _. in_phases 9 9 tr)"
  unfolding runs_def by (auto simp: maybe_mark_escalation_def split: option.split list.split)

lemma phases_observe: "runs (observe_completion pl a r) (\<lambda>tr _. in_phases 11 11 tr)"
  unfolding observe_completion_def
  by (auto intro!: phases_fold phases_try phases_plug phases_return simp: repeats_def split: prod.split)

lemma phases_notify: "runs (notify_action_completed pl env a r dec) (\<lambda>tr _. in_phases 12 12 tr)"
proof -
  have "runs (st_bind (plug (CNotify n) m) (\<lambda>_. st_return ())) (\<lambda>tr _. in_phases 12 12 tr)"
    for n and m :: "('w, bool) op"
    by (rule phases_bind [where b = 12 and c = 12 and d = 12])
      (simp_all add: phases_plug phases_return repeats_def)
  then show ?thesis
    unfolding notify_action_completed_def Let_def
    by (auto intro!: phases_fold phases_try phases_return simp: repeats_def split: prod.split)
qed

lemma phases_bind_same:
  assumes "runs m (\<lambda>tr _. in_phases n n tr)" "\<And>x. runs (f x) (\<lambda>tr _. in_phases n n tr)" "repeats n"
  shows "runs (st_bind m f) (\<lambda>tr _. in_phases n n tr)"
  by (rule phases_bind [OF assms(1,2)]) (simp_all add: assms(3))

lemma phases_chain: "runs (schedule_chain ss t r) (\<lambda>tr _. in_phases 13 13 tr)"
proof (induction ss arbitrary: r)
  case Nil
  then show ?case by (simp add: phases_return)
next
  case (Cons p ss)
  then show ?case
    by (cases p) (auto intro!: phases_bind_same phases_plug phases_return simp: repeats_def Let_def)
qed

lemma phases_schedule: "runs (schedule_tasks pl ts) (\<lambda>tr _. in_phases 13 13 tr)"
  unfolding schedule_tasks_def
proof (rule phases_fold)
  show "runs (schedule_task pl t rs) (\<lambda>tr _. in_phases 13 13 tr)" for t rs
    unfolding schedule_task_def Let_def
    by (auto intro!: phases_bind_same phases_record phases_return phases_chain simp: repeats_def)
qed (simp add: repeats_def)

text \<open>What follows the handler, and the whole.\<close>

definition after_action :: "'w plugins \<Rightarrow> string option \<Rightarrow> alert \<Rightarrow> decision \<Rightarrow> action_result \<Rightarrow> ('w engine, pydict) op" where
  "after_action pl env a dec r =
     st_bind (maybe_mark_escalation a r) (\<lambda>_.
     st_bind (record_event pl ''action_completed''
        [alert_item a, (''decision'', PDict (decision_to_dict dec)), (''result'', PDict (result_to_dict r))]) (\<lambda>_.
     st_bind (observe_completion pl a r) (\<lambda>_.
     st_bind (notify_action_completed pl env a r (Some dec)) (\<lambda>_.
     st_bind (schedule_tasks pl (dc_tasks dec)) (\<lambda>scheduled.
     st_return [(''alert_id'', PStr (al_id a)), (''status'', PStr (if ar_success r then ''completed'' else ''failed'')),
       (''action'', PStr (ar_action r)), (''success'', PBool (ar_success r)), (''message'', PStr (ar_message r)),
       (''scheduled_tasks'', PList (map PDict scheduled))])))))"

lemma execute_decision_alt:
  "execute_decision pl env a ctx dec handler =
     st_bind (plug (CExecute (dc_action dec)) (handler \<lparr>rq_alert = a, rq_decision = dec, rq_context = ctx\<rparr>))
       (after_action pl env a dec)"
  by (simp add: execute_decision_def after_action_def [abs_def])

lemma phases_after: "runs (after_action pl env a dec r) (\<lambda>tr _. in_phases 9 13 tr)"
  unfolding after_action_def
  by (rule phases_bind [OF phases_mark, where c = 10 and d = 13]
      phases_bind [where a = 10 and b = 10 and c = 11 and d = 13] phases_record
      phases_bind [OF phases_observe, where c = 12 and d = 13]
      phases_bind [OF phases_notify, where c = 13 and d = 13]
      phases_bind [OF phases_schedule, where c = 14 and d = 13] phases_return | simp)+

lemma phases_execute: "runs (execute_decision pl env a ctx dec h) (\<lambda>tr _. in_phases 8 13 tr)"
  unfolding execute_decision_alt
  by (rule phases_bind [where b = 8 and c = 9 and d = 13]) (simp_all add: phases_plug phases_after)

lemma phases_act_on: "runs (act_on pl env a ctx dec) (\<lambda>tr _. in_phases 7 13 tr)"
proof -
  have "runs (st_bind (record_event pl ''action_missing'' x) (\<lambda>_. st_return y)) (\<lambda>tr _. in_phases 7 13 tr)"
    for x and y :: pydict
    by (rule phases_bind [where b = 7 and c = 8 and d = 13]) (simp_all add: phases_record phases_return)
  then show ?thesis
    unfolding act_on_def by (auto intro: phases_widen [OF phases_execute] split: option.split)
qed

lemma phases_checks: "runs (record_checks pl a dec) (\<lambda>tr _. in_phases 6 6 tr)"
  by (simp add: record_checks_def phases_record phases_return)

lemma phases_decided: "runs (decided pl env a ctx dec) (\<lambda>tr _. in_phases 5 13 tr)"
  unfolding decided_def
  by (rule phases_bind [where a = 5 and b = 5 and c = 6 and d = 13] phases_record
      phases_bind [OF phases_checks, where c = 7 and d = 13] phases_act_on | simp)+

lemma phases_decide: "runs (decide_and_act pl env a) (\<lambda>tr _. in_phases 3 13 tr)"
  unfolding decide_and_act_def
  by (rule phases_bind [OF phases_gather, where c = 4 and d = 13]
      phases_bind [where a = 4 and b = 4 and c = 5 and d = 13] phases_plug phases_decided | simp)+

lemma phases_skip: "runs (skip_alert pl a) (\<lambda>tr _. in_phases 2 2 tr)"
  unfolding skip_alert_def
  by (rule phases_bind [where b = 2 and c = 3 and d = 2]) (simp_all add: phases_record phases_return)

lemma phases_admitted: "runs (admitted_alert pl env a) (\<lambda>tr _. in_phases 2 13 tr)"
  unfolding admitted_alert_def
  by (simp add: phases_widen [OF phases_skip] phases_widen [OF phases_decide])

section \<open>What the alert's result says of the trace\<close>

definition result_is :: "string \<Rightarrow> pydict res \<Rightarrow> bool" where
  "result_is st r = (case r of Inr res \<Rightarrow> pget res ''status'' = PStr st | Inl _ \<Rightarrow> False)"

lemma result_is_Inl [simp]: "\<not> result_is st (Inl e)"
  by (simp add: result_is_def)

definition stopped :: "pydict res \<Rightarrow> bool" where
  "stopped r = (result_is ''suppressed'' r \<or> result_is ''logged'' r)"

lemma stopped_Inl [simp]: "\<not> stopped (Inl e)"
  by (simp add: stopped_def)

text \<open>A post-condition on the result alone.\<close>

definition ends :: "('w engine, 'a) op \<Rightarrow> ('a res \<Rightarrow> bool) \<Rightarrow> bool" where
  "ends m R = (\<forall>s. R (fst (m s)))"

lemma ends_bind: "(\<And>e. R (Inl e)) \<Longrightarrow> (\<And>x. ends (f x) R) \<Longrightarrow> ends (st_bind m f) R"
  by (auto simp: ends_def st_bind_def split: prod.split sum.split)

lemma ends_return: "R (Inr x) \<Longrightarrow> ends (st_return x) R"
  by (simp add: ends_def st_return_def)

lemma runs_ends: "runs m P \<Longrightarrow> ends m R \<Longrightarrow> runs m (\<lambda>tr r. P tr r \<and> R r)"
  by (auto simp: runs_def ends_def)

lemma ends_after: "ends (after_action pl env a dec r) (\<lambda>r. \<not> stopped r)"
  unfolding after_action_def by (intro ends_bind ends_return) (auto simp: stopped_def result_is_def)

lemma ends_act_on: "ends (act_on pl env a ctx dec) (\<lambda>r. \<not> stopped r)"
  unfolding act_on_def execute_decision_alt
  by (cases "map_of (pl_handlers pl) (dc_action dec)")
    (simp_all, (intro ends_bind ends_return ends_after; simp add: stopped_def result_is_def)+)

lemma ends_decide: "ends (decide_and_act pl env a) (\<lambda>r. \<not> stopped r)"
  unfolding decide_and_act_def decided_def by (intro ends_bind ends_act_on) auto

lemma ends_skip: "ends (skip_alert pl a) (\<lambda>r. result_is ''suppressed'' r = False)"
  unfolding skip_alert_def by (intro ends_bind ends_return) (auto simp: result_is_def)

text \<open>
  Everything the properties say of one alert: the calls come in order of phase, an alert that
  was suppressed or logged caused nothing past phase 2, and logging is for gated alerts only.
\<close>

definition handled :: "alert \<Rightarrow> call list \<Rightarrow> pydict res \<Rightarrow> bool" where
  "handled a tr r = (in_phases 0 13 tr \<and> (stopped r \<longrightarrow> in_phases 0 2 tr) \<and> (result_is ''logged'' r \<longrightarrow> severity_gate a))"

lemma admitted_handled:
  "runs (admitted_alert pl env a) (\<lambda>tr r. in_phases 2 13 tr \<and>
     ((stopped r \<longrightarrow> in_phases 2 2 tr) \<and> (result_is ''logged'' r \<longrightarrow> severity_gate a) \<and> \<not> result_is ''suppressed'' r))"
proof (cases "severity_gate a")
  case True
  then show ?thesis
    unfolding admitted_alert_def
    by (simp, intro runs_mono [OF runs_ends [OF phases_skip ends_skip]]) (auto intro: in_phases_widen)
next
  case False
  then show ?thesis
    unfolding admitted_alert_def
    by (simp, intro runs_mono [OF runs_ends [OF phases_decide ends_decide]]) (auto simp: stopped_def intro: in_phases_widen)
qed

lemma policies_result: "ends (run_policies pl a ps) (\<lambda>r. case r of Inr (Some res) \<Rightarrow> result_is ''suppressed'' (Inr res) | _ \<Rightarrow> True)"
proof (induction ps)
  case Nil
  then show ?case by (simp add: ends_return)
next
  case (Cons p ps)
  then show ?case
    by (cases p) (auto intro!: ends_bind ends_return simp: Let_def result_is_def split: prod.split)
qed

lemma alert_handled: "runs (handle_alert pl env admitted a) (handled a)"
proof -
  let ?rcv = "CAppend ''alert_received'' [alert_item a]"
  have one: "in_phases 0 hi (?rcv # tr)" if "in_phases 1 hi tr" for hi tr
    using in_phases_append [of 0 0 "[?rcv]" 1 hi tr] that by simp
  have widen: "in_phases (Suc 0) 2 tr \<Longrightarrow> in_phases (Suc 0) 13 tr" for tr
    by (erule in_phases_widen) auto
  have two: "in_phases 1 hi (t @ u)" if "in_phases 1 1 t" "in_phases 2 hi u" "1 \<le> hi" for hi t u
    using in_phases_append [OF that(1,2)] that(3) by simp
  show ?thesis
    unfolding handle_alert_def
  proof (rule runs_bind [OF runs_recordI, where P = "\<lambda>tr _. tr = [?rcv]"])
    fix t0 x assume t0: "t0 = [?rcv]"
    show "runs (st_bind (run_policies pl a (if admitted then [] else pl_policies pl))
        (\<lambda>s. case s of Some result \<Rightarrow> st_return result | None \<Rightarrow> admitted_alert pl env a)) (\<lambda>tr r. handled a (t0 @ tr) r)"
    proof (rule runs_bind [OF runs_ends [OF phases_policies policies_result]])
      fix t1 y
      assume t1: "policies_trace t1 (Inr y) \<and>
        (case Inr y of Inr (Some res) \<Rightarrow> result_is ''suppressed'' (Inr res) | _ \<Rightarrow> True)"
      show "runs (case y of Some result \<Rightarrow> st_return result | None \<Rightarrow> admitted_alert pl env a)
          (\<lambda>tr r. handled a (t0 @ t1 @ tr) r)"
      proof (cases y)
        case (Some res)
        with t1 have "in_phases 1 2 t1" "result_is ''suppressed'' (Inr res)" by (simp_all add: policies_trace_def)
        then have "handled a (t0 @ t1) (Inr res)"
          using one [of 13 t1] one [of 2 t1] in_phases_widen [of 1 2 t1 1 13] t0 by (auto simp: handled_def result_is_def)
        then show ?thesis by (simp add: Some runs_returnI)
      next
        case None
        with t1 have "in_phases 1 1 t1" by (simp add: policies_trace_def)
        then show ?thesis
          using one two t0 by (auto simp: None handled_def intro!: runs_mono [OF admitted_handled])
      qed
    qed (use one t0 widen in \<open>auto simp: handled_def policies_trace_def\<close>)
  qed (auto simp: handled_def)
qed

section \<open>Audit: what ran had been decided\<close>

lemma no_execute: "in_phases lo hi tr \<Longrightarrow> hi < 8 \<or> 8 < lo \<Longrightarrow> CExecute act \<notin> set tr"
  by (auto simp: in_phases_def)

definition executes_only :: "string \<Rightarrow> call list \<Rightarrow> bool" where
  "executes_only act tr = (\<forall>x. CExecute x \<in> set tr \<longrightarrow> x = act)"

definition audited :: "alert \<Rightarrow> call list \<Rightarrow> bool" where
  "audited a tr = (\<forall>act. CExecute act \<in> set tr \<longrightarrow>
     (\<exists>dec. dc_action dec = act \<and>
        CAppend ''decision_made'' [alert_item a, (''decision'', PDict (decision_to_dict dec))] \<in> set tr))"

lemma executes_only_calm: "in_phases lo hi tr \<Longrightarrow> hi < 8 \<or> 8 < lo \<Longrightarrow> executes_only act tr"
  using no_execute by (auto simp: executes_only_def)

lemma executes_only_append: "executes_only act t \<Longrightarrow> executes_only act u \<Longrightarrow> executes_only act (t @ u)"
  by (auto simp: executes_only_def)

lemma executes_bind:
  assumes "runs m (\<lambda>tr _. executes_only act tr)" "\<And>x. runs (f x) (\<lambda>tr _. executes_only act tr)"
  shows "runs (st_bind m f) (\<lambda>tr _. executes_only act tr)"
  using assms(1) by (rule runs_bind) (auto intro: runs_mono [OF assms(2)] executes_only_append)

lemma act_on_executes: "runs (act_on pl env a ctx dec) (\<lambda>tr _. executes_only (dc_action dec) tr)"
proof -
  have "runs (execute_decision pl env a ctx dec h) (\<lambda>tr _. executes_only (dc_action dec) tr)" for h
    unfolding execute_decision_alt
    by (rule executes_bind, simp add: runs_plugI executes_only_def)
      (rule runs_mono [OF phases_after], rule executes_only_calm, auto)
  moreover have "runs (st_bind (record_event pl ''action_missing'' x) (\<lambda>_. st_return y)) (\<lambda>tr _. executes_only (dc_action dec) tr)"
    for x and y :: pydict
    by (rule executes_bind) (auto intro: runs_recordI runs_returnI simp: executes_only_def)
  ultimately show ?thesis unfolding act_on_def by (auto split: option.split)
qed

lemma decided_audited: "runs (decided pl env a ctx dec) (\<lambda>tr _. executes_only (dc_action dec) tr \<and>
    CAppend ''decision_made'' [alert_item a, (''decision'', PDict (decision_to_dict dec))] \<in> set tr)"
  unfolding decided_def
proof (rule runs_bind [OF runs_recordI,
    where P = "\<lambda>tr _. tr = [CAppend ''decision_made'' [alert_item a, (''decision'', PDict (decision_to_dict dec))]]"])
  have "runs (st_bind (record_checks pl a dec) (\<lambda>_. act_on pl env a ctx dec)) (\<lambda>tr _. executes_only (dc_action dec) tr)"
    by (rule executes_bind [OF runs_mono [OF phases_checks] act_on_executes]) (rule executes_only_calm, auto)
  then show "runs (st_bind (record_checks pl a dec) (\<lambda>_. act_on pl env a ctx dec))
      (\<lambda>tr' r. executes_only (dc_action dec) (tr @ tr') \<and>
        CAppend ''decision_made'' [alert_item a, (''decision'', PDict (decision_to_dict dec))] \<in> set (tr @ tr'))"
    if "tr = [CAppend ''decision_made'' [alert_item a, (''decision'', PDict (decision_to_dict dec))]]" for tr and x :: unit
    using that by (auto simp: executes_only_def elim!: runs_mono)
qed (auto simp: executes_only_def)

lemma audited_prefix: "in_phases lo hi t \<Longrightarrow> hi < 8 \<Longrightarrow> audited a u \<Longrightarrow> audited a (t @ u)"
  using no_execute by (fastforce simp: audited_def)

lemma audited_bind:
  assumes "runs m (\<lambda>tr _. in_phases lo hi tr)" "hi < 8" "\<And>x. runs (f x) (\<lambda>tr _. audited a tr)"
  shows "runs (st_bind m f) (\<lambda>tr _. audited a tr)"
  using assms(1)
proof (rule runs_bind)
  show "audited a tr" if "in_phases lo hi tr" for tr
    using audited_prefix [OF that assms(2), of a "[]"] by (simp add: audited_def)
  show "runs (f x) (\<lambda>tr' _. audited a (tr @ tr'))" if "in_phases lo hi tr" for tr x
    using audited_prefix [OF that assms(2)] by (auto intro: runs_mono [OF assms(3)])
qed

lemma decide_audited: "runs (decide_and_act pl env a) (\<lambda>tr _. audited a tr)"
proof -
  have "runs (decided pl env a ctx dec) (\<lambda>tr _. audited a tr)" for ctx dec
    by (rule runs_mono [OF decided_audited]) (auto simp: audited_def executes_only_def)
  then show ?thesis
    unfolding decide_and_act_def
    by (intro audited_bind [OF phases_gather] audited_bind [where lo = 4 and hi = 4] phases_plug) auto
qed

lemma alert_audited: "runs (handle_alert pl env admitted a) (\<lambda>tr _. audited a tr)"
proof -
  have quiet: "runs (skip_alert pl a) (\<lambda>tr _. audited a tr)"
    using audited_prefix [of 2 2 _ a "[]"] by (auto intro: runs_mono [OF phases_skip] simp: audited_def)
  have ret: "runs (st_return x) (\<lambda>tr _. audited a tr)" for x :: pydict
    by (auto intro: runs_returnI simp: audited_def)
  have pol: "runs (run_policies pl a ps) (\<lambda>tr _. in_phases 1 2 tr)" for ps
    by (rule runs_mono [OF phases_policies]) (simp add: policies_trace_def)
  show ?thesis
    unfolding handle_alert_def admitted_alert_def
    by (rule audited_bind [where lo = 0 and hi = 0], rule phases_record)
      (auto intro!: audited_bind [OF pol] ret quiet decide_audited split: option.split)
qed

section \<open>Notification and observers cannot break the run\<close>

text \<open>A loop whose every call is isolated makes all its calls and never raises.\<close>

lemma isolated_fold:
  assumes "\<And>x s. x \<in> set xs \<Longrightarrow> fst (f x () s) = Inr () \<and> en_trace (snd (f x () s)) = en_trace s @ [g x]"
  shows "fst (st_fold f xs () s) = Inr () \<and> en_trace (snd (st_fold f xs () s)) = en_trace s @ map g xs"
  using assms
proof (induction xs arbitrary: s)
  case Nil
  then show ?case by (simp add: st_return_def)
next
  case (Cons x xs)
  obtain s' where f: "f x () s = (Inr (), s')" "en_trace s' = en_trace s @ [g x]"
    using Cons.prems [of x s] by (metis list.set_intros(1) prod.collapse snd_conv)
  then show ?case using Cons.IH [of s'] Cons.prems using f by (simp add: st_bind_def)
qed

lemma isolated_notify:
  "fst (notify_action_completed pl env a r dec s) = Inr () \<and>
   en_trace (snd (notify_action_completed pl env a r dec s)) = en_trace s @
     (if should_notify (ar_action r) (ar_success r) (ar_quiet r) default_skip_actions \<and> pages env a r
      then map (\<lambda>p. CNotify (fst p)) (pl_sinks pl) else [])"
proof -
  let ?sum = "''Action '' @ (if ar_success r then ''completed'' else ''failed'') @ '': '' @ ar_action r"
  let ?f = "\<lambda>(name, notify) (_ :: unit). st_try (st_bind (plug (CNotify name)
      (notify ?sum (severity_value (al_severity a)) (notify_details a r dec))) (\<lambda>_. st_return ())) (\<lambda>_. st_return ())"
  have "fst (st_fold ?f (pl_sinks pl) () s) = Inr () \<and>
      en_trace (snd (st_fold ?f (pl_sinks pl) () s)) = en_trace s @ map (\<lambda>p. CNotify (fst p)) (pl_sinks pl)"
    by (rule isolated_fold) (auto simp: st_defs plug_def split: prod.split sum.split)
  then show ?thesis by (auto simp: notify_action_completed_def Let_def st_return_def)
qed

lemma isolated_observe:
  "fst (observe_completion pl a r s) = Inr () \<and>
   en_trace (snd (observe_completion pl a r s)) = en_trace s @
     (if ar_quiet r then [] else map (\<lambda>p. CObserve (fst p)) (pl_observers pl))"
proof -
  let ?f = "\<lambda>(name, observe) (_ :: unit). st_try (plug (CObserve name) (observe a r)) (\<lambda>_. st_return ())"
  have "fst (st_fold ?f (pl_observers pl) () s) = Inr () \<and>
      en_trace (snd (st_fold ?f (pl_observers pl) () s)) = en_trace s @ map (\<lambda>p. CObserve (fst p)) (pl_observers pl)"
    by (rule isolated_fold) (auto simp: st_defs plug_def split: prod.split sum.split)
  then show ?thesis by (simp add: observe_completion_def st_return_def)
qed

lemma record_event_trace [simp]:
  "en_trace (snd (record_event pl t p s)) = en_trace s @ [CAppend t p]"
  by (simp add: record_event_def plug_def split: prod.split)

lemma in_order_once:
  assumes "sorted_wrt precedes tr" "\<not> repeats n"
  shows "length (filter (\<lambda>c. phase c = n) tr) \<le> 1"
  using assms(1)
proof (induction tr)
  case Nil
  then show ?case by simp
next
  case (Cons c tr)
  then have "phase c = n \<Longrightarrow> filter (\<lambda>c. phase c = n) tr = []"
    using assms(2) by (fastforce simp: precedes_def filter_empty_conv)
  then show ?case using Cons by auto
qed

section \<open>Properties\<close>

text \<open>C7: One alert, one orderly pass. Whatever the plugins do, raises included, the calls of
  one \<open>handle_alert\<close> come in the order of the phases; the decision engine is asked at most once
  and at most one handler is executed; and a handler is executed only under an action for which
  the decision was recorded before it.\<close>

theorem handle_alert_orderly:
  "\<exists>tr. en_trace (snd (handle_alert pl env admitted a s)) = en_trace s @ tr \<and>
     sorted_wrt precedes tr \<and>
     length (filter (\<lambda>c. c = CDecide) tr) \<le> 1 \<and>
     length (filter (\<lambda>c. phase c = phase (CExecute [])) tr) \<le> 1 \<and>
     audited a tr"
proof -
  obtain tr where tr: "en_trace (snd (handle_alert pl env admitted a s)) = en_trace s @ tr"
    "handled a tr (fst (handle_alert pl env admitted a s))" "audited a tr"
    using runs_conj [OF alert_handled alert_audited, of pl env admitted a] unfolding runs_def by blast
  then have ord: "sorted_wrt precedes tr" by (simp add: handled_def in_phases_def)
  have "length (filter (\<lambda>c. c = CDecide) tr) \<le> length (filter (\<lambda>c. phase c = 4) tr)"
    by (induction tr) auto
  with in_order_once [OF ord, of 4] have "length (filter (\<lambda>c. c = CDecide) tr) \<le> 1" by (simp add: repeats_def)
  moreover have "length (filter (\<lambda>c. phase c = phase (CExecute [])) tr) \<le> 1"
    using in_order_once [OF ord, of 8] by (simp add: repeats_def)
  ultimately show ?thesis using tr ord by blast
qed

text \<open>C5: Suppressed means nothing happened. An alert reported as suppressed by a policy, or
  as logged by the severity gate, was not given to any context provider, decision engine,
  action handler, observer, sink or scheduler and escalated nothing: the pass consists of
  policy calls and recorded events. Only an INFO alert that is no resolution is gated.\<close>

theorem stopped_alert_is_inert:
  assumes "handle_alert pl env admitted a s = (Inr res, s')"
    and "pget res ''status'' = PStr ''suppressed'' \<or> pget res ''status'' = PStr ''logged''"
  shows "(\<exists>tr. en_trace s' = en_trace s @ tr \<and> (\<forall>c \<in> set tr. (\<exists>n. c = CPolicy n) \<or> (\<exists>t p. c = CAppend t p))) \<and>
    (pget res ''status'' = PStr ''logged'' \<longrightarrow> severity_gate a)"
proof -
  obtain tr where tr: "en_trace s' = en_trace s @ tr" "handled a tr (Inr res)"
    using alert_handled [of pl env admitted a] assms(1) by (auto simp: runs_def dest: spec [of _ s])
  have "(\<exists>n. c = CPolicy n) \<or> (\<exists>t p. c = CAppend t p)" if "phase c \<le> 2" for c
    using that by (cases c) auto
  then show ?thesis
    using tr assms(2) by (auto simp: handled_def stopped_def result_is_def in_phases_def)
qed

text \<open>C25: A rerun of an admitted alert consults no policy, so a window that the first run
  claimed cannot suppress the alert as a duplicate of itself.\<close>

theorem admitted_rerun_skips_policies:
  "handle_alert pl env True a = handle_alert (pl\<lparr>pl_policies := []\<rparr>) env b a"
proof -
  have upd: "record_event (pl\<lparr>pl_policies := []\<rparr>) = record_event pl"
    by (simp add: record_event_def fun_eq_iff)
  have task: "schedule_task (pl\<lparr>pl_policies := []\<rparr>) = schedule_task pl"
    by (simp add: schedule_task_def upd fun_eq_iff)
  have "notify_action_completed (pl\<lparr>pl_policies := []\<rparr>) = notify_action_completed pl"
    "observe_completion (pl\<lparr>pl_policies := []\<rparr>) = observe_completion pl"
    "schedule_tasks (pl\<lparr>pl_policies := []\<rparr>) = schedule_tasks pl"
    "gather_context (pl\<lparr>pl_policies := []\<rparr>) = gather_context pl"
    by (intro ext, simp add: notify_action_completed_def observe_completion_def schedule_tasks_def
        gather_context_def task)+
  then have "execute_decision (pl\<lparr>pl_policies := []\<rparr>) = execute_decision pl"
    by (intro ext) (simp add: execute_decision_def upd)
  then have "decided (pl\<lparr>pl_policies := []\<rparr>) = decided pl"
    by (intro ext) (simp add: decided_def record_checks_def act_on_def upd cong: option.case_cong)
  then have "admitted_alert (pl\<lparr>pl_policies := []\<rparr>) = admitted_alert pl"
    using \<open>gather_context _ = _\<close>
    by (intro ext) (simp add: admitted_alert_def skip_alert_def decide_and_act_def upd)
  then show ?thesis by (cases b) (simp_all add: handle_alert_def upd)
qed

text \<open>C30: Tier-2 routing and isolation. Completing an action calls every notification sink
  in order, even if some raise, exactly when the action warrants a notification and pages in
  real time; otherwise it calls none. Neither sinks nor observers can make the completion
  fail: when it raises, none of them had been called yet.\<close>

theorem completion_notifies_all_or_none:
  assumes "record_external_action_completion pl env a r s = (res, s')"
  shows "\<exists>tr. en_trace s' = en_trace s @ tr \<and>
    (res = Inr () \<longrightarrow> filter (\<lambda>c. \<exists>n. c = CNotify n) tr =
      (if should_notify (ar_action r) (ar_success r) (ar_quiet r) default_skip_actions \<and> pages env a r
       then map (\<lambda>p. CNotify (fst p)) (pl_sinks pl) else [])) \<and>
    (\<forall>e. res = Inl e \<longrightarrow> (\<forall>c \<in> set tr. \<forall>n. c \<noteq> CNotify n \<and> c \<noteq> CObserve n))"
proof -
  let ?rec = "record_event pl ''action_completed''
        [alert_item a, (''result'', PDict (result_to_dict r)), (''source'', PStr ''external'')]"
  have m: "fst (maybe_mark_escalation a r s) = Inr ()"
    by (simp add: maybe_mark_escalation_def split: option.split list.split)
  obtain s1 where m1: "maybe_mark_escalation a r s = (Inr (), s1)"
    using m by (metis prod.collapse)
  obtain t0 where t0: "en_trace s1 = en_trace s @ t0" "in_phases 9 9 t0"
    using phases_mark [of a r] m1 by (auto simp: runs_def dest: spec [of _ s])
  obtain q s2 where r2: "?rec s1 = (q, s2)" by fastforce
  have t2: "en_trace s2 = en_trace s1 @ [CAppend ''action_completed''
        [alert_item a, (''result'', PDict (result_to_dict r)), (''source'', PStr ''external'')]]"
    using record_event_trace [of pl "''action_completed''" _ s1] r2 by (metis snd_conv)
  have none: "filter (\<lambda>c. \<exists>n. c = CNotify n) t0 = []"
    using t0(2) by (auto simp: filter_empty_conv in_phases_def)
  show ?thesis
  proof (cases q)
    case (Inl e)
    then have "(res, s') = (Inl e, s2)" using assms m1 r2 by (simp add: record_external_action_completion_def st_bind_app)
    moreover have "\<forall>c \<in> set t0. \<forall>n. c \<noteq> CNotify n \<and> c \<noteq> CObserve n" using t0(2) by (auto simp: in_phases_def)
    ultimately show ?thesis using t0(1) t2 by auto
  next
    case (Inr u)
    obtain s3 where o: "observe_completion pl a r s2 = (Inr (), s3)"
      "en_trace s3 = en_trace s2 @ (if ar_quiet r then [] else map (\<lambda>p. CObserve (fst p)) (pl_observers pl))"
      using isolated_observe [of pl a r s2] by (metis prod.collapse snd_conv)
    have "(res, s') = notify_action_completed pl env a r None s3"
      using assms m1 r2 o(1) Inr by (simp add: record_external_action_completion_def st_bind_app)
    then have n: "res = Inr ()" "en_trace s' = en_trace s3 @
      (if should_notify (ar_action r) (ar_success r) (ar_quiet r) default_skip_actions \<and> pages env a r
       then map (\<lambda>p. CNotify (fst p)) (pl_sinks pl) else [])"
      using isolated_notify [of pl env a r None s3] by (metis fst_conv, metis snd_conv)
    have fo: "filter (\<lambda>c. \<exists>n. c = CNotify n) (map (\<lambda>p. CObserve (fst p)) ps) = []" for ps :: "(string \<times> 'b) list"
      by (induction ps) auto
    have fn: "filter (\<lambda>c. \<exists>n. c = CNotify n) (map (\<lambda>p. CNotify (fst p)) ps) = map (\<lambda>p. CNotify (fst p)) ps"
      for ps :: "(string \<times> 'b) list"
      by (induction ps) auto
    show ?thesis using t0(1) t2 o(2) n none fo fn m1 r2 Inr by simp
  qed
qed

text \<open>C23: The "Resolved:" alert of a cleared escalation passes the severity gate although it
  is INFO, and its fingerprint differs from the one the policies know the firing alert by; but
  with digest routing on, as by default, its completion pages nobody unless the outcome itself
  is an escalation or a failure.\<close>

theorem resolution_alert_routing:
  assumes "al_fingerprint a = Some fp" "result_outcome r \<notin> {''escalated'', ''failed'', ''needs_action''}"
  shows "\<not> severity_gate (build_resolution_alert now fresh a) \<and>
    effective_fingerprint sha (build_resolution_alert now fresh a) = fp @ '':resolved'' \<and>
    \<not> pages None (build_resolution_alert now fresh a) r"
proof -
  have "digest_low_severity None"
    by (simp add: digest_low_severity_def str_strip_def lstrip_by_def rstrip_by_def py_space_def str_lower_def lower_char_def)
  moreover have "pget (al_details (build_resolution_alert now fresh a)) ''resolution'' = PBool True"
    by (simp add: build_resolution_alert_def)
  moreover have "al_severity (build_resolution_alert now fresh a) = SevInfo"
    by (simp add: build_resolution_alert_def)
  moreover have "effective_fingerprint sha (build_resolution_alert now fresh a) = fp @ '':resolved''"
    using assms(1) by (intro effective_fingerprint_own) (simp_all add: build_resolution_alert_def fingerprint_text_def)
  ultimately show ?thesis using assms(2) by (simp add: severity_gate_def pages_def is_realtime_worthy_def)
qed

section \<open>Witnesses\<close>

definition sample_plugins :: "unit plugins" where
  "sample_plugins = \<lparr>pl_policies = [(''off'', \<lambda>_ w. (Inr (False, None), w))], pl_contexts = [],
     pl_decide = (\<lambda>_ w. (Inl (PyExn ''ValueError'' []), w)), pl_handlers = [],
     pl_sinks = [(''a'', \<lambda>_ _ _ w. (Inl (PyExn ''ValueError'' []), w)), (''b'', \<lambda>_ _ _ w. (Inr True, w))],
     pl_observers = [], pl_schedulers = [], pl_append = (\<lambda>_ w. (Inr (), w)),
     pl_stamp = (\<lambda>w. (Inr (utc 0, ''e''), w))\<rparr>"

definition sample_engine :: "unit engine" where
  "sample_engine = \<lparr>en_world = (), en_ledger = None, en_trace = []\<rparr>"

lemmas engine_eval = sample_plugins_def sample_engine_def st_defs plug_def record_event_def Let_def

definition suppressed_result :: pydict where
  "suppressed_result = [(''alert_id'', PStr ''a-1''), (''status'', PStr ''suppressed''),
     (''action'', PStr ''suppressed''), (''success'', PBool True), (''reason'', PStr ''suppressed'')]"

lemma stopped_alert_is_inert_witness:
  "\<exists>tr. en_trace (snd (handle_alert sample_plugins None False (sample_alert ''fp'' SevInfo) sample_engine)) =
      en_trace sample_engine @ tr \<and> (\<forall>c \<in> set tr. (\<exists>n. c = CPolicy n) \<or> (\<exists>t p. c = CAppend t p))"
proof (rule stopped_alert_is_inert [THEN conjunct1])
  have "fst (handle_alert sample_plugins None False (sample_alert ''fp'' SevInfo) sample_engine) = Inr suppressed_result"
    by (simp add: handle_alert_def engine_eval suppressed_result_def sample_alert_def)
  then show "handle_alert sample_plugins None False (sample_alert ''fp'' SevInfo) sample_engine =
      (Inr suppressed_result, snd (handle_alert sample_plugins None False (sample_alert ''fp'' SevInfo) sample_engine))"
    by (metis prod.collapse)
qed (simp add: suppressed_result_def)

definition sample_result :: action_result where
  "sample_result = \<lparr>ar_action = ''investigate'', ar_success = True, ar_message = [], ar_details = [],
     ar_executed_at = utc 0, ar_quiet = False\<rparr>"

lemma completion_notifies_all_or_none_witness:
  "\<exists>tr. en_trace (snd (record_external_action_completion sample_plugins None (sample_alert ''fp'' SevCritical)
       sample_result sample_engine)) = en_trace sample_engine @ tr \<and>
    filter (\<lambda>c. \<exists>n. c = CNotify n) tr = [CNotify ''a'', CNotify ''b'']"
proof -
  let ?a = "sample_alert ''fp'' SevCritical"
  let ?c = "record_external_action_completion sample_plugins None ?a sample_result sample_engine"
  have p: "pages None ?a sample_result" by (simp add: pages_def is_realtime_worthy_def sample_alert_def)
  have ok: "fst ?c = Inr ()"
    using p by (simp add: record_external_action_completion_def maybe_mark_escalation_def observe_completion_def
        notify_action_completed_def engine_eval sample_result_def)
  have "?c = (fst ?c, snd ?c)" by simp
  from completion_notifies_all_or_none [OF this] show ?thesis
    unfolding ok using p by (auto simp: sample_result_def should_notify_def default_skip_actions_def sample_plugins_def)
qed

lemma resolution_alert_routing_witness:
  "\<not> severity_gate (build_resolution_alert (utc 0) ''r'' (sample_alert ''fp'' SevCritical)) \<and>
    effective_fingerprint (\<lambda>s. s) (build_resolution_alert (utc 0) ''r'' (sample_alert ''fp'' SevCritical)) = ''fp'' @ '':resolved'' \<and>
    \<not> pages None (build_resolution_alert (utc 0) ''r'' (sample_alert ''fp'' SevCritical)) sample_result"
  by (rule resolution_alert_routing) (simp_all add: sample_alert_def result_outcome_def sample_result_def)

end
