(* ===== verification/Llm_Fallback.thy ===== *)
theory Llm_Fallback
  imports Models "HOL-Library.Multiset"
begin

text \<open>
  Provider selection for the language model, \<open>agent/llm_fallback.py\<close>: the circuit breaker over
  the whole chain, the classification of provider errors, the exponential cooldowns kept in the
  table \<open>llm_provider_state\<close>, and the choice of the next provider. Times are microseconds.
  The table is an association list; a database call that fails is a flag of the operation.
\<close>

section \<open>The circuit breaker\<close>

datatype circuit_state = CircuitClosed | CircuitOpen | CircuitHalfOpen

record circuit_config =
  cc_threshold :: int
  cc_window :: int
  cc_cooldown :: int

record circuit =
  ci_failures :: "int list"
  ci_state :: circuit_state
  ci_open_until :: int
  ci_probing :: bool

definition circuit_init :: circuit where
  "circuit_init = \<lparr>ci_failures = [], ci_state = CircuitClosed, ci_open_until = 0, ci_probing = False\<rparr>"

definition circuit_enabled :: "circuit_config \<Rightarrow> bool" where
  "circuit_enabled cfg = (cc_threshold cfg > 0)"

definition circuit_open_error :: "int \<Rightarrow> string \<Rightarrow> pyexn" where
  "circuit_open_error til reason = PyExn ''LLMCircuitOpen'' (''LLM circuit open until '' @ isoformat (utc (til - til mod 1000000)) @ '': '' @ reason)"

definition before_call :: "circuit_config \<Rightarrow> int \<Rightarrow> (circuit, unit) op" where
  "before_call cfg now c =
     (if \<not> circuit_enabled cfg then (Inr (), c)
      else if ci_state c = CircuitOpen \<and> now < ci_open_until c
        then (Inl (circuit_open_error (ci_open_until c) ''the provider chain kept failing''), c)
      else
        (let c = (if ci_state c = CircuitOpen then c\<lparr>ci_state := CircuitHalfOpen, ci_probing := False\<rparr> else c)
         in if ci_state c = CircuitHalfOpen then
              (if ci_probing c
               then (Inl (circuit_open_error (now + cc_cooldown cfg) ''a probe call is already testing the chain''), c)
               else (Inr (), c\<lparr>ci_probing := True\<rparr>))
            else (Inr (), c)))"

definition circuit_success :: "circuit \<Rightarrow> circuit" where
  "circuit_success c = c\<lparr>ci_state := CircuitClosed, ci_failures := [], ci_probing := False\<rparr>"

definition open_circuit :: "circuit_config \<Rightarrow> int \<Rightarrow> circuit \<Rightarrow> circuit" where
  "open_circuit cfg now c =
     c\<lparr>ci_state := CircuitOpen, ci_open_until := now + cc_cooldown cfg, ci_probing := False, ci_failures := []\<rparr>"

definition circuit_failure :: "circuit_config \<Rightarrow> int \<Rightarrow> circuit \<Rightarrow> bool \<times> circuit" where
  "circuit_failure cfg now c =
     (if \<not> circuit_enabled cfg then (False, c)
      else case ci_state c of
        CircuitHalfOpen \<Rightarrow> (True, open_circuit cfg now c)
      | CircuitOpen \<Rightarrow> (False, c)
      | CircuitClosed \<Rightarrow>
          (let fs = dropWhile (\<lambda>t. t \<le> now - cc_window cfg) (ci_failures c @ [now]); c = c\<lparr>ci_failures := fs\<rparr>
           in if int (length fs) \<ge> cc_threshold cfg then (True, open_circuit cfg now c) else (False, c)))"

definition release_probe :: "circuit \<Rightarrow> circuit" where
  "release_probe c = (if ci_state c = CircuitHalfOpen then c\<lparr>ci_probing := False\<rparr> else c)"

text \<open>The configuration block: a value out of range takes its default.\<close>

definition max_circuit_seconds :: pyfloat where
  "max_circuit_seconds = FDec 604800 0"

definition is_bool :: "pyval \<Rightarrow> bool" where
  "is_bool v = (case v of PBool _ \<Rightarrow> True | _ \<Rightarrow> False)"

definition threshold_from :: "pydict \<Rightarrow> int" where
  "threshold_from cfg = (let raw = pget_or cfg ''failure_threshold'' (PInt 3)
     in case py_int raw of
          Inl _ \<Rightarrow> 3
        | Inr n \<Rightarrow> if is_bool raw \<or> n < 0 then 3 else n)"

definition duration_from :: "pydict \<Rightarrow> string \<Rightarrow> int \<Rightarrow> pyfloat" where
  "duration_from cfg key dflt = (let raw = pget_or cfg key (PInt dflt)
     in case py_float raw of
          Inl _ \<Rightarrow> FDec dflt 0
        | Inr f \<Rightarrow> if is_bool raw \<or> f \<in> {FPosInf, FNegInf, FNaN} \<or> flt f f0 \<or> flt max_circuit_seconds f
                   then FDec dflt 0 else f)"

definition circuit_from_config :: "pyval \<Rightarrow> int \<times> pyfloat \<times> pyfloat" where
  "circuit_from_config cfg = (let d = dict_or_empty cfg
     in (threshold_from d, duration_from d ''window_seconds'' 1800, duration_from d ''cooldown_seconds'' 300))"

text \<open>The breaker as a machine: what the agent's chain walks do to it, in the order they do it.\<close>

datatype circuit_event = EvCall int | EvSuccess | EvFailure int | EvRelease

inductive circuit_step :: "circuit_config \<Rightarrow> circuit_event \<Rightarrow> circuit \<Rightarrow> circuit \<Rightarrow> bool" for cfg where
  call: "circuit_step cfg (EvCall t) c (snd (before_call cfg t c))"
| success: "circuit_step cfg EvSuccess c (circuit_success c)"
| failure: "circuit_step cfg (EvFailure t) c (snd (circuit_failure cfg t c))"
| release: "circuit_step cfg EvRelease c (release_probe c)"

inductive circuit_reaches :: "circuit_config \<Rightarrow> circuit_event list \<Rightarrow> circuit \<Rightarrow> bool" for cfg where
  start: "circuit_reaches cfg [] circuit_init"
| step: "circuit_reaches cfg evs c \<Longrightarrow> circuit_step cfg ev c c' \<Longrightarrow> circuit_reaches cfg (evs @ [ev]) c'"

inductive_cases circuit_stepE: "circuit_step cfg ev c c'"

inductive_simps circuit_step_simps:
  "circuit_step cfg (EvCall t) c c'" "circuit_step cfg EvSuccess c c'"
  "circuit_step cfg (EvFailure t) c c'" "circuit_step cfg EvRelease c c'"

section \<open>Errors\<close>

text \<open>
  What is read off an SDK exception: its class, the two places a status code may be, its text.
\<close>

record llm_error =
  er_timeout :: bool
  er_connection :: bool
  er_status_attr :: pyval
  er_response_status :: pyval
  er_text :: string

definition word_char :: "char \<Rightarrow> bool" where
  "word_char c = (let n = of_char c :: nat in
     (48 \<le> n \<and> n \<le> 57) \<or> (65 \<le> n \<and> n \<le> 90) \<or> n = 95 \<or> (97 \<le> n \<and> n \<le> 122) \<or>
     n \<in> {170, 178, 179, 181, 185, 186, 188, 189, 190} \<or> (192 \<le> n \<and> n \<noteq> 215 \<and> n \<noteq> 247))"

text \<open>The rest of the pattern behind a keyword: at most three non-digits, then a status.\<close>

definition status_after :: "string \<Rightarrow> int option" where
  "status_after s = (let gap = takeWhile (\<lambda>c. \<not> is_digit c) s
     in if length gap > 3 then None
        else case drop (length gap) s of
          a # b # c # rest \<Rightarrow>
            if a \<in> set ''12345'' \<and> is_digit b \<and> is_digit c \<and> (rest = [] \<or> \<not> word_char (hd rest))
            then Some (int (digits_val [a, b, c])) else None
        | _ \<Rightarrow> None)"

definition status_keywords :: "string list" where
  "status_keywords = [''error code'', ''status_code'', ''status'', ''http'']"

definition status_at :: "string \<Rightarrow> int option" where
  "status_at s = foldl (\<lambda>r kw. case r of Some n \<Rightarrow> Some n
     | None \<Rightarrow> if starts_with kw (str_lower s) then status_after (drop (length kw) s) else None) None status_keywords"

fun status_in_message :: "bool \<Rightarrow> string \<Rightarrow> int option" where
  "status_in_message inside [] = None"
| "status_in_message inside (c # s) =
     (case (if inside then None else status_at (c # s)) of
        Some n \<Rightarrow> Some n
      | None \<Rightarrow> status_in_message (word_char c) s)"

definition int_like :: "pyval \<Rightarrow> int option" where
  "int_like v = (case v of PInt i \<Rightarrow> Some i | PBool b \<Rightarrow> Some (if b then 1 else 0) | _ \<Rightarrow> None)"

definition status_code_of :: "llm_error \<Rightarrow> int option" where
  "status_code_of e = (case int_like (er_status_attr e) of
     Some i \<Rightarrow> Some i
   | None \<Rightarrow> (case int_like (er_response_status e) of
       Some i \<Rightarrow> Some i
     | None \<Rightarrow> status_in_message False (er_text e)))"

definition any_in :: "string list \<Rightarrow> string \<Rightarrow> bool" where
  "any_in pats s = list_ex (\<lambda>p. str_contains p s) pats"

definition classify_message :: "string \<Rightarrow> string" where
  "classify_message s = (let m = str_lower s in
     if any_in [''timeout'', ''timed out'', ''etimedout'', ''read timed out''] m then ''timeout''
     else if any_in [''rate limit'', ''rate_limit'', ''quota'', ''too many requests'', ''resource exhausted''] m then ''rate_limit''
     else if any_in [''unauthorized'', ''invalid api key'', ''authentication'', ''forbidden''] m then ''auth''
     else if any_in [''invalid_request'', ''invalid request'', ''bad request'', ''unprocessable''] m then ''bad_request''
     else ''connection'')"

definition classify_error :: "llm_error \<Rightarrow> int option \<Rightarrow> string" where
  "classify_error e code =
     (if er_timeout e then ''timeout''
      else if er_connection e then ''connection''
      else
        (let st = (case code of None \<Rightarrow> status_code_of e | Some n \<Rightarrow> if n = 0 then status_code_of e else Some n)
         in case st of
           None \<Rightarrow> classify_message (er_text e)
         | Some n \<Rightarrow>
             if n = 429 then ''rate_limit''
             else if n = 401 \<or> n = 403 then ''auth''
             else if 400 \<le> n \<and> n < 500 then ''bad_request''
             else classify_message (er_text e)))"

section \<open>Cooldowns\<close>

record prov =
  pv_cooldown_until :: "datetime option"
  pv_error_count :: "int option"
  pv_last_error_at :: "datetime option"
  pv_reason :: "string option"
  pv_last_success :: "datetime option"

type_synonym provs = "(string \<times> prov) list"

definition get_provider_state :: "bool \<Rightarrow> string \<Rightarrow> provs \<Rightarrow> prov option" where
  "get_provider_state up key t = (if up then map_of t key else None)"

text \<open>Minutes; the count is at least one.\<close>

definition calculate_cooldown :: "nat \<Rightarrow> string \<Rightarrow> int" where
  "calculate_cooldown n error_type =
     (if error_type = ''auth'' \<or> error_type = ''bad_request'' then 5 else min 60 (1 * 5 ^ (n - 1)))"

definition clamp_reason :: "string \<Rightarrow> string" where
  "clamp_reason reason = take 64 (if reason = [] then ''unknown'' else reason)"

definition next_error_count :: "int \<Rightarrow> prov option \<Rightarrow> nat" where
  "next_error_count now st = (case st of
     None \<Rightarrow> 1
   | Some p \<Rightarrow>
       (let n = (case pv_error_count p of None \<Rightarrow> 0 | Some k \<Rightarrow> k);
            n = (case pv_last_error_at p of
                   Some t \<Rightarrow> if now - instant (as_utc t) > seconds 3600 then 0 else n
                 | None \<Rightarrow> n)
        in nat (n + 1)))"

definition record_failure :: "bool \<Rightarrow> bool \<Rightarrow> int \<Rightarrow> string \<Rightarrow> string \<Rightarrow> provs \<Rightarrow> provs" where
  "record_failure up_read up_write now key reason t =
     (let reason = clamp_reason reason; n = next_error_count now (get_provider_state up_read key t);
          til = utc (now + seconds (60 * calculate_cooldown n reason));
          old = (case map_of t key of Some p \<Rightarrow> pv_last_success p | None \<Rightarrow> None)
      in if \<not> up_write then t
         else dset key \<lparr>pv_cooldown_until = Some til, pv_error_count = Some (int n), pv_last_error_at = Some (utc now),
                pv_reason = Some reason, pv_last_success = old\<rparr> t)"

definition record_success :: "bool \<Rightarrow> int \<Rightarrow> string \<Rightarrow> provs \<Rightarrow> provs" where
  "record_success up now key t =
     (if \<not> up then t
      else dset key (case map_of t key of
          None \<Rightarrow> \<lparr>pv_cooldown_until = None, pv_error_count = Some 0, pv_last_error_at = None, pv_reason = None,
                   pv_last_success = Some (utc now)\<rparr>
        | Some p \<Rightarrow> p\<lparr>pv_cooldown_until := None, pv_last_success := Some (utc now)\<rparr>) t)"

definition in_cooldown :: "int \<Rightarrow> prov option \<Rightarrow> bool" where
  "in_cooldown now st = (case st of
     None \<Rightarrow> False
   | Some p \<Rightarrow> (case pv_cooldown_until p of None \<Rightarrow> False | Some t \<Rightarrow> now < instant (as_utc t)))"

definition is_available :: "bool \<Rightarrow> int \<Rightarrow> string \<Rightarrow> provs \<Rightarrow> bool" where
  "is_available up now key t = (\<not> in_cooldown now (get_provider_state up key t))"

definition clear_cooldowns :: "bool \<Rightarrow> provs \<Rightarrow> int \<times> provs" where
  "clear_cooldowns up t =
     (if \<not> up then (0, t)
      else (int (length (filter (\<lambda>p. pv_cooldown_until (snd p) \<noteq> None) t)),
            map (\<lambda>p. if pv_cooldown_until (snd p) \<noteq> None
                     then (fst p, (snd p)\<lparr>pv_cooldown_until := None, pv_error_count := Some 0\<rparr>) else p) t))"

section \<open>Choosing a provider\<close>

type_synonym provider = "string \<times> string option \<times> string"

definition parse_provider_key :: "string \<Rightarrow> provider option" where
  "parse_provider_key key = (let parts = split_char CHR ''/'' key
     in if length parts < 2 then None
        else
          (let ptype = str_lower (hd parts)
           in if ptype = ''ollama'' then
                (if length parts < 3 then None
                 else
                   (let host = parts ! 1; model = str_join ''/'' (drop 2 parts);
                        host = (if CHR '':'' \<in> set host then host else host @ '':11434'')
                    in Some (''ollama'', Some (''http://'' @ host), model)))
              else Some (ptype, None, str_join ''/'' (drop 1 parts))))"

text \<open>The chain of the settings: a newline-separated string or a list of strings.\<close>

definition chain_item :: "pyval \<Rightarrow> string res" where
  "chain_item v = (case v of PStr s \<Rightarrow> Inr s | _ \<Rightarrow> no_attribute v ''split'')"

definition get_fallback_chain :: "pydict \<Rightarrow> pyval list res" where
  "get_fallback_chain settings = (case pget_or settings ''llm_fallback_chain'' (PList []) of
     PStr s \<Rightarrow> Inr (map PStr (filter (\<lambda>p. p \<noteq> []) (map str_strip (split_char (CHR 0x0A) s))))
   | PList xs \<Rightarrow> Inr xs
   | v \<Rightarrow> type_error (CHR 0x27 # type_name v @ [CHR 0x27] @ '' object is not iterable''))"

fun first_local :: "bool \<Rightarrow> int \<Rightarrow> provs \<Rightarrow> pyval list \<Rightarrow> provider option res" where
  "first_local up now t [] = Inr None"
| "first_local up now t (v # vs) = bind_res (chain_item v) (\<lambda>key.
     case parse_provider_key key of
       Some p \<Rightarrow> if fst p = ''ollama'' \<and> is_available up now key t then Inr (Some p) else first_local up now t vs
     | None \<Rightarrow> first_local up now t vs)"

definition local_enabled :: "pydict \<Rightarrow> bool" where
  "local_enabled settings = (pget_or settings ''enable_local_ollama'' (PStr ''true'') \<noteq> PStr ''false'')"

definition paid_allowed :: "pydict \<Rightarrow> bool" where
  "paid_allowed settings = (pget_or settings ''allow_paid_escalation'' (PStr ''false'') \<in> {PStr ''true'', PBool True})"

definition paid_provider :: "bool \<Rightarrow> int \<Rightarrow> pydict \<Rightarrow> provs \<Rightarrow> provider option res" where
  "paid_provider up now settings t =
     (if \<not> paid_allowed settings then Inr None
      else
        (let key = pget settings ''paid_llm_escalation''
         in if \<not> truthy key then Inr None
            else bind_res (chain_item key) (\<lambda>k.
              Inr (if is_available up now k t then parse_provider_key k else None))))"

definition get_next_provider :: "bool \<Rightarrow> int \<Rightarrow> pydict \<Rightarrow> provs \<Rightarrow> provider option res" where
  "get_next_provider up now settings t =
     bind_res (get_fallback_chain settings) (\<lambda>chain.
     bind_res (if local_enabled settings then first_local up now t chain else Inr None) (\<lambda>r.
     case r of Some p \<Rightarrow> Inr (Some p) | None \<Rightarrow> paid_provider up now settings t))"

text \<open>The status list of the console.\<close>

record provider_status =
  ps_key :: pyval
  ps_type :: string
  ps_priority :: nat
  ps_enabled :: pyval
  ps_available :: pyval
  ps_error_count :: pyval
  ps_reason :: pyval
  ps_remaining :: "int option"

definition status_fields :: "bool \<Rightarrow> int \<Rightarrow> provs \<Rightarrow> pyval \<Rightarrow> bool \<times> pyval \<times> pyval \<times> int option" where
  "status_fields up now t key =
     (let st = (case key of PStr k \<Rightarrow> get_provider_state up k t | _ \<Rightarrow> None); cool = in_cooldown now st
      in (cool,
          (case st of None \<Rightarrow> PInt 0 | Some p \<Rightarrow> PInt (case pv_error_count p of None \<Rightarrow> 0 | Some n \<Rightarrow> n)),
          (case st of None \<Rightarrow> PNone | Some p \<Rightarrow> opt_str (pv_reason p)),
          (if cool then (case st of Some p \<Rightarrow> (case pv_cooldown_until p of
               Some c \<Rightarrow> Some ((instant (as_utc c) - now) div 1000000) | None \<Rightarrow> None) | None \<Rightarrow> None) else None)))"

definition local_status :: "bool \<Rightarrow> int \<Rightarrow> provs \<Rightarrow> nat \<Rightarrow> pyval \<Rightarrow> provider_status" where
  "local_status up now t i key = (case status_fields up now t key of (cool, n, why, rem) \<Rightarrow>
     \<lparr>ps_key = key, ps_type = ''local'', ps_priority = i + 1, ps_enabled = PNone, ps_available = PBool (\<not> cool),
      ps_error_count = n, ps_reason = why, ps_remaining = rem\<rparr>)"

definition get_provider_status :: "bool \<Rightarrow> int \<Rightarrow> pydict \<Rightarrow> provs \<Rightarrow> provider_status list res" where
  "get_provider_status up now settings t =
     bind_res (get_fallback_chain settings) (\<lambda>chain.
     let paid = pget settings ''paid_llm_escalation''; allow = pget_or settings ''allow_paid_escalation'' (PBool False)
     in Inr (map (\<lambda>(i, key). local_status up now t i key) (zip [0..<length chain] chain) @
        (if truthy paid then
           (case status_fields up now t paid of (cool, n, why, rem) \<Rightarrow>
              [\<lparr>ps_key = paid, ps_type = ''paid'', ps_priority = length chain + 1, ps_enabled = allow,
                ps_available = (if truthy allow then PBool (\<not> cool) else allow),
                ps_error_count = n, ps_reason = why, ps_remaining = rem\<rparr>])
         else [])))"

section \<open>The breaker: invariant of the reachable states\<close>

definition failure_times :: "circuit_event list \<Rightarrow> int list" where
  "failure_times evs = concat (map (\<lambda>e. case e of EvFailure t \<Rightarrow> [t] | _ \<Rightarrow> []) evs)"

definition circuit_inv :: "circuit_config \<Rightarrow> circuit_event list \<Rightarrow> circuit \<Rightarrow> bool" where
  "circuit_inv cfg evs c = (mset (ci_failures c) \<subseteq># mset (failure_times evs) \<and>
     (circuit_enabled cfg \<longrightarrow> int (length (ci_failures c)) < cc_threshold cfg) \<and>
     (ci_state c \<noteq> CircuitHalfOpen \<longrightarrow> \<not> ci_probing c))"

lemma mset_dropWhile: "mset (dropWhile p xs) \<subseteq># mset xs"
  by (metis mset_subset_eq_add_right mset_append takeWhile_dropWhile_id)

lemma circuit_step_inv:
  assumes "circuit_step cfg ev c c'" "circuit_inv cfg evs c"
  shows "circuit_inv cfg (evs @ [ev]) c'"
  using assms(1)
proof (cases rule: circuit_step.cases)
  case (call t)
  then show ?thesis using assms(2)
    by (auto simp: circuit_inv_def before_call_def failure_times_def Let_def)
next
  case success
  then show ?thesis by (auto simp: circuit_inv_def circuit_success_def circuit_enabled_def)
next
  case release
  then show ?thesis using assms(2) by (auto simp: circuit_inv_def release_probe_def failure_times_def)
next
  case (failure t)
  have ft: "failure_times (evs @ [ev]) = failure_times evs @ [t]" using failure(1) by (simp add: failure_times_def)
  have "mset (dropWhile (\<lambda>x. x \<le> t - cc_window cfg) (ci_failures c @ [t])) \<subseteq># mset (ci_failures c @ [t])"
    by (rule mset_dropWhile)
  also have "\<dots> \<subseteq># mset (failure_times evs @ [t])" using assms(2) by (simp add: circuit_inv_def)
  finally have sub: "mset (dropWhile (\<lambda>x. x \<le> t - cc_window cfg) (ci_failures c @ [t])) \<subseteq># mset (failure_times evs @ [t])" .
  have "mset (ci_failures c) \<subseteq># mset (failure_times evs @ [t])"
    using assms(2) by (auto simp: circuit_inv_def intro: subset_mset.order_trans)
  with sub show ?thesis
    using assms(2) unfolding failure(2) circuit_inv_def ft
    by (auto simp: circuit_failure_def open_circuit_def Let_def circuit_enabled_def split: circuit_state.split)
qed

lemma circuit_reaches_inv: "circuit_reaches cfg evs c \<Longrightarrow> circuit_inv cfg evs c"
proof (induction rule: circuit_reaches.induct)
  case start
  then show ?case by (auto simp: circuit_inv_def circuit_init_def failure_times_def circuit_enabled_def)
next
  case (step evs c ev c')
  then show ?case by (intro circuit_step_inv)
qed

section \<open>Properties\<close>

text \<open>C13: The circuit opens from closed only on evidence: when a failure opens it, at least
  the threshold of failures was recorded, counting this one, and all of them within the window.\<close>

theorem opens_only_after_threshold:
  assumes "circuit_reaches cfg evs c" "ci_state c = CircuitClosed"
    and "circuit_failure cfg now c = (True, c')" "sorted (ci_failures c @ [now])"
  shows "\<exists>fs. mset fs \<subseteq># mset (failure_times evs @ [now]) \<and> cc_threshold cfg \<le> int (length fs) \<and>
    (\<forall>t \<in> set fs. now - cc_window cfg < t \<and> t \<le> now)"
proof -
  let ?fs = "dropWhile (\<lambda>t. t \<le> now - cc_window cfg) (ci_failures c @ [now])"
  have len: "cc_threshold cfg \<le> int (length ?fs)"
    using assms(2,3) by (auto simp: circuit_failure_def Let_def split: if_splits)
  have "mset ?fs \<subseteq># mset (ci_failures c @ [now])" by (rule mset_dropWhile)
  also have "\<dots> \<subseteq># mset (failure_times evs @ [now])"
    using circuit_reaches_inv [OF assms(1)] by (simp add: circuit_inv_def)
  finally have sub: "mset ?fs \<subseteq># mset (failure_times evs @ [now])" .
  have late: "now - cc_window cfg < t" if "sorted xs" "t \<in> set (dropWhile (\<lambda>t. t \<le> now - cc_window cfg) xs)" for t xs
    using that by (induction xs) (force split: if_splits)+
  have "t \<le> now" if "t \<in> set ?fs" for t
    using that set_dropWhileD [OF that] assms(4) by (auto simp: sorted_append)
  then show ?thesis using late [OF assms(4)] len sub by blast
qed

text \<open>C31: An open circuit fails fast. After the failure that opened it, every call before the
  cooldown is over is refused without touching the state; the first call after it is let
  through as the probe, and while that probe is out every other call is refused.\<close>

theorem open_circuit_fails_fast:
  assumes "circuit_failure cfg now c = (True, c')" "ci_state c \<noteq> CircuitOpen" "circuit_enabled cfg"
  shows "ci_state c' = CircuitOpen \<and>
    (\<forall>t < now + cc_cooldown cfg. \<exists>e. before_call cfg t c' = (Inl e, c')) \<and>
    (\<forall>t \<ge> now + cc_cooldown cfg. \<exists>c''. before_call cfg t c' = (Inr (), c'') \<and> ci_state c'' = CircuitHalfOpen \<and>
       (\<forall>u. \<exists>e. before_call cfg u c'' = (Inl e, c'')))"
proof -
  have "ci_state c' = CircuitOpen \<and> ci_open_until c' = now + cc_cooldown cfg"
    using assms by (auto simp: circuit_failure_def open_circuit_def Let_def split: circuit_state.splits if_splits)
  then show ?thesis using assms(3) by (auto simp: before_call_def Let_def)
qed

text \<open>C22: A failed provider is out for a bounded time: from one minute to an hour, exactly five
  minutes for a bad key or a rejected request, and available again when that time is over; a
  success ends the cooldown at once.\<close>

theorem cooldown_bounds:
  fixes t :: provs and now :: int and up :: bool and key reason :: string
  defines "n \<equiv> next_error_count now (get_provider_state up key t)"
  defines "wait \<equiv> 60 * calculate_cooldown n (clamp_reason reason)"
  defines "t' \<equiv> record_failure up True now key reason t"
  shows "60 \<le> wait \<and> wait \<le> 3600 \<and>
    (reason \<in> {''auth'', ''bad_request''} \<longrightarrow> wait = 300) \<and>
    (is_available True u key t' \<longleftrightarrow> now + seconds wait \<le> u) \<and>
    is_available True u key (record_success True now key t')"
proof -
  have "1 \<le> (5 :: int) ^ (n - 1)" by simp
  then have c: "1 \<le> calculate_cooldown n r \<and> calculate_cooldown n r \<le> 60" for r
    by (simp add: calculate_cooldown_def)
  have a: "as_utc (utc x) = utc x" for x by (simp add: as_utc_def utc_def)
  have i: "instant (utc x) = x" for x by (simp add: instant_def utc_def seconds_def)
  have "is_available True u key t' \<longleftrightarrow> now + seconds wait \<le> u"
    by (simp add: is_available_def t'_def record_failure_def Let_def get_provider_state_def in_cooldown_def a i
        wait_def n_def not_less)
  moreover have "is_available True u key (record_success True now key t')"
    by (simp add: is_available_def record_success_def get_provider_state_def in_cooldown_def split: option.split)
  moreover have "reason \<in> {''auth'', ''bad_request''} \<longrightarrow> wait = 300"
    by (auto simp: wait_def calculate_cooldown_def clamp_reason_def)
  moreover have "60 \<le> wait \<and> wait \<le> 3600" using c [of "clamp_reason reason"] by (simp add: wait_def)
  ultimately show ?thesis by blast
qed

lemma first_local_Some:
  "first_local up now t vs = Inr (Some p) \<Longrightarrow>
     \<exists>pre key post. vs = pre @ PStr key # post \<and> parse_provider_key key = Some p \<and> fst p = ''ollama'' \<and>
       is_available up now key t \<and> (\<forall>k q. PStr k \<in> set pre \<longrightarrow> parse_provider_key k = Some q \<longrightarrow> fst q = ''ollama'' \<longrightarrow>
         \<not> is_available up now k t)"
proof (induction vs)
  case (Cons v vs)
  then obtain key where v: "v = PStr key" by (auto simp: chain_item_def bind_res_Inr_iff no_attribute_def split: pyval.splits)
  show ?case
  proof (cases "\<exists>q. parse_provider_key key = Some q \<and> fst q = ''ollama'' \<and> is_available up now key t")
    case True
    then have "parse_provider_key key = Some p" "fst p = ''ollama''" "is_available up now key t"
      using Cons.prems by (auto simp: v chain_item_def)
    then show ?thesis
      by (intro exI [of _ "[]"] exI [of _ key] exI [of _ vs]) (simp add: v)
  next
    case False
    then have "first_local up now t vs = Inr (Some p)"
      using Cons.prems by (auto simp: v chain_item_def split: option.splits if_splits)
    from Cons.IH [OF this] obtain pre k post where "vs = pre @ PStr k # post" "parse_provider_key k = Some p"
      "fst p = ''ollama''" "is_available up now k t"
      "\<forall>k q. PStr k \<in> set pre \<longrightarrow> parse_provider_key k = Some q \<longrightarrow> fst q = ''ollama'' \<longrightarrow> \<not> is_available up now k t"
      by blast
    then show ?thesis using v False by (intro exI [of _ "v # pre"] exI [of _ k] exI [of _ post]) auto
  qed
qed simp

lemma first_local_None:
  "first_local up now t vs = Inr None \<Longrightarrow> PStr k \<in> set vs \<Longrightarrow> parse_provider_key k = Some q \<Longrightarrow> fst q = ''ollama'' \<Longrightarrow>
     \<not> is_available up now k t"
proof (induction vs)
  case (Cons v vs)
  then obtain key where v: "v = PStr key" by (auto simp: chain_item_def bind_res_Inr_iff no_attribute_def split: pyval.splits)
  show ?case using Cons by (auto simp: v chain_item_def split: option.splits if_splits)
qed simp

text \<open>C14: The provider chosen is available and is the right one: either the first local Ollama
  entry of the chain that is not cooling down, or, only where the settings allow paid
  escalation, the paid provider, and then only when local use is off or every local entry is
  cooling down.\<close>

theorem next_provider_choice:
  assumes "get_next_provider up now settings t = Inr (Some p)" "get_fallback_chain settings = Inr chain"
  shows "(\<exists>pre key post. local_enabled settings \<and> chain = pre @ PStr key # post \<and> parse_provider_key key = Some p \<and>
      fst p = ''ollama'' \<and> is_available up now key t \<and>
      (\<forall>k q. PStr k \<in> set pre \<longrightarrow> parse_provider_key k = Some q \<longrightarrow> fst q = ''ollama'' \<longrightarrow> \<not> is_available up now k t)) \<or>
    (\<exists>key. paid_allowed settings \<and> pget settings ''paid_llm_escalation'' = PStr key \<and> parse_provider_key key = Some p \<and>
      is_available up now key t \<and>
      (local_enabled settings \<longrightarrow> (\<forall>k q. PStr k \<in> set chain \<longrightarrow> parse_provider_key k = Some q \<longrightarrow> fst q = ''ollama'' \<longrightarrow>
         \<not> is_available up now k t)))"
proof -
  obtain r where r: "(if local_enabled settings then first_local up now t chain else Inr None) = Inr r"
    and p: "(case r of Some p \<Rightarrow> Inr (Some p) | None \<Rightarrow> paid_provider up now settings t) = Inr (Some p)"
    using assms by (auto simp: get_next_provider_def bind_res_Inr_iff)
  show ?thesis
  proof (cases r)
    case (Some x)
    then have "local_enabled settings" "first_local up now t chain = Inr (Some p)" using r p by (auto split: if_splits)
    then show ?thesis using first_local_Some by blast
  next
    case None
    then have "paid_provider up now settings t = Inr (Some p)" using p by simp
    then obtain key where "paid_allowed settings" "pget settings ''paid_llm_escalation'' = PStr key"
      "is_available up now key t" "parse_provider_key key = Some p"
      by (auto simp: paid_provider_def Let_def bind_res_Inr_iff chain_item_def no_attribute_def
          split: if_splits pyval.splits)
    moreover have "local_enabled settings \<longrightarrow> first_local up now t chain = Inr None" using r None by (auto split: if_splits)
    ultimately show ?thesis using first_local_None by blast
  qed
qed

text \<open>C28: The console's status list and the choice disagree when the setting is the text
  \<open>false\<close>: the list reports the paid provider as available, and it is never chosen.\<close>

theorem status_misreports_paid:
  assumes "pget_or settings ''allow_paid_escalation'' (PBool False) = PStr ''false''"
    and "pget_or settings ''allow_paid_escalation'' (PStr ''false'') = PStr ''false''"
    and "get_fallback_chain settings = Inr []" "pget settings ''paid_llm_escalation'' = PStr (c # key)"
    and "is_available up now (c # key) t"
  shows "get_next_provider up now settings t = Inr None \<and>
    (\<exists>ss. get_provider_status up now settings t = Inr ss \<and> (\<exists>s \<in> set ss. ps_type s = ''paid'' \<and> ps_available s = PBool True))"
  using assms
  by (auto simp: get_next_provider_def paid_provider_def paid_allowed_def get_provider_status_def Let_def
      status_fields_def is_available_def)

section \<open>Witnesses\<close>

definition sample_circuit :: circuit_config where
  "sample_circuit = \<lparr>cc_threshold = 2, cc_window = 100, cc_cooldown = 50\<rparr>"

lemma sample_reaches:
  "circuit_reaches sample_circuit [EvFailure 10] (circuit_init\<lparr>ci_failures := [10]\<rparr>)"
proof -
  have f: "snd (circuit_failure sample_circuit 10 circuit_init) = circuit_init\<lparr>ci_failures := [10]\<rparr>"
    by (simp add: circuit_failure_def sample_circuit_def circuit_init_def circuit_enabled_def Let_def)
  have "circuit_reaches sample_circuit ([] @ [EvFailure 10]) (snd (circuit_failure sample_circuit 10 circuit_init))"
    by (intro circuit_reaches.step [OF circuit_reaches.start] circuit_step.failure)
  then show ?thesis by (simp add: f)
qed

lemma sample_opens:
  "circuit_failure sample_circuit 20 (circuit_init\<lparr>ci_failures := [10]\<rparr>) =
     (True, open_circuit sample_circuit 20 (circuit_init\<lparr>ci_failures := [10]\<rparr>))"
  by (simp add: circuit_failure_def sample_circuit_def circuit_init_def circuit_enabled_def Let_def open_circuit_def)

lemma opens_only_after_threshold_witness:
  "\<exists>fs. mset fs \<subseteq># mset (failure_times [EvFailure 10] @ [20]) \<and> cc_threshold sample_circuit \<le> int (length fs) \<and>
    (\<forall>t \<in> set fs. 20 - cc_window sample_circuit < t \<and> t \<le> 20)"
  by (rule opens_only_after_threshold [OF sample_reaches _ sample_opens]) (simp_all add: circuit_init_def)

lemma open_circuit_fails_fast_witness:
  "\<exists>e. before_call sample_circuit 69 (open_circuit sample_circuit 20 (circuit_init\<lparr>ci_failures := [10]\<rparr>)) =
     (Inl e, open_circuit sample_circuit 20 (circuit_init\<lparr>ci_failures := [10]\<rparr>))"
  using open_circuit_fails_fast [OF sample_opens] by (simp add: circuit_init_def sample_circuit_def circuit_enabled_def)

definition sample_settings :: pydict where
  "sample_settings = [(''llm_fallback_chain'', PList [PStr ''ollama/h/m'']), (''allow_paid_escalation'', PStr ''false''),
     (''paid_llm_escalation'', PStr ''groq/m'')]"

lemma next_provider_choice_witness:
  "is_available True 0 ''ollama/h/m'' [] \<and> get_next_provider True 0 sample_settings [] = Inr (Some (''ollama'', Some ''http://h:11434'', ''m''))"
proof -
  have g: "get_next_provider True 0 sample_settings [] = Inr (Some (''ollama'', Some ''http://h:11434'', ''m''))" by code_simp
  have c: "get_fallback_chain sample_settings = Inr [PStr ''ollama/h/m'']" by code_simp
  have "\<not> paid_allowed sample_settings" by code_simp
  with next_provider_choice [OF g c] have "is_available True 0 ''ollama/h/m'' []"
    by (auto simp: Cons_eq_append_conv)
  with g show ?thesis by simp
qed

lemma cooldown_bounds_witness:
  "60 * calculate_cooldown (next_error_count 0 (get_provider_state True ''k'' [])) (clamp_reason ''auth'') = 300"
  using cooldown_bounds [of 0 True "''k''" "[]" "''auth''" 0] by simp

lemma status_misreports_paid_witness:
  "get_next_provider True 0 [(''allow_paid_escalation'', PStr ''false''), (''paid_llm_escalation'', PStr ''groq/m'')] [] = Inr None"
  using status_misreports_paid [of "[(''allow_paid_escalation'', PStr ''false''), (''paid_llm_escalation'', PStr ''groq/m'')]"
    "CHR ''g''" "''roq/m''" True 0 "[]"]
  by (simp add: pget_or_def get_fallback_chain_def is_available_def get_provider_state_def in_cooldown_def)

end
