(* ===== verification/Worker.thy ===== *)
theory Worker
  imports Models "HOL-Library.Product_Lexorder"
begin

text \<open>
  The background worker, \<open>event_runtime/worker.py\<close>: jobs, their persisted state, the bounded
  queue, retries, deferral of jobs whose target is unavailable, pruning of finished jobs and
  the restart from the state file. Worker threads interleave at the steps where a thread takes
  a job and where its \<open>handle_alert\<close> has come back; each such step is atomic here. What
  \<open>handle_alert\<close> came to is the argument \<open>outcome\<close>. Times are microseconds.
\<close>

section \<open>Jobs\<close>

record job =
  jb_id :: string
  jb_alert :: alert
  jb_status :: string
  jb_created_at :: string
  jb_started_at :: "string option"
  jb_completed_at :: "string option"
  jb_result :: pyval
  jb_error :: "string option"
  jb_attempt :: int
  jb_deferrals :: int
  jb_deferred_since :: "string option"

definition new_job :: "string \<Rightarrow> int \<Rightarrow> alert \<Rightarrow> job" where
  "new_job jid now a = \<lparr>jb_id = jid, jb_alert = a, jb_status = ''queued'', jb_created_at = isoformat (utc now),
     jb_started_at = None, jb_completed_at = None, jb_result = PNone, jb_error = None, jb_attempt = 0,
     jb_deferrals = 0, jb_deferred_since = None\<rparr>"

definition job_to_dict :: "job \<Rightarrow> pydict" where
  "job_to_dict j =
     [(''job_id'', PStr (jb_id j)), (''status'', PStr (jb_status j)), (''created_at'', PStr (jb_created_at j)),
      (''started_at'', opt_str (jb_started_at j)), (''completed_at'', opt_str (jb_completed_at j)),
      (''result'', jb_result j), (''error'', opt_str (jb_error j)), (''attempt'', PInt (jb_attempt j)),
      (''deferrals'', PInt (jb_deferrals j)), (''deferred_since'', opt_str (jb_deferred_since j)),
      (''alert'', PDict (alert_to_dict (jb_alert j)))]"

text \<open>A stored optional text; anything else would only be carried along and is refused here.\<close>

definition opt_text_of :: "pyval \<Rightarrow> string option res" where
  "opt_text_of v = (case v of PNone \<Rightarrow> Inr None | PStr s \<Rightarrow> Inr (Some s) | _ \<Rightarrow> type_error ''not a text'')"

definition job_from_dict :: "datetime \<Rightarrow> string \<Rightarrow> pydict \<Rightarrow> job res" where
  "job_from_dict now fresh d =
     bind_res (case map_of d ''job_id'' of None \<Rightarrow> Inl (PyExn ''KeyError'' ''job_id'') | Some v \<Rightarrow> Inr (py_str v)) (\<lambda>jid.
     bind_res (as_dict (por (pget d ''alert'') (PDict []))) (\<lambda>ad.
     bind_res (alert_from_dict now fresh False ad) (\<lambda>a.
     bind_res (py_int (por (pget d ''attempt'') (PInt 0))) (\<lambda>attempt.
     bind_res (py_int (por (pget d ''deferrals'') (PInt 0))) (\<lambda>deferrals.
     bind_res (opt_text_of (pget d ''started_at'')) (\<lambda>started.
     bind_res (opt_text_of (pget d ''completed_at'')) (\<lambda>completed.
     bind_res (opt_text_of (pget d ''error'')) (\<lambda>err.
     bind_res (opt_text_of (pget d ''deferred_since'')) (\<lambda>since. Inr
       \<lparr>jb_id = jid, jb_alert = a, jb_status = py_str (por (pget d ''status'') (PStr ''queued'')),
        jb_created_at = py_str (por (pget d ''created_at'') (PStr (isoformat now))),
        jb_started_at = started, jb_completed_at = completed, jb_result = pget d ''result'', jb_error = err,
        jb_attempt = attempt, jb_deferrals = deferrals, jb_deferred_since = since\<rparr>)))))))))"

definition terminal :: "job \<Rightarrow> bool" where
  "terminal j = (jb_status j = ''completed'' \<or> jb_status j = ''failed'')"

definition pending :: "job \<Rightarrow> bool" where
  "pending j = (jb_status j = ''queued'' \<or> jb_status j = ''running'')"

definition parse_datetime :: "int \<Rightarrow> string option \<Rightarrow> int" where
  "parse_datetime now raw = (case raw of
     Some s \<Rightarrow> (case from_iso s of Some t \<Rightarrow> instant (as_utc t) | None \<Rightarrow> now)
   | None \<Rightarrow> now)"

definition queue_delay :: "int \<Rightarrow> job \<Rightarrow> int option" where
  "queue_delay now j = (case jb_started_at j of None \<Rightarrow> None
     | Some s \<Rightarrow> Some (max 0 (parse_datetime now (Some s) - parse_datetime now (Some (jb_created_at j)))))"

definition processing_duration :: "int \<Rightarrow> job \<Rightarrow> int option" where
  "processing_duration now j = (case (jb_started_at j, jb_completed_at j) of
     (Some s, Some c) \<Rightarrow> Some (max 0 (parse_datetime now (Some c) - parse_datetime now (Some s)))
   | _ \<Rightarrow> None)"

definition queued_age :: "int \<Rightarrow> job \<Rightarrow> int option" where
  "queued_age now j = (if jb_status j \<noteq> ''queued'' then None
     else Some (max 0 (now - parse_datetime now (Some (jb_created_at j)))))"

section \<open>The worker\<close>

type_synonym jobs = "(string \<times> job) list"

record worker_config =
  wc_count :: nat
  wc_max_queue :: nat
  wc_max_terminal :: nat
  wc_max_retries :: int
  wc_budget :: int
  wc_base :: int
  wc_max_delay :: int

text \<open>
  \<open>wk_disk\<close> is the state file, \<open>wk_unfinished\<close> the queue's own count of tasks not yet done,
  \<open>wk_dead\<close> the threads that an exception ended, \<open>wk_restarts\<close> counts restarts.
\<close>

record worker =
  wk_jobs :: jobs
  wk_disk :: jobs
  wk_queue :: "string list"
  wk_running :: "(nat \<times> string) list"
  wk_timers :: "string list"
  wk_stopped :: bool
  wk_unfinished :: nat
  wk_dead :: "nat list"
  wk_restarts :: nat

definition worker_init :: worker where
  "worker_init = \<lparr>wk_jobs = [], wk_disk = [], wk_queue = [], wk_running = [], wk_timers = [], wk_stopped = False,
     wk_unfinished = 0, wk_dead = [], wk_restarts = 0\<rparr>"

text \<open>\<open>put_nowait\<close> succeeds while the queue has room; a size of zero is unbounded.\<close>

definition queue_room :: "worker_config \<Rightarrow> worker \<Rightarrow> bool" where
  "queue_room cfg w = (wc_max_queue cfg = 0 \<or> length (wk_queue w) < wc_max_queue cfg)"

definition queue_put :: "string \<Rightarrow> worker \<Rightarrow> worker" where
  "queue_put jid w = w\<lparr>wk_queue := wk_queue w @ [jid], wk_unfinished := wk_unfinished w + 1\<rparr>"

text \<open>Called once too often, \<open>task_done\<close> raises and the thread ends.\<close>

definition task_done :: "nat \<Rightarrow> worker \<Rightarrow> worker" where
  "task_done th w = (if wk_unfinished w = 0 then w\<lparr>wk_dead := th # wk_dead w\<rparr>
     else w\<lparr>wk_unfinished := wk_unfinished w - 1\<rparr>)"

definition save_job :: "job \<Rightarrow> worker \<Rightarrow> worker" where
  "save_job j w = w\<lparr>wk_jobs := dset (jb_id j) j (wk_jobs w), wk_disk := dset (jb_id j) j (wk_disk w)\<rparr>"

definition delete_job :: "string \<Rightarrow> worker \<Rightarrow> worker" where
  "delete_job jid w = w\<lparr>wk_jobs := ddel jid (wk_jobs w), wk_disk := ddel jid (wk_disk w)\<rparr>"

definition prune_key :: "int \<Rightarrow> job \<Rightarrow> int \<times> string" where
  "prune_key now j = (parse_datetime now (Some (case jb_completed_at j of Some (c # s) \<Rightarrow> c # s | _ \<Rightarrow> jb_created_at j)), jb_id j)"

definition prune_terminal :: "worker_config \<Rightarrow> int \<Rightarrow> worker \<Rightarrow> worker" where
  "prune_terminal cfg now w =
     (let done_jobs = filter terminal (map snd (wk_jobs w))
      in if length done_jobs \<le> wc_max_terminal cfg then w
         else
           (let keep = map jb_id (take (wc_max_terminal cfg) (sort_desc (prune_key now) done_jobs));
                js = filter (\<lambda>p. \<not> (terminal (snd p) \<and> fst p \<notin> set keep)) (wk_jobs w)
            in w\<lparr>wk_jobs := js, wk_disk := js\<rparr>))"

definition enqueue :: "worker_config \<Rightarrow> string \<Rightarrow> int \<Rightarrow> alert \<Rightarrow> (worker, pydict) op" where
  "enqueue cfg jid now a w =
     (let j = new_job jid now a; w = save_job j w
      in if queue_room cfg w then (Inr (job_to_dict j), queue_put jid w)
         else (Inl (PyExn ''QueueFullError'' ''Alert queue is full''), delete_job jid w))"

text \<open>
  A thread takes the next job and starts it; the answer is whether the run is admitted, that
  is, skips the alert policies.
\<close>

definition take_job :: "nat \<Rightarrow> int \<Rightarrow> worker \<Rightarrow> (bool \<times> worker) option" where
  "take_job th now w = (case wk_queue w of
     [] \<Rightarrow> None
   | jid # rest \<Rightarrow>
       if th \<in> set (wk_dead w) \<or> th \<in> fst ` set (wk_running w) then None
       else (case map_of (wk_jobs w) jid of
          None \<Rightarrow> None
        | Some j \<Rightarrow>
            Some (jb_attempt j > 0 \<or> jb_deferrals j > 0,
              (save_job (j\<lparr>jb_status := ''running'', jb_attempt := jb_attempt j + 1,
                 jb_started_at := Some (isoformat (utc now)), jb_error := None\<rparr>) w)
                 \<lparr>wk_queue := rest, wk_running := (th, jid) # wk_running w\<rparr>)))"

datatype outcome = OutCompleted pydict | OutUnavailable string | OutFailed string

definition defer_delay :: "worker_config \<Rightarrow> int \<Rightarrow> int" where
  "defer_delay cfg deferrals = min (wc_base cfg * 2 ^ min (nat (deferrals - 1)) 16) (wc_max_delay cfg)"

text \<open>\<open>_defer\<close>: the job to requeue after a delay, or, with the budget spent, the job to fail.\<close>

definition defer_job :: "worker_config \<Rightarrow> int \<Rightarrow> string \<Rightarrow> job \<Rightarrow> job + job" where
  "defer_job cfg now msg j0 =
     (let since = (case jb_deferred_since j0 of None \<Rightarrow> isoformat (utc now) | Some s \<Rightarrow> s);
          j = j0\<lparr>jb_deferred_since := Some since, jb_error := Some msg\<rparr>;
          waited = now - parse_datetime now (Some since)
      in if waited \<ge> wc_budget cfg
         then Inl (j\<lparr>jb_error := Some (''target unavailable for '' @ int_str (waited div 1000000) @
                ''s, past the '' @ int_str (wc_budget cfg div 1000000) @ ''s defer budget: '' @ msg)\<rparr>)
         else Inr (j\<lparr>jb_attempt := jb_attempt j - 1, jb_deferrals := jb_deferrals j + 1, jb_status := ''queued'',
                jb_started_at := None, jb_completed_at := None\<rparr>))"

text \<open>The \<open>finally\<close> block of a job that reached a terminal status.\<close>

definition finish_terminal :: "worker_config \<Rightarrow> nat \<Rightarrow> int \<Rightarrow> job \<Rightarrow> worker \<Rightarrow> worker" where
  "finish_terminal cfg th now j w =
     task_done th (prune_terminal cfg now (save_job (j\<lparr>jb_completed_at := Some (isoformat (utc now))\<rparr>) w))"

definition retry_job :: "worker_config \<Rightarrow> nat \<Rightarrow> int \<Rightarrow> string \<Rightarrow> job \<Rightarrow> worker \<Rightarrow> worker" where
  "retry_job cfg th now msg j w =
     (let j = j\<lparr>jb_error := Some msg\<rparr>
      in if jb_attempt j < wc_max_retries cfg then
           (let j = j\<lparr>jb_status := ''queued'', jb_started_at := None, jb_completed_at := None\<rparr>; w = save_job j w
            in if queue_room cfg w then task_done th (queue_put (jb_id j) w)
               else finish_terminal cfg th now (j\<lparr>jb_status := ''failed''\<rparr>) (task_done th w))
         else finish_terminal cfg th now (j\<lparr>jb_status := ''failed''\<rparr>) w)"

definition job_back :: "worker_config \<Rightarrow> nat \<Rightarrow> int \<Rightarrow> outcome \<Rightarrow> worker \<Rightarrow> worker option" where
  "job_back cfg th now out w = (case map_of (wk_running w) th of
     None \<Rightarrow> None
   | Some jid \<Rightarrow>
       (case map_of (wk_jobs w) jid of
          None \<Rightarrow> None
        | Some j \<Rightarrow>
            (let w = w\<lparr>wk_running := ddel th (wk_running w)\<rparr>
             in Some (case out of
               OutCompleted res \<Rightarrow>
                 finish_terminal cfg th now (j\<lparr>jb_result := PDict res, jb_status := ''completed''\<rparr>) w
             | OutUnavailable msg \<Rightarrow>
                 if wc_budget cfg > 0 then
                   (case defer_job cfg now msg j of
                      Inl failed \<Rightarrow> finish_terminal cfg th now (failed\<lparr>jb_status := ''failed''\<rparr>) w
                    | Inr again \<Rightarrow>
                        (let w = save_job again w
                         in task_done th (if wk_stopped w then w else w\<lparr>wk_timers := wk_timers w @ [jid]\<rparr>)))
                 else retry_job cfg th now msg j w
             | OutFailed msg \<Rightarrow> retry_job cfg th now msg j w))))"

text \<open>A deferral timer that ran out puts its job once there is room.\<close>

definition timer_fires :: "worker_config \<Rightarrow> string \<Rightarrow> worker \<Rightarrow> worker option" where
  "timer_fires cfg jid w = (if jid \<in> set (wk_timers w) \<and> \<not> wk_stopped w \<and> queue_room cfg w
     then Some (queue_put jid (w\<lparr>wk_timers := remove1 jid (wk_timers w)\<rparr>)) else None)"

definition stop_worker :: "worker \<Rightarrow> worker" where
  "stop_worker w = w\<lparr>wk_stopped := True, wk_timers := []\<rparr>"

text \<open>
  A new process on the state file, whose writer sorts it by job id. The pending jobs are put
  before any thread runs, so with more of them than the queue holds \<open>put\<close> never returns:
  \<open>None\<close>.
\<close>

definition restored :: "job \<Rightarrow> job" where
  "restored j = (if pending j then j\<lparr>jb_status := ''queued'', jb_started_at := None, jb_completed_at := None,
      jb_error := None, jb_result := PNone\<rparr> else j)"

definition restart :: "worker_config \<Rightarrow> int \<Rightarrow> worker \<Rightarrow> worker option" where
  "restart cfg now w =
     (let d = sort_key fst (wk_disk w);
          w = prune_terminal cfg now (worker_init\<lparr>wk_jobs := d, wk_disk := d, wk_restarts := wk_restarts w + 1\<rparr>);
          ids = map fst (filter (\<lambda>p. pending (snd p)) (wk_jobs w));
          js = map (\<lambda>p. (fst p, restored (snd p))) (wk_jobs w)
      in if wc_max_queue cfg = 0 \<or> length ids \<le> wc_max_queue cfg
         then Some (w\<lparr>wk_jobs := js, wk_disk := js, wk_queue := ids, wk_unfinished := length ids\<rparr>)
         else None)"

section \<open>The machine\<close>

datatype worker_event =
    WEnqueue string int alert
  | WTake nat int string bool
  | WBack nat int outcome
  | WTimer string
  | WStop
  | WRestart int

inductive worker_step :: "worker_config \<Rightarrow> worker_event \<Rightarrow> worker \<Rightarrow> worker \<Rightarrow> bool" for cfg where
  enqueue: "worker_step cfg (WEnqueue jid now a) w (snd (enqueue cfg jid now a w))"
| take: "th < wc_count cfg \<Longrightarrow> take_job th now w = Some (adm, w') \<Longrightarrow>
     worker_step cfg (WTake th now (hd (wk_queue w)) adm) w w'"
| comes_back: "job_back cfg th now out w = Some w' \<Longrightarrow> worker_step cfg (WBack th now out) w w'"
| timer: "timer_fires cfg jid w = Some w' \<Longrightarrow> worker_step cfg (WTimer jid) w w'"
| stop: "worker_step cfg WStop w (stop_worker w)"
| restart: "restart cfg now w = Some w' \<Longrightarrow> worker_step cfg (WRestart now) w w'"

text \<open>Job ids are fresh (\<open>uuid4\<close>).\<close>

definition enqueued :: "worker_event list \<Rightarrow> string set" where
  "enqueued evs = {jid. \<exists>now a. WEnqueue jid now a \<in> set evs}"

definition fresh_event :: "worker_event list \<Rightarrow> worker_event \<Rightarrow> bool" where
  "fresh_event evs ev = (case ev of WEnqueue jid _ _ \<Rightarrow> jid \<notin> enqueued evs | _ \<Rightarrow> True)"

inductive worker_reaches :: "worker_config \<Rightarrow> worker_event list \<Rightarrow> worker \<Rightarrow> bool" for cfg where
  start: "worker_reaches cfg [] worker_init"
| step: "worker_reaches cfg evs w \<Longrightarrow> fresh_event evs ev \<Longrightarrow> worker_step cfg ev w w' \<Longrightarrow>
     worker_reaches cfg (evs @ [ev]) w'"

text \<open>The machine as a function on a given history.\<close>

definition worker_do :: "worker_config \<Rightarrow> worker_event \<Rightarrow> worker \<Rightarrow> worker option" where
  "worker_do cfg ev w = (case ev of
     WEnqueue jid now a \<Rightarrow> Some (snd (enqueue cfg jid now a w))
   | WTake th now jid adm \<Rightarrow>
       if th < wc_count cfg \<and> wk_queue w \<noteq> [] \<and> jid = hd (wk_queue w)
       then (case take_job th now w of Some (adm', w') \<Rightarrow> if adm' = adm then Some w' else None | None \<Rightarrow> None)
       else None
   | WBack th now out \<Rightarrow> job_back cfg th now out w
   | WTimer jid \<Rightarrow> timer_fires cfg jid w
   | WStop \<Rightarrow> Some (stop_worker w)
   | WRestart now \<Rightarrow> restart cfg now w)"

inductive_simps worker_step_simps:
  "worker_step cfg (WEnqueue jid now a) w w'" "worker_step cfg (WTake th now jid adm) w w'"
  "worker_step cfg (WBack th now out) w w'" "worker_step cfg (WTimer jid) w w'"
  "worker_step cfg WStop w w'" "worker_step cfg (WRestart now) w w'"

lemma worker_do_step: "worker_do cfg ev w = Some w' \<longleftrightarrow> worker_step cfg ev w w'"
  by (cases ev) (auto simp: worker_do_def worker_step_simps take_job_def
      split: option.splits prod.splits list.splits if_splits)

fun replay :: "worker_config \<Rightarrow> worker_event list \<Rightarrow> worker_event list \<Rightarrow> worker \<Rightarrow> worker option" where
  "replay cfg past [] w = Some w"
| "replay cfg past (ev # evs) w = (if fresh_event past ev then
     (case worker_do cfg ev w of None \<Rightarrow> None | Some w' \<Rightarrow> replay cfg (past @ [ev]) evs w') else None)"

lemma replay_reaches:
  "worker_reaches cfg past w \<Longrightarrow> replay cfg past evs w = Some w' \<Longrightarrow> worker_reaches cfg (past @ evs) w'"
proof (induction evs arbitrary: past w)
  case (Cons ev evs)
  then obtain v where v: "fresh_event past ev" "worker_do cfg ev w = Some v" "replay cfg (past @ [ev]) evs v = Some w'"
    by (auto split: if_splits option.splits)
  have "worker_reaches cfg (past @ [ev]) v"
    using worker_reaches.step [OF Cons.prems(1) v(1)] v(2) by (simp add: worker_do_step)
  from Cons.IH [OF this v(3)] show ?case by simp
qed simp

lemmas replay_start = replay_reaches [OF worker_reaches.start, simplified]

section \<open>The invariant\<close>

definition active :: "worker \<Rightarrow> string list" where
  "active w = wk_queue w @ map snd (wk_running w) @ wk_timers w"

definition attempt_bound :: "worker_config \<Rightarrow> worker \<Rightarrow> int" where
  "attempt_bound cfg w = max 1 (wc_max_retries cfg) + int (wk_restarts w)"

definition job_ok :: "int \<Rightarrow> job \<Rightarrow> bool" where
  "job_ok b j = (0 \<le> jb_attempt j \<and> 0 \<le> jb_deferrals j \<and> jb_attempt j \<le> b \<and>
     (jb_status j = ''queued'' \<and> jb_attempt j < b \<or> jb_status j = ''running'' \<and> 1 \<le> jb_attempt j \<or> terminal j))"

definition has_status :: "worker \<Rightarrow> string \<Rightarrow> string \<Rightarrow> bool" where
  "has_status w st jid = (\<exists>j. map_of (wk_jobs w) jid = Some j \<and> jb_status j = st)"

text \<open>
  The invariant of the worker, with one job \<open>x\<close> possibly in the hands of the step under way:
  every other pending job of a worker that is not stopped waits or runs in exactly one place,
  and memory and state file agree.
\<close>

definition wi :: "worker_config \<Rightarrow> string option \<Rightarrow> worker \<Rightarrow> bool" where
  "wi cfg x w =
     (is_dict (wk_jobs w) \<and> wk_disk w = wk_jobs w \<and>
      (\<forall>p \<in> set (wk_jobs w). jb_id (snd p) = fst p \<and> job_ok (attempt_bound cfg w) (snd p)) \<and>
      distinct (active w) \<and> distinct (map fst (wk_running w)) \<and>
      (\<forall>jid \<in> set (wk_queue w) \<union> set (wk_timers w). has_status w ''queued'' jid) \<and>
      (\<forall>jid \<in> snd ` set (wk_running w). has_status w ''running'' jid) \<and>
      (\<not> wk_stopped w \<longrightarrow> (\<forall>p \<in> set (wk_jobs w). pending (snd p) \<longrightarrow> Some (fst p) = x \<or> fst p \<in> set (active w))) \<and>
      (\<forall>jid. x = Some jid \<longrightarrow> jid \<notin> set (active w)))"

abbreviation winv :: "worker_config \<Rightarrow> worker \<Rightarrow> bool" where
  "winv cfg \<equiv> wi cfg None"

named_theorems wdefs \<open>the worker's small operations\<close>

lemmas worker_ops [wdefs] = save_job_def delete_job_def queue_put_def task_done_def

lemma wi_task_done [simp]: "wi cfg x (task_done th w) = wi cfg x w"
  by (simp add: wi_def task_done_def active_def has_status_def attempt_bound_def)

lemma wi_save:
  assumes "wi cfg (Some (jb_id j)) w" "job_ok (attempt_bound cfg w) j"
  shows "wi cfg (Some (jb_id j)) (save_job j w)"
proof -
  have keep: "has_status (save_job j w) st k = has_status w st k" if "k \<in> set (active w)" for st k
    using assms(1) that by (auto simp: wi_def has_status_def save_job_def)
  have act: "active (save_job j w) = active w" by (simp add: active_def save_job_def)
  have "\<forall>p \<in> set (dset (jb_id j) j (wk_jobs w)). jb_id (snd p) = fst p \<and> job_ok (attempt_bound cfg w) (snd p)"
    using assms set_dset [of "jb_id j" j "wk_jobs w"] by (fastforce simp: wi_def)
  moreover have "\<forall>p \<in> set (dset (jb_id j) j (wk_jobs w)). pending (snd p) \<longrightarrow> fst p = jb_id j \<or> fst p \<in> set (active w)"
    if "\<not> wk_stopped w"
    using assms(1) that set_dset [of "jb_id j" j "wk_jobs w"] by (fastforce simp: wi_def)
  moreover have "\<forall>k \<in> set (wk_queue w) \<union> set (wk_timers w). has_status (save_job j w) ''queued'' k"
    using assms(1) keep by (auto simp: wi_def active_def)
  moreover have "\<forall>k \<in> snd ` set (wk_running w). has_status (save_job j w) ''running'' k"
    using assms(1) keep by (auto simp: wi_def active_def)
  moreover have "attempt_bound cfg (save_job j w) = attempt_bound cfg w" by (simp add: attempt_bound_def save_job_def)
  ultimately show ?thesis
    using assms(1) unfolding wi_def act by (simp add: save_job_def)
qed

lemma has_status_save [simp]: "has_status (save_job j w) st (jb_id j) \<longleftrightarrow> jb_status j = st"
  by (simp add: has_status_def save_job_def)

lemma wi_put:
  assumes "wi cfg (Some jid) w" "has_status w ''queued'' jid"
  shows "winv cfg (queue_put jid w)"
  using assms by (auto simp: wi_def queue_put_def active_def has_status_def attempt_bound_def)

lemma wi_timer:
  assumes "wi cfg (Some jid) w" "has_status w ''queued'' jid"
  shows "winv cfg (w\<lparr>wk_timers := wk_timers w @ [jid]\<rparr>)"
  using assms by (auto simp: wi_def active_def has_status_def attempt_bound_def)

lemma wi_run:
  assumes "wi cfg (Some jid) w" "has_status w ''running'' jid" "th \<notin> fst ` set (wk_running w)"
  shows "winv cfg (w\<lparr>wk_running := (th, jid) # wk_running w\<rparr>)"
  using assms by (auto simp: wi_def active_def has_status_def attempt_bound_def)

lemma wi_terminal:
  assumes "wi cfg (Some jid) w" "map_of (wk_jobs w) jid = Some j" "\<not> pending j"
  shows "winv cfg w"
proof -
  have "\<not> pending (snd p)" if "p \<in> set (wk_jobs w)" "fst p = jid" for p
    using assms that map_of_is_dict [of "wk_jobs w" "fst p" "snd p"] by (auto simp: wi_def)
  then show ?thesis using assms(1) by (auto simp: wi_def)
qed

lemma wi_stopped: "wi cfg x w \<Longrightarrow> wk_stopped w \<Longrightarrow> winv cfg w"
  by (auto simp: wi_def)

lemma wi_lift: "winv cfg w \<Longrightarrow> jid \<notin> set (active w) \<Longrightarrow> wi cfg (Some jid) w"
  by (auto simp: wi_def)

text \<open>Pruning only ever removes finished jobs.\<close>

lemma pending_not_terminal: "pending j \<Longrightarrow> \<not> terminal j"
  by (auto simp: pending_def terminal_def)

lemma prune_filters:
  assumes "wk_disk w = wk_jobs w"
  shows "\<exists>f. prune_terminal cfg now w = w\<lparr>wk_jobs := filter f (wk_jobs w), wk_disk := filter f (wk_jobs w)\<rparr> \<and>
    (\<forall>p. \<not> terminal (snd p) \<longrightarrow> f p)"
proof (cases "length (filter terminal (map snd (wk_jobs w))) \<le> wc_max_terminal cfg")
  case True
  then show ?thesis using assms by (intro exI [of _ "\<lambda>_. True"]) (simp add: prune_terminal_def Let_def)
next
  case False
  let ?keep = "map jb_id (take (wc_max_terminal cfg) (sort_desc (prune_key now) (filter terminal (map snd (wk_jobs w)))))"
  show ?thesis
    by (intro exI [of _ "\<lambda>p. \<not> (terminal (snd p) \<and> fst p \<notin> set ?keep)"])
      (use False in \<open>simp add: prune_terminal_def Let_def\<close>)
qed

lemma map_of_filter_keep:
  "is_dict d \<Longrightarrow> map_of d k = Some v \<Longrightarrow> f (k, v) \<Longrightarrow> map_of (filter f d) k = Some v"
  by (simp add: map_of_filter_dict)

lemma wi_prune:
  assumes w: "winv cfg w"
  shows "winv cfg (prune_terminal cfg now w)"
proof -
  have "wk_disk w = wk_jobs w" using w by (simp add: wi_def)
  then obtain f where f: "prune_terminal cfg now w = w\<lparr>wk_jobs := filter f (wk_jobs w), wk_disk := filter f (wk_jobs w)\<rparr>"
    "\<forall>p. \<not> terminal (snd p) \<longrightarrow> f p"
    using prune_filters by blast
  let ?w = "w\<lparr>wk_jobs := filter f (wk_jobs w), wk_disk := filter f (wk_jobs w)\<rparr>"
  have st: "has_status ?w st jid" if h: "has_status w st jid" "st = ''queued'' \<or> st = ''running''" for st jid
  proof -
    obtain j where "map_of (wk_jobs w) jid = Some j" "jb_status j = st" using h(1) by (auto simp: has_status_def)
    moreover have "\<not> terminal j" using calculation(2) h(2) by (auto simp: terminal_def)
    ultimately show ?thesis using map_of_filter_keep [of "wk_jobs w" jid j f] w f(2) by (auto simp: has_status_def wi_def)
  qed
  have "winv cfg ?w"
    using w st by (simp add: wi_def active_def attempt_bound_def)
  then show ?thesis by (simp only: f(1))
qed

lemma wi_finish:
  assumes "wi cfg (Some (jb_id j)) w" "terminal j" "job_ok (attempt_bound cfg w) j"
  shows "winv cfg (finish_terminal cfg th now j w)"
proof -
  let ?j = "j\<lparr>jb_completed_at := Some (isoformat (utc now))\<rparr>"
  have ok: "job_ok (attempt_bound cfg w) ?j" "\<not> pending ?j"
    using assms(2,3) by (auto simp: job_ok_def terminal_def pending_def)
  have "wi cfg (Some (jb_id j)) (save_job ?j w)" using wi_save [of cfg ?j w] assms(1) ok(1) by simp
  then have "winv cfg (save_job ?j w)"
    by (rule wi_terminal [OF _ _ ok(2)]) (simp add: save_job_def)
  then show ?thesis by (simp add: finish_terminal_def wi_prune)
qed

lemma bound_pos: "0 < attempt_bound cfg w"
  by (simp add: attempt_bound_def)

lemma wi_active: "wi cfg x w \<Longrightarrow> jid \<in> set (active w) \<Longrightarrow> \<exists>j. map_of (wk_jobs w) jid = Some j"
  unfolding wi_def active_def has_status_def by auto

lemma wi_queued:
  "wi cfg x w \<Longrightarrow> jid \<in> set (wk_queue w) \<union> set (wk_timers w) \<Longrightarrow> map_of (wk_jobs w) jid = Some j \<Longrightarrow> jb_status j = ''queued''"
  unfolding wi_def has_status_def by (metis option.inject)

lemma wi_running:
  "wi cfg x w \<Longrightarrow> jid \<in> snd ` set (wk_running w) \<Longrightarrow> map_of (wk_jobs w) jid = Some j \<Longrightarrow> jb_status j = ''running''"
  unfolding wi_def has_status_def by (metis option.inject)

lemma wi_job:
  "wi cfg x w \<Longrightarrow> map_of (wk_jobs w) jid = Some j \<Longrightarrow> jb_id j = jid \<and> job_ok (attempt_bound cfg w) j"
  using map_of_SomeD [of "wk_jobs w" jid j] by (fastforce simp: wi_def)

lemma bound_ops [simp]:
  "attempt_bound cfg (save_job j w) = attempt_bound cfg w" "attempt_bound cfg (queue_put k w) = attempt_bound cfg w"
  "attempt_bound cfg (task_done th w) = attempt_bound cfg w"
  by (simp_all add: attempt_bound_def wdefs)

lemma status_ops [simp]:
  "has_status (task_done th w) st k = has_status w st k" "wk_stopped (save_job j w) = wk_stopped w"
  by (simp_all add: has_status_def wdefs)

lemma wi_retry:
  assumes "wi cfg (Some (jb_id j)) w" "job_ok (attempt_bound cfg w) j" "jb_status j = ''running''"
  shows "winv cfg (retry_job cfg th now msg j w)"
proof -
  let ?q = "j\<lparr>jb_error := Some msg, jb_status := ''queued'', jb_started_at := None, jb_completed_at := None\<rparr>"
  let ?f = "j\<lparr>jb_error := Some msg, jb_status := ''failed''\<rparr>"
  have f: "winv cfg (finish_terminal cfg th now ?f w)"
    using wi_finish [of cfg ?f w] assms by (simp add: job_ok_def terminal_def)
  show ?thesis
  proof (cases "jb_attempt j < wc_max_retries cfg")
    case False
    then show ?thesis using f by (simp add: retry_job_def Let_def)
  next
    case True
    then have ok: "job_ok (attempt_bound cfg w) ?q" using assms(2) by (auto simp: job_ok_def attempt_bound_def)
    have s: "wi cfg (Some (jb_id j)) (save_job ?q w)" using wi_save [of cfg ?q w] assms(1) ok by simp
    have st: "has_status (save_job ?q w) ''queued'' (jb_id j)" using has_status_save [of ?q w "''queued''"] by simp
    have put: "winv cfg (queue_put (jb_id j) (save_job ?q w))" using s st by (rule wi_put)
    let ?g = "?q\<lparr>jb_status := ''failed''\<rparr>"
    have "winv cfg (finish_terminal cfg th now ?g (task_done th (save_job ?q w)))"
      using wi_finish [of cfg ?g "task_done th (save_job ?q w)"] s assms(2) by (simp add: job_ok_def terminal_def)
    with put show ?thesis using True by (simp add: retry_job_def Let_def)
  qed
qed

lemma defer_job_ok:
  assumes "job_ok b j" "jb_status j = ''running''"
  shows "defer_job cfg now msg j = Inr again \<Longrightarrow> job_ok b again \<and> jb_status again = ''queued'' \<and> jb_id again = jb_id j"
    and "defer_job cfg now msg j = Inl failed \<Longrightarrow> job_ok b (failed\<lparr>jb_status := ''failed''\<rparr>) \<and> jb_id failed = jb_id j"
  using assms by (auto simp: defer_job_def Let_def job_ok_def terminal_def split: if_splits)

lemma ddel_value:
  "is_dict r \<Longrightarrow> distinct (map snd r) \<Longrightarrow> map_of r k = Some v \<Longrightarrow>
     distinct (map snd (ddel k r)) \<and> snd ` set r = insert v (snd ` set (ddel k r)) \<and> v \<notin> snd ` set (ddel k r)"
proof (induction r)
  case (Cons p r)
  show ?case
  proof (cases "fst p = k")
    case True
    then have "ddel k r = r" using Cons.prems(1) by (auto simp: is_dict_def ddel_def filter_id_conv) (metis fst_conv image_eqI)
    then show ?thesis using True Cons.prems by (auto simp: ddel_def)
  next
    case False
    then have "distinct (map snd (ddel k r)) \<and> snd ` set r = insert v (snd ` set (ddel k r)) \<and> v \<notin> snd ` set (ddel k r)"
      using Cons by (simp add: is_dict_def split: if_splits)
    then show ?thesis using False Cons.prems(2) by (auto simp: ddel_def)
  qed
qed simp

text \<open>A job leaves its thread and is in the hands of the step.\<close>

lemma wi_leave:
  assumes "winv cfg w" "map_of (wk_running w) th = Some jid"
  shows "wi cfg (Some jid) (w\<lparr>wk_running := ddel th (wk_running w)\<rparr>)"
proof -
  have "is_dict (wk_running w)" "distinct (map snd (wk_running w))"
    using assms(1) by (auto simp: wi_def active_def is_dict_def)
  note v = ddel_value [OF this assms(2)]
  let ?w = "w\<lparr>wk_running := ddel th (wk_running w)\<rparr>"
  have act: "set (active w) = insert jid (set (active ?w))" using v by (auto simp: active_def)
  have "jid \<notin> set (active ?w)" "distinct (active ?w)"
    using assms(1) v unfolding wi_def active_def by auto
  moreover have "distinct (map fst (wk_running ?w))"
    using \<open>is_dict (wk_running w)\<close> by (simp add: is_dict_def ddel_def distinct_map_filter)
  moreover have "set (wk_running ?w) \<subseteq> set (wk_running w)" by (auto simp: ddel_def)
  ultimately show ?thesis
    using assms(1) act unfolding wi_def by (auto simp: has_status_def attempt_bound_def)
qed

lemma wi_back:
  assumes "winv cfg w" "job_back cfg th now out w = Some w'"
  shows "winv cfg w'"
proof -
  obtain jid j where run: "map_of (wk_running w) th = Some jid" and j: "map_of (wk_jobs w) jid = Some j"
    using assms(2) by (auto simp: job_back_def split: option.splits)
  let ?w = "w\<lparr>wk_running := ddel th (wk_running w)\<rparr>"
  have ids: "jb_id j = jid" and ok: "job_ok (attempt_bound cfg ?w) j"
    using wi_job [OF assms(1) j] by (simp_all add: attempt_bound_def)
  have "jid \<in> snd ` set (wk_running w)" using map_of_SomeD [OF run] by force
  then have st: "jb_status j = ''running''" using assms(1) j by (auto simp: wi_def has_status_def)
  have w: "wi cfg (Some (jb_id j)) ?w" using wi_leave [OF assms(1) run] by (simp add: ids)
  note retry = wi_retry [OF w ok st]
  have w': "w' = (case out of
       OutCompleted res \<Rightarrow> finish_terminal cfg th now (j\<lparr>jb_result := PDict res, jb_status := ''completed''\<rparr>) ?w
     | OutUnavailable msg \<Rightarrow>
         if wc_budget cfg > 0 then
           (case defer_job cfg now msg j of
              Inl failed \<Rightarrow> finish_terminal cfg th now (failed\<lparr>jb_status := ''failed''\<rparr>) ?w
            | Inr again \<Rightarrow>
                (let w = save_job again ?w
                 in task_done th (if wk_stopped w then w else w\<lparr>wk_timers := wk_timers w @ [jid]\<rparr>)))
         else retry_job cfg th now msg j ?w
     | OutFailed msg \<Rightarrow> retry_job cfg th now msg j ?w)"
    using assms(2) run j by (simp add: job_back_def Let_def)
  show ?thesis
  proof (cases out)
    case (OutCompleted res)
    have "job_ok (attempt_bound cfg ?w) (j\<lparr>jb_result := PDict res, jb_status := ''completed''\<rparr>)"
      using ok by (simp add: job_ok_def terminal_def)
    then show ?thesis
      using wi_finish [of cfg "j\<lparr>jb_result := PDict res, jb_status := ''completed''\<rparr>" ?w] w OutCompleted w'
      by (simp add: terminal_def)
  next
    case (OutFailed msg)
    then show ?thesis using retry w' by simp
  next
    case (OutUnavailable msg)
    show ?thesis
    proof (cases "wc_budget cfg > 0")
      case False
      then show ?thesis using retry w' OutUnavailable by simp
    next
      case True
      show ?thesis
      proof (cases "defer_job cfg now msg j")
        case (Inl failed)
        note d = defer_job_ok(2) [OF ok st Inl]
        have "winv cfg (finish_terminal cfg th now (failed\<lparr>jb_status := ''failed''\<rparr>) ?w)"
          using wi_finish [of cfg "failed\<lparr>jb_status := ''failed''\<rparr>" ?w] w d by (simp add: terminal_def)
        then show ?thesis using w' OutUnavailable True Inl by simp
      next
        case (Inr again)
        note d = defer_job_ok(1) [OF ok st Inr]
        have s: "wi cfg (Some jid) (save_job again ?w)" using wi_save [of cfg again ?w] w d ids by simp
        have q: "has_status (save_job again ?w) ''queued'' jid"
          using has_status_save [of again ?w "''queued''"] d ids by simp
        show ?thesis
          using w' OutUnavailable True Inr wi_timer [OF s q] wi_stopped [OF s] by (simp add: Let_def)
      qed
    qed
  qed
qed

lemma wi_enqueue:
  assumes "winv cfg w" "map_of (wk_jobs w) jid = None"
  shows "winv cfg (snd (enqueue cfg jid now a w))"
proof -
  let ?j = "new_job jid now a"
  have id: "jb_id ?j = jid" by (simp add: new_job_def)
  have "jid \<notin> set (active w)" using wi_active [OF assms(1), of jid] assms(2) by auto
  then have "wi cfg (Some (jb_id ?j)) w" unfolding id by (rule wi_lift [OF assms(1)])
  moreover have "job_ok (attempt_bound cfg w) ?j" using bound_pos [of cfg w] by (simp add: job_ok_def new_job_def)
  ultimately have s: "wi cfg (Some jid) (save_job ?j w)" using wi_save [of cfg ?j w] id by simp
  have q: "has_status (save_job ?j w) ''queued'' jid"
    using has_status_save [of ?j w "''queued''"] by (simp add: new_job_def)
  have un: "ddel jid (dset jid ?j ps) = ps" if "map_of ps jid = None" for ps :: jobs
    using that by (induction ps) (auto simp: ddel_def split: if_splits)
  have "delete_job jid (save_job ?j w) = w"
    using assms un by (simp add: delete_job_def save_job_def id wi_def)
  then show ?thesis using wi_put [OF s q] assms(1) by (simp add: enqueue_def Let_def)
qed

lemma wi_take:
  assumes "winv cfg w" "take_job th now w = Some (adm, w')"
  shows "winv cfg w'"
proof -
  obtain jid rest j where q: "wk_queue w = jid # rest" and th: "th \<notin> fst ` set (wk_running w)"
    and j: "map_of (wk_jobs w) jid = Some j"
    and w': "w' = (save_job (j\<lparr>jb_status := ''running'', jb_attempt := jb_attempt j + 1,
                 jb_started_at := Some (isoformat (utc now)), jb_error := None\<rparr>) w)
                 \<lparr>wk_queue := rest, wk_running := (th, jid) # wk_running w\<rparr>"
    using assms(2) by (auto simp: take_job_def split: list.splits if_splits option.splits)
  let ?j = "j\<lparr>jb_status := ''running'', jb_attempt := jb_attempt j + 1, jb_started_at := Some (isoformat (utc now)), jb_error := None\<rparr>"
  let ?w = "w\<lparr>wk_queue := rest\<rparr>"
  have ids: "jb_id j = jid" "job_ok (attempt_bound cfg w) j" using wi_job [OF assms(1) j] by simp_all
  have "jb_status j = ''queued''" using assms(1) q j by (auto simp: wi_def has_status_def)
  then have ok: "job_ok (attempt_bound cfg ?w) ?j" using ids(2) by (auto simp: job_ok_def terminal_def attempt_bound_def)
  have "wi cfg (Some (jb_id ?j)) ?w"
    using assms(1) q ids(1) by (auto simp: wi_def active_def has_status_def attempt_bound_def)
  from wi_save [OF this ok] have s: "wi cfg (Some jid) (save_job ?j ?w)" using ids(1) by simp
  have r: "has_status (save_job ?j ?w) ''running'' jid"
    using has_status_save [of ?j ?w "''running''"] ids(1) by simp
  from wi_run [OF s r] th have "winv cfg ((save_job ?j ?w)\<lparr>wk_running := (th, jid) # wk_running w\<rparr>)"
    by (simp add: save_job_def)
  moreover have "(save_job ?j ?w)\<lparr>wk_running := (th, jid) # wk_running w\<rparr> = w'" by (simp add: w' save_job_def)
  ultimately show ?thesis by simp
qed

lemma wi_fires:
  assumes "winv cfg w" "timer_fires cfg jid w = Some w'"
  shows "winv cfg w'"
proof -
  have t: "jid \<in> set (wk_timers w)" and w': "w' = queue_put jid (w\<lparr>wk_timers := remove1 jid (wk_timers w)\<rparr>)"
    using assms(2) by (auto simp: timer_fires_def split: if_splits)
  have "wi cfg (Some jid) (w\<lparr>wk_timers := remove1 jid (wk_timers w)\<rparr>)"
    using assms(1) t by (auto simp: wi_def active_def has_status_def attempt_bound_def)
  moreover have "has_status (w\<lparr>wk_timers := remove1 jid (wk_timers w)\<rparr>) ''queued'' jid"
    using assms(1) t by (auto simp: wi_def has_status_def)
  ultimately show ?thesis unfolding w' by (rule wi_put)
qed

lemma wi_stop:
  assumes "winv cfg w"
  shows "winv cfg (stop_worker w)"
  using assms by (auto simp: wi_def stop_worker_def active_def has_status_def attempt_bound_def)

lemma restored_ok: "job_ok b j \<Longrightarrow> job_ok (b + 1) (restored j) \<and> jb_id (restored j) = jb_id j \<and>
    pending (restored j) = pending j \<and> (pending j \<longrightarrow> jb_status (restored j) = ''queued'')"
  by (auto simp: job_ok_def restored_def pending_def terminal_def)

lemma is_dict_sort [simp]: "is_dict (sort_key f d) = is_dict d"
  by (simp add: is_dict_def) (metis distinct_map distinct_sort set_sort)

lemma restart_cases:
  assumes "winv cfg w" "restart cfg now w = Some w'"
  obtains f where "\<forall>p. \<not> terminal (snd p) \<longrightarrow> f p"
    and "w' = worker_init\<lparr>wk_jobs := map (\<lambda>p. (fst p, restored (snd p))) (filter f (sort_key fst (wk_jobs w))),
        wk_disk := map (\<lambda>p. (fst p, restored (snd p))) (filter f (sort_key fst (wk_jobs w))),
        wk_queue := map fst (filter (\<lambda>p. pending (snd p)) (filter f (sort_key fst (wk_jobs w)))),
        wk_unfinished := length (filter (\<lambda>p. pending (snd p)) (filter f (sort_key fst (wk_jobs w)))),
        wk_restarts := wk_restarts w + 1\<rparr>"
proof -
  let ?d = "sort_key fst (wk_jobs w)"
  obtain f where "prune_terminal cfg now (worker_init\<lparr>wk_jobs := ?d, wk_disk := ?d, wk_restarts := wk_restarts w + 1\<rparr>) =
      worker_init\<lparr>wk_jobs := filter f ?d, wk_disk := filter f ?d, wk_restarts := wk_restarts w + 1\<rparr>"
    and f: "\<forall>p. \<not> terminal (snd p) \<longrightarrow> f p"
    using prune_filters [of "worker_init\<lparr>wk_jobs := ?d, wk_disk := ?d, wk_restarts := wk_restarts w + 1\<rparr>" cfg now]
    by (auto simp: worker_init_def)
  then show ?thesis using assms that [OF f]
    by (simp add: restart_def wi_def Let_def worker_init_def split: if_splits)
qed

lemma length_filter_insort: "length (filter P (insort_key f x xs)) = length (filter P (x # xs))"
  by (induction xs) auto

lemma length_filter_sort: "length (filter P (sort_key f xs)) = length (filter P xs)"
  by (induction xs) (simp_all add: length_filter_insort)

lemma wi_restart:
  assumes w: "winv cfg w" and r: "restart cfg now w = Some w'"
  shows "winv cfg w'"
proof -
  obtain f where w': "w' = worker_init\<lparr>wk_jobs := map (\<lambda>p. (fst p, restored (snd p))) (filter f (sort_key fst (wk_jobs w))),
        wk_disk := map (\<lambda>p. (fst p, restored (snd p))) (filter f (sort_key fst (wk_jobs w))),
        wk_queue := map fst (filter (\<lambda>p. pending (snd p)) (filter f (sort_key fst (wk_jobs w)))),
        wk_unfinished := length (filter (\<lambda>p. pending (snd p)) (filter f (sort_key fst (wk_jobs w)))),
        wk_restarts := wk_restarts w + 1\<rparr>"
    using restart_cases [OF w r] by blast
  let ?d = "filter f (sort_key fst (wk_jobs w))"
  let ?js = "map (\<lambda>p. (fst p, restored (snd p))) ?d"
  have d: "is_dict ?d" using w by (simp add: wi_def is_dict_filter)
  then have js: "is_dict ?js" by (simp add: is_dict_def comp_def)
  have b: "attempt_bound cfg w' = attempt_bound cfg w + 1" by (simp add: attempt_bound_def w')
  have q: "has_status w' ''queued'' jid" if h: "jid \<in> set (wk_queue w')" for jid
  proof -
    obtain p where p: "p \<in> set ?d" "pending (snd p)" "fst p = jid" using h by (auto simp: w')
    have "(jid, restored (snd p)) \<in> set ?js" using p by force
    then have "map_of ?js jid = Some (restored (snd p))" using map_of_is_dict [OF js] by blast
    then show ?thesis using p(2) by (simp add: has_status_def w' restored_def)
  qed
  have "distinct (active w')" using is_dict_filter [OF d, of "\<lambda>p. pending (snd p)"] by (simp add: w' active_def worker_init_def is_dict_def)
  moreover have "\<forall>p \<in> set (wk_jobs w'). jb_id (snd p) = fst p \<and> job_ok (attempt_bound cfg w') (snd p)"
    using w restored_ok unfolding b by (auto simp: w' wi_def)
  moreover have "\<forall>p \<in> set (wk_jobs w'). pending (snd p) \<longrightarrow> fst p \<in> set (active w')"
  proof (intro ballI impI)
    fix p assume "p \<in> set (wk_jobs w')" "pending (snd p)"
    then obtain p0 where "p0 \<in> set ?d" "p = (fst p0, restored (snd p0))" by (auto simp: w')
    moreover have "pending (snd p0)" using \<open>pending (snd p)\<close> calculation(2) by (auto simp: restored_def split: if_splits)
    ultimately show "fst p \<in> set (active w')" by (auto simp: w' active_def)
  qed
  ultimately show ?thesis
    using js q unfolding wi_def by (simp add: w' worker_init_def)
qed

lemma wi_init: "winv cfg worker_init"
  by (simp add: wi_def worker_init_def is_dict_def active_def)

lemma wi_step:
  assumes "winv cfg w" "worker_step cfg ev w w'" "\<forall>jid now a. ev = WEnqueue jid now a \<longrightarrow> map_of (wk_jobs w) jid = None"
  shows "winv cfg w'"
  using assms(2)
proof (cases rule: worker_step.cases)
  case (enqueue jid now a)
  then show ?thesis using wi_enqueue [OF assms(1), of jid now a] assms(3) by simp
next
  case (take th now adm)
  then show ?thesis using wi_take [OF assms(1)] by blast
next
  case (comes_back th now out)
  then show ?thesis using wi_back [OF assms(1)] by blast
next
  case (timer jid)
  then show ?thesis using wi_fires [OF assms(1)] by blast
next
  case stop
  then show ?thesis using wi_stop [OF assms(1)] by blast
next
  case (restart now)
  then show ?thesis using wi_restart [OF assms(1)] by blast
qed

section \<open>What a step does to the jobs\<close>

definition takes :: "string \<Rightarrow> worker_event list \<Rightarrow> nat" where
  "takes jid evs = length (filter (\<lambda>ev. case ev of WTake _ _ k _ \<Rightarrow> k = jid | _ \<Rightarrow> False) evs)"

definition charged :: "job \<Rightarrow> int" where
  "charged j = jb_attempt j + jb_deferrals j"

lemma takes_simps [simp]:
  "takes jid [] = 0" "takes jid (evs @ evs') = takes jid evs + takes jid evs'"
  "takes jid [WTake th now k adm] = (if k = jid then 1 else 0)"
  "takes jid [WEnqueue k now a] = 0" "takes jid [WBack th now out] = 0" "takes jid [WTimer k] = 0"
  "takes jid [WStop] = 0" "takes jid [WRestart now] = 0"
  by (simp_all add: takes_def)

lemma takes_pos: "takes jid evs > 0 \<longleftrightarrow> (\<exists>th now adm. WTake th now jid adm \<in> set evs)"
proof (induction evs)
  case (Cons ev evs)
  have "takes jid (ev # evs) = takes jid [ev] + takes jid evs" by (simp add: takes_def)
  then show ?case using Cons by (cases ev) auto
qed simp

lemma enqueued_simps [simp]:
  "enqueued [] = {}" "enqueued (evs @ evs') = enqueued evs \<union> enqueued evs'"
  "enqueued [WEnqueue jid now a] = {jid}" "enqueued [WTake th now k adm] = {}"
  "enqueued [WBack th now out] = {}" "enqueued [WTimer k] = {}" "enqueued [WStop] = {}" "enqueued [WRestart now] = {}"
  by (auto simp: enqueued_def)

lemma charged_simps [simp]:
  "charged (j\<lparr>jb_status := st\<rparr>) = charged j" "charged (j\<lparr>jb_error := e\<rparr>) = charged j"
  "charged (j\<lparr>jb_started_at := t\<rparr>) = charged j" "charged (j\<lparr>jb_completed_at := t\<rparr>) = charged j"
  "charged (j\<lparr>jb_result := r\<rparr>) = charged j" "charged (restored j) = charged j"
  by (simp_all add: charged_def restored_def)

lemma save_job_jobs: "p \<in> set (wk_jobs (save_job j w)) \<Longrightarrow> p = (jb_id j, j) \<or> p \<in> set (wk_jobs w) \<and> fst p \<noteq> jb_id j"
  if "is_dict (wk_jobs w)"
  using that by (cases p) (auto simp: save_job_def map_of_is_dict is_dict_dset split: if_splits)

lemma jobs_ops [simp]:
  "wk_jobs (task_done th w) = wk_jobs w" "wk_jobs (queue_put k w) = wk_jobs w" "wk_jobs (stop_worker w) = wk_jobs w"
  by (simp_all add: wdefs stop_worker_def)

lemma prune_jobs: "set (wk_jobs (prune_terminal cfg now w)) \<subseteq> set (wk_jobs w)"
  by (auto simp: prune_terminal_def Let_def)

lemma finish_jobs:
  assumes "is_dict (wk_jobs w)" "p \<in> set (wk_jobs (finish_terminal cfg th now j w))"
  shows "fst p = jb_id j \<and> charged (snd p) = charged j \<or> p \<in> set (wk_jobs w) \<and> fst p \<noteq> jb_id j"
proof -
  have "p \<in> set (wk_jobs (save_job (j\<lparr>jb_completed_at := Some (isoformat (utc now))\<rparr>) w))"
    using assms(2) prune_jobs by (auto simp: finish_terminal_def)
  from save_job_jobs [OF assms(1) this] show ?thesis by auto
qed

lemma retry_jobs:
  assumes "is_dict (wk_jobs w)" "p \<in> set (wk_jobs (retry_job cfg th now msg j w))"
  shows "fst p = jb_id j \<and> charged (snd p) = charged j \<or> p \<in> set (wk_jobs w) \<and> fst p \<noteq> jb_id j"
proof -
  let ?q = "j\<lparr>jb_error := Some msg, jb_status := ''queued'', jb_started_at := None, jb_completed_at := None\<rparr>"
  have d: "is_dict (wk_jobs (task_done th (save_job ?q w)))" using assms(1) by (simp add: save_job_def is_dict_dset)
  show ?thesis
  proof (cases "jb_attempt j < wc_max_retries cfg \<and> queue_room cfg (save_job ?q w)")
    case True
    then have "p \<in> set (wk_jobs (save_job ?q w))" using assms(2) by (simp add: retry_job_def Let_def)
    from save_job_jobs [OF assms(1) this] show ?thesis by auto
  next
    case full: False
    show ?thesis
    proof (cases "jb_attempt j < wc_max_retries cfg")
      case True
      then have "p \<in> set (wk_jobs (finish_terminal cfg th now (?q\<lparr>jb_status := ''failed''\<rparr>) (task_done th (save_job ?q w))))"
        using assms(2) full by (simp add: retry_job_def Let_def)
      from finish_jobs [OF d this] show ?thesis using save_job_jobs [OF assms(1), of p ?q] by auto
    next
      case False
      then show ?thesis using finish_jobs [OF assms(1), of p cfg th now "j\<lparr>jb_error := Some msg, jb_status := ''failed''\<rparr>"] assms(2)
        by (simp add: retry_job_def Let_def)
    qed
  qed
qed

lemma defer_charged:
  "defer_job cfg now msg j = Inr again \<Longrightarrow> charged again = charged j \<and> jb_id again = jb_id j"
  "defer_job cfg now msg j = Inl failed \<Longrightarrow> charged failed = charged j \<and> jb_id failed = jb_id j"
  by (auto simp: defer_job_def Let_def charged_def split: if_splits)

lemma back_jobs:
  assumes w: "winv cfg w" and b: "job_back cfg th now out w = Some w'" and p: "p \<in> set (wk_jobs w')"
  shows "\<exists>p0 \<in> set (wk_jobs w). fst p0 = fst p \<and> charged (snd p) = charged (snd p0)"
proof -
  obtain jid j where run: "map_of (wk_running w) th = Some jid" and j: "map_of (wk_jobs w) jid = Some j"
    using b by (auto simp: job_back_def split: option.splits)
  let ?w = "w\<lparr>wk_running := ddel th (wk_running w)\<rparr>"
  have d: "is_dict (wk_jobs ?w)" using w by (simp add: wi_def)
  have id: "jb_id j = jid" using wi_job [OF w j] by simp
  have "fst p = jid \<and> charged (snd p) = charged j \<or> p \<in> set (wk_jobs w)"
  proof (cases out)
    case (OutCompleted res)
    then have "w' = finish_terminal cfg th now (j\<lparr>jb_result := PDict res, jb_status := ''completed''\<rparr>) ?w"
      using b run j by (simp add: job_back_def Let_def)
    then show ?thesis using finish_jobs [OF d] p id by fastforce
  next
    case (OutFailed msg)
    then have "w' = retry_job cfg th now msg j ?w" using b run j by (simp add: job_back_def Let_def)
    then show ?thesis using retry_jobs [OF d] p id by fastforce
  next
    case (OutUnavailable msg)
    show ?thesis
    proof (cases "wc_budget cfg > 0")
      case False
      then have "w' = retry_job cfg th now msg j ?w" using b run j OutUnavailable by (simp add: job_back_def Let_def)
      then show ?thesis using retry_jobs [OF d] p id by fastforce
    next
      case True
      show ?thesis
      proof (cases "defer_job cfg now msg j")
        case (Inl failed)
        then have "w' = finish_terminal cfg th now (failed\<lparr>jb_status := ''failed''\<rparr>) ?w"
          using b run j OutUnavailable True by (simp add: job_back_def Let_def)
        then show ?thesis using finish_jobs [OF d] p id defer_charged(2) [OF Inl] by fastforce
      next
        case (Inr again)
        then have "wk_jobs w' = wk_jobs (save_job again ?w)"
          using b run j OutUnavailable True by (auto simp: job_back_def Let_def)
        then show ?thesis using save_job_jobs [OF d, of p again] p id defer_charged(1) [OF Inr] by auto
      qed
    qed
  qed
  then show ?thesis
  proof
    assume "fst p = jid \<and> charged (snd p) = charged j"
    then show ?thesis by (intro bexI [of _ "(jid, j)"]) (simp_all add: map_of_SomeD [OF j])
  qed blast
qed

lemma enqueue_jobs:
  assumes "winv cfg w" "map_of (wk_jobs w) jid = None" "p \<in> set (wk_jobs (snd (enqueue cfg jid now a w)))"
  shows "p = (jid, new_job jid now a) \<or> p \<in> set (wk_jobs w)"
proof -
  have id: "jb_id (new_job jid now a) = jid" by (simp add: new_job_def)
  have "p \<in> set (wk_jobs (save_job (new_job jid now a) w))"
    using assms(3) by (auto simp: enqueue_def Let_def delete_job_def ddel_def save_job_def split: if_splits)
  then show ?thesis using save_job_jobs [of w p "new_job jid now a"] assms(1) id by (auto simp: wi_def)
qed

lemma take_jobs:
  assumes "winv cfg w" "take_job th now w = Some (adm, w')" "p \<in> set (wk_jobs w')"
  shows "\<exists>p0 \<in> set (wk_jobs w). fst p0 = fst p \<and> charged (snd p) = charged (snd p0) + (if fst p = hd (wk_queue w) then 1 else 0)"
proof -
  obtain jid rest j where q: "wk_queue w = jid # rest" and j: "map_of (wk_jobs w) jid = Some j"
    and w': "w' = (save_job (j\<lparr>jb_status := ''running'', jb_attempt := jb_attempt j + 1,
                 jb_started_at := Some (isoformat (utc now)), jb_error := None\<rparr>) w)
                 \<lparr>wk_queue := rest, wk_running := (th, jid) # wk_running w\<rparr>"
    using assms(2) by (auto simp: take_job_def split: list.splits if_splits option.splits)
  have id: "jb_id j = jid" using wi_job [OF assms(1) j] by simp
  let ?j = "j\<lparr>jb_status := ''running'', jb_attempt := jb_attempt j + 1, jb_started_at := Some (isoformat (utc now)), jb_error := None\<rparr>"
  have "is_dict (wk_jobs w)" "p \<in> set (wk_jobs (save_job ?j w))" using assms(1,3) w' by (simp_all add: wi_def)
  from save_job_jobs [OF this] show ?thesis
  proof
    assume "p = (jb_id ?j, ?j)"
    then show ?thesis using id q
      by (intro bexI [of _ "(jid, j)"]) (simp_all add: map_of_SomeD [OF j] charged_def)
  next
    assume "p \<in> set (wk_jobs w) \<and> fst p \<noteq> jb_id ?j"
    then show ?thesis using id q by (intro bexI [of _ p]) simp_all
  qed
qed

lemma restart_jobs:
  assumes "winv cfg w" "restart cfg now w = Some w'" "p \<in> set (wk_jobs w')"
  shows "\<exists>p0 \<in> set (wk_jobs w). fst p0 = fst p \<and> snd p = restored (snd p0)"
proof (rule restart_cases [OF assms(1,2)])
  fix f :: "string \<times> job \<Rightarrow> bool"
  assume "w' = worker_init\<lparr>wk_jobs := map (\<lambda>p. (fst p, restored (snd p))) (filter f (sort_key fst (wk_jobs w))),
        wk_disk := map (\<lambda>p. (fst p, restored (snd p))) (filter f (sort_key fst (wk_jobs w))),
        wk_queue := map fst (filter (\<lambda>p. pending (snd p)) (filter f (sort_key fst (wk_jobs w)))),
        wk_unfinished := length (filter (\<lambda>p. pending (snd p)) (filter f (sort_key fst (wk_jobs w)))),
        wk_restarts := wk_restarts w + 1\<rparr>"
  then obtain p0 where "p0 \<in> set (wk_jobs w)" "p = (fst p0, restored (snd p0))" using assms(3) by auto
  then show ?thesis by auto
qed

lemma step_charged:
  assumes w: "winv cfg w" and s: "worker_step cfg ev w w'"
    and e: "\<forall>jid now a. ev = WEnqueue jid now a \<longrightarrow> map_of (wk_jobs w) jid = None" and p: "p \<in> set (wk_jobs w')"
  shows "(\<exists>p0 \<in> set (wk_jobs w). fst p0 = fst p \<and> charged (snd p) = charged (snd p0) + int (takes (fst p) [ev])) \<or>
    (\<exists>now a. ev = WEnqueue (fst p) now a \<and> charged (snd p) = 0)"
  using s
proof (cases rule: worker_step.cases)
  case (enqueue jid now a)
  then have "p = (jid, new_job jid now a) \<or> p \<in> set (wk_jobs w)" using enqueue_jobs [OF w] e p by blast
  then show ?thesis using enqueue by (auto simp: charged_def new_job_def)
next
  case (take th now adm)
  then show ?thesis using take_jobs [OF w take(3) p] by auto
next
  case (comes_back th now out)
  then show ?thesis using back_jobs [OF w _ p] by fastforce
next
  case (timer jid)
  then have "wk_jobs w' = wk_jobs w" by (auto simp: timer_fires_def split: if_splits)
  then show ?thesis using timer p by force
next
  case stop
  then show ?thesis using p by force
next
  case (restart now)
  then show ?thesis using restart_jobs [OF w _ p] by fastforce
qed

lemma reaches_inv:
  assumes "worker_reaches cfg evs w"
  shows "winv cfg w \<and> (\<forall>p \<in> set (wk_jobs w). fst p \<in> enqueued evs \<and> charged (snd p) = int (takes (fst p) evs)) \<and>
    (\<forall>jid. jid \<notin> enqueued evs \<longrightarrow> takes jid evs = 0)"
  using assms
proof (induction rule: worker_reaches.induct)
  case start
  then show ?case using wi_init by (simp add: worker_init_def)
next
  case (step evs w ev w')
  note w = step.IH [THEN conjunct1] and IH = step.IH [THEN conjunct2]
  have e: "\<forall>jid now a. ev = WEnqueue jid now a \<longrightarrow> map_of (wk_jobs w) jid = None"
    using step.hyps(2) IH by (force simp: fresh_event_def map_of_eq_None_iff)
  have t: "takes jid [ev] = 0" if n: "jid \<notin> enqueued evs" for jid
    using step.hyps(3)
  proof (cases rule: worker_step.cases)
    case (take th now adm)
    then obtain j where "map_of (wk_jobs w) (hd (wk_queue w)) = Some j"
      by (auto simp: take_job_def split: list.splits if_splits option.splits)
    then have "hd (wk_queue w) \<in> enqueued evs" using IH map_of_SomeD by force
    then show ?thesis using take n by auto
  qed simp_all
  have "fst p \<in> enqueued (evs @ [ev]) \<and> charged (snd p) = int (takes (fst p) (evs @ [ev]))" if p: "p \<in> set (wk_jobs w')" for p
    using step_charged [OF w step.hyps(3) e p]
  proof (elim disjE bexE exE conjE)
    fix p0 assume "p0 \<in> set (wk_jobs w)" "fst p0 = fst p" "charged (snd p) = charged (snd p0) + int (takes (fst p) [ev])"
    then show ?thesis using IH by auto
  next
    fix now a assume h: "ev = WEnqueue (fst p) now a" "charged (snd p) = 0"
    then have "fst p \<notin> enqueued evs" using step.hyps(2) by (simp add: fresh_event_def)
    then show ?thesis using h IH by simp
  qed
  then show ?case using wi_step [OF w step.hyps(3) e] t IH by auto
qed

definition live :: "string \<Rightarrow> worker \<Rightarrow> bool" where
  "live jid w = (\<exists>j. map_of (wk_jobs w) jid = Some j \<and> pending j)"

lemma live_ops [simp]:
  "live jid (task_done th w) = live jid w" "live jid (queue_put k w) = live jid w" "live jid (stop_worker w) = live jid w"
  by (simp_all add: live_def)

lemma live_save: "live jid w \<Longrightarrow> jb_id j \<noteq> jid \<or> pending j \<Longrightarrow> live jid (save_job j w)"
  by (auto simp: live_def save_job_def)

lemma live_prune:
  assumes "is_dict (wk_jobs w)" "live jid w"
  shows "live jid (prune_terminal cfg now w)"
proof -
  obtain j where j: "map_of (wk_jobs w) jid = Some j" "pending j" using assms(2) by (auto simp: live_def)
  then have "\<not> terminal j" by (simp add: pending_not_terminal)
  then show ?thesis using j map_of_filter_keep [OF assms(1) j(1)]
    by (simp add: live_def prune_terminal_def Let_def)
qed

lemma live_finish:
  "is_dict (wk_jobs w) \<Longrightarrow> live jid w \<Longrightarrow> jb_id j \<noteq> jid \<Longrightarrow> live jid (finish_terminal cfg th now j w)"
  using live_save [of jid w "j\<lparr>jb_completed_at := Some (isoformat (utc now))\<rparr>"]
  by (simp add: finish_terminal_def live_prune save_job_def)

lemma live_retry:
  assumes "is_dict (wk_jobs w)" "live jid w" "jb_id j \<noteq> jid"
  shows "live jid (retry_job cfg th now msg j w)"
proof -
  let ?q = "j\<lparr>jb_error := Some msg, jb_status := ''queued'', jb_started_at := None, jb_completed_at := None\<rparr>"
  have "live jid (save_job ?q w)" using live_save [OF assms(2)] assms(3) by simp
  moreover have "is_dict (wk_jobs (task_done th (save_job ?q w)))" using assms(1) by (simp add: save_job_def)
  ultimately show ?thesis using assms live_finish by (simp add: retry_job_def Let_def)
qed

lemma live_back:
  assumes w: "winv cfg w" and b: "job_back cfg th now out w = Some w'" and l: "live jid w"
    and other: "map_of (wk_running w) th \<noteq> Some jid"
  shows "live jid w'"
proof -
  obtain k j where run: "map_of (wk_running w) th = Some k" and j: "map_of (wk_jobs w) k = Some j"
    using b by (auto simp: job_back_def split: option.splits)
  let ?w = "w\<lparr>wk_running := ddel th (wk_running w)\<rparr>"
  have d: "is_dict (wk_jobs ?w)" and l': "live jid ?w" using w l by (simp_all add: wi_def live_def)
  have id: "jb_id j \<noteq> jid" using wi_job [OF w j] other run by auto
  show ?thesis
  proof (cases "\<exists>msg. out = OutUnavailable msg \<and> wc_budget cfg > 0")
    case False
    then show ?thesis using b run j live_finish [OF d l'] live_retry [OF d l'] id
      by (auto simp: job_back_def Let_def split: outcome.splits)
  next
    case True
    then obtain msg where m: "out = OutUnavailable msg" "wc_budget cfg > 0" by blast
    show ?thesis
    proof (cases "defer_job cfg now msg j")
      case (Inl failed)
      then show ?thesis using b run j m defer_charged(2) [OF Inl] id live_finish [OF d l'] by (auto simp: job_back_def Let_def)
    next
      case (Inr again)
      then have "live jid (save_job again ?w)" using defer_charged(1) [OF Inr] id live_save [OF l'] by simp
      then show ?thesis using b run j m Inr by (auto simp: job_back_def Let_def live_def)
    qed
  qed
qed

lemma live_restart:
  assumes "winv cfg w" "restart cfg now w = Some w'" "live jid w"
  shows "live jid w'"
proof (rule restart_cases [OF assms(1,2)])
  fix f :: "string \<times> job \<Rightarrow> bool"
  assume f: "\<forall>p. \<not> terminal (snd p) \<longrightarrow> f p"
    and w': "w' = worker_init\<lparr>wk_jobs := map (\<lambda>p. (fst p, restored (snd p))) (filter f (sort_key fst (wk_jobs w))),
        wk_disk := map (\<lambda>p. (fst p, restored (snd p))) (filter f (sort_key fst (wk_jobs w))),
        wk_queue := map fst (filter (\<lambda>p. pending (snd p)) (filter f (sort_key fst (wk_jobs w)))),
        wk_unfinished := length (filter (\<lambda>p. pending (snd p)) (filter f (sort_key fst (wk_jobs w)))),
        wk_restarts := wk_restarts w + 1\<rparr>"
  obtain j where j: "map_of (wk_jobs w) jid = Some j" "pending j" using assms(3) by (auto simp: live_def)
  have d: "is_dict (wk_jobs w)" using assms(1) by (simp add: wi_def)
  let ?d = "filter f (sort_key fst (wk_jobs w))"
  have "(jid, j) \<in> set ?d" using j f pending_not_terminal map_of_SomeD [OF j(1)] by simp
  then have "(jid, restored j) \<in> set (wk_jobs w')" unfolding w' by force
  moreover have "is_dict ?d" using d by (simp add: is_dict_filter)
  then have "is_dict (wk_jobs w')" by (simp add: w' is_dict_def comp_def)
  ultimately have "map_of (wk_jobs w') jid = Some (restored j)" by (simp add: map_of_is_dict)
  then show ?thesis using j(2) by (simp add: live_def restored_def pending_def)
qed

lemma live_take:
  assumes "winv cfg w" "take_job th now w = Some (adm, w')" "live jid w"
  shows "live jid w'"
  using assms by (auto simp: take_job_def live_def save_job_def pending_def split: list.splits if_splits option.splits)

lemma live_enqueue: "live jid w \<Longrightarrow> map_of (wk_jobs w) k = None \<Longrightarrow> live jid (snd (enqueue cfg k now a w))"
  by (cases "k = jid") (auto simp: live_def enqueue_def Let_def delete_job_def save_job_def new_job_def)

section \<open>Properties\<close>



text \<open>
  The attempts and deferrals of a job count its runs exactly, so, deferrals and restarts
  apart, no job is run more often than \<open>max_retries\<close> (at least once).
\<close>

theorem runs_bounded:
  assumes "worker_reaches cfg evs w" "map_of (wk_jobs w) jid = Some j"
  shows "int (takes jid evs) = jb_attempt j + jb_deferrals j \<and>
    int (takes jid evs) \<le> max 1 (wc_max_retries cfg) + int (wk_restarts w) + jb_deferrals j"
proof -
  note inv = reaches_inv [OF assms(1)]
  have "charged j = int (takes jid evs)" using inv map_of_SomeD [OF assms(2)] by fastforce
  moreover have "jb_attempt j \<le> attempt_bound cfg w" using wi_job [of cfg None w jid j] inv assms(2) by (simp add: job_ok_def)
  ultimately show ?thesis by (simp add: charged_def attempt_bound_def)
qed

text \<open>
  The alert policies see each job exactly once: a run is admitted past them if and only if
  the job was run before, in this process or an earlier one.
\<close>

theorem policies_only_on_first_run:
  assumes "worker_reaches cfg evs w" "worker_step cfg (WTake th now jid adm) w w'"
  shows "adm \<longleftrightarrow> (\<exists>th now adm. WTake th now jid adm \<in> set evs)"
proof -
  note inv = reaches_inv [OF assms(1)]
  have jid: "jid = hd (wk_queue w)" and t: "take_job th now w = Some (adm, w')"
    using assms(2) by (auto elim: worker_step.cases)
  then obtain j where j: "map_of (wk_jobs w) jid = Some j" and adm: "adm = (jb_attempt j > 0 \<or> jb_deferrals j > 0)"
    by (auto simp: take_job_def split: list.splits if_splits option.splits)
  have "charged j = int (takes jid evs)" using inv map_of_SomeD [OF j] by fastforce
  moreover have "0 \<le> jb_attempt j" "0 \<le> jb_deferrals j"
    using wi_job [of cfg None w jid j] inv j by (simp_all add: job_ok_def)
  ultimately have "adm \<longleftrightarrow> takes jid evs > 0" unfolding adm charged_def by linarith
  also have "\<dots> \<longleftrightarrow> (\<exists>th now adm. WTake th now jid adm \<in> set evs)"
    by (rule takes_pos)
  finally show ?thesis .
qed

text \<open>A configuration and histories for the examples.\<close>

definition demo_config :: "nat \<Rightarrow> worker_config" where
  "demo_config cap = \<lparr>wc_count = 1, wc_max_queue = cap, wc_max_terminal = 1, wc_max_retries = 2,
     wc_budget = 600000000, wc_base = 5000000, wc_max_delay = 60000000\<rparr>"

abbreviation probe :: alert where
  "probe \<equiv> sample_alert ''fp'' SevWarning"

definition demo_taken :: "worker_event list" where
  "demo_taken = [WEnqueue ''a'' 0 probe, WTake 0 0 ''a'' False, WEnqueue ''b'' 0 probe]"

definition demo_retried :: "worker_event list" where
  "demo_retried = [WEnqueue ''a'' 0 probe, WTake 0 0 ''a'' False, WBack 0 1 (OutFailed ''boom'')]"

lemma enqueued_Cons: "enqueued (ev # evs) = (case ev of WEnqueue jid _ _ \<Rightarrow> insert jid (enqueued evs) | _ \<Rightarrow> enqueued evs)"
  by (cases ev) (auto simp: enqueued_def)

lemmas worker_eval = demo_config_def worker_do_def fresh_event_def enqueued_Cons enqueue_def take_job_def job_back_def
  queue_room_def worker_init_def new_job_def save_job_def queue_put_def task_done_def retry_job_def Let_def dset_def ddel_def

definition run_a :: job where
  "run_a = (new_job ''a'' 0 probe)\<lparr>jb_status := ''running'', jb_attempt := 1, jb_started_at := Some (isoformat (utc 0))\<rparr>"

definition retried_a :: job where
  "retried_a = (new_job ''a'' 0 probe)\<lparr>jb_attempt := 1, jb_error := Some ''boom''\<rparr>"

lemma demo_taken_reached:
  "\<exists>w. worker_reaches (demo_config 1) demo_taken w \<and> wk_queue w = [''b''] \<and> wk_running w = [(0, ''a'')] \<and>
     wk_timers w = [] \<and> \<not> wk_stopped w \<and> wk_jobs w = [(''a'', run_a), (''b'', new_job ''b'' 0 probe)] \<and> wk_disk w = wk_jobs w"
  by (rule exI, rule conjI [OF replay_start])
    (simp add: demo_taken_def worker_eval, simp add: run_a_def worker_eval)

lemma demo_retried_reached:
  "\<exists>w. worker_reaches (demo_config 2) demo_retried w \<and> wk_queue w = [''a''] \<and> wk_running w = [] \<and> wk_dead w = [] \<and>
     \<not> wk_stopped w \<and> wk_jobs w = [(''a'', retried_a)] \<and> wk_restarts w = 0"
  by (rule exI, rule conjI [OF replay_start])
    (simp add: demo_retried_def worker_eval, simp add: retried_a_def worker_eval)



lemma runs_bounded_witness:
  "\<exists>w :: worker. int (takes ''a'' demo_retried) = jb_attempt retried_a + jb_deferrals retried_a \<and>
    int (takes ''a'' demo_retried) \<le> max 1 (wc_max_retries (demo_config 2)) + int (wk_restarts w) + jb_deferrals retried_a"
proof -
  obtain w where w: "worker_reaches (demo_config 2) demo_retried w" "wk_jobs w = [(''a'', retried_a)]"
    using demo_retried_reached by blast
  have "map_of (wk_jobs w) ''a'' = Some retried_a" by (simp add: w(2))
  from runs_bounded [OF w(1) this] show ?thesis by blast
qed

lemma policies_only_on_first_run_witness:
  "\<exists>th now adm. WTake th now ''a'' adm \<in> set demo_retried"
proof -
  obtain w where w: "worker_reaches (demo_config 2) demo_retried w" "wk_queue w = [''a'']" "wk_running w = []" "wk_dead w = []"
    "wk_jobs w = [(''a'', retried_a)]"
    using demo_retried_reached by blast
  obtain w' where "take_job 0 5 w = Some (True, w')"
    by (simp add: take_job_def w retried_a_def)
  then have "worker_step (demo_config 2) (WTake 0 5 ''a'' True) w w'"
    using worker_step.take [of 0 "demo_config 2" 5 w True w'] w(2) by (simp add: demo_config_def)
  from policies_only_on_first_run [OF w(1) this] show ?thesis by simp
qed



section \<open>The retained jobs\<close>

definition finished :: "worker \<Rightarrow> nat" where
  "finished w = length (filter (\<lambda>p. terminal (snd p)) (wk_jobs w))"

lemma length_filter_dset: "\<not> P (k, v) \<Longrightarrow> length (filter P (dset k v d)) \<le> length (filter P d)"
  by (induction d) (auto simp: dset_def split: if_splits)

lemma finished_ops [simp]:
  "finished (task_done th w) = finished w" "finished (queue_put k w) = finished w" "finished (stop_worker w) = finished w"
  by (simp_all add: finished_def)

lemma finished_save: "\<not> terminal j \<Longrightarrow> finished (save_job j w) \<le> finished w"
  by (simp add: finished_def save_job_def length_filter_dset)

lemma finished_prune:
  assumes "is_dict (wk_jobs w)"
  shows "finished (prune_terminal cfg now w) \<le> wc_max_terminal cfg"
proof (cases "length (filter terminal (map snd (wk_jobs w))) \<le> wc_max_terminal cfg")
  case True
  then show ?thesis by (simp add: finished_def prune_terminal_def filter_map comp_def Let_def)
next
  case False
  let ?keep = "map jb_id (take (wc_max_terminal cfg) (sort_desc (prune_key now) (filter terminal (map snd (wk_jobs w)))))"
  let ?js = "filter (\<lambda>p. terminal (snd p) \<and> fst p \<in> set ?keep) (wk_jobs w)"
  have "filter (\<lambda>p. terminal (snd p)) (filter (\<lambda>p. \<not> (terminal (snd p) \<and> fst p \<notin> set ?keep)) (wk_jobs w)) = ?js"
    unfolding filter_filter by (rule filter_cong) auto
  moreover have "wk_jobs (prune_terminal cfg now w) = filter (\<lambda>p. \<not> (terminal (snd p) \<and> fst p \<notin> set ?keep)) (wk_jobs w)"
    unfolding prune_terminal_def Let_def using False by simp
  ultimately have "finished (prune_terminal cfg now w) = length ?js" unfolding finished_def by (simp only:)
  also have "\<dots> = length (map fst ?js)" by (rule length_map [symmetric])
  also have "\<dots> = card (set (map fst ?js))"
    using assms unfolding is_dict_def by (intro distinct_card [symmetric] distinct_map_filter)
  also have "\<dots> \<le> card (set ?keep)" by (intro card_mono) auto
  also have "\<dots> \<le> length ?keep" by (rule card_length)
  also have "\<dots> \<le> wc_max_terminal cfg" by simp
  finally show ?thesis .
qed

lemma finished_finish: "is_dict (wk_jobs w) \<Longrightarrow> finished (finish_terminal cfg th now j w) \<le> wc_max_terminal cfg"
  by (simp add: finish_terminal_def finished_prune save_job_def)

lemma finished_retry:
  assumes "is_dict (wk_jobs w)" "finished w \<le> wc_max_terminal cfg"
  shows "finished (retry_job cfg th now msg j w) \<le> wc_max_terminal cfg"
proof -
  let ?q = "j\<lparr>jb_error := Some msg, jb_status := ''queued'', jb_started_at := None, jb_completed_at := None\<rparr>"
  have "finished (save_job ?q w) \<le> wc_max_terminal cfg"
    using finished_save [of ?q w] assms(2) by (simp add: terminal_def)
  moreover have "is_dict (wk_jobs (task_done th (save_job ?q w)))" using assms(1) by (simp add: save_job_def)
  ultimately show ?thesis using finished_finish assms(1) by (simp add: retry_job_def Let_def)
qed

lemma finished_back:
  assumes w: "winv cfg w" and b: "job_back cfg th now out w = Some w'" and n: "finished w \<le> wc_max_terminal cfg"
  shows "finished w' \<le> wc_max_terminal cfg"
proof -
  obtain k j where run: "map_of (wk_running w) th = Some k" and j: "map_of (wk_jobs w) k = Some j"
    using b by (auto simp: job_back_def split: option.splits)
  let ?w = "w\<lparr>wk_running := ddel th (wk_running w)\<rparr>"
  have d: "is_dict (wk_jobs ?w)" and n': "finished ?w \<le> wc_max_terminal cfg" using w n by (simp_all add: wi_def finished_def)
  have st: "jb_status j = ''running''" using wi_running [OF w _ j] map_of_SomeD [OF run] by force
  have ok: "job_ok (attempt_bound cfg w) j" using wi_job [OF w j] by simp
  show ?thesis
  proof (cases "\<exists>msg. out = OutUnavailable msg \<and> wc_budget cfg > 0")
    case False
    then show ?thesis using b run j finished_finish [OF d] finished_retry [OF d n']
      by (auto simp: job_back_def Let_def split: outcome.splits)
  next
    case True
    then obtain msg where m: "out = OutUnavailable msg" "wc_budget cfg > 0" by blast
    show ?thesis
    proof (cases "defer_job cfg now msg j")
      case (Inl failed)
      then show ?thesis using b run j m finished_finish [OF d] by (auto simp: job_back_def Let_def)
    next
      case (Inr again)
      then have "\<not> terminal again" using defer_job_ok(1) [OF ok st Inr] by (simp add: terminal_def)
      then have "finished (save_job again ?w) \<le> wc_max_terminal cfg" using finished_save [of again ?w] n' by simp
      then show ?thesis using b run j m Inr by (auto simp: job_back_def Let_def finished_def)
    qed
  qed
qed

lemma finished_take:
  assumes "take_job th now w = Some (adm, w')"
  shows "finished w' \<le> finished w"
proof -
  obtain jid rest j where
    w': "w' = (save_job (j\<lparr>jb_status := ''running'', jb_attempt := jb_attempt j + 1,
                 jb_started_at := Some (isoformat (utc now)), jb_error := None\<rparr>) w)
                 \<lparr>wk_queue := rest, wk_running := (th, jid) # wk_running w\<rparr>"
    using assms by (auto simp: take_job_def split: list.splits if_splits option.splits)
  let ?j = "j\<lparr>jb_status := ''running'', jb_attempt := jb_attempt j + 1, jb_started_at := Some (isoformat (utc now)), jb_error := None\<rparr>"
  have "finished w' = finished (save_job ?j w)" by (simp add: w' finished_def)
  then show ?thesis using finished_save [of ?j w] by (simp add: terminal_def)
qed

lemma finished_restart:
  assumes "winv cfg w" "restart cfg now w = Some w'"
  shows "finished w' \<le> wc_max_terminal cfg"
proof -
  let ?d = "sort_key fst (wk_disk w)"
  let ?w = "prune_terminal cfg now (worker_init\<lparr>wk_jobs := ?d, wk_disk := ?d, wk_restarts := wk_restarts w + 1\<rparr>)"
  have "is_dict ?d" using assms(1) by (simp add: wi_def)
  then have "finished ?w \<le> wc_max_terminal cfg" by (simp add: finished_prune)
  moreover have "terminal (restored j) = terminal j" for j by (auto simp: terminal_def restored_def pending_def)
  then have "finished w' = finished ?w"
    using assms(2) by (auto simp: restart_def Let_def finished_def filter_map comp_def split: if_splits)
  ultimately show ?thesis by simp
qed

text \<open>
  The worker never retains more finished jobs than \<open>max_terminal_jobs\<close>, neither in memory nor
  in the state file.
\<close>

theorem finished_jobs_bounded:
  assumes "worker_reaches cfg evs w"
  shows "length (filter terminal (map snd (wk_jobs w))) \<le> wc_max_terminal cfg \<and>
    length (filter terminal (map snd (wk_disk w))) \<le> wc_max_terminal cfg"
proof -
  have "finished w \<le> wc_max_terminal cfg"
    using assms
  proof (induction rule: worker_reaches.induct)
    case start
    then show ?case by (simp add: finished_def worker_init_def)
  next
    case (step evs w ev w')
    note w = reaches_inv [OF step.hyps(1), THEN conjunct1]
    show ?case
      using step.hyps(3)
    proof (cases rule: worker_step.cases)
      case (enqueue jid now a)
      have "finished (save_job (new_job jid now a) w) \<le> wc_max_terminal cfg"
        using finished_save [of "new_job jid now a" w] step.IH by (simp add: terminal_def new_job_def)
      moreover have "length (filter P (ddel k d)) \<le> length (filter P d)" for P k and d :: jobs
        by (induction d) (auto simp: ddel_def)
      ultimately show ?thesis using enqueue
        by (simp add: enqueue_def Let_def finished_def delete_job_def) (meson le_trans)
    next
      case (take th now adm)
      then show ?thesis using finished_take [OF take(3)] step.IH by simp
    next
      case (comes_back th now out)
      then show ?thesis using finished_back [OF w _ step.IH] by blast
    next
      case (timer jid)
      then show ?thesis using step.IH by (auto simp: timer_fires_def finished_def split: if_splits)
    next
      case stop
      then show ?thesis using step.IH by simp
    next
      case (restart now)
      then show ?thesis using finished_restart [OF w] by blast
    qed
  qed
  then show ?thesis using reaches_inv [OF assms] by (simp add: finished_def filter_map comp_def wi_def)
qed

lemma finished_jobs_bounded_witness:
  "\<exists>w :: worker. length (filter terminal (map snd (wk_jobs w))) \<le> wc_max_terminal (demo_config 2) \<and>
    length (filter terminal (map snd (wk_disk w))) \<le> wc_max_terminal (demo_config 2)"
proof -
  obtain w where "worker_reaches (demo_config 2) demo_retried w" using demo_retried_reached by blast
  from finished_jobs_bounded [OF this] show ?thesis by blast
qed

section \<open>The stored form of a job\<close>

text \<open>
  A job is read back from the state file exactly as it was written.
\<close>

theorem job_round_trip:
  assumes "wire_alert (jb_alert j)" "jb_status j \<noteq> []" "jb_created_at j \<noteq> []"
  shows "job_from_dict now fresh (job_to_dict j) = Inr j"
proof -
  have t: "opt_text_of (opt_str x) = Inr x" for x by (cases x) (simp_all add: opt_text_of_def opt_str_def)
  have i: "py_int (por (PInt n) (PInt 0)) = Inr n" for n by (simp add: por_def)
  have s: "s \<noteq> [] \<Longrightarrow> py_str (por (PStr s) v) = s" for s v by (simp add: por_def)
  have ne: "alert_to_dict a \<noteq> []" for a by (simp add: alert_to_dict_def)
  then have a: "as_dict (por (PDict (alert_to_dict a)) (PDict [])) = Inr (alert_to_dict a)" for a by (simp add: por_def as_dict_def)
  show ?thesis
    using assms by (simp add: job_from_dict_def job_to_dict_def pget_def t i s a alert_round_trip)
qed

lemma job_round_trip_witness:
  "job_from_dict (utc 9) ''x'' (job_to_dict run_a) = Inr run_a"
  by (rule job_round_trip) (simp_all add: run_a_def new_job_def sample_alert_def wire_alert_def opt_text_ok_def utc_def
      valid_datetime_def epoch_ord_def us_per_day_def)

end
