(* ===== verification/Node_Gate.thy ===== *)
theory Node_Gate
  imports Py_Value "HOL-Library.List_Lexorder" "HOL-Library.Char_ord"
begin

text \<open>
  The safety gate for commands on hosts, \<open>executor/nodeaction.py\<close>: the words of a command as
  \<open>shlex.split\<close> reads them, the refusals of one command and of a plan, and the execution of a
  plan over SSH. The lists the gate works with are resolved by \<open>agent/node_action_plan.py\<close> from
  the deployed ceiling and the operator's selection, and handed over in the environment. The
  agent's own copy of the gate is the same code and not modelled a second time.
\<close>

section \<open>Words of a command\<close>

text \<open>
  \<open>shlex.split\<close> in POSIX mode: between words, in a word, in quotes, behind a backslash (in a
  word, or in double quotes).
\<close>

datatype lex_state = LexGap | LexWord | LexQuote char | LexEscape "char option"

definition lex_space :: "char \<Rightarrow> bool" where
  "lex_space c = (c \<in> {CHR '' '', CHR 0x09, CHR 0x0D, CHR 0x0A})"

definition lex_quote :: "char \<Rightarrow> bool" where
  "lex_quote c = (c = CHR 0x27 \<or> c = CHR 0x22)"

definition lex_emit :: "string \<Rightarrow> bool \<Rightarrow> string list" where
  "lex_emit tok quoted = (if tok \<noteq> [] \<or> quoted then [tok] else [])"

fun lex_run :: "lex_state \<Rightarrow> string \<Rightarrow> bool \<Rightarrow> string \<Rightarrow> string list res" where
  "lex_run st tok quoted [] = (case st of
     LexGap \<Rightarrow> Inr []
   | LexWord \<Rightarrow> Inr (lex_emit tok quoted)
   | LexQuote _ \<Rightarrow> value_error ''No closing quotation''
   | LexEscape _ \<Rightarrow> value_error ''No escaped character'')"
| "lex_run st tok quoted (c # s) = (case st of
     LexGap \<Rightarrow>
       if lex_space c then lex_run LexGap [] False s
       else if c = CHR 0x5C then lex_run (LexEscape None) [] False s
       else if lex_quote c then lex_run (LexQuote c) [] False s
       else lex_run LexWord [c] False s
   | LexWord \<Rightarrow>
       if lex_space c then bind_res (lex_run LexGap [] False s) (\<lambda>ws. Inr (lex_emit tok quoted @ ws))
       else if lex_quote c then lex_run (LexQuote c) tok quoted s
       else if c = CHR 0x5C then lex_run (LexEscape None) tok quoted s
       else lex_run LexWord (tok @ [c]) quoted s
   | LexQuote q \<Rightarrow>
       if c = q then lex_run LexWord tok True s
       else if c = CHR 0x5C \<and> q = CHR 0x22 then lex_run (LexEscape (Some q)) tok True s
       else lex_run (LexQuote q) (tok @ [c]) True s
   | LexEscape None \<Rightarrow> lex_run LexWord (tok @ [c]) quoted s
   | LexEscape (Some q) \<Rightarrow>
       lex_run (LexQuote q) (tok @ (if c \<noteq> CHR 0x5C \<and> c \<noteq> q then [CHR 0x5C] else []) @ [c]) quoted s)"

definition shlex_split :: "string \<Rightarrow> string list res" where
  "shlex_split s = lex_run LexGap [] False s"

section \<open>What a job may run\<close>

record allow_list =
  aw_binaries :: "string set"
  aw_verbs :: "string set"
  aw_max :: int

definition allow_configured :: "allow_list \<Rightarrow> bool" where
  "allow_configured allow = (aw_binaries allow \<noteq> {})"

definition deny_binaries :: "string list" where
  "deny_binaries = [''rm'', ''rmdir'', ''dd'', ''mkfs'', ''shutdown'', ''reboot'', ''halt'', ''poweroff'',
     ''kill'', ''pkill'', ''killall'', ''userdel'', ''useradd'', ''usermod'', ''passwd'',
     ''iptables'', ''nft'', ''wipefs'', ''fdisk'', ''parted'', ''mv'', ''cp'', ''sh'', ''bash'',
     ''curl'', ''wget'', ''eval'', ''exec'', ''tee'', ''sed'', ''awk'', ''python'', ''python3'']"

definition metachar :: "char \<Rightarrow> bool" where
  "metachar c = (c \<in> set '';&|<>`$(){}[]*?~'' \<union> {CHR 0x0A, CHR 0x0D, CHR 0x5C})"

type_synonym env = "(string \<times> string) list"

definition env_get :: "env \<Rightarrow> string \<Rightarrow> string" where
  "env_get e k = (case map_of e k of None \<Rightarrow> [] | Some v \<Rightarrow> v)"

text \<open>The set of tokens of a comma or white space separated list.\<close>

definition split_list :: "string \<Rightarrow> string set" where
  "split_list raw = set (filter (\<lambda>t. t \<noteq> []) (split_pred (\<lambda>c. c = CHR '','' \<or> py_space c) (str_strip raw)))"

definition max_commands_of :: "pyval \<Rightarrow> int res" where
  "max_commands_of v = bind_res (case py_int (por v (PInt 4)) of
     Inr n \<Rightarrow> Inr n
   | Inl e \<Rightarrow> if exn_class e \<in> {''TypeError'', ''ValueError''} then Inr 4 else Inl e) (\<lambda>n. Inr (max 1 n))"

lemma max_commands_of_text: "\<exists>n \<ge> 1. max_commands_of (PStr s) = Inr n"
  by (cases s) (auto simp: max_commands_of_def por_def value_error_def split: option.splits)

definition allowlist_from_env :: "env \<Rightarrow> allow_list res" where
  "allowlist_from_env e =
     bind_res (max_commands_of (PStr (env_get e ''CFOP_NODE_ACTION_MAX_COMMANDS''))) (\<lambda>n. Inr
     \<lparr>aw_binaries = split_list (env_get e ''CFOP_NODE_ACTION_ALLOW_BINARIES''),
      aw_verbs = split_list (env_get e ''CFOP_NODE_ACTION_ALLOW_SYSTEMCTL_VERBS''), aw_max = n\<rparr>)"

section \<open>Refusals\<close>

text \<open>The em dash in the text of the refusal without a list is written as a hyphen.\<close>

record refusal =
  rf_command :: string
  rf_binary :: string
  rf_kind :: string
  rf_reason :: string

definition program_of :: "string \<Rightarrow> string" where
  "program_of raw = (let ws = py_words raw;
       ws = (if take 1 ws = [''sudo''] then (if take 1 (drop 1 ws) = [''-n''] then drop 2 ws else drop 1 ws) else ws)
     in case ws of [] \<Rightarrow> [] | w # _ \<Rightarrow> w)"

definition refuse :: "string \<Rightarrow> string \<Rightarrow> string \<Rightarrow> string \<Rightarrow> refusal" where
  "refuse raw kind reason binary =
     \<lparr>rf_command = [], rf_binary = (if binary = [] then program_of raw else binary), rf_kind = kind, rf_reason = reason\<rparr>"

text \<open>The words behind an optional \<open>sudo -n\<close>; no words for \<open>sudo\<close> in any other form.\<close>

definition unsudo :: "string list \<Rightarrow> string list option" where
  "unsudo tokens = (case tokens of
     [] \<Rightarrow> Some []
   | t # ts \<Rightarrow>
       if t = ''sudo'' then (if length tokens < 3 \<or> tokens ! 1 \<noteq> ''-n'' then None else Some (drop 2 tokens))
       else Some tokens)"

definition refuse_tokens :: "string \<Rightarrow> allow_list \<Rightarrow> string list \<Rightarrow> refusal option" where
  "refuse_tokens raw allow tokens =
     (let binary = hd tokens; verb = (if length tokens > 1 then tokens ! 1 else [])
      in if binary \<in> set deny_binaries
           then Some (refuse raw ''denied_binary'' (''binary is explicitly denied: '' @ binary) binary)
         else if binary \<notin> aw_binaries allow
           then Some (refuse raw ''not_allowlisted'' (''binary not in allowlist: '' @ binary) binary)
         else if binary = ''systemctl'' \<and> verb \<notin> aw_verbs allow
           then Some (refuse raw ''systemctl_verb'' (''systemctl verb not allowed: '' @ repr_str verb) binary)
         else None)"

definition command_refusal :: "string \<Rightarrow> allow_list \<Rightarrow> refusal option" where
  "command_refusal command allow =
     (let raw = str_strip command
      in if raw = [] then Some (refuse raw ''empty'' ''empty command'' [])
         else if \<not> allow_configured allow then
           Some (refuse raw ''no_allowlist'' (''no allowlist configured for this Job - refusing every '' @
             ''command (set remediation.executor.node_action.allow_binaries)'') [])
         else if list_ex metachar raw then
           Some (refuse raw ''metachar'' (''shell metacharacter in command: '' @ repr_str raw) [])
         else (case shlex_split raw of
             Inl e \<Rightarrow> Some (refuse raw ''unparseable'' (''unparseable command ('' @ exn_text e @ ''): '' @ repr_str raw) [])
           | Inr tokens \<Rightarrow>
               if tokens = [] then Some (refuse raw ''empty'' ''no command tokens'' [])
               else (case unsudo tokens of
                   None \<Rightarrow> Some (refuse raw ''sudo_form'' (''sudo is only allowed as '' @ repr_str ''sudo -n <command>'') [])
                 | Some ts \<Rightarrow> refuse_tokens raw allow ts)))"

definition validate_command :: "string \<Rightarrow> allow_list \<Rightarrow> bool \<times> string" where
  "validate_command command allow = (case command_refusal command allow of
     Some r \<Rightarrow> (False, rf_reason r)
   | None \<Rightarrow> (True, ''ok''))"

definition plan_refusals :: "string list \<Rightarrow> allow_list \<Rightarrow> refusal list" where
  "plan_refusals commands allow =
     (if commands = []
      then [\<lparr>rf_command = [], rf_binary = [], rf_kind = ''no_commands'', rf_reason = ''plan has no commands''\<rparr>]
      else
        (if int (length commands) > aw_max allow
         then [\<lparr>rf_command = [], rf_binary = [], rf_kind = ''too_many'',
               rf_reason = ''plan has too many commands ('' @ nat_str (length commands) @ '' > '' @ int_str (aw_max allow) @ '')''\<rparr>]
         else []) @
        concat (map (\<lambda>cmd. case command_refusal cmd allow of
            None \<Rightarrow> []
          | Some r \<Rightarrow> [r\<lparr>rf_command := cmd\<rparr>]) commands))"

definition validate_plan :: "string list \<Rightarrow> allow_list \<Rightarrow> bool \<times> string" where
  "validate_plan commands allow = (case plan_refusals commands allow of
     r # _ \<Rightarrow> (False, rf_reason r)
   | [] \<Rightarrow> (True, ''ok''))"

definition command_is_query :: "string \<Rightarrow> bool" where
  "command_is_query command =
     (let raw = str_strip command
      in raw \<noteq> [] \<and>
         (case shlex_split raw of
            Inl _ \<Rightarrow> False
          | Inr tokens \<Rightarrow>
              (case unsudo tokens of
                 None \<Rightarrow> False
               | Some ts \<Rightarrow> length ts \<ge> 2 \<and> hd ts = ''systemctl'' \<and> (ts ! 1 = ''status'' \<or> starts_with ''is-'' (ts ! 1)))))"

section \<open>Resolving the lists\<close>

definition stripped_names :: "pyval list \<Rightarrow> string list" where
  "stripped_names xs = filter (\<lambda>t. t \<noteq> []) (map (\<lambda>x. str_strip (py_str x)) xs)"

definition split_names :: "pyval \<Rightarrow> string set" where
  "split_names v = (case v of
     PNone \<Rightarrow> {}
   | PStr s \<Rightarrow> split_list s
   | _ \<Rightarrow> (case py_iter v of Inl _ \<Rightarrow> {} | Inr xs \<Rightarrow> set (stripped_names xs)))"

definition narrowed :: "string set \<Rightarrow> string set \<Rightarrow> string set" where
  "narrowed ceiling picked = (if picked = {} then ceiling else ceiling \<inter> picked)"

text \<open>
  The selection is the stored text; \<open>None\<close> is a read that failed, and refuses everything.
\<close>

definition allowlist_from_config :: "pydict \<Rightarrow> string option \<Rightarrow> string option \<Rightarrow> allow_list res" where
  "allowlist_from_config ceiling sel_b sel_v = (case (sel_b, sel_v) of
     (Some b, Some v) \<Rightarrow>
       bind_res (max_commands_of (pget ceiling ''max_commands'')) (\<lambda>n. Inr
         \<lparr>aw_binaries = narrowed (split_names (pget ceiling ''allow_binaries'')) (split_list b),
          aw_verbs = narrowed (split_names (pget ceiling ''allow_systemctl_verbs'')) (split_list v), aw_max = n\<rparr>)
   | _ \<Rightarrow> Inr \<lparr>aw_binaries = {}, aw_verbs = {}, aw_max = 1\<rparr>)"

definition edit_error :: "string \<Rightarrow> 'a res" where
  "edit_error msg = Inl (PyExn ''AllowlistEditError'' msg)"

definition name_list :: "pyval \<Rightarrow> string list res" where
  "name_list v = (case v of
     PNone \<Rightarrow> Inr []
   | PStr s \<Rightarrow> Inr (sorted_list_of_set (split_list s))
   | PList xs \<Rightarrow> Inr (sorted_list_of_set (set (stripped_names xs)))
   | _ \<Rightarrow> edit_error ''binaries and verbs must be lists of names'')"

definition stored_names :: "string set \<Rightarrow> string set \<Rightarrow> string" where
  "stored_names picked ceiling = (if picked = ceiling then [] else str_join '','' (sorted_list_of_set picked))"

definition stored_selection :: "pydict \<Rightarrow> pyval \<Rightarrow> pyval \<Rightarrow> (string \<times> string) res" where
  "stored_selection ceiling binaries verbs =
     (let ceil_b = split_names (pget ceiling ''allow_binaries''); ceil_v = split_names (pget ceiling ''allow_systemctl_verbs'')
      in bind_res (name_list binaries) (\<lambda>bs. bind_res (name_list verbs) (\<lambda>vs.
           let extra = sorted_list_of_set (set bs - ceil_b) @ sorted_list_of_set (set vs - ceil_v)
           in if extra \<noteq> [] then
                edit_error (''not on the deployed ceiling (needs a config commit): '' @ str_join '', '' extra)
              else if bs = [] then
                edit_error (''select at least one binary; to refuse every node-action use the '' @
                  ''kill-switch, to restore the ceiling use Reset'')
              else if vs = [] then
                edit_error ''select at least one systemctl verb; to restore the ceiling use Reset''
              else Inr (stored_names (set bs) ceil_b, stored_names (set vs) ceil_v))))"

text \<open>The console's view of the lists.\<close>

record allow_view =
  vw_ceiling :: "string list \<times> string list \<times> int"
  vw_selected :: "string list option \<times> string list option"
  vw_effective :: "string list \<times> string list \<times> int"
  vw_source :: string

definition allowlist_view :: "pydict \<Rightarrow> string option \<Rightarrow> string option \<Rightarrow> allow_view res" where
  "allowlist_view ceiling sel_b sel_v =
     (let names = (\<lambda>k. sorted_list_of_set (split_names (pget ceiling k)));
          cb = names ''allow_binaries''; cv = names ''allow_systemctl_verbs''
      in bind_res (max_commands_of (pget ceiling ''max_commands'')) (\<lambda>n.
         bind_res (allowlist_from_config ceiling sel_b sel_v) (\<lambda>allow.
         case (sel_b, sel_v) of
           (Some b, Some v) \<Rightarrow>
             (let pick = (\<lambda>s. if s = [] then None else Some (sorted_list_of_set (split_list s)))
              in Inr \<lparr>vw_ceiling = (cb, cv, aw_max allow), vw_selected = (pick b, pick v),
                   vw_effective = (sorted_list_of_set (aw_binaries allow), sorted_list_of_set (aw_verbs allow), aw_max allow),
                   vw_source = (if pick b = None \<and> pick v = None then ''config'' else ''db'')\<rparr>)
         | _ \<Rightarrow> Inr \<lparr>vw_ceiling = (cb, cv, n), vw_selected = (None, None), vw_effective = ([], [], 1),
                 vw_source = ''error''\<rparr>)))"

definition normalize_plan :: "pydict \<Rightarrow> (string \<times> string list \<times> string) res" where
  "normalize_plan plan =
     bind_res (py_iter (por (pget plan ''commands'') (PList []))) (\<lambda>cs. Inr
       (str_strip (py_str (por (pget plan ''host'') (PStr []))), map py_str cs,
        py_str (por (pget plan ''explanation'') (PStr []))))"

section \<open>Running a plan\<close>

record ssh_result =
  sr_command :: string
  sr_rc :: int
  sr_out :: string
  sr_err :: string

text \<open>
  The world behind \<open>subprocess.run\<close>, and what was run so far, each with its argument list.
\<close>

record 'w shell =
  sh_world :: 'w
  sh_ran :: "string list list"

type_synonym 'w ssh = "string list \<Rightarrow> ('w, int \<times> string \<times> string) op"

definition subprocess_run :: "'w ssh \<Rightarrow> string list \<Rightarrow> ('w shell, int \<times> string \<times> string) op" where
  "subprocess_run ssh argv s = (case ssh argv (sh_world s) of
     (r, w) \<Rightarrow> (r, s\<lparr>sh_world := w, sh_ran := sh_ran s @ [argv]\<rparr>))"

definition ssh_argv :: "string \<Rightarrow> string \<Rightarrow> string \<Rightarrow> string \<Rightarrow> int \<Rightarrow> string list" where
  "ssh_argv host command user key timeout =
     [''ssh'', ''-o'', ''StrictHostKeyChecking=no'', ''-o'', ''UserKnownHostsFile=/dev/null'',
      ''-o'', ''BatchMode=yes'', ''-o'', ''ConnectTimeout='' @ int_str timeout] @
     (if key \<noteq> [] then [''-i'', key] else []) @ [user @ ''@'' @ host, ''--'', command]"

definition ssh_error :: "string \<Rightarrow> pyexn" where
  "ssh_error msg = PyExn ''SSHError'' msg"

fun run_commands :: "'w ssh \<Rightarrow> (string \<Rightarrow> string list) \<Rightarrow> string \<Rightarrow> string list \<Rightarrow> ('w shell, ssh_result list) op" where
  "run_commands ssh argv host [] = st_return []"
| "run_commands ssh argv host (c # cs) =
     st_bind (subprocess_run ssh (argv c)) (\<lambda>(rc, out, err).
       let entry = \<lparr>sr_command = c, sr_rc = rc, sr_out = take 2000 (str_strip out), sr_err = take 2000 (str_strip err)\<rparr>
       in if rc = 255 then
            st_raise (ssh_error (''ssh could not connect to '' @ host @ '': '' @ take 300 (str_strip err)))
          else if rc \<noteq> 0 \<and> \<not> command_is_query c then st_return [entry]
          else st_bind (run_commands ssh argv host cs) (\<lambda>rs. st_return (entry # rs)))"

text \<open>An integer setting of the environment with its default.\<close>

definition env_int :: "env \<Rightarrow> string \<Rightarrow> int \<Rightarrow> int res" where
  "env_int e k dflt = py_int (por (PStr (env_get e k)) (PInt dflt))"

definition run_ssh_plan ::
  "'w ssh \<Rightarrow> (string \<Rightarrow> ('w shell, unit) op) \<Rightarrow> string \<Rightarrow> string list \<Rightarrow> env \<Rightarrow> ('w shell, ssh_result list) op" where
  "run_ssh_plan ssh prepare host commands e =
     (let secret_dir = str_strip (env_get e ''CFOP_SSH_SECRET_DIR''); user = str_strip (env_get e ''CFOP_SSH_USER'');
          key = str_strip (env_get e ''CFOP_SSH_KEY'')
      in st_bind (if secret_dir \<noteq> [] then prepare secret_dir else st_return ()) (\<lambda>_.
         if user = [] then st_raise (ssh_error (''no SSH user configured: set remediation.executor.node_action.ssh_user '' @
              ''(the agent passes it as CFOP_SSH_USER)''))
         else st_bind (st_lift (env_int e ''CFOP_SSH_CONNECT_TIMEOUT'' 5)) (\<lambda>timeout.
              st_bind (st_lift (env_int e ''CFOP_NODE_ACTION_TIMEOUT'' 60)) (\<lambda>_.
              run_commands ssh (\<lambda>c. ssh_argv host c user key timeout) host commands))))"

section \<open>What the gate accepts\<close>

text \<open>The program a list of words starts, \<open>sudo -n\<close> skipped.\<close>

definition permitted :: "allow_list \<Rightarrow> string list \<Rightarrow> bool" where
  "permitted allow ts = (ts \<noteq> [] \<and> hd ts \<in> aw_binaries allow \<and> hd ts \<notin> set deny_binaries \<and>
     (hd ts = ''systemctl'' \<longrightarrow> (if length ts > 1 then ts ! 1 else []) \<in> aw_verbs allow))"

lemma refuse_tokens_None: "ts \<noteq> [] \<Longrightarrow> refuse_tokens raw allow ts = None \<longleftrightarrow> permitted allow ts"
  by (auto simp: refuse_tokens_def permitted_def Let_def)

lemma unsudo_ne: "unsudo ts = Some us \<Longrightarrow> ts \<noteq> [] \<Longrightarrow> us \<noteq> []"
  by (cases ts) (auto simp: unsudo_def split: if_splits)

lemma command_refusal_None:
  "command_refusal cmd allow = None \<longleftrightarrow>
     (\<exists>ws ts. shlex_split (str_strip cmd) = Inr ws \<and> ws \<noteq> [] \<and> unsudo ws = Some ts \<and> permitted allow ts) \<and>
     \<not> list_ex metachar (str_strip cmd) \<and> str_strip cmd \<noteq> [] \<and> allow_configured allow"
  using unsudo_ne
  by (auto simp: command_refusal_def Let_def refuse_tokens_None split: sum.splits option.splits)

lemma no_refusals:
  "concat (map (\<lambda>cmd. case command_refusal cmd allow of None \<Rightarrow> [] | Some r \<Rightarrow> [r\<lparr>rf_command := cmd\<rparr>]) cmds) = [] \<longleftrightarrow>
     (\<forall>c \<in> set cmds. command_refusal c allow = None)"
  by (induction cmds) (auto split: option.splits)

lemma validate_plan_ok:
  "validate_plan cmds allow = (True, m) \<longleftrightarrow> m = ''ok'' \<and> cmds \<noteq> [] \<and> int (length cmds) \<le> aw_max allow \<and>
     (\<forall>c \<in> set cmds. command_refusal c allow = None)"
proof -
  have "validate_plan cmds allow = (True, m) \<longleftrightarrow> m = ''ok'' \<and> plan_refusals cmds allow = []"
    by (auto simp: validate_plan_def split: list.splits)
  also have "plan_refusals cmds allow = [] \<longleftrightarrow> cmds \<noteq> [] \<and> int (length cmds) \<le> aw_max allow \<and>
     (\<forall>c \<in> set cmds. command_refusal c allow = None)"
    unfolding plan_refusals_def using no_refusals [of allow cmds] by simp
  finally show ?thesis .
qed

lemma permitted_mono:
  "permitted a ts \<Longrightarrow> aw_binaries a \<subseteq> aw_binaries b \<Longrightarrow> aw_verbs a \<subseteq> aw_verbs b \<Longrightarrow> permitted b ts"
  by (auto simp: permitted_def)

lemma validate_plan_mono:
  assumes "validate_plan cmds a = (True, m)" "aw_binaries a \<subseteq> aw_binaries b" "aw_verbs a \<subseteq> aw_verbs b" "aw_max a \<le> aw_max b"
  shows "validate_plan cmds b = (True, m)"
  using assms permitted_mono [OF _ assms(2,3)]
  by (fastforce simp: validate_plan_ok command_refusal_None allow_configured_def)

text \<open>The words \<open>ws\<close> run the program and arguments \<open>ts\<close>, directly or behind \<open>sudo -n\<close>.\<close>

definition launches :: "string list \<Rightarrow> string list \<Rightarrow> bool" where
  "launches ws ts = (ws = ts \<and> take 1 ws \<noteq> [''sudo''] \<or> ws = [''sudo'', ''-n''] @ ts)"

lemma unsudo_launches: "ws \<noteq> [] \<and> unsudo ws = Some ts \<longleftrightarrow> ts \<noteq> [] \<and> launches ws ts"
proof (cases ws)
  case (Cons w r)
  show ?thesis
  proof (cases "w = ''sudo''")
    case True
    then show ?thesis using Cons by (cases r) (auto simp: unsudo_def launches_def neq_Nil_conv)
  next
    case False
    then show ?thesis using Cons by (auto simp: unsudo_def launches_def)
  qed
qed (auto simp: unsudo_def launches_def)

lemma permitted_ne: "permitted allow ts \<Longrightarrow> allow_configured allow \<and> ts \<noteq> []"
  by (auto simp: permitted_def allow_configured_def)

lemma command_accepted:
  "command_refusal cmd allow = None \<longleftrightarrow>
     (\<exists>ws ts. shlex_split (str_strip cmd) = Inr ws \<and> launches ws ts \<and> permitted allow ts) \<and>
     (\<forall>x \<in> set (str_strip cmd). \<not> metachar x)"
proof -
  have "(ws \<noteq> [] \<and> unsudo ws = Some ts \<and> permitted allow ts) = (launches ws ts \<and> permitted allow ts)" for ws ts
    using unsudo_launches permitted_ne by blast
  moreover have "str_strip cmd \<noteq> []" if "shlex_split (str_strip cmd) = Inr ws" "ws \<noteq> []" for ws
    using that by (auto simp: shlex_split_def)
  ultimately show ?thesis unfolding command_refusal_None list_ex_iff using permitted_ne by blast
qed

text \<open>
  C23: The gate. A plan that passes has between one command and the maximum; every command of it
  starts, behind at most one \<open>sudo -n\<close>, an allowlisted program that is not on the hardcoded
  deny list, \<open>systemctl\<close> only with an allowed verb, and contains no shell metacharacter; and no
  plan passes when the job was given no list. Conversely every such plan passes.
\<close>

theorem gate_exact:
  "validate_plan cmds allow = (True, ''ok'') \<longleftrightarrow>
     cmds \<noteq> [] \<and> int (length cmds) \<le> aw_max allow \<and>
     (\<forall>c \<in> set cmds. (\<exists>ws ts. shlex_split (str_strip c) = Inr ws \<and> launches ws ts \<and>
        ts \<noteq> [] \<and> hd ts \<in> aw_binaries allow \<and> hd ts \<notin> set deny_binaries \<and>
        (hd ts = ''systemctl'' \<longrightarrow> (if length ts > 1 then ts ! 1 else []) \<in> aw_verbs allow)) \<and>
        (\<forall>x \<in> set (str_strip c). \<not> metachar x))"
  by (simp only: validate_plan_ok command_accepted permitted_def simp_thms)

lemma gate_exact_witness:
  "\<exists>ws ts. shlex_split (str_strip ''sudo -n systemctl restart nginx'') = Inr ws \<and> launches ws ts \<and> ts \<noteq> [] \<and>
     hd ts \<in> {''systemctl'', ''chmod''} \<and> hd ts \<notin> set deny_binaries \<and>
     (hd ts = ''systemctl'' \<longrightarrow> (if length ts > 1 then ts ! 1 else []) \<in> {''restart''})"
proof -
  have "validate_plan [''sudo -n systemctl restart nginx''] \<lparr>aw_binaries = {''systemctl'', ''chmod''}, aw_verbs = {''restart''}, aw_max = 4\<rparr>
     = (True, ''ok'')" by code_simp
  then show ?thesis unfolding gate_exact by simp
qed

text \<open>
  The operator's selection only narrows: a plan that passes under the list resolved with a
  selection passes under the deployed ceiling as well, and a selection that could not be read
  passes nothing.
\<close>

theorem selection_only_narrows:
  assumes "allowlist_from_config ceiling sel_b sel_v = Inr eff"
    and "allowlist_from_config ceiling (Some []) (Some []) = Inr full"
    and "validate_plan cmds eff = (True, m)"
  shows "validate_plan cmds full = (True, m) \<and> sel_b \<noteq> None \<and> sel_v \<noteq> None"
proof -
  have n: "narrowed c {} = c" "narrowed c p \<subseteq> c" for c p by (auto simp: narrowed_def)
  have e: "split_list [] = {}" by (simp add: split_list_def str_strip_def rstrip_by_def lstrip_by_def)
  have c: "allow_configured eff"
    using assms(3) by (auto simp: validate_plan_ok command_refusal_None) (metis list.set_intros(1) neq_Nil_conv)
  then obtain b v where s: "sel_b = Some b" "sel_v = Some v"
    using assms(1) by (cases sel_b; cases sel_v) (auto simp: allowlist_from_config_def allow_configured_def)
  have "aw_binaries eff \<subseteq> aw_binaries full" "aw_verbs eff \<subseteq> aw_verbs full" "aw_max eff \<le> aw_max full"
    using assms(1,2) by (auto simp: s e n(1) allowlist_from_config_def bind_res_Inr_iff dest: subsetD [OF n(2)])
  then show ?thesis using validate_plan_mono [OF assms(3)] s by simp
qed

definition sample_ceiling :: pydict where
  "sample_ceiling = [(''allow_binaries'', PList [PStr ''systemctl'', PStr ''chmod'', PStr ''chown'']),
     (''allow_systemctl_verbs'', PList [PStr ''restart'', PStr ''status''])]"

definition clean_name :: "string \<Rightarrow> bool" where
  "clean_name t = (t \<noteq> [] \<and> (\<forall>c \<in> set t. c \<noteq> CHR '','' \<and> \<not> py_space c))"

lemma split_pred_clean: "\<forall>c \<in> set t. \<not> p c \<Longrightarrow> split_pred p t = [t]"
  by (induction t) auto

lemma split_pred_append: "\<forall>c \<in> set t. \<not> p c \<Longrightarrow> p x \<Longrightarrow> split_pred p (t @ x # s) = t # split_pred p s"
  by (induction t) auto

lemma strip_clean: "\<forall>c \<in> set s. \<not> py_space c \<Longrightarrow> str_strip s = s"
proof -
  have d: "dropWhile p xs = xs" if "\<forall>x \<in> set xs. \<not> p x" for p and xs :: string
    using that by (cases xs) auto
  assume "\<forall>c \<in> set s. \<not> py_space c"
  then show ?thesis by (simp add: str_strip_def lstrip_by_def rstrip_by_def d)
qed

lemma str_join_chars: "c \<in> set (str_join sep ts) \<Longrightarrow> c \<in> set sep \<or> (\<exists>t \<in> set ts. c \<in> set t)"
  by (induction sep ts rule: str_join.induct) auto

lemma split_list_join:
  assumes "\<forall>t \<in> set ts. clean_name t"
  shows "split_list (str_join '','' ts) = set ts"
proof -
  let ?p = "\<lambda>c. c = CHR '','' \<or> py_space c"
  have "\<forall>c \<in> set (str_join '','' ts). \<not> py_space c"
  proof
    fix c assume "c \<in> set (str_join '','' ts)"
    then have "c = CHR '','' \<or> (\<exists>t \<in> set ts. c \<in> set t)" using str_join_chars [of c "'',''" ts] by simp
    moreover have "\<not> py_space (CHR '','')" by (simp add: py_space_def)
    ultimately show "\<not> py_space c" using assms by (auto simp: clean_name_def)
  qed
  then have strip: "str_strip (str_join '','' ts) = str_join '','' ts" by (rule strip_clean)
  have "set (filter (\<lambda>t. t \<noteq> []) (split_pred ?p (str_join '','' ts))) = set ts"
    using assms
  proof (induction "'',''" ts rule: str_join.induct)
    case (2 x)
    then show ?case by (auto simp: clean_name_def split_pred_clean)
  next
    case (3 x y ys)
    have "split_pred ?p (str_join '','' (x # y # ys)) = x # split_pred ?p (str_join '','' (y # ys))"
      using 3(2) split_pred_append [of x ?p "CHR '',''" "str_join '','' (y # ys)"] by (simp add: clean_name_def)
    then show ?case using 3 by (auto simp: clean_name_def)
  qed simp
  then show ?thesis by (simp add: split_list_def strip)
qed

lemma finite_split_list [simp]: "finite (split_list s)"
  by (simp add: split_list_def)

lemma name_list_sorted: "name_list v = Inr ns \<Longrightarrow> sorted_list_of_set (set ns) = ns"
  by (cases v) (auto simp: name_list_def edit_error_def)

lemma stored_names_read:
  assumes "finite picked" "picked \<noteq> {}" "picked \<subseteq> ceiling" "\<forall>t \<in> ceiling. clean_name t"
  shows "narrowed ceiling (split_list (stored_names picked ceiling)) = picked"
proof (cases "picked = ceiling")
  case True
  have "split_list [] = {}" by (simp add: split_list_def str_strip_def rstrip_by_def lstrip_by_def)
  then show ?thesis using True by (simp add: stored_names_def narrowed_def)
next
  case False
  have "split_list (str_join '','' (sorted_list_of_set picked)) = picked"
    using split_list_join [of "sorted_list_of_set picked"] assms by auto
  then show ?thesis using False assms by (auto simp: stored_names_def narrowed_def)
qed

text \<open>
  What the console stores is what the job is given: after an accepted edit, the list resolved
  from the stored texts holds exactly the names picked, all of them on the ceiling and at least
  one of each kind. The names of the ceiling must be free of commas and white space.
\<close>

theorem selection_round_trip:
  assumes "stored_selection ceiling binaries verbs = Inr (sb, sv)"
    and "name_list binaries = Inr bs" "name_list verbs = Inr vs"
    and "allowlist_from_config ceiling (Some sb) (Some sv) = Inr eff"
    and "\<forall>t \<in> split_names (pget ceiling ''allow_binaries'') \<union> split_names (pget ceiling ''allow_systemctl_verbs''). clean_name t"
  shows "aw_binaries eff = set bs \<and> aw_verbs eff = set vs \<and> bs \<noteq> [] \<and> vs \<noteq> [] \<and>
    set bs \<subseteq> split_names (pget ceiling ''allow_binaries'') \<and> set vs \<subseteq> split_names (pget ceiling ''allow_systemctl_verbs'')"
proof -
  let ?cb = "split_names (pget ceiling ''allow_binaries'')" and ?cv = "split_names (pget ceiling ''allow_systemctl_verbs'')"
  have st: "set bs - ?cb = {}" "set vs - ?cv = {}" "bs \<noteq> []" "vs \<noteq> []"
    "sb = stored_names (set bs) ?cb" "sv = stored_names (set vs) ?cv"
    using assms(1,2,3) by (auto simp: stored_selection_def Let_def edit_error_def split: if_splits)
  have "aw_binaries eff = narrowed ?cb (split_list sb)" "aw_verbs eff = narrowed ?cv (split_list sv)"
    using assms(4) by (auto simp: allowlist_from_config_def bind_res_Inr_iff)
  moreover have "narrowed ?cb (split_list sb) = set bs"
    unfolding st(5) by (rule stored_names_read) (use st assms(5) in auto)
  moreover have "narrowed ?cv (split_list sv) = set vs"
    unfolding st(6) by (rule stored_names_read) (use st assms(5) in auto)
  ultimately show ?thesis using st by auto
qed

lemma selection_only_narrows_witness:
  "validate_plan [''chmod 640 /etc/app.conf''] \<lparr>aw_binaries = {''systemctl'', ''chmod'', ''chown''}, aw_verbs = {''restart'', ''status''}, aw_max = 4\<rparr>
     = (True, ''ok'') \<and> Some ''chmod'' \<noteq> None \<and> Some ''restart'' \<noteq> None"
proof -
  have e: "allowlist_from_config sample_ceiling (Some ''chmod'') (Some ''restart'') =
      Inr \<lparr>aw_binaries = {''chmod''}, aw_verbs = {''restart''}, aw_max = 4\<rparr>" by code_simp
  have f: "allowlist_from_config sample_ceiling (Some []) (Some []) =
      Inr \<lparr>aw_binaries = {''systemctl'', ''chmod'', ''chown''}, aw_verbs = {''restart'', ''status''}, aw_max = 4\<rparr>" by code_simp
  have v: "validate_plan [''chmod 640 /etc/app.conf''] \<lparr>aw_binaries = {''chmod''}, aw_verbs = {''restart''}, aw_max = 4\<rparr> = (True, ''ok'')"
    by code_simp
  show ?thesis using selection_only_narrows [OF e f v] .
qed

lemma selection_round_trip_witness:
  "\<exists>eff. allowlist_from_config sample_ceiling (Some ''chmod'') (Some []) = Inr eff \<and> aw_binaries eff = set [''chmod''] \<and>
    aw_verbs eff = set [''restart'', ''status''] \<and> [''chmod''] \<noteq> [] \<and> [''restart'', ''status''] \<noteq> []"
proof -
  have st: "stored_selection sample_ceiling (PStr ''chmod'') (PList [PStr ''status'', PStr ''restart'']) = Inr (''chmod'', [])" by code_simp
  have bs: "name_list (PStr ''chmod'') = Inr [''chmod'']" by code_simp
  have vs: "name_list (PList [PStr ''status'', PStr ''restart'']) = Inr [''restart'', ''status'']" by code_simp
  have e: "allowlist_from_config sample_ceiling (Some ''chmod'') (Some []) =
      Inr \<lparr>aw_binaries = {''chmod''}, aw_verbs = {''restart'', ''status''}, aw_max = 4\<rparr>" by code_simp
  have c: "\<forall>t \<in> split_names (pget sample_ceiling ''allow_binaries'') \<union> split_names (pget sample_ceiling ''allow_systemctl_verbs''). clean_name t"
    by code_simp
  show ?thesis using selection_round_trip [OF st bs vs e c] e by simp
qed

section \<open>What a run sends to the host\<close>

lemma subprocess_ran: "sh_ran (snd (subprocess_run ssh argv s)) = sh_ran s @ [argv]"
  by (simp add: subprocess_run_def split: prod.splits)

definition stops_plan :: "ssh_result \<Rightarrow> bool" where
  "stops_plan r = (sr_rc r \<noteq> 0 \<and> \<not> command_is_query (sr_command r))"

lemma run_commands_runs:
  "\<exists>k \<le> length cmds.
     sh_ran (snd (run_commands ssh argv host cmds s)) = sh_ran s @ map argv (take k cmds) \<and>
     (\<forall>rs. fst (run_commands ssh argv host cmds s) = Inr rs \<longrightarrow>
        map sr_command rs = take k cmds \<and> (\<forall>r \<in> set rs. sr_rc r \<noteq> 255) \<and>
        (\<forall>r \<in> set (butlast rs). \<not> stops_plan r) \<and>
        (k < length cmds \<longrightarrow> rs \<noteq> [] \<and> stops_plan (last rs)))"
proof (induction cmds arbitrary: s)
  case Nil
  then show ?case by (simp add: st_return_def)
next
  case (Cons c cs)
  obtain r1 s1 where c: "subprocess_run ssh (argv c) s = (r1, s1)" by fastforce
  have ran: "sh_ran s1 = sh_ran s @ [argv c]" using subprocess_ran [of ssh "argv c" s] c by simp
  show ?case
  proof (cases r1)
    case (Inl e)
    then show ?thesis using c ran by (intro exI [of _ 1]) (simp add: st_bind_def)
  next
    case (Inr t)
    obtain rc out err where t: "t = (rc, out, err)" by (cases t)
    let ?e = "\<lparr>sr_command = c, sr_rc = rc, sr_out = take 2000 (str_strip out), sr_err = take 2000 (str_strip err)\<rparr>"
    consider "rc = 255" | "rc \<noteq> 255" "stops_plan ?e" | "rc \<noteq> 255" "\<not> stops_plan ?e" by blast
    then show ?thesis
    proof cases
      case 1
      then show ?thesis using c ran Inr t by (intro exI [of _ 1]) (simp add: st_defs)
    next
      case 2
      then have "run_commands ssh argv host (c # cs) s = (Inr [?e], s1)"
        using c Inr t by (simp add: st_defs stops_plan_def)
      then show ?thesis using 2 ran by (intro exI [of _ 1]) simp
    next
      case 3
      then have run: "run_commands ssh argv host (c # cs) s =
          st_bind (run_commands ssh argv host cs) (\<lambda>rs. st_return (?e # rs)) s1"
        using c Inr t by (auto simp: st_bind_def stops_plan_def split: prod.splits)
      obtain k where k: "k \<le> length cs" "sh_ran (snd (run_commands ssh argv host cs s1)) = sh_ran s1 @ map argv (take k cs)"
        "\<forall>rs. fst (run_commands ssh argv host cs s1) = Inr rs \<longrightarrow>
        map sr_command rs = take k cs \<and> (\<forall>r \<in> set rs. sr_rc r \<noteq> 255) \<and> (\<forall>r \<in> set (butlast rs). \<not> stops_plan r) \<and>
        (k < length cs \<longrightarrow> rs \<noteq> [] \<and> stops_plan (last rs))"
        using Cons.IH [of s1] by blast
      show ?thesis
      proof (cases "run_commands ssh argv host cs s1")
        case (Pair r2 s2)
        then show ?thesis using k ran 3 unfolding run
          by (intro exI [of _ "Suc k"]) (cases r2, auto simp: st_defs)
      qed
    qed
  qed
qed

lemma run_commands_prefix:
  "\<exists>k. sh_ran (snd (run_commands ssh argv host cmds s)) = sh_ran s @ map argv (take k cmds)"
  using run_commands_runs by blast

text \<open>
  A run is a prefix of its plan. Whatever ssh answers, exceptions included, the commands sent
  are an initial segment of the plan, in order and each once; when it returns, there is one
  result per command sent, no connection failed, every result but the last is a success or the
  answer of a query, and the plan was cut short only behind a change that failed.
\<close>

theorem run_is_prefix:
  "\<exists>k \<le> length cmds.
     sh_ran (snd (run_commands ssh argv host cmds s)) = sh_ran s @ map argv (take k cmds) \<and>
     (\<forall>rs. fst (run_commands ssh argv host cmds s) = Inr rs \<longrightarrow>
        map sr_command rs = take k cmds \<and> (\<forall>r \<in> set rs. sr_rc r \<noteq> 255) \<and>
        (\<forall>r \<in> set (butlast rs). \<not> stops_plan r) \<and>
        (k < length cmds \<longrightarrow> rs \<noteq> [] \<and> stops_plan (last rs)))"
  by (rule run_commands_runs)

definition sample_ssh :: "unit ssh" where
  "sample_ssh argv w = (Inr (if last argv = ''systemctl is-active nginx'' then 3 else if last argv = ''chmod 640 /nope'' then 1 else 0, [], []), w)"

definition sample_plan :: "string list" where
  "sample_plan = [''systemctl is-active nginx'', ''chmod 640 /nope'', ''systemctl restart nginx'']"

lemma run_is_prefix_witness:
  "\<exists>rs. fst (run_commands sample_ssh (\<lambda>c. [c]) ''h'' sample_plan \<lparr>sh_world = (), sh_ran = []\<rparr>) = Inr rs \<and>
     map sr_command rs = take 2 sample_plan \<and> stops_plan (last rs)"
proof -
  let ?rs = "[\<lparr>sr_command = ''systemctl is-active nginx'', sr_rc = 3, sr_out = [], sr_err = []\<rparr>,
    \<lparr>sr_command = ''chmod 640 /nope'', sr_rc = 1, sr_out = [], sr_err = []\<rparr>]"
  have q: "command_is_query ''systemctl is-active nginx''" "\<not> command_is_query ''chmod 640 /nope''" by code_simp+
  have z: "str_strip [] = []" by (simp add: str_strip_def lstrip_by_def rstrip_by_def)
  have r: "fst (run_commands sample_ssh (\<lambda>c. [c]) ''h'' sample_plan \<lparr>sh_world = (), sh_ran = []\<rparr>) = Inr ?rs"
    by (simp add: sample_plan_def sample_ssh_def subprocess_run_def st_defs q z)
  obtain k where k: "k \<le> length sample_plan" "map sr_command ?rs = take k sample_plan"
    "k < length sample_plan \<longrightarrow> ?rs \<noteq> [] \<and> stops_plan (last ?rs)"
    using run_is_prefix [of sample_plan sample_ssh "\<lambda>c. [c]" "''h''" "\<lparr>sh_world = (), sh_ran = []\<rparr>"] r by auto
  from arg_cong [OF k(2), of length] have "k = 2" using k(1) by (simp add: sample_plan_def)
  then show ?thesis using k r by (intro exI [of _ ?rs]) (simp add: sample_plan_def)
qed

end
