(* ===== verification/Patch.thy ===== *)
theory Patch
  imports Py_Value "HOL-Library.Multiset"
begin

text \<open>
  Unified diffs, \<open>executor/diff.py\<close>: parsing a single-file diff, applying its hunks with exact
  context, the refusal of secret-bearing paths; and \<open>executor/github.py\<close>: the pull request opened
  from a diff. The GitHub client's \<open>request\<close> is an argument, as are the base64 codecs. The
  agent's \<open>remediation.py\<close> carries the same parser and the same application.
\<close>

section \<open>Lines and slices\<close>

definition line_break :: "char \<Rightarrow> bool" where
  "line_break c = (let n = of_char c :: nat in (10 \<le> n \<and> n \<le> 13) \<or> (28 \<le> n \<and> n \<le> 30) \<or> n = 133)"

text \<open>\<open>str.splitlines()\<close>, with the line read so far.\<close>

fun lines_from :: "string \<Rightarrow> string \<Rightarrow> string list" where
  "lines_from acc [] = (if acc = [] then [] else [acc])"
| "lines_from acc [c] = (if line_break c then [acc] else [acc @ [c]])"
| "lines_from acc (c # d # s) =
     (if c = CHR 0x0D \<and> d = CHR 0x0A then acc # lines_from [] s
      else if line_break c then acc # lines_from [] (d # s)
      else lines_from (acc @ [c]) (d # s))"

definition split_lines :: "string \<Rightarrow> string list" where
  "split_lines s = lines_from [] s"

definition norm_index :: "int \<Rightarrow> int \<Rightarrow> nat" where
  "norm_index n i = nat (if i < 0 then max 0 (n + i) else min n i)"

text \<open>\<open>xs[a:b]\<close> and \<open>xs[a:b] = ys\<close>.\<close>

definition py_slice :: "'a list \<Rightarrow> int \<Rightarrow> int \<Rightarrow> 'a list" where
  "py_slice xs a b = (let n = int (length xs); i = norm_index n a in take (norm_index n b - i) (drop i xs))"

definition py_splice :: "'a list \<Rightarrow> int \<Rightarrow> int \<Rightarrow> 'a list \<Rightarrow> 'a list" where
  "py_splice xs a b ys = (let n = int (length xs); i = norm_index n a
     in take i xs @ ys @ drop (max i (norm_index n b)) xs)"

section \<open>Parsing\<close>

record hunk =
  hk_start :: "int option"
  hk_old :: "string list"
  hk_new :: "string list"

record diff_state =
  df_path :: "string option"
  df_hunks :: "hunk list"

definition hunk_header :: "string \<Rightarrow> bool" where
  "hunk_header line = (starts_with ''@@'' line \<and>
     (let r = drop 2 line in list_all py_space r \<or> (starts_with '' '' r \<and> str_contains ''@@'' (tl r))))"

definition header_start :: "string \<Rightarrow> int option" where
  "header_start line = (let ds = takeWhile is_digit (drop 4 line)
     in if starts_with ''@@ -'' line \<and> ds \<noteq> [] then Some (int (digits_val ds)) else None)"

text \<open>A line of the body goes to the last hunk opened.\<close>

definition add_lines :: "string list \<Rightarrow> string list \<Rightarrow> diff_state \<Rightarrow> diff_state" where
  "add_lines old new st = (case df_hunks st of
     [] \<Rightarrow> st
   | hs \<Rightarrow> st\<lparr>df_hunks := butlast hs @ [(last hs)\<lparr>hk_old := hk_old (last hs) @ old, hk_new := hk_new (last hs) @ new\<rparr>]\<rparr>)"

definition diff_line :: "string \<Rightarrow> diff_state \<Rightarrow> diff_state option" where
  "diff_line line st =
     (if starts_with ''--- '' line then Some st
      else if starts_with ''+++ '' line then
        (if df_path st \<noteq> None then None
         else let raw = str_strip (drop 4 line) in Some (st\<lparr>df_path := Some (if starts_with ''b/'' raw then drop 2 raw else raw)\<rparr>))
      else if starts_with ''@@'' line then
        (if df_path st = None \<or> \<not> hunk_header line then None
         else Some (st\<lparr>df_hunks := df_hunks st @ [\<lparr>hk_start = header_start line, hk_old = [], hk_new = []\<rparr>]\<rparr>))
      else if df_hunks st = [] then Some st
      else if starts_with '' '' line \<or> line = [] then Some (add_lines [drop 1 line] [drop 1 line] st)
      else if starts_with ''-'' line then Some (add_lines [drop 1 line] [] st)
      else if starts_with ''+'' line then Some (add_lines [] [drop 1 line] st)
      else if starts_with [CHR 0x5C] line then Some st
      else None)"

fun diff_lines :: "string list \<Rightarrow> diff_state \<Rightarrow> diff_state option" where
  "diff_lines [] st = Some st"
| "diff_lines (l # ls) st = (case diff_line l st of None \<Rightarrow> None | Some st' \<Rightarrow> diff_lines ls st')"

definition diff_start :: diff_state where
  "diff_start = \<lparr>df_path = None, df_hunks = []\<rparr>"

definition diff_result :: "diff_state \<Rightarrow> (string \<times> hunk list) option" where
  "diff_result st = (case df_path st of
     Some (c # p) \<Rightarrow>
       if df_hunks st = [] \<or> list_ex (\<lambda>h. hk_old h = [] \<and> hk_new h = []) (df_hunks st) then None
       else Some (c # p, df_hunks st)
   | _ \<Rightarrow> None)"

definition parse_unified_diff :: "string \<Rightarrow> (string \<times> hunk list) option" where
  "parse_unified_diff text = (if text = [] then None
     else case diff_lines (split_lines text) diff_start of None \<Rightarrow> None | Some st \<Rightarrow> diff_result st)"

section \<open>Applying\<close>

definition match_positions :: "string list \<Rightarrow> string list \<Rightarrow> nat list" where
  "match_positions old ls = filter (\<lambda>i. take (length old) (drop i ls) = old) [0..<length ls + 1 - length old]"

definition hunk_index :: "hunk \<Rightarrow> int \<Rightarrow> string list \<Rightarrow> int option" where
  "hunk_index h offset ls =
     (let n = int (length (hk_old h));
          stated = (case hk_start h of
             None \<Rightarrow> None
           | Some k \<Rightarrow> let at = k - 1 + offset in if py_slice ls at (at + n) = hk_old h then Some at else None)
      in case stated of
           Some at \<Rightarrow> Some at
         | None \<Rightarrow> (case match_positions (hk_old h) ls of [i] \<Rightarrow> Some (int i) | _ \<Rightarrow> None))"

fun apply_hunks :: "hunk list \<Rightarrow> int \<Rightarrow> string list \<Rightarrow> string list option" where
  "apply_hunks [] offset ls = Some ls"
| "apply_hunks (h # hs) offset ls =
     (if hk_old h = [] then None
      else case hunk_index h offset ls of
        None \<Rightarrow> None
      | Some i \<Rightarrow> apply_hunks hs (offset + int (length (hk_new h)) - int (length (hk_old h)))
           (py_splice ls i (i + int (length (hk_old h))) (hk_new h)))"

definition newline :: string where
  "newline = [CHR 0x0A]"

definition apply_unified_diff :: "string \<Rightarrow> hunk list \<Rightarrow> string option" where
  "apply_unified_diff text hunks = (case apply_hunks hunks 0 (split_lines text) of
     None \<Rightarrow> None
   | Some ls \<Rightarrow> Some (str_join newline ls @ (if ends_with newline text then newline else [])))"

definition is_secret_path :: "string \<Rightarrow> bool" where
  "is_secret_path path = list_ex (\<lambda>w. str_contains w (str_lower path))
     [''sealed'', ''secret'', ''.env'', ''credential'', ''token'']"

section \<open>What applying does\<close>

text \<open>
  The reference: the hunks one after another, each replacing one block of lines that is exactly
  its old side, everything around it untouched; for a hunk that states no position there is no
  other such block.
\<close>

inductive patches :: "hunk list \<Rightarrow> string list \<Rightarrow> string list \<Rightarrow> bool" where
  none: "patches [] ls ls"
| replace_block: "hk_old h \<noteq> [] \<Longrightarrow> hk_start h \<noteq> None \<or> length (match_positions (hk_old h) (pre @ hk_old h @ post)) = 1 \<Longrightarrow>
     patches hs (pre @ hk_new h @ post) ls' \<Longrightarrow> patches (h # hs) (pre @ hk_old h @ post) ls'"

lemma slice_splice:
  assumes "py_slice xs a (a + int (length ys)) = ys" "ys \<noteq> []"
  shows "\<exists>pre post. xs = pre @ ys @ post \<and> py_splice xs a (a + int (length ys)) zs = pre @ zs @ post"
proof -
  let ?n = "int (length xs)"
  let ?i = "norm_index ?n a" and ?j = "norm_index ?n (a + int (length ys))"
  have "length ys = min (?j - ?i) (length xs - ?i)"
    using arg_cong [OF assms(1), of length] by (simp add: py_slice_def Let_def min.commute)
  moreover have "?j \<le> length xs" by (auto simp: norm_index_def)
  then have "?j - ?i \<le> length xs - ?i" by (rule diff_le_mono)
  ultimately have j: "?j - ?i = length ys" by simp
  moreover have "0 < length ys" using assms(2) by simp
  ultimately have ij: "?i < ?j" by linarith
  have ys: "take (length ys) (drop ?i xs) = ys" using assms(1) j by (simp add: py_slice_def Let_def)
  have mx: "max ?i ?j = ?i + length ys" using j ij by simp
  have "drop ?i xs = ys @ drop (?i + length ys) xs"
    by (metis append_take_drop_id drop_drop add.commute ys)
  then have "xs = take ?i xs @ ys @ drop (?i + length ys) xs" by (metis append_take_drop_id)
  moreover have "py_splice xs a (a + int (length ys)) zs = take ?i xs @ zs @ drop (?i + length ys) xs"
    by (simp add: py_splice_def Let_def mx)
  ultimately show ?thesis by blast
qed

lemma match_slice:
  assumes "match_positions old ls = [i]" "old \<noteq> []"
  shows "py_slice ls (int i) (int i + int (length old)) = old"
proof -
  have "i \<in> set (match_positions old ls)" using assms(1) by simp
  then have "i < length ls + 1 - length old" "take (length old) (drop i ls) = old" by (auto simp: match_positions_def)
  then have "i + length old \<le> length ls" "i \<le> length ls" using assms(2) by (cases old; simp)+
  moreover have "nat (int i + int (length old)) = i + length old" by simp
  ultimately show ?thesis using \<open>take (length old) (drop i ls) = old\<close>
    by (simp add: py_slice_def norm_index_def Let_def min_absorb2)
qed

lemma hunk_index_slice:
  assumes "hunk_index h offset ls = Some i" "hk_old h \<noteq> []"
  shows "py_slice ls i (i + int (length (hk_old h))) = hk_old h"
  using assms match_slice [of "hk_old h" ls]
  by (auto simp: hunk_index_def Let_def split: option.splits if_splits list.splits)

text \<open>
  C35: A patch is exact. If the hunks apply, then the result comes from the file by replacing, hunk
  after hunk, one block of lines that equals the hunk's old side by its new side, the only such
  block where the hunk states no position; nothing else changes, no hunk is skipped, and a hunk
  without context never applies.
\<close>

theorem applied_hunks_exact:
  assumes "apply_hunks hs offset ls = Some ls'"
  shows "patches hs ls ls' \<and> (\<forall>h \<in> set hs. hk_old h \<noteq> [])"
  using assms
proof (induction hs arbitrary: offset ls)
  case Nil
  then show ?case by (simp add: patches.none)
next
  case (Cons h hs)
  obtain i where h: "hk_old h \<noteq> []" "hunk_index h offset ls = Some i"
    and rest: "apply_hunks hs (offset + int (length (hk_new h)) - int (length (hk_old h)))
           (py_splice ls i (i + int (length (hk_old h))) (hk_new h)) = Some ls'"
    using Cons.prems by (auto split: if_splits option.splits)
  obtain pre post where "ls = pre @ hk_old h @ post"
    "py_splice ls i (i + int (length (hk_old h))) (hk_new h) = pre @ hk_new h @ post"
    using slice_splice [OF hunk_index_slice [OF h(2,1)] h(1)] by blast
  moreover have "hk_start h \<noteq> None \<or> length (match_positions (hk_old h) ls) = 1"
    using h(2) by (auto simp: hunk_index_def split: option.splits list.splits)
  ultimately show ?case using Cons.IH [OF rest] h(1) patches.replace_block by auto
qed

definition sample_hunk :: hunk where
  "sample_hunk = \<lparr>hk_start = None, hk_old = [''b'', ''c''], hk_new = [''b'', ''x'']\<rparr>"

lemma apply_sample: "apply_hunks [sample_hunk] 0 [''a'', ''b'', ''c''] = Some [''a'', ''b'', ''x'']"
  by code_simp

lemma applied_hunks_exact_witness:
  "patches [sample_hunk] [''a'', ''b'', ''c''] [''a'', ''b'', ''x''] \<and> hk_old sample_hunk \<noteq> []"
  using applied_hunks_exact [OF apply_sample] by simp

section \<open>Printing a diff\<close>

text \<open>A diff as git prints it, from its parts.\<close>

datatype body_line = Ctx string | Del string | Ins string

fun print_body :: "body_line \<Rightarrow> string" where
  "print_body (Ctx s) = CHR '' '' # s"
| "print_body (Del s) = CHR ''-'' # s"
| "print_body (Ins s) = CHR ''+'' # s"

definition old_side :: "body_line list \<Rightarrow> string list" where
  "old_side bs = concat (map (\<lambda>b. case b of Ctx s \<Rightarrow> [s] | Del s \<Rightarrow> [s] | Ins _ \<Rightarrow> []) bs)"

definition new_side :: "body_line list \<Rightarrow> string list" where
  "new_side bs = concat (map (\<lambda>b. case b of Ctx s \<Rightarrow> [s] | Ins s \<Rightarrow> [s] | Del _ \<Rightarrow> []) bs)"

definition print_header :: "nat option \<Rightarrow> string" where
  "print_header at = (case at of None \<Rightarrow> ''@@'' | Some n \<Rightarrow> ''@@ -'' @ nat_str n @ '' @@'')"

definition print_hunk :: "nat option \<times> body_line list \<Rightarrow> string list" where
  "print_hunk h = print_header (fst h) # map print_body (snd h)"

definition print_diff :: "string \<Rightarrow> (nat option \<times> body_line list) list \<Rightarrow> string" where
  "print_diff path hs = str_join newline ([''--- a/'' @ path, ''+++ b/'' @ path] @ concat (map print_hunk hs))"

definition hunk_of :: "nat option \<times> body_line list \<Rightarrow> hunk" where
  "hunk_of h = \<lparr>hk_start = map_option int (fst h), hk_old = old_side (snd h), hk_new = new_side (snd h)\<rparr>"

fun clean_body :: "body_line \<Rightarrow> bool" where
  "clean_body (Ctx s) = (\<forall>c \<in> set s. \<not> line_break c)"
| "clean_body (Del s) = ((\<forall>c \<in> set s. \<not> line_break c) \<and> \<not> starts_with ''-- '' s)"
| "clean_body (Ins s) = ((\<forall>c \<in> set s. \<not> line_break c) \<and> \<not> starts_with ''++ '' s)"

definition clean_path :: "string \<Rightarrow> bool" where
  "clean_path p = (p \<noteq> [] \<and> \<not> py_space (last p) \<and> (\<forall>c \<in> set p. \<not> line_break c))"

lemma lines_from_break:
  "\<forall>c \<in> set l. \<not> line_break c \<Longrightarrow> lines_from acc (l @ CHR 0x0A # s) = (acc @ l) # lines_from [] s"
proof (induction l arbitrary: acc)
  case Nil
  have "line_break (CHR 0x0A)" by (simp add: line_break_def)
  then show ?case by (cases s) simp_all
next
  case (Cons c l)
  have "line_break (CHR 0x0D)" by (simp add: line_break_def)
  then have c: "\<not> line_break c" "c \<noteq> CHR 0x0D" using Cons.prems by auto
  obtain d t where dt: "l @ CHR 0x0A # s = d # t" by (cases "l @ CHR 0x0A # s") auto
  have "lines_from acc ((c # l) @ CHR 0x0A # s) = lines_from (acc @ [c]) (l @ CHR 0x0A # s)"
    using c by (simp add: dt)
  then show ?case using Cons by simp
qed

lemma lines_from_end: "\<forall>c \<in> set l. \<not> line_break c \<Longrightarrow> acc @ l \<noteq> [] \<Longrightarrow> lines_from acc l = [acc @ l]"
proof (induction l arbitrary: acc)
  case (Cons c l)
  have "line_break (CHR 0x0D)" by (simp add: line_break_def)
  then have c: "\<not> line_break c" "c \<noteq> CHR 0x0D" using Cons.prems by auto
  have "lines_from acc (c # l) = lines_from (acc @ [c]) l" using c by (cases l) auto
  then show ?case using Cons by simp
qed simp

lemma split_join_lines:
  assumes "\<forall>l \<in> set ls. l \<noteq> [] \<and> (\<forall>c \<in> set l. \<not> line_break c)"
  shows "split_lines (str_join newline ls) = ls"
  unfolding split_lines_def using assms
proof (induction "newline" ls rule: str_join.induct)
  case (2 x)
  then show ?case using lines_from_end [of x "[]"] by simp
next
  case (3 x y ys)
  then show ?case using lines_from_break [of x "[]"] by (simp add: newline_def)
qed simp

lemma add_lines_if:
  "add_lines old new st = (if df_hunks st = [] then st else let hs = df_hunks st
     in st\<lparr>df_hunks := butlast hs @ [(last hs)\<lparr>hk_old := hk_old (last hs) @ old, hk_new := hk_new (last hs) @ new\<rparr>]\<rparr>)"
  by (cases "df_hunks st") (simp_all add: add_lines_def)

lemma diff_body:
  assumes "clean_body b"
  shows "diff_line (print_body b) \<lparr>df_path = Some p, df_hunks = hs @ [h]\<rparr> =
    Some \<lparr>df_path = Some p, df_hunks = hs @ [h\<lparr>hk_old := hk_old h @ old_side [b], hk_new := hk_new h @ new_side [b]\<rparr>]\<rparr>"
  using assms by (cases b) (auto simp: diff_line_def add_lines_if starts_with_def old_side_def new_side_def)

lemma diff_bodies:
  assumes "\<forall>b \<in> set bs. clean_body b"
  shows "diff_lines (map print_body bs @ rest) \<lparr>df_path = Some p, df_hunks = hs @ [h]\<rparr> =
    diff_lines rest \<lparr>df_path = Some p, df_hunks = hs @ [h\<lparr>hk_old := hk_old h @ old_side bs, hk_new := hk_new h @ new_side bs\<rparr>]\<rparr>"
  using assms
proof (induction bs arbitrary: h)
  case Nil
  then show ?case by (simp add: old_side_def new_side_def)
next
  case (Cons b bs)
  have "old_side (b # bs) = old_side [b] @ old_side bs" "new_side (b # bs) = new_side [b] @ new_side bs"
    by (simp_all add: old_side_def new_side_def)
  then show ?case using Cons by (simp add: diff_body)
qed

lemma str_contains_suffix: "str_contains p (s @ p)"
proof (induction s)
  case Nil
  then show ?case by (cases p) (simp_all add: starts_with_def)
qed simp

lemma diff_header:
  "diff_line (print_header at) \<lparr>df_path = Some p, df_hunks = hs\<rparr> =
    Some \<lparr>df_path = Some p, df_hunks = hs @ [\<lparr>hk_start = map_option int at, hk_old = [], hk_new = []\<rparr>]\<rparr>"
proof (cases at)
  case None
  then show ?thesis by (simp add: print_header_def diff_line_def starts_with_def hunk_header_def header_start_def)
next
  case (Some n)
  have "list_all is_digit (nat_str n)" using nat_str_all_digits [of n] by (simp add: all_digits_def)
  then have "takeWhile is_digit (nat_str n @ '' @@'') = nat_str n"
    by (subst takeWhile_append2) (auto simp: list_all_iff is_digit_def)
  then have st: "header_start (print_header at) = Some (int n)"
    by (simp add: Some header_start_def print_header_def starts_with_def)
  have "str_contains ''@@'' (''-'' @ nat_str n @ '' @@'')"
    using str_contains_suffix [of "''@@''" "''-'' @ nat_str n @ '' ''"] by simp
  then have "hunk_header (print_header at)" by (simp add: Some hunk_header_def print_header_def starts_with_def)
  then show ?thesis using st Some by (simp add: diff_line_def print_header_def starts_with_def)
qed

lemma diff_hunks:
  assumes "\<forall>h \<in> set hs. \<forall>b \<in> set (snd h). clean_body b"
  shows "diff_lines (concat (map print_hunk hs)) \<lparr>df_path = Some p, df_hunks = ks\<rparr> =
    Some \<lparr>df_path = Some p, df_hunks = ks @ map hunk_of hs\<rparr>"
  using assms
proof (induction hs arbitrary: ks)
  case (Cons h hs)
  then show ?case
    by (simp add: print_hunk_def diff_header diff_bodies hunk_of_def)
qed simp

lemma strip_path: "p \<noteq> [] \<Longrightarrow> \<not> py_space (last p) \<Longrightarrow> str_strip (''b/'' @ p) = ''b/'' @ p"
proof -
  assume p: "p \<noteq> []" "\<not> py_space (last p)"
  have "\<not> py_space (CHR ''b'')" by (simp add: py_space_def)
  moreover obtain q x where "p = q @ [x]" using p(1) by (metis rev_exhaust)
  ultimately show ?thesis using p by (simp add: str_strip_def lstrip_by_def rstrip_by_def)
qed



text \<open>
  The condition on the body is needed: the deletion of a line that starts with two dashes and
  a blank is printed as \<open>--- ...\<close>, which the parser takes for a file header and skips, so the
  hunk applies without its removal.
\<close>

theorem dashed_deletion_dropped:
  assumes "clean_path path" "\<forall>c \<in> set s. \<not> line_break c" "\<forall>c \<in> set t. \<not> line_break c"
  shows "parse_unified_diff (print_diff path [(None, [Ctx t, Del (''-- '' @ s)])]) =
    Some (path, [\<lparr>hk_start = None, hk_old = [t], hk_new = [t]\<rparr>])"
proof -
  let ?ls = "[''--- a/'' @ path, ''+++ b/'' @ path, ''@@'', CHR '' '' # t, ''--- '' @ s]"
  have "\<forall>c \<in> set (''--- a/'' @ ''+++ b/'' @ ''@@''). \<not> line_break c" by (simp add: line_break_def)
  then have "\<forall>l \<in> set ?ls. l \<noteq> [] \<and> (\<forall>c \<in> set l. \<not> line_break c)" using assms by (auto simp: clean_path_def)
  moreover have "print_diff path [(None, [Ctx t, Del (''-- '' @ s)])] = str_join newline ?ls"
    by (simp add: print_diff_def print_hunk_def print_header_def)
  ultimately have lines: "split_lines (print_diff path [(None, [Ctx t, Del (''-- '' @ s)])]) = ?ls"
    using split_join_lines by metis
  obtain c q where path: "path = c # q" using assms(1) by (cases path) (auto simp: clean_path_def)
  have "diff_lines ?ls diff_start = Some \<lparr>df_path = Some path, df_hunks = [\<lparr>hk_start = None, hk_old = [t], hk_new = [t]\<rparr>]\<rparr>"
    using strip_path [of path] assms(1)
    by (simp add: diff_line_def diff_start_def starts_with_def clean_path_def hunk_header_def header_start_def add_lines_if)
  then have "diff_lines (split_lines (print_diff path [(None, [Ctx t, Del (''-- '' @ s)])])) diff_start =
      Some \<lparr>df_path = Some path, df_hunks = [\<lparr>hk_start = None, hk_old = [t], hk_new = [t]\<rparr>]\<rparr>" unfolding lines .
  moreover have "print_diff path [(None, [Ctx t, Del (''-- '' @ s)])] \<noteq> []" by (simp add: print_diff_def)
  ultimately show ?thesis by (simp add: parse_unified_diff_def diff_result_def path)
qed

lemma dashed_deletion_dropped_witness:
  "parse_unified_diff (print_diff ''db/init.sql'' [(None, [Ctx ''BEGIN;'', Del (''-- '' @ ''old'')])]) =
    Some (''db/init.sql'', [\<lparr>hk_start = None, hk_old = [''BEGIN;''], hk_new = [''BEGIN;'']\<rparr>])"
  by (rule dashed_deletion_dropped; code_simp)

section \<open>The pull request\<close>

text \<open>\<open>d.get(k1) or {}\<close> and so on down to the last key.\<close>

fun dig :: "pydict \<Rightarrow> string list \<Rightarrow> pyval res" where
  "dig d [] = Inr (PDict d)"
| "dig d [k] = Inr (pget d k)"
| "dig d (k # l # ks) = bind_res (as_dict (por (pget d k) (PDict []))) (\<lambda>e. dig e (l # ks))"

text \<open>The world behind the client, and the requests sent: method, path and body.\<close>

type_synonym gh_request = "string \<times> string \<times> pydict option"

record 'w hub =
  hb_world :: 'w
  hb_sent :: "gh_request list"

type_synonym 'w github = "gh_request \<Rightarrow> ('w, pydict) op"

definition hub_request :: "'w github \<Rightarrow> gh_request \<Rightarrow> ('w hub, pydict) op" where
  "hub_request gh rq s = (case gh rq (hb_world s) of
     (r, w) \<Rightarrow> (r, s\<lparr>hb_world := w, hb_sent := hb_sent s @ [rq]\<rparr>))"

definition ref_request :: "string \<Rightarrow> string \<Rightarrow> gh_request" where
  "ref_request repo branch = (''GET'', ''/repos/'' @ repo @ ''/git/ref/heads/'' @ branch, None)"

definition file_request :: "string \<Rightarrow> string \<Rightarrow> string \<Rightarrow> gh_request" where
  "file_request repo path branch = (''GET'', ''/repos/'' @ repo @ ''/contents/'' @ path @ ''?ref='' @ branch, None)"

definition succeeded :: "pydict \<Rightarrow> bool" where
  "succeeded r = truthy (pget r ''success'')"

record codecs =
  cd_encode :: "string \<Rightarrow> string"
  cd_decode :: "pyval \<Rightarrow> string res"

definition gh_get_file :: "'w github \<Rightarrow> codecs \<Rightarrow> string \<Rightarrow> string \<Rightarrow> string \<Rightarrow> ('w hub, (string \<times> pyval) option) op" where
  "gh_get_file gh cd repo path branch =
     st_bind (hub_request gh (file_request repo path branch)) (\<lambda>r.
       if \<not> succeeded r then st_return None
       else st_bind (st_lift (as_dict (por (pget r ''data'') (PDict [])))) (\<lambda>d.
         if pget d ''encoding'' \<noteq> PStr ''base64'' \<or> \<not> has_key d ''content'' then st_return None
         else st_bind (st_lift (cd_decode cd (pget d ''content''))) (\<lambda>text.
           st_return (Some (text, pget_or d ''sha'' (PStr []))))))"

definition slug_char :: "char \<Rightarrow> bool" where
  "slug_char c = (is_digit c \<or> c \<in> set ''abcdefghijklmnopqrstuvwxyz-'')"

fun slug_runs :: "bool \<Rightarrow> string \<Rightarrow> string" where
  "slug_runs inside [] = []"
| "slug_runs inside (c # s) =
     (if slug_char c then c # slug_runs False s else if inside then slug_runs True s else CHR ''-'' # slug_runs True s)"

definition slug :: "string \<Rightarrow> string" where
  "slug s = rstrip_by (\<lambda>c. c = CHR ''-'') (lstrip_by (\<lambda>c. c = CHR ''-'') (slug_runs False (str_lower s)))"

definition pr_branch :: "string \<Rightarrow> string" where
  "pr_branch dedupe_key = ''cfop/'' @ slug (''remediate-'' @ dedupe_key)"

definition pr_status :: "string \<Rightarrow> string \<Rightarrow> pydict" where
  "pr_status st detail = [(''status'', PStr st), (''detail'', PStr detail)]"

definition step_failed :: "string \<Rightarrow> pydict \<Rightarrow> pydict" where
  "step_failed what r = pr_status ''error'' (what @ '' failed ('' @ py_str (pget r ''status'') @ '')'')"

text \<open>The three writes, each only if the one before succeeded.\<close>

definition branch_request :: "string \<Rightarrow> string \<Rightarrow> pyval \<Rightarrow> gh_request" where
  "branch_request repo branch sha = (''POST'', ''/repos/'' @ repo @ ''/git/refs'',
     Some [(''ref'', PStr (''refs/heads/'' @ branch)), (''sha'', sha)])"

definition commit_request :: "codecs \<Rightarrow> string \<Rightarrow> string \<Rightarrow> string \<Rightarrow> string \<Rightarrow> string \<Rightarrow> pyval \<Rightarrow> gh_request" where
  "commit_request cd repo branch path title text sha = (''PUT'', ''/repos/'' @ repo @ ''/contents/'' @ path,
     Some [(''message'', PStr title), (''content'', PStr (cd_encode cd text)), (''branch'', PStr branch), (''sha'', sha)])"

definition pull_request :: "string \<Rightarrow> string \<Rightarrow> string \<Rightarrow> string \<Rightarrow> string \<Rightarrow> gh_request" where
  "pull_request repo branch base title body = (''POST'', ''/repos/'' @ repo @ ''/pulls'',
     Some [(''title'', PStr title), (''body'', PStr body), (''head'', PStr branch), (''base'', PStr base)])"

definition write_pr ::
  "'w github \<Rightarrow> codecs \<Rightarrow> string \<Rightarrow> string \<Rightarrow> string \<Rightarrow> string \<Rightarrow> string \<Rightarrow> string \<Rightarrow> string \<Rightarrow> pyval \<Rightarrow> pyval \<Rightarrow> ('w hub, pydict) op" where
  "write_pr gh cd repo base branch path title body patched file_sha head_sha =
     st_bind (hub_request gh (branch_request repo branch head_sha)) (\<lambda>cr.
       if \<not> succeeded cr then st_return (step_failed ''branch create'' cr)
       else st_bind (hub_request gh (commit_request cd repo branch path title patched file_sha)) (\<lambda>commit.
         if \<not> succeeded commit then st_return (step_failed ''commit'' commit)
         else st_bind (hub_request gh (pull_request repo branch base title body)) (\<lambda>pr.
           if \<not> succeeded pr then st_return (step_failed ''PR create'' pr)
           else st_bind (st_lift (as_dict (por (pget pr ''data'') (PDict [])))) (\<lambda>d.
             st_return [(''status'', PStr ''opened''), (''pr_number'', pget d ''number''), (''html_url'', pget d ''html_url''),
               (''branch'', PStr branch), (''path'', PStr path)]))))"

definition open_pr_from_diff ::
  "'w github \<Rightarrow> codecs \<Rightarrow> string \<Rightarrow> string \<Rightarrow> string \<Rightarrow> string \<Rightarrow> string \<Rightarrow> string \<Rightarrow> ('w hub, pydict) op" where
  "open_pr_from_diff gh cd repo base diff_text title body dedupe_key = (case parse_unified_diff diff_text of
     None \<Rightarrow> st_return (pr_status ''declined'' ''not a clean single-file unified diff'')
   | Some (path, hunks) \<Rightarrow>
       if is_secret_path path then
         st_return (pr_status ''refused'' (''won'' @ CHR 0x27 # ''t patch secret-bearing file: '' @ path))
       else
         (let branch = pr_branch dedupe_key
          in st_bind (hub_request gh (ref_request repo branch)) (\<lambda>existing.
             if succeeded existing then
               st_return (pr_status ''skipped'' ''remediation branch already exists'' @ [(''branch'', PStr branch)])
             else st_bind (gh_get_file gh cd repo path base) (\<lambda>got. case got of
               None \<Rightarrow> st_return (pr_status ''declined'' (''could not fetch '' @ path @ '' at '' @ base))
             | Some (text, file_sha) \<Rightarrow>
                 (case apply_unified_diff text hunks of
                    None \<Rightarrow> st_return (pr_status ''declined'' ''diff does not apply cleanly to the current file'')
                  | Some patched \<Rightarrow>
                      if patched = [] \<or> patched = text then
                        st_return (pr_status ''declined'' ''diff does not apply cleanly to the current file'')
                      else st_bind (hub_request gh (ref_request repo base)) (\<lambda>head.
                        st_bind (st_lift (if succeeded head then dig head [''data'', ''object'', ''sha''] else Inr PNone)) (\<lambda>head_sha.
                        if \<not> truthy head_sha then st_return (pr_status ''error'' (''could not read base ref '' @ base))
                        else write_pr gh cd repo base branch path title body patched file_sha head_sha)))))))"

lemma hub_request_eq:
  "hub_request gh rq s = (fst (gh rq (hb_world s)), s\<lparr>hb_world := snd (gh rq (hb_world s)), hb_sent := hb_sent s @ [rq]\<rparr>)"
  by (simp add: hub_request_def split: prod.splits)

text \<open>What an operation sent, however it ended.\<close>

definition sends :: "gh_request list \<Rightarrow> 'w hub \<Rightarrow> 'w hub \<Rightarrow> bool" where
  "sends rqs s s' = (hb_sent s' = hb_sent s @ rqs)"

lemma sends_bind:
  assumes "\<And>r s'. m s = (r, s') \<Longrightarrow> sends a s s'"
    and "\<And>x s'. m s = (Inr x, s') \<Longrightarrow> \<exists>b. B b \<and> sends b s' (snd (f x s'))" and "B []"
  shows "\<exists>b. B b \<and> sends (a @ b) s (snd (st_bind m f s))"
proof (cases "m s")
  case (Pair r s')
  show ?thesis
  proof (cases r)
    case (Inl e)
    then show ?thesis using assms(1) [OF Pair] assms(3) Pair by (intro exI [of _ "[]"]) (simp add: st_bind_def)
  next
    case (Inr x)
    then obtain b where "B b" "sends b s' (snd (f x s'))" using assms(2) Pair by blast
    then show ?thesis using assms(1) [OF Pair] Pair Inr by (intro exI [of _ b]) (simp add: st_bind_def sends_def)
  qed
qed

lemma sends_request: "hub_request gh rq s = (r, s') \<Longrightarrow> sends [rq] s s'"
  by (auto simp: hub_request_eq sends_def)

lemma write_pr_sends:
  "\<exists>k \<le> 3. sends (take k [branch_request repo branch head_sha, commit_request cd repo branch path title patched file_sha,
        pull_request repo branch base title body]) s
      (snd (write_pr gh cd repo base branch path title body patched file_sha head_sha s)) \<and>
    (\<forall>res. fst (write_pr gh cd repo base branch path title body patched file_sha head_sha s) = Inr res \<longrightarrow>
       pget res ''status'' = PStr ''opened'' \<longrightarrow> k = 3)"
proof -
  let ?b = "branch_request repo branch head_sha" and ?c = "commit_request cd repo branch path title patched file_sha"
    and ?p = "pull_request repo branch base title body"
  obtain r1 s1 where 1: "hub_request gh ?b s = (r1, s1)" by fastforce
  obtain r2 s2 where 2: "hub_request gh ?c s1 = (r2, s2)" by fastforce
  obtain r3 s3 where 3: "hub_request gh ?p s2 = (r3, s3)" by fastforce
  note sent = sends_request [OF 1] sends_request [OF 2] sends_request [OF 3]
  consider (a) "\<nexists>x. r1 = Inr x \<and> succeeded x" | (b) x where "r1 = Inr x" "succeeded x" "\<nexists>y. r2 = Inr y \<and> succeeded y"
    | (c) x y where "r1 = Inr x" "succeeded x" "r2 = Inr y" "succeeded y" by blast
  then show ?thesis
  proof cases
    case a
    then show ?thesis using 1 sent by (intro exI [of _ 1])
      (cases r1; auto simp: write_pr_def st_defs step_failed_def pr_status_def)
  next
    case b
    then show ?thesis using 1 2 sent by (intro exI [of _ 2])
      (cases r2; auto simp: write_pr_def st_defs step_failed_def pr_status_def sends_def)
  next
    case c
    then show ?thesis using 1 2 3 sent by (intro exI [of _ 3])
      (cases r3; auto simp: write_pr_def st_defs sends_def split: prod.splits sum.splits)
  qed
qed

lemma gh_get_file_sends:
  "gh_get_file gh cd repo path branch s = (r, s') \<Longrightarrow>
     sends [file_request repo path branch] s s'"
  by (auto simp: gh_get_file_def hub_request_eq sends_def st_defs split: sum.splits if_splits prod.splits)

text \<open>The requests that may change the repository, and what must hold for any of them to be sent.\<close>

definition guarded_writes ::
  "'w github \<Rightarrow> codecs \<Rightarrow> string \<Rightarrow> string \<Rightarrow> string \<Rightarrow> string \<Rightarrow> string \<Rightarrow> string \<Rightarrow> 'w hub \<Rightarrow> gh_request list \<Rightarrow> gh_request list \<Rightarrow> bool" where
  "guarded_writes gh cd repo base diff_text title body key s reads writes =
     (\<exists>path hunks content text patched file_sha head_sha k r0.
        parse_unified_diff diff_text = Some (path, hunks) \<and> \<not> is_secret_path path \<and>
        cd_decode cd content = Inr text \<and> apply_unified_diff text hunks = Some patched \<and> patched \<noteq> text \<and>
        hd reads = ref_request repo (pr_branch key) \<and>
        fst (gh (hd reads) (hb_world s)) = Inr r0 \<and> \<not> succeeded r0 \<and>
        writes = take k [branch_request repo (pr_branch key) head_sha,
          commit_request cd repo (pr_branch key) path title patched file_sha, pull_request repo (pr_branch key) base title body])"

definition pr_trace ::
  "'w github \<Rightarrow> codecs \<Rightarrow> string \<Rightarrow> string \<Rightarrow> string \<Rightarrow> string \<Rightarrow> string \<Rightarrow> string \<Rightarrow> 'w hub \<Rightarrow> pydict res \<times> 'w hub \<Rightarrow> bool" where
  "pr_trace gh cd repo base diff_text title body key s out =
     (\<exists>reads writes. hb_sent (snd out) = hb_sent s @ reads @ writes \<and> (\<forall>q \<in> set reads. fst q = ''GET'') \<and>
        (writes \<noteq> [] \<longrightarrow> guarded_writes gh cd repo base diff_text title body key s reads writes) \<and>
        (\<forall>res. fst out = Inr res \<longrightarrow> pget res ''status'' = PStr ''opened'' \<longrightarrow> length writes = 3))"

lemma pr_trace_reads:
  assumes "hb_sent s' = hb_sent s @ reads" "list_all (\<lambda>q. fst q = ''GET'') reads"
    and "\<And>res. r = Inr res \<Longrightarrow> pget res ''status'' \<noteq> PStr ''opened''"
  shows "pr_trace gh cd repo base diff_text title body key s (r, s')"
  unfolding pr_trace_def using assms by (intro exI [of _ reads] exI [of _ "[]"]) (auto simp: list_all_iff)

lemma get_requests [simp]: "fst (ref_request repo branch) = ''GET''" "fst (file_request repo path branch) = ''GET''"
  by (simp_all add: ref_request_def file_request_def)

lemma status_fields: "pget (pr_status st detail @ d) ''status'' = PStr st" "pget (pr_status st detail) ''status'' = PStr st"
  by (simp_all add: pr_status_def)

lemma pr_trace_write:
  assumes "hb_sent s3 = hb_sent s @ reads" "list_all (\<lambda>q. fst q = ''GET'') reads"
    and "parse_unified_diff diff_text = Some (path, hunks)" "\<not> is_secret_path path"
    and "cd_decode cd content = Inr text" "apply_unified_diff text hunks = Some patched" "patched \<noteq> text"
    and "hd reads = ref_request repo (pr_branch key)"
    and "fst (gh (hd reads) (hb_world s)) = Inr r0" "\<not> succeeded r0"
  shows "pr_trace gh cd repo base diff_text title body key s
    (write_pr gh cd repo base (pr_branch key) path title body patched file_sha head_sha s3)"
proof -
  let ?ws = "[branch_request repo (pr_branch key) head_sha, commit_request cd repo (pr_branch key) path title patched file_sha,
        pull_request repo (pr_branch key) base title body]"
  obtain k where k: "k \<le> 3" "sends (take k ?ws) s3 (snd (write_pr gh cd repo base (pr_branch key) path title body patched file_sha head_sha s3))"
    "\<forall>res. fst (write_pr gh cd repo base (pr_branch key) path title body patched file_sha head_sha s3) = Inr res \<longrightarrow>
       pget res ''status'' = PStr ''opened'' \<longrightarrow> k = 3"
    using write_pr_sends [of repo "pr_branch key" head_sha cd path title patched file_sha base body s3 gh] by blast
  have "guarded_writes gh cd repo base diff_text title body key s reads (take k ?ws)"
    unfolding guarded_writes_def using assms(3-10) by blast
  then show ?thesis unfolding pr_trace_def
    by (intro exI [of _ reads] exI [of _ "take k ?ws"]) (use assms(1,2) k in \<open>auto simp: sends_def list_all_iff\<close>)
qed


end
