(* ===== verification/Executor.thy ===== *)
theory Executor
  imports Node_Gate Patch
begin

text \<open>
  The remediation job, \<open>executor/entrypoint.py\<close> with \<open>parse_command_plan\<close> of
  \<open>executor/nodeaction.py\<close>: one work order, routed by its class to the gated command plan, to the
  command a console admin confirmed, or to the pull request of a generated diff. The language
  model (prompt included), SSH, GitHub, the close call of the change record and the JSON reader are
  arguments.
\<close>

section \<open>The work order\<close>

definition truthy_str :: "pyval \<Rightarrow> string" where
  "truthy_str v = str_strip (py_str (por v (PStr [])))"

definition is_console_confirmed :: "pydict \<Rightarrow> bool" where
  "is_console_confirmed wo =
     (pget wo ''origin'' = PStr ''console-chat-confirm'' \<and>
      (case pget wo ''change_record_approval'' of
         PDict approval \<Rightarrow> pget approval ''state'' = PStr ''console-confirmed'' \<and> truthy_str (pget approval ''identity'') \<noteq> []
       | _ \<Rightarrow> False) \<and>
      (case pget wo ''approved_plan'' of PDict plan \<Rightarrow> truthy (pget plan ''commands'') | _ \<Rightarrow> False))"

definition load_work_order :: "(string \<Rightarrow> pyval res) \<Rightarrow> env \<Rightarrow> pydict res" where
  "load_work_order loads e =
     (let raw = str_strip (env_get e ''CFOP_REMEDIATION_JSON'')
      in if raw = [] then value_error ''CFOP_REMEDIATION_JSON is empty''
         else bind_res (loads raw) (\<lambda>v. case v of
             PDict d \<Rightarrow> if has_key d ''id'' then Inr d else value_error (''work order must be an object with an '' @ repr_str ''id'')
           | _ \<Rightarrow> value_error (''work order must be an object with an '' @ repr_str ''id'')))"

definition key_error :: "string \<Rightarrow> 'a res" where
  "key_error k = Inl (PyExn ''KeyError'' (repr_str k))"

definition completion :: "pydict \<Rightarrow> string \<Rightarrow> pyval \<Rightarrow> string \<Rightarrow> pydict \<Rightarrow> pydict res" where
  "completion wo status pr_url detail result = (case map_of wo ''id'' of
     None \<Rightarrow> key_error ''id''
   | Some i \<Rightarrow> Inr [(''remediation_id'', i), (''status'', PStr status), (''pr_url'', pr_url),
       (''detail'', PStr detail), (''result'', PDict result)])"

text \<open>\<open>work_order.get("payload") or {}\<close> with \<open>target\<close> below it.\<close>

definition order_payload :: "pydict \<Rightarrow> pydict res" where
  "order_payload wo = as_dict (por (pget wo ''payload'') (PDict []))"

definition order_target :: "pydict \<Rightarrow> pydict res" where
  "order_target wo = bind_res (order_payload wo) (\<lambda>p. as_dict (por (pget p ''target'') (PDict [])))"

section \<open>The plan of the model\<close>

text \<open>
  The fenced JSON block of a reply: three backquotes, \<open>json\<close> or nothing, white space, an opening
  brace, and up to the first closing brace that white space and three backquotes follow.
\<close>

definition fence :: string where
  "fence = replicate 3 CHR 0x60"

definition fence_follows :: "string \<Rightarrow> bool" where
  "fence_follows s = starts_with fence (dropWhile py_space s)"

fun upto_closing :: "string \<Rightarrow> string option" where
  "upto_closing [] = None"
| "upto_closing (c # s) = (if c = CHR ''}'' \<and> fence_follows s then Some [c] else map_option ((#) c) (upto_closing s))"

definition fenced_at :: "string \<Rightarrow> string option" where
  "fenced_at s = (if \<not> starts_with fence s then None
     else let r = drop 3 s; r = dropWhile py_space (if starts_with ''json'' r then drop 4 r else r)
       in if starts_with ''{'' r then map_option ((#) CHR ''{'') (upto_closing (tl r)) else None)"

fun fenced_json :: "string \<Rightarrow> string option" where
  "fenced_json [] = None"
| "fenced_json (c # s) = (case fenced_at (c # s) of Some b \<Rightarrow> Some b | None \<Rightarrow> fenced_json s)"

text \<open>From the first opening to the last closing brace.\<close>

definition bare_json :: "string \<Rightarrow> string option" where
  "bare_json s = (let r = dropWhile (\<lambda>c. c \<noteq> CHR ''{'') s; b = rev (dropWhile (\<lambda>c. c \<noteq> CHR ''}'') (rev r))
     in if r = [] \<or> b = [] then None else Some b)"

fun all_texts :: "pyval list \<Rightarrow> string list option" where
  "all_texts [] = Some []"
| "all_texts (v # vs) = (case v of PStr s \<Rightarrow> map_option ((#) s) (all_texts vs) | _ \<Rightarrow> None)"

definition parse_command_plan :: "(string \<Rightarrow> pyval res) \<Rightarrow> string \<Rightarrow> (pydict \<times> string list) option res" where
  "parse_command_plan loads reply =
     (case (case fenced_json reply of Some b \<Rightarrow> Some b | None \<Rightarrow> bare_json reply) of
        None \<Rightarrow> Inr None
      | Some blob \<Rightarrow> (case loads blob of
          Inl e \<Rightarrow> if exn_class e \<in> {''ValueError'', ''JSONDecodeError''} then Inr None else Inl e
        | Inr v \<Rightarrow> (case v of
            PDict plan \<Rightarrow> (case pget plan ''commands'' of
                PList cs \<Rightarrow> Inr (map_option (Pair plan) (all_texts cs))
              | _ \<Rightarrow> Inr None)
          | _ \<Rightarrow> Inr None)))"

section \<open>The surroundings of a job\<close>

text \<open>
  The language model: its completion of the command prompt of a work order, of the selection
  prompt and of the diff prompt, and its description.
\<close>

record 'w job_io =
  io_ssh :: "'w ssh"
  io_prepare :: "string \<Rightarrow> ('w shell, unit) op"
  io_plan_reply :: "pydict \<Rightarrow> allow_list \<Rightarrow> ('w shell, string) op"
  io_llm_info :: "'w \<Rightarrow> pyval"
  io_close :: "string \<Rightarrow> string \<Rightarrow> pydict \<Rightarrow> ('w shell, string option) op"
  io_loads :: "string \<Rightarrow> pyval res"

definition result_dict :: "ssh_result \<Rightarrow> pyval" where
  "result_dict r = PDict [(''command'', PStr (sr_command r)), (''returncode'', PInt (sr_rc r)),
     (''stdout'', PStr (sr_out r)), (''stderr'', PStr (sr_err r))]"

definition refusal_dict :: "refusal \<Rightarrow> pyval" where
  "refusal_dict r = PDict [(''command'', PStr (take 500 (rf_command r))), (''binary'', PStr (rf_binary r)),
     (''kind'', PStr (rf_kind r)), (''reason'', PStr (rf_reason r))]"

definition close_change_record :: "'w job_io \<Rightarrow> env \<Rightarrow> pydict \<Rightarrow> pydict \<Rightarrow> ('w shell, string option) op" where
  "close_change_record io e wo outcome =
     (let base = str_strip (env_get e ''CFOP_EXEC_CHANGE_URL''); ref = truthy_str (pget wo ''change_record_ref'')
      in if base = [] \<or> ref = [] then st_return None else io_close io base ref outcome)"

definition close_note :: "string option \<Rightarrow> pydict" where
  "close_note err = (case err of Some (c # s) \<Rightarrow> [(''change_record_close_error'', PStr (c # s))] | _ \<Rightarrow> [])"

definition first_line :: "string \<Rightarrow> string" where
  "first_line s = str_strip (case split_lines s of [] \<Rightarrow> [] | l # _ \<Rightarrow> l)"

definition query_answer :: "ssh_result \<Rightarrow> string" where
  "query_answer r =
     (let out = first_line (str_strip (sr_out r)); out = (if length out > 80 then take 77 out @ ''...'' else out);
          answer = (if out = [] then ''rc='' @ int_str (sr_rc r) else out); command = str_strip (sr_command r)
      in if command = [] then answer else answer @ '' ('' @ command @ '')'')"

definition checked_detail :: "ssh_result list \<Rightarrow> nat \<Rightarrow> string \<Rightarrow> string" where
  "checked_detail answered n host = ''checked, '' @ str_join ''; '' (map query_answer answered) @
     ''; ran '' @ nat_str n @ '' command(s) on '' @ host"

section \<open>A confirmed command\<close>

definition plan_texts :: "pydict \<Rightarrow> string list res" where
  "plan_texts plan = bind_res (py_iter (por (pget plan ''commands'') (PList []))) (\<lambda>cs. Inr (map py_str cs))"

definition change_record_item :: "pydict \<Rightarrow> pydict" where
  "change_record_item wo = (if truthy (pget wo ''change_record_ref'')
     then [(''change_record'', PDict [(''ref'', pget wo ''change_record_ref''), (''url'', pget wo ''change_record_url'')])] else [])"

text \<open>What became of the run: status, detail and results.\<close>

definition confirmed_outcome :: "string \<Rightarrow> string \<Rightarrow> ssh_result list \<Rightarrow> string \<times> string" where
  "confirmed_outcome host who results = (case filter (\<lambda>r. sr_rc r \<noteq> 0) results of
     [] \<Rightarrow> (''resolved'', ''ran '' @ nat_str (length results) @ '' command(s) on '' @ host @ '', confirmed by '' @ who)
   | failed \<Rightarrow> (''failed'', ''command exited '' @ int_str (sr_rc (last failed)) @ '': '' @ take 200 (sr_err (last failed))))"

definition run_confirmed_command :: "'w job_io \<Rightarrow> env \<Rightarrow> pydict \<Rightarrow> ('w shell, pydict) op" where
  "run_confirmed_command io e wo =
     st_bind (st_lift (as_dict (por (pget wo ''approved_plan'') (PDict [])))) (\<lambda>plan.
     st_bind (st_lift (as_dict (por (pget wo ''change_record_approval'') (PDict [])))) (\<lambda>approval.
     let who = truthy_str (pget approval ''identity'') in
     st_bind (st_lift (plan_texts plan)) (\<lambda>commands.
     st_bind (st_lift (order_target wo)) (\<lambda>target.
     let host = truthy_str (pget plan ''host''); host = (if host = [] then truthy_str (pget target ''host'') else host);
         appr = PDict [(''identity'', PStr who), (''timestamp'', pget approval ''timestamp''), (''state'', pget approval ''state'')];
         result = (\<lambda>executed. [(''host'', PStr host), (''commands'', PList (map PStr commands)), (''executed'', PList executed),
           (''explanation'', PStr (py_str (por (pget plan ''explanation'') (PStr [])))),
           (''origin'', PStr ''console-chat-confirm''), (''approval'', appr)] @ change_record_item wo)
     in if host = [] then st_lift (completion wo ''failed'' PNone ''no target host on the confirmed command'' (result []))
        else
          (let address = truthy_str (pget plan ''address''); connect = (if address = [] then host else address);
               note = (if connect \<noteq> host then [(''address'', PStr connect)] else [])
           in st_bind (st_try (st_bind (run_ssh_plan (io_ssh io) (io_prepare io) connect commands e)
                  (\<lambda>rs. st_return (rs, confirmed_outcome host who rs)))
                (\<lambda>x. st_return ([], (''failed'', (if exn_class x = ''SSHError'' then ''could not reach '' @ host
                    else ''command did not complete on '' @ host) @ '': '' @ exn_text x)))) (\<lambda>(rs, status, detail).
              let executed = map result_dict rs;
                  outcome = [(''host'', PStr host), (''commands'', PList (map PStr commands)), (''executed'', PList executed),
                    (''approval'', appr), (''change_record'', pget (change_record_item wo) ''change_record''),
                    (''status'', PStr status), (''detail'', PStr detail)]
              in st_bind (close_change_record io e wo outcome) (\<lambda>err.
                 st_lift (completion wo status PNone detail (result executed @ note @ close_note err)))))))))"

section \<open>A node action\<close>

definition node_action_enabled :: "env \<Rightarrow> bool" where
  "node_action_enabled e = (str_lower (str_strip (env_get e ''CFOP_NODE_ACTION_ENABLED'')) \<in> {''1'', ''true'', ''yes''})"

text \<open>The approved plan of the work order, or else the plan of the model; \<open>Inl\<close> ends the job.\<close>

definition approved_plan :: "pydict \<Rightarrow> (pydict \<times> string list) option res" where
  "approved_plan wo = (case pget wo ''approved_plan'' of
     PDict approved \<Rightarrow>
       if truthy (pget approved ''commands'') then
         bind_res (plan_texts approved) (\<lambda>cs. Inr (Some
           ([(''host'', PStr (truthy_str (pget approved ''host''))), (''commands'', PList (map PStr cs)),
             (''explanation'', PStr (py_str (por (pget approved ''explanation'') (PStr []))))], cs)))
       else Inr None
   | _ \<Rightarrow> Inr None)"

definition choose_plan ::
  "'w job_io \<Rightarrow> allow_list \<Rightarrow> pydict \<Rightarrow> ('w shell, pydict + (pydict \<times> string list \<times> pyval)) op" where
  "choose_plan io allow wo =
     st_bind (st_lift (approved_plan wo)) (\<lambda>approved. case approved of
       Some (plan, cs) \<Rightarrow> st_return (Inr (plan, cs, PNone))
     | None \<Rightarrow>
         st_bind (io_plan_reply io wo allow) (\<lambda>reply.
         st_bind (st_lift (parse_command_plan (io_loads io) reply)) (\<lambda>parsed.
         st_bind (st_get (\<lambda>s. io_llm_info io (sh_world s))) (\<lambda>info. case parsed of
           None \<Rightarrow> st_bind (st_lift (completion wo ''needs-human'' PNone ''model produced no parseable command plan'' [(''llm'', info)]))
               (\<lambda>c. st_return (Inl c))
         | Some (plan, cs) \<Rightarrow> st_return (Inr (plan, cs, info))))))"

definition blocked_result :: "string list \<Rightarrow> allow_list \<Rightarrow> pydict" where
  "blocked_result commands allow =
     [(''proposed_commands'', PList (map (\<lambda>c. PStr (take 500 c)) (take 20 commands))),
      (''blocked_commands'', PList (map refusal_dict (take 20 (plan_refusals commands allow))))]"

definition approval_item :: "pydict \<Rightarrow> pydict" where
  "approval_item wo = (case pget wo ''change_record_approval'' of
     PDict a \<Rightarrow> if a = [] then [] else
       [(''approval'', PDict [(''identity'', pget a ''identity''), (''timestamp'', pget a ''timestamp''), (''state'', pget a ''state'')])]
   | _ \<Rightarrow> [])"

definition action_outcome :: "string \<Rightarrow> ssh_result list \<Rightarrow> string \<times> string" where
  "action_outcome host results =
     (let bad = filter (\<lambda>r. sr_rc r \<noteq> 0) results; failed = filter (\<lambda>r. \<not> command_is_query (sr_command r)) bad;
          answered = filter (\<lambda>r. command_is_query (sr_command r)) bad
      in if failed \<noteq> [] then (''needs-human'', ''command exited '' @ int_str (sr_rc (last failed)) @ '': '' @ take 200 (sr_err (last failed)))
         else if answered \<noteq> [] then (''resolved'', checked_detail answered (length results) host)
         else (''resolved'', ''ran '' @ nat_str (length results) @ '' command(s) on '' @ host))"

definition run_plan :: "'w job_io \<Rightarrow> env \<Rightarrow> pydict \<Rightarrow> allow_list \<Rightarrow> pydict \<Rightarrow> string list \<Rightarrow> pyval \<Rightarrow> ('w shell, pydict) op" where
  "run_plan io e wo allow plan commands planned_by =
     (case validate_plan commands allow of
        (False, reason) \<Rightarrow> st_lift (completion wo ''needs-human'' PNone (''command plan failed safety gate: '' @ reason)
            (blocked_result commands allow))
      | (True, _) \<Rightarrow>
          st_bind (st_lift (order_target wo)) (\<lambda>target.
          let host = truthy_str (pget plan ''host''); host = (if host = [] then truthy_str (pget target ''host'') else host);
              host = (if host = [] then str_strip (env_get e ''CFOP_NODE_ACTION_HOST'') else host)
          in if host = [] then
               st_lift (completion wo ''needs-human'' PNone ''no target host (plan/target/CFOP_NODE_ACTION_HOST all empty)''
                 [(''proposed_commands'', PList (map PStr commands))])
             else st_bind (run_ssh_plan (io_ssh io) (io_prepare io) host commands e) (\<lambda>results.
               let executed = PList (map result_dict results); (status, detail) = action_outcome host results;
                   base = [(''host'', PStr host), (''commands'', PList (map PStr commands)), (''executed'', executed)];
                   result = base @ [(''explanation'', pget_or plan ''explanation'' (PStr []))] @
                     (if truthy planned_by then [(''llm'', planned_by)] else []) @ approval_item wo @ change_record_item wo;
                   outcome = base @ [(''approval'', pget (approval_item wo) ''approval''),
                     (''change_record'', pget (change_record_item wo) ''change_record'')]
               in st_bind (close_change_record io e wo outcome) (\<lambda>err.
                  st_lift (completion wo status (pget wo ''change_record_url'') detail (result @ close_note err))))))"

definition run_node_action :: "'w job_io \<Rightarrow> env \<Rightarrow> pydict \<Rightarrow> ('w shell, pydict) op" where
  "run_node_action io e wo =
     (if \<not> node_action_enabled e then
        st_lift (completion wo ''needs-human'' PNone ''node-action execution not enabled on this executor'' [])
      else st_bind (st_lift (allowlist_from_env e)) (\<lambda>allow.
        if is_console_confirmed wo then run_confirmed_command io e wo
        else st_bind (choose_plan io allow wo) (\<lambda>choice. case choice of
            Inl c \<Rightarrow> st_return c
          | Inr (plan, commands, planned_by) \<Rightarrow> run_plan io e wo allow plan commands planned_by)))"

section \<open>What may run on a host\<close>

text \<open>
  The surroundings run nothing over SSH themselves: preparing the key directory, the model and the
  change record leave the list of runs as it is.
\<close>

definition quiet :: "('w shell, 'a) op \<Rightarrow> bool" where
  "quiet m = (\<forall>s. sh_ran (snd (m s)) = sh_ran s)"

definition quiet_io :: "'w job_io \<Rightarrow> bool" where
  "quiet_io io = ((\<forall>d. quiet (io_prepare io d)) \<and> (\<forall>wo allow. quiet (io_plan_reply io wo allow)) \<and>
     (\<forall>a b c. quiet (io_close io a b c)))"

text \<open>Each run of \<open>m\<close> adds runs that \<open>P\<close> allows.\<close>

definition runs_only :: "(string list list \<Rightarrow> bool) \<Rightarrow> ('w shell, 'a) op \<Rightarrow> bool" where
  "runs_only P m = (\<forall>s. \<exists>xs. sh_ran (snd (m s)) = sh_ran s @ xs \<and> P xs)"

lemma runs_quiet: "quiet m \<Longrightarrow> P [] \<Longrightarrow> runs_only P m"
  by (auto simp: runs_only_def quiet_def)

lemma quiet_simps [simp]:
  "quiet (st_return x)" "quiet (st_lift r)" "quiet (st_raise e)" "quiet (st_get f)"
  by (simp_all add: quiet_def st_defs)

lemma runs_plain: "P [] \<Longrightarrow> runs_only P (st_return x)" "P [] \<Longrightarrow> runs_only P (st_lift r)"
  by (simp_all add: runs_quiet)

lemma runs_bind_result:
  assumes "quiet m" "\<And>x t t'. m t = (Inr x, t') \<Longrightarrow> runs_only P (f x)" "P []"
  shows "runs_only P (st_bind m f)"
  unfolding runs_only_def
proof
  fix s
  show "\<exists>xs. sh_ran (snd (st_bind m f s)) = sh_ran s @ xs \<and> P xs"
  proof (cases "m s")
    case (Pair r t)
    have "sh_ran t = sh_ran s" using Pair assms(1) by (metis quiet_def snd_conv)
    moreover have "\<exists>xs. sh_ran (snd (f x t)) = sh_ran t @ xs \<and> P xs" if "r = Inr x" for x
      using assms(2) [of s x t] Pair that by (simp add: runs_only_def)
    ultimately show ?thesis using Pair assms(3) by (cases r) (simp_all add: st_bind_def)
  qed
qed

lemma runs_bind_quiet:
  assumes "quiet m" "\<And>x. runs_only P (f x)" "P []"
  shows "runs_only P (st_bind m f)"
  using assms runs_bind_result by blast

lemma runs_bind_then_quiet:
  assumes "runs_only P m" "\<And>x. quiet (f x)"
  shows "runs_only P (st_bind m f)"
  unfolding runs_only_def
proof
  fix s
  obtain r t where m: "m s = (r, t)" by fastforce
  obtain xs where "sh_ran t = sh_ran s @ xs" "P xs" using assms(1) m by (metis runs_only_def snd_conv)
  then show "\<exists>xs. sh_ran (snd (st_bind m f s)) = sh_ran s @ xs \<and> P xs"
    using m assms(2) by (cases r) (auto simp: st_bind_def quiet_def)
qed

lemma runs_try_quiet: "runs_only P m \<Longrightarrow> (\<And>e. quiet (h e)) \<Longrightarrow> runs_only P (st_try m h)"
  unfolding runs_only_def
proof
  fix s assume a: "\<forall>s. \<exists>xs. sh_ran (snd (m s)) = sh_ran s @ xs \<and> P xs" "\<And>e. quiet (h e)"
  obtain r t where m: "m s = (r, t)" by fastforce
  obtain xs where "sh_ran t = sh_ran s @ xs" "P xs" using a(1) m by (metis snd_conv)
  then show "\<exists>xs. sh_ran (snd (st_try m h s)) = sh_ran s @ xs \<and> P xs"
    using m a(2) by (cases r) (auto simp: st_try_def quiet_def)
qed

text \<open>An initial segment of the commands, each over SSH to one host as the configured user.\<close>

definition ssh_runs :: "env \<Rightarrow> string list \<Rightarrow> string list list \<Rightarrow> bool" where
  "ssh_runs e commands xs = (xs = [] \<or> (\<exists>host timeout k. str_strip (env_get e ''CFOP_SSH_USER'') \<noteq> [] \<and>
     xs = map (\<lambda>c. ssh_argv host c (str_strip (env_get e ''CFOP_SSH_USER'')) (str_strip (env_get e ''CFOP_SSH_KEY'')) timeout)
            (take k commands)))"

lemma run_ssh_plan_runs:
  assumes "\<And>d. quiet (prepare d)"
  shows "runs_only (ssh_runs e commands) (run_ssh_plan ssh prepare host commands e)"
proof -
  have nil: "ssh_runs e commands []" by (simp add: ssh_runs_def)
  let ?u = "str_strip (env_get e ''CFOP_SSH_USER'')"
  have run: "runs_only (ssh_runs e commands) (run_commands ssh (\<lambda>c. ssh_argv host c ?u key t) host commands)"
    if u: "?u \<noteq> []" and key: "key = str_strip (env_get e ''CFOP_SSH_KEY'')" for key t
    unfolding runs_only_def
  proof
    fix s
    obtain k where "sh_ran (snd (run_commands ssh (\<lambda>c. ssh_argv host c ?u key t) host commands s)) =
        sh_ran s @ map (\<lambda>c. ssh_argv host c ?u key t) (take k commands)"
      using run_commands_prefix by blast
    then show "\<exists>xs. sh_ran (snd (run_commands ssh (\<lambda>c. ssh_argv host c ?u key t) host commands s)) = sh_ran s @ xs \<and> ssh_runs e commands xs"
      unfolding ssh_runs_def using u key by blast
  qed
  show ?thesis
    unfolding run_ssh_plan_def Let_def
    by (intro runs_bind_quiet nil) (use assms run nil in \<open>auto intro!: runs_bind_quiet intro: runs_quiet\<close>)
qed

lemma quiet_bind: "quiet m \<Longrightarrow> (\<And>x. quiet (f x)) \<Longrightarrow> quiet (st_bind m f)"
  unfolding quiet_def st_bind_def by (auto split: prod.splits sum.splits) (metis snd_conv)+

lemma quiet_close:
  assumes "quiet_io io"
  shows "quiet (close_change_record io e wo outcome)"
  using assms by (simp add: close_change_record_def Let_def quiet_io_def)

lemma quiet_choose:
  assumes "quiet_io io"
  shows "quiet (choose_plan io allow wo)"
  unfolding choose_plan_def
  by (intro quiet_bind) (use assms in \<open>auto simp: quiet_io_def split: option.splits intro!: quiet_bind\<close>)

text \<open>The runs a work order may cause under the environment of its job.\<close>

definition licensed :: "env \<Rightarrow> pydict \<Rightarrow> string list list \<Rightarrow> bool" where
  "licensed e wo xs = (xs = [] \<or> (node_action_enabled e \<and> (\<exists>commands allow.
     allowlist_from_env e = Inr allow \<and> ssh_runs e commands xs \<and>
     (if is_console_confirmed wo
      then (\<exists>plan. pget wo ''approved_plan'' = PDict plan \<and> plan_texts plan = Inr commands)
      else validate_plan commands allow = (True, ''ok'') \<and>
           (\<forall>plan cs. approved_plan wo = Inr (Some (plan, cs)) \<longrightarrow> commands = cs)))))"

lemma licensed_Nil [simp]: "licensed e wo []"
  by (simp add: licensed_def)

lemma runs_weaken: "runs_only P m \<Longrightarrow> (\<And>xs. P xs \<Longrightarrow> Q xs) \<Longrightarrow> runs_only Q m"
  unfolding runs_only_def by blast

text \<open>A computed value feeds the rest: only its successful result is run on.\<close>

lemma runs_bind_lift: "(\<And>x. r = Inr x \<Longrightarrow> runs_only P (f x)) \<Longrightarrow> P [] \<Longrightarrow> runs_only P (st_bind (st_lift r) f)"
  by (rule runs_bind_result) (auto simp: st_lift_def)

lemma confirmed_licensed:
  assumes io: "quiet_io io" and en: "node_action_enabled e" "allowlist_from_env e = Inr allow" "is_console_confirmed wo"
  shows "runs_only (licensed e wo) (run_confirmed_command io e wo)"
proof -
  obtain plan where plan: "pget wo ''approved_plan'' = PDict plan" "truthy (pget plan ''commands'')"
    using en(3) by (auto simp: is_console_confirmed_def split: pyval.splits)
  then have ne: "plan \<noteq> []" by auto
  then have p: "as_dict (por (pget wo ''approved_plan'') (PDict [])) = Inr plan" using plan by (simp add: por_def)
  have run: "runs_only (licensed e wo) (run_ssh_plan ssh (io_prepare io) host commands e)"
    if "plan_texts plan = Inr commands" for ssh :: "'a ssh" and host commands
    by (rule runs_weaken [OF run_ssh_plan_runs]) (use io en plan that in \<open>auto simp: quiet_io_def licensed_def\<close>)
  show ?thesis
    unfolding run_confirmed_command_def p Let_def
    by (rule runs_bind_lift)+
      (auto simp: io p split: prod.splits intro!: runs_quiet runs_bind_lift runs_bind_then_quiet runs_try_quiet run quiet_bind quiet_close)
qed

lemma plan_licensed:
  assumes io: "quiet_io io" and en: "node_action_enabled e" "allowlist_from_env e = Inr allow" "\<not> is_console_confirmed wo"
    and cs: "\<And>plan cs. approved_plan wo = Inr (Some (plan, cs)) \<Longrightarrow> commands = cs"
  shows "runs_only (licensed e wo) (run_plan io e wo allow plan commands by)"
proof (cases "validate_plan commands allow")
  case (Pair ok reason)
  show ?thesis
  proof (cases ok)
    case True
    then have v: "validate_plan commands allow = (True, ''ok'')" using Pair by (auto simp: validate_plan_def split: list.splits)
    have run: "runs_only (licensed e wo) (run_ssh_plan ssh (io_prepare io) host commands e)" for ssh :: "'a ssh" and host
      by (rule runs_weaken [OF run_ssh_plan_runs]) (use io en v cs in \<open>auto simp: quiet_io_def licensed_def\<close>)
    show ?thesis
      unfolding run_plan_def v Let_def prod.case bool.case
      by (rule runs_bind_lift)
        (auto simp: io split: prod.splits intro!: runs_plain runs_bind_then_quiet run quiet_bind quiet_close)
  next
    case False
    then show ?thesis using Pair by (simp add: run_plan_def runs_quiet)
  qed
qed

lemma chosen_plan:
  assumes "approved_plan wo = Inr (Some (plan, cs))" "choose_plan io allow wo s = (Inr (Inr (plan', commands, by)), t)"
  shows "commands = cs"
  using assms by (simp add: choose_plan_def st_defs)

lemma node_action_licensed:
  assumes "quiet_io io"
  shows "runs_only (licensed e wo) (run_node_action io e wo)"
proof (cases "node_action_enabled e")
  case True
  have plan: "runs_only (licensed e wo) (st_bind (choose_plan io allow wo) (\<lambda>choice. case choice of
      Inl c \<Rightarrow> st_return c | Inr (plan, commands, planned_by) \<Rightarrow> run_plan io e wo allow plan commands planned_by))"
    if "allowlist_from_env e = Inr allow" "\<not> is_console_confirmed wo" for allow
    by (rule runs_bind_result [OF quiet_choose [OF assms]])
      (use that assms True chosen_plan in \<open>auto split: sum.splits prod.splits intro!: runs_plain plan_licensed\<close>)
  show ?thesis
    using True assms plan confirmed_licensed [OF assms True]
    by (auto simp: run_node_action_def intro!: runs_bind_lift)
next
  case False
  then show ?thesis by (simp add: run_node_action_def runs_quiet)
qed

text \<open>
  C14: a job runs nothing on a host but what its work order licenses. Whatever the model, the host
  and the change record answer, a run of \<open>run_node_action\<close> adds nothing to the runs unless the
  executor has the feature enabled; then it adds an initial segment of one plan, in order, over SSH
  as the configured user. That plan is the approved one of a console-confirmed order, or else a
  plan the gate of the job's own allowlist passed, and then the approved one where there is one.
\<close>

theorem node_action_safe:
  assumes "quiet_io io"
  shows "\<exists>xs. sh_ran (snd (run_node_action io e wo s)) = sh_ran s @ xs \<and> licensed e wo xs"
  using node_action_licensed [OF assms] by (simp add: runs_only_def)

definition sample_io :: "unit job_io" where
  "sample_io = \<lparr>io_ssh = sample_ssh, io_prepare = (\<lambda>d. st_return ()), io_plan_reply = (\<lambda>wo allow. st_return ''{}''),
     io_llm_info = (\<lambda>w. PNone), io_close = (\<lambda>a b c. st_return None), io_loads = (\<lambda>s. Inr (PDict []))\<rparr>"

definition sample_env :: env where
  "sample_env = [(''CFOP_NODE_ACTION_ENABLED'', ''true''), (''CFOP_SSH_USER'', ''ops''),
     (''CFOP_NODE_ACTION_ALLOW_BINARIES'', ''ls'')]"

definition sample_order :: pydict where
  "sample_order = [(''id'', PInt 7), (''approved_plan'', PDict [(''host'', PStr ''db1''), (''commands'', PList [PStr ''ls /srv''])])]"

lemma node_action_safe_witness:
  "licensed sample_env sample_order (sh_ran (snd (run_node_action sample_io sample_env sample_order \<lparr>sh_world = (), sh_ran = []\<rparr>)))"
  using node_action_safe [of sample_io sample_env sample_order "\<lparr>sh_world = (), sh_ran = []\<rparr>"]
  by (auto simp: quiet_io_def sample_io_def)

end
