(* ===== verification/Outbox.thy ===== *)
theory Outbox
  imports Py_Base "HOL-Library.Multiset" "HOL-Library.Sublist"
begin

text \<open>
  The durable event log, \<open>event_runtime/state/local_outbox.py\<close>: files of JSON lines in one
  directory, named by a counter and rotated by size, read back in the order of their names, with
  cursors (a file name and an offset) from which a reader goes on. The directory is a map from
  names to bytes. \<open>json.dumps\<close> and \<open>json.loads\<close> are arguments \<open>enc\<close> and \<open>dec\<close>; \<open>None\<close> is a
  \<open>JSONDecodeError\<close>.
\<close>

section \<open>The directory\<close>

record outbox =
  ob_prefix :: string
  ob_max :: nat
  ob_files :: "(string \<times> string) list"
  ob_current :: string
  ob_open :: bool

type_synonym file_cursor = "string \<times> nat"

definition eol :: char where
  "eol = CHR 0x0A"

definition json_suffix :: string where
  "json_suffix = ''.jsonl''"

text \<open>\<open>directory.glob(f"{file_prefix}_*.jsonl")\<close>, sorted.\<close>

definition globbed :: "string \<Rightarrow> string \<Rightarrow> bool" where
  "globbed pfx name = (starts_with (pfx @ ''_'') name \<and> ends_with json_suffix (drop (length pfx + 1) name))"

definition list_files :: "outbox \<Rightarrow> string list" where
  "list_files ob = sort (filter (globbed (ob_prefix ob)) (map fst (ob_files ob)))"

definition contents :: "outbox \<Rightarrow> string \<Rightarrow> string" where
  "contents ob name = (case map_of (ob_files ob) name of None \<Rightarrow> [] | Some b \<Rightarrow> b)"

text \<open>A name that is the prefix, an underscore, six digits and the suffix gives its counter.\<close>

definition counter_of :: "string \<Rightarrow> string \<Rightarrow> nat option" where
  "counter_of pfx name =
     (let r = drop (length pfx + 1) name
      in if pfx \<noteq> [] \<and> starts_with (pfx @ ''_'') name \<and> length r = 12 \<and> drop 6 r = json_suffix \<and> list_all is_digit (take 6 r)
         then Some (digits_val (take 6 r)) else None)"

definition file_name :: "string \<Rightarrow> nat \<Rightarrow> string" where
  "file_name pfx n = pfx @ ''_'' @ (if int n < 10 ^ 6 then pad_nat 6 n else nat_str n) @ json_suffix"

definition last_counter :: "outbox \<Rightarrow> nat" where
  "last_counter ob = fold (\<lambda>name n. case counter_of (ob_prefix ob) name of None \<Rightarrow> n | Some m \<Rightarrow> max n m) (list_files ob) 0"

definition next_path :: "outbox \<Rightarrow> string" where
  "next_path ob = file_name (ob_prefix ob) (last_counter ob + 1)"

section \<open>Writing\<close>

text \<open>The constructor over what the directory holds, \<open>open(path, "a")\<close>, and the handle.\<close>

definition new_outbox :: "string \<Rightarrow> nat \<Rightarrow> (string \<times> string) list \<Rightarrow> outbox" where
  "new_outbox pfx limit files =
     (let ob = \<lparr>ob_prefix = pfx, ob_max = limit, ob_files = files, ob_current = [], ob_open = False\<rparr>
      in ob\<lparr>ob_current := next_path ob\<rparr>)"

definition open_current :: "outbox \<Rightarrow> outbox" where
  "open_current ob = ob\<lparr>ob_files := dsetdefault (ob_current ob) [] (ob_files ob), ob_open := True\<rparr>"

definition ensure_handle :: "outbox \<Rightarrow> outbox" where
  "ensure_handle ob =
     (if ob_open ob then ob
      else if map_of (ob_files ob) (ob_current ob) \<noteq> None \<and> length (contents ob (ob_current ob)) < ob_max ob then open_current ob
      else open_current (ob\<lparr>ob_current := next_path ob\<rparr>))"

definition rotate_file :: "outbox \<Rightarrow> outbox" where
  "rotate_file ob = open_current (ob\<lparr>ob_current := next_path ob\<rparr>)"

definition write_bytes :: "string \<Rightarrow> outbox \<Rightarrow> outbox" where
  "write_bytes b ob = ob\<lparr>ob_files := dset (ob_current ob) (contents ob (ob_current ob) @ b) (ob_files ob)\<rparr>"

definition json_line :: "('e \<Rightarrow> string) \<Rightarrow> 'e \<Rightarrow> string" where
  "json_line enc e = enc e @ [eol]"

fun write_events :: "('e \<Rightarrow> string) \<Rightarrow> 'e list \<Rightarrow> file_cursor option \<Rightarrow> outbox \<Rightarrow> file_cursor option \<times> outbox" where
  "write_events enc [] cur ob = (cur, ob)"
| "write_events enc (e # es) cur ob =
     (let ob' = write_bytes (json_line enc e) ob
      in write_events enc es (Some (ob_current ob', length (contents ob' (ob_current ob')))) ob')"

definition append_locked :: "('e \<Rightarrow> string) \<Rightarrow> 'e list \<Rightarrow> outbox \<Rightarrow> file_cursor option \<times> outbox" where
  "append_locked enc es ob =
     (let (cur, ob') = write_events enc es None ob
      in (cur, if length (contents ob' (ob_current ob')) \<ge> ob_max ob' then rotate_file ob' else ob'))"

definition append_with_cursor :: "('e \<Rightarrow> string) \<Rightarrow> 'e list \<Rightarrow> outbox \<Rightarrow> file_cursor option \<times> outbox" where
  "append_with_cursor enc es ob = (if es = [] then (None, ob) else append_locked enc es (ensure_handle ob))"

definition stop_outbox :: "outbox \<Rightarrow> outbox" where
  "stop_outbox ob = ob\<lparr>ob_open := False\<rparr>"

text \<open>A new process over the same directory, also after a write that stopped after \<open>k\<close> bytes.\<close>

definition reopen :: "outbox \<Rightarrow> outbox" where
  "reopen ob = new_outbox (ob_prefix ob) (ob_max ob) (ob_files ob)"

definition torn_append :: "('e \<Rightarrow> string) \<Rightarrow> 'e list \<Rightarrow> nat \<Rightarrow> outbox \<Rightarrow> outbox" where
  "torn_append enc es k ob = reopen (write_bytes (take k (concat (map (json_line enc) es))) (ensure_handle ob))"

section \<open>Reading\<close>

text \<open>Lines with their line ends, and \<open>readline\<close> with the position behind each line.\<close>

fun text_lines :: "string \<Rightarrow> string list" where
  "text_lines [] = []"
| "text_lines (c # s) =
     (if c = eol then [c] # text_lines s
      else (case text_lines s of [] \<Rightarrow> [[c]] | l # ls \<Rightarrow> (c # l) # ls))"

fun decode_lines :: "(string \<Rightarrow> 'e option) \<Rightarrow> string \<Rightarrow> nat \<Rightarrow> string list \<Rightarrow> ('e \<times> file_cursor) list" where
  "decode_lines dec name off [] = []"
| "decode_lines dec name off (l # ls) =
     (let off' = off + length l; t = str_strip l
      in if t = [] then decode_lines dec name off' ls
         else (case dec t of None \<Rightarrow> [] | Some e \<Rightarrow> (e, (name, off')) # decode_lines dec name off' ls))"

definition read_file :: "(string \<Rightarrow> 'e option) \<Rightarrow> outbox \<Rightarrow> nat \<Rightarrow> string \<Rightarrow> ('e \<times> file_cursor) list" where
  "read_file dec ob off name = decode_lines dec name off (text_lines (drop off (contents ob name)))"

definition iter_events_with_cursors :: "(string \<Rightarrow> 'e option) \<Rightarrow> file_cursor option \<Rightarrow> outbox \<Rightarrow> ('e \<times> file_cursor) list" where
  "iter_events_with_cursors dec cur ob =
     (let (file, off) = (case cur of None \<Rightarrow> ([], 0) | Some c \<Rightarrow> c)
      in concat (map (\<lambda>name. if file \<noteq> [] \<and> name < file then []
             else read_file dec ob (if file \<noteq> [] \<and> name = file then off else 0) name) (list_files ob)))"

definition iter_events :: "(string \<Rightarrow> 'e option) \<Rightarrow> outbox \<Rightarrow> 'e list" where
  "iter_events dec ob = concat (map (\<lambda>name. map fst (read_file dec ob 0 name)) (list_files ob))"

definition has_events_after :: "(string \<Rightarrow> 'e option) \<Rightarrow> file_cursor option \<Rightarrow> outbox \<Rightarrow> bool" where
  "has_events_after dec cur ob = (iter_events_with_cursors dec cur ob \<noteq> [])"

text \<open>The newest events: each file from its end, up to a line that does not decode.\<close>

fun decode_back :: "(string \<Rightarrow> 'e option) \<Rightarrow> string list \<Rightarrow> 'e list" where
  "decode_back dec [] = []"
| "decode_back dec (l # ls) =
     (let t = str_strip l
      in if t = [] then decode_back dec ls
         else (case dec t of None \<Rightarrow> [] | Some e \<Rightarrow> e # decode_back dec ls))"

definition recent_events :: "(string \<Rightarrow> 'e option) \<Rightarrow> int \<Rightarrow> outbox \<Rightarrow> 'e list" where
  "recent_events dec limit ob =
     take (max 1 (nat limit)) (concat (map (\<lambda>name. decode_back dec (rev (text_lines (contents ob name)))) (rev (list_files ob))))"

section \<open>Lines and cursors of one file\<close>

lemma text_lines_tail: "text_lines s = l # ls \<Longrightarrow> text_lines (drop (length l) s) = ls \<and> l \<noteq> []"
  by (induction s arbitrary: l) (auto split: if_splits list.splits)

lemma text_lines_line: "eol \<notin> set a \<Longrightarrow> text_lines (a @ eol # b) = (a @ [eol]) # text_lines b"
  by (induction a) auto

lemma text_lines_open: "eol \<notin> set a \<Longrightarrow> text_lines a = (if a = [] then [] else [a])"
  by (induction a) auto

text \<open>Reading on from a cursor gives what followed it.\<close>

lemma decode_lines_resume:
  assumes "decode_lines dec name off (text_lines s) = xs @ (e, c) # ys"
  shows "\<exists>o'. c = (name, o') \<and> off < o' \<and> ys = decode_lines dec name o' (text_lines (drop (o' - off) s))"
  using assms
proof (induction "text_lines s" arbitrary: s off xs)
  case Nil
  then show ?case by simp
next
  case (Cons l ls)
  let ?off = "off + length l" and ?s = "drop (length l) s"
  have t: "ls = text_lines ?s" "l \<noteq> []" using text_lines_tail [OF Cons(2) [symmetric]] by auto
  have rest: ?case if tail: "decode_lines dec name ?off (text_lines ?s) = zs @ (e, c) # ys" for zs
  proof -
    obtain o' where "c = (name, o')" "?off < o'" "ys = decode_lines dec name o' (text_lines (drop (o' - ?off) ?s))"
      using Cons(1) [OF t(1) tail] by auto
    moreover then have "drop (o' - ?off) ?s = drop (o' - off) s" by (simp add: add.commute)
    ultimately show ?thesis using t by auto
  qed
  have eq: "decode_lines dec name off (l # ls) = xs @ (e, c) # ys" using Cons(2,3) by simp
  show ?case
  proof (cases "str_strip l = []")
    case True
    then show ?thesis using eq rest [of xs] t by simp
  next
    case False
    then obtain e' where d: "dec (str_strip l) = Some e'" using eq by (cases "dec (str_strip l)") auto
    show ?thesis
    proof (cases xs)
      case Nil
      then show ?thesis using eq False d t by (auto simp: Let_def)
    next
      case (Cons x zs)
      then show ?thesis using eq False d rest [of zs] t by (simp add: Let_def)
    qed
  qed
qed


text \<open>Complete lines are read as the events they hold.\<close>

definition codec_ok :: "('e \<Rightarrow> string) \<Rightarrow> (string \<Rightarrow> 'e option) \<Rightarrow> bool" where
  "codec_ok enc dec = (\<forall>e. dec (enc e) = Some e \<and> str_strip (enc e) = enc e \<and> enc e \<noteq> [] \<and> eol \<notin> set (enc e) \<and>
     (\<forall>k < length (enc e). dec (str_strip (take k (enc e))) = None))"

definition lines_of :: "('e \<Rightarrow> string) \<Rightarrow> 'e list \<Rightarrow> string" where
  "lines_of enc es = concat (map (json_line enc) es)"

fun stamped :: "('e \<Rightarrow> string) \<Rightarrow> string \<Rightarrow> nat \<Rightarrow> 'e list \<Rightarrow> ('e \<times> file_cursor) list" where
  "stamped enc name off [] = []"
| "stamped enc name off (e # es) =
     (let off' = off + length (json_line enc e) in (e, (name, off')) # stamped enc name off' es)"

lemma map_fst_stamped [simp]: "map fst (stamped enc name off es) = es"
  by (induction es arbitrary: off) (auto simp: Let_def)

lemma stamped_append: "stamped enc name off (xs @ ys) = stamped enc name off xs @ stamped enc name (off + length (lines_of enc xs)) ys"
  by (induction xs arbitrary: off) (simp_all add: Let_def lines_of_def add.assoc)

lemma stamped_Nil [simp]: "stamped enc name off es = [] \<longleftrightarrow> es = []"
  by (cases es) (auto simp: Let_def)

lemma last_stamped: "es \<noteq> [] \<Longrightarrow> snd (last (stamped enc name off es)) = (name, off + length (lines_of enc es))"
proof (induction es arbitrary: off)
  case (Cons e es)
  then show ?case by (cases "es = []") (simp_all add: Let_def lines_of_def add.assoc)
qed simp

lemma strip_eol: "str_strip (s @ [eol]) = str_strip s"
proof -
  have sp: "py_space eol" by (simp add: py_space_def eol_def)
  show ?thesis
  proof (cases "\<forall>c \<in> set s. py_space c")
    case True
    have "dropWhile py_space s = []" using True by simp
    moreover have "dropWhile py_space (s @ [eol]) = []" using True sp by (subst dropWhile_eq_Nil_conv) auto
    ultimately show ?thesis unfolding str_strip_def rstrip_by_def lstrip_by_def by (simp only:)
  next
    case False
    then have "dropWhile py_space (s @ [eol]) = dropWhile py_space s @ [eol]" by (simp add: dropWhile_append)
    then show ?thesis using sp by (simp add: str_strip_def rstrip_by_def lstrip_by_def)
  qed
qed

lemma decode_lines_of:
  assumes "codec_ok enc dec"
  shows "decode_lines dec name off (text_lines (lines_of enc es @ s)) =
    stamped enc name off es @ decode_lines dec name (off + length (lines_of enc es)) (text_lines s)"
proof (induction es arbitrary: off)
  case Nil
  then show ?case by (simp add: lines_of_def)
next
  case (Cons e es)
  have c: "eol \<notin> set (enc e)" "dec (enc e) = Some e" "str_strip (enc e) = enc e" "enc e \<noteq> []"
    using assms by (auto simp: codec_ok_def)
  have "lines_of enc (e # es) @ s = enc e @ eol # (lines_of enc es @ s)" by (simp add: lines_of_def json_line_def)
  then have "text_lines (lines_of enc (e # es) @ s) = json_line enc e # text_lines (lines_of enc es @ s)"
    using c by (simp add: text_lines_line json_line_def)
  moreover have "length (lines_of enc (e # es)) = length (json_line enc e) + length (lines_of enc es)"
    by (simp add: lines_of_def)
  ultimately show ?case using Cons.IH c
    by (simp add: Let_def json_line_def strip_eol add.assoc)
qed

text \<open>What a write cut off after \<open>k\<close> bytes leaves: complete lines and the start of one.\<close>

lemma take_lines_of:
  "\<exists>m t. take k (lines_of enc es) = lines_of enc (take m es) @ t \<and>
     (t = [] \<or> m < length es \<and> (\<exists>j \<le> length (enc (es ! m)). t = take j (enc (es ! m))))"
proof (induction es arbitrary: k)
  case Nil
  then show ?case by (simp add: lines_of_def)
next
  case (Cons e es)
  show ?case
  proof (cases "k \<le> length (enc e)")
    case True
    then have "take k (lines_of enc (e # es)) = lines_of enc (take 0 (e # es)) @ take k (enc e)"
      by (simp add: lines_of_def json_line_def)
    then show ?thesis using True by (intro exI [of _ 0] exI [of _ "take k (enc e)"]) auto
  next
    case False
    then obtain k' where k: "k = length (json_line enc e) + k'"
      by (metis json_line_def le_iff_add length_append_singleton not_less_eq_eq)
    obtain m t where "take k' (lines_of enc es) = lines_of enc (take m es) @ t"
      "t = [] \<or> m < length es \<and> (\<exists>j \<le> length (enc (es ! m)). t = take j (enc (es ! m)))" using Cons.IH by blast
    then show ?thesis using k by (intro exI [of _ "Suc m"] exI [of _ t]) (simp add: lines_of_def)
  qed
qed

lemma decode_torn:
  assumes "codec_ok enc dec"
  shows "\<exists>n. decode_lines dec name off (text_lines (take k (lines_of enc es))) = stamped enc name off (take n es) \<or>
     (\<exists>c. n < length es \<and> decode_lines dec name off (text_lines (take k (lines_of enc es))) = stamped enc name off (take n es) @ [(es ! n, c)])"
proof -
  obtain m t where s: "take k (lines_of enc es) = lines_of enc (take m es) @ t"
    and t: "t = [] \<or> m < length es \<and> (\<exists>j \<le> length (enc (es ! m)). t = take j (enc (es ! m)))"
    using take_lines_of by blast
  let ?off = "off + length (lines_of enc (take m es))"
  have eq: "decode_lines dec name off (text_lines (take k (lines_of enc es))) =
      stamped enc name off (take m es) @ decode_lines dec name ?off (text_lines t)"
    unfolding s by (rule decode_lines_of [OF assms])
  show ?thesis
  proof (cases "t = []")
    case True
    then show ?thesis using eq by auto
  next
    case False
    then obtain j where j: "m < length es" "j \<le> length (enc (es ! m))" "t = take j (enc (es ! m))" using t by auto
    have c: "eol \<notin> set (enc (es ! m))" "dec (enc (es ! m)) = Some (es ! m)" "str_strip (enc (es ! m)) = enc (es ! m)"
      "enc (es ! m) \<noteq> []" "\<And>k. k < length (enc (es ! m)) \<Longrightarrow> dec (str_strip (take k (enc (es ! m)))) = None"
      using assms by (auto simp: codec_ok_def)
    have "text_lines t = [t]" using c(1) j(3) False text_lines_open [of t] by (auto dest: in_set_takeD)
    then have "decode_lines dec name ?off (text_lines t) = (if j = length (enc (es ! m)) then [(es ! m, (name, ?off + length t))] else [])"
      using c(2-4) c(5) [of j] j by (auto simp: Let_def)
    then show ?thesis using eq j(1) by (auto split: if_splits)
  qed
qed

section \<open>Names in order\<close>

lemma less_append_same: "(p @ xs < p @ ys) = (xs < (ys :: string))"
  by (induction p) auto

lemma less_extend: "length xs = length ys \<Longrightarrow> xs < ys \<Longrightarrow> xs @ us < ys @ (vs :: string)"
  by (induction xs ys rule: list_induct2) auto

lemma less_snoc: "length xs = length ys \<Longrightarrow> (xs @ [a] < ys @ [b]) = (xs < ys \<or> xs = ys \<and> a < (b :: char))"
  by (induction xs ys rule: list_induct2) auto

lemma digit_char_less: "a < b \<Longrightarrow> b < 10 \<Longrightarrow> digit_char a < digit_char b"
  by (simp add: digit_char_def less_char_def)

lemma pad_nat_less: "m < n \<Longrightarrow> n < 10 ^ k \<Longrightarrow> pad_nat k m < pad_nat k n"
proof (induction k arbitrary: m n)
  case 0
  then show ?case by simp
next
  case (Suc k)
  then have n: "n div 10 < 10 ^ k" by (simp add: less_mult_imp_div_less mult.commute)
  show ?case
  proof (cases "m div 10 < n div 10")
    case True
    then show ?thesis using Suc.IH [OF True n] by (simp add: less_snoc)
  next
    case False
    then have "m div 10 = n div 10" using Suc.prems(1) by (metis div_le_mono less_imp_le le_neq_implies_less)
    moreover then have "m mod 10 < n mod 10" using Suc.prems(1)
      by (metis div_mult_mod_eq nat_add_left_cancel_less)
    ultimately show ?thesis by (simp add: less_snoc digit_char_less)
  qed
qed

lemma file_name_less: "m < n \<Longrightarrow> n < 10 ^ 6 \<Longrightarrow> file_name p m < file_name p n"
  using pad_nat_less [of m n 6] by (simp add: file_name_def less_append_same less_extend del: pad_nat.simps)

lemma globbed_file_name [simp]: "globbed p (file_name p n)"
  by (simp add: globbed_def file_name_def starts_with_def)

lemma counter_of_file_name: "p \<noteq> [] \<Longrightarrow> n < 10 ^ 6 \<Longrightarrow> counter_of p (file_name p n) = Some n"
  by (simp add: counter_of_def file_name_def starts_with_def json_suffix_def pad_nat_digits digits_val_pad_nat del: pad_nat.simps)

lemma last_counter_less:
  "last_counter ob < k \<longleftrightarrow> 0 < k \<and> (\<forall>name \<in> set (list_files ob). \<forall>m. counter_of (ob_prefix ob) name = Some m \<longrightarrow> m < k)"
proof -
  have "fold (\<lambda>name n. case counter_of (ob_prefix ob) name of None \<Rightarrow> n | Some m \<Rightarrow> max n m) xs n < k \<longleftrightarrow>
    n < k \<and> (\<forall>name \<in> set xs. \<forall>m. counter_of (ob_prefix ob) name = Some m \<longrightarrow> m < k)" for xs n
    by (induction xs arbitrary: n) (auto split: option.splits)
  then show ?thesis by (simp add: last_counter_def)
qed

definition files_ok :: "outbox \<Rightarrow> bool" where
  "files_ok ob = (is_dict (ob_files ob) \<and> ob_prefix ob \<noteq> [] \<and>
     (\<forall>name \<in> set (list_files ob). \<exists>n < 10 ^ 6. name = file_name (ob_prefix ob) n))"

text \<open>Room for another file: the names stay in order up to 999999.\<close>

definition has_room :: "outbox \<Rightarrow> bool" where
  "has_room ob = (int (last_counter ob) < 999999)"

lemma in_list_files: "name \<in> set (list_files ob) \<longleftrightarrow> globbed (ob_prefix ob) name \<and> map_of (ob_files ob) name \<noteq> None"
  by (auto simp: list_files_def map_of_eq_None_iff)

lemma next_path_new:
  assumes "files_ok ob" "has_room ob"
  shows "map_of (ob_files ob) (next_path ob) = None" "\<forall>name \<in> set (list_files ob). name < next_path ob"
proof -
  have less: "\<forall>name \<in> set (list_files ob). name < next_path ob"
  proof
    fix name assume n: "name \<in> set (list_files ob)"
    then obtain k where k: "k < 10 ^ 6" "name = file_name (ob_prefix ob) k" using assms(1) by (auto simp: files_ok_def)
    then have "counter_of (ob_prefix ob) name = Some k" using assms(1) by (simp add: counter_of_file_name files_ok_def)
    then have "k < last_counter ob + 1" using last_counter_less [of ob "last_counter ob + 1"] n by simp
    then show "name < next_path ob"
      using assms(2) k(2) file_name_less [of k "last_counter ob + 1"] by (simp add: next_path_def has_room_def)
  qed
  moreover have "globbed (ob_prefix ob) (next_path ob)" by (simp add: next_path_def)
  ultimately show "map_of (ob_files ob) (next_path ob) = None" "\<forall>name \<in> set (list_files ob). name < next_path ob"
    using in_list_files [of "next_path ob" ob] by auto
qed

section \<open>The log\<close>

lemma dset_fresh: "map_of d k = None \<Longrightarrow> dset k v d = d @ [(k, v)]"
  by (induction d) (auto split: if_splits)

lemma dset_keys_same: "map_of d k \<noteq> None \<Longrightarrow> map fst (dset k v d) = map fst d"
  by (induction d) (auto split: if_splits)

lemma list_files_written:
  "map_of (ob_files ob) k \<noteq> None \<Longrightarrow> list_files (ob\<lparr>ob_files := dset k v (ob_files ob)\<rparr>) = list_files ob"
  by (simp add: list_files_def dset_keys_same)

lemma list_files_fresh:
  assumes "map_of (ob_files ob) k = None" "globbed (ob_prefix ob) k" "\<forall>name \<in> set (list_files ob). name < k"
  shows "list_files (ob\<lparr>ob_files := dset k v (ob_files ob)\<rparr>) = list_files ob @ [k]"
proof -
  have "sort (filter (globbed (ob_prefix ob)) (map fst (ob_files ob)) @ [k]) = list_files ob @ [k]"
    by (rule properties_for_sort) (use assms(3) in \<open>auto simp: list_files_def sorted_append less_imp_le\<close>)
  then show ?thesis using assms by (simp add: list_files_def dset_fresh)
qed

text \<open>All events with their cursors, in order.\<close>

definition log_of :: "(string \<Rightarrow> 'e option) \<Rightarrow> outbox \<Rightarrow> ('e \<times> file_cursor) list" where
  "log_of dec ob = iter_events_with_cursors dec None ob"

lemma log_of_files: "log_of dec ob = concat (map (read_file dec ob 0) (list_files ob))"
  by (simp add: log_of_def iter_events_with_cursors_def)

lemma iter_events_log: "iter_events dec ob = map fst (log_of dec ob)"
  by (simp add: iter_events_def log_of_files map_concat comp_def)

lemma read_file_cong: "contents ob name = contents ob' name \<Longrightarrow> read_file dec ob off name = read_file dec ob' off name"
  by (simp add: read_file_def)

lemma log_of_cong:
  assumes "ob_files ob = ob_files ob'" "ob_prefix ob = ob_prefix ob'"
  shows "log_of dec ob = log_of dec ob'"
proof -
  have "read_file dec ob 0 = read_file dec ob' 0" using assms by (simp add: read_file_def contents_def fun_eq_iff)
  then show ?thesis using assms by (simp add: log_of_files list_files_def)
qed

text \<open>The file being written is the last one and holds complete lines only.\<close>

definition writes_to :: "('e \<Rightarrow> string) \<Rightarrow> 'e list \<Rightarrow> outbox \<Rightarrow> bool" where
  "writes_to enc es ob = (map_of (ob_files ob) (ob_current ob) \<noteq> None \<and>
     (\<exists>fs. list_files ob = fs @ [ob_current ob]) \<and> contents ob (ob_current ob) = lines_of enc es)"

definition outbox_ok :: "('e \<Rightarrow> string) \<Rightarrow> outbox \<Rightarrow> bool" where
  "outbox_ok enc ob = (files_ok ob \<and> (ob_open ob \<longrightarrow> map_of (ob_files ob) (ob_current ob) \<noteq> None) \<and>
     (map_of (ob_files ob) (ob_current ob) \<noteq> None \<longrightarrow> (\<exists>es. writes_to enc es ob)))"

lemma distinct_list_files: "files_ok ob \<Longrightarrow> distinct (list_files ob) \<and> sorted (list_files ob)"
  by (simp add: files_ok_def is_dict_def list_files_def)

lemma rotate_file_log:
  assumes "files_ok ob" "has_room ob"
  shows "files_ok (rotate_file ob)" "writes_to enc [] (rotate_file ob)" "ob_open (rotate_file ob)"
    "log_of dec (rotate_file ob) = log_of dec ob" "ob_max (rotate_file ob) = ob_max ob"
proof -
  let ?k = "next_path ob" and ?ob = "rotate_file ob"
  note new = next_path_new [OF assms]
  have ob: "?ob = ob\<lparr>ob_current := ?k, ob_files := dset ?k [] (ob_files ob), ob_open := True\<rparr>"
    using new(1) by (simp add: rotate_file_def open_current_def dsetdefault_def)
  have files: "list_files ?ob = list_files ob @ [?k]"
    using list_files_fresh [OF new(1) _ new(2)] by (simp add: ob list_files_def next_path_def)
  have k: "?k = file_name (ob_prefix ob) (last_counter ob + 1)" "last_counter ob + 1 < 10 ^ 6"
    using assms(2) by (simp_all add: next_path_def has_room_def)
  have "\<exists>n < 10 ^ 6. ?k = file_name (ob_prefix ob) n" using k by blast
  then show "files_ok ?ob" using assms(1) files by (auto simp: files_ok_def ob)
  show "writes_to enc [] ?ob" unfolding writes_to_def files by (simp add: ob contents_def lines_of_def)
  show "ob_open ?ob" "ob_max ?ob = ob_max ob" by (simp_all add: ob)
  have "read_file dec ?ob 0 name = read_file dec ob 0 name" if "name \<in> set (list_files ob)" for name
    by (rule read_file_cong) (use new(2) that in \<open>auto simp: ob contents_def\<close>)
  moreover have "read_file dec ?ob 0 ?k = []" by (simp add: read_file_def ob contents_def)
  ultimately show "log_of dec ?ob = log_of dec ob" by (simp add: log_of_files files cong: map_cong)
qed

lemma rotate_as_open: "open_current (ob\<lparr>ob_current := next_path ob\<rparr>) = rotate_file ob"
  by (simp add: rotate_file_def)

lemma ensure_handle_log:
  assumes "outbox_ok enc ob" "has_room ob"
  shows "files_ok (ensure_handle ob)" "\<exists>es. writes_to enc es (ensure_handle ob)" "ob_open (ensure_handle ob)"
    "log_of dec (ensure_handle ob) = log_of dec ob"
proof -
  have f: "files_ok ob" using assms(1) by (simp add: outbox_ok_def)
  have same: "open_current ob = ob\<lparr>ob_open := True\<rparr>" if "map_of (ob_files ob) (ob_current ob) \<noteq> None"
    using that by (auto simp: open_current_def dsetdefault_def)
  have log: "files_ok (ob\<lparr>ob_open := b\<rparr>) = files_ok ob" "writes_to enc es (ob\<lparr>ob_open := b\<rparr>) = writes_to enc es ob"
    "log_of dec (ob\<lparr>ob_open := b\<rparr>) = log_of dec ob" for b es
    by (simp_all add: files_ok_def writes_to_def list_files_def contents_def log_of_cong [of "ob\<lparr>ob_open := b\<rparr>" ob])
  consider "ob_open ob" | "\<not> ob_open ob" "map_of (ob_files ob) (ob_current ob) \<noteq> None" "ensure_handle ob = ob\<lparr>ob_open := True\<rparr>"
    | "ensure_handle ob = rotate_file ob"
    using same unfolding ensure_handle_def rotate_as_open by metis
  then show "files_ok (ensure_handle ob)" "\<exists>es. writes_to enc es (ensure_handle ob)" "ob_open (ensure_handle ob)"
    "log_of dec (ensure_handle ob) = log_of dec ob"
    using assms(1) f rotate_file_log [OF f assms(2)] log
    by (cases; fastforce simp: outbox_ok_def ensure_handle_def)+
qed

lemma write_bytes_log:
  assumes "codec_ok enc dec" "files_ok ob" "writes_to enc es0 ob"
  shows "files_ok (write_bytes b ob)"
    "log_of dec (write_bytes b ob) = log_of dec ob @
       decode_lines dec (ob_current ob) (length (lines_of enc es0)) (text_lines b)"
    "contents (write_bytes b ob) (ob_current ob) = lines_of enc es0 @ b"
    "list_files (write_bytes b ob) = list_files ob"
proof -
  let ?cur = "ob_current ob" and ?ob = "write_bytes b ob"
  obtain fs where cur: "map_of (ob_files ob) ?cur \<noteq> None" "list_files ob = fs @ [?cur]" "contents ob ?cur = lines_of enc es0"
    using assms(3) by (auto simp: writes_to_def)
  show files: "list_files ?ob = list_files ob" using list_files_written [OF cur(1)] by (simp add: write_bytes_def)
  show "files_ok ?ob" using assms(2) files by (simp add: files_ok_def write_bytes_def)
  show c: "contents ?ob ?cur = lines_of enc es0 @ b" using cur(3) by (simp add: write_bytes_def contents_def)
  have "read_file dec ?ob 0 name = read_file dec ob 0 name" if "name \<in> set fs" for name
    by (rule read_file_cong)
      (use that distinct_list_files [OF assms(2)] cur(2) in \<open>auto simp: write_bytes_def contents_def\<close>)
  moreover have "read_file dec ?ob 0 ?cur = read_file dec ob 0 ?cur @
      decode_lines dec ?cur (length (lines_of enc es0)) (text_lines b)"
    using decode_lines_of [OF assms(1), of ?cur 0 es0 b] decode_lines_of [OF assms(1), of ?cur 0 es0 "[]"]
    by (simp add: read_file_def c cur(3))
  ultimately show "log_of dec ?ob = log_of dec ob @ decode_lines dec ?cur (length (lines_of enc es0)) (text_lines b)"
    by (simp add: log_of_files files cur(2) cong: map_cong)
qed

lemma write_bytes_twice: "write_bytes c (write_bytes b ob) = write_bytes (b @ c) ob"
proof -
  have d: "dset k v (dset k u d) = dset k v d" for k and u v :: string and d by (induction d) auto
  show ?thesis by (simp add: write_bytes_def contents_def d)
qed

lemma write_events_bytes:
  "es \<noteq> [] \<Longrightarrow> write_events enc es cur ob =
     (Some (ob_current ob, length (contents ob (ob_current ob)) + length (lines_of enc es)), write_bytes (lines_of enc es) ob)"
proof (induction es arbitrary: cur ob)
  case (Cons e es)
  have c: "ob_current (write_bytes b ob) = ob_current ob"
    "contents (write_bytes b ob) (ob_current ob) = contents ob (ob_current ob) @ b" for b
    by (simp_all add: write_bytes_def contents_def)
  show ?case
  proof (cases "es = []")
    case True
    then show ?thesis by (simp add: Let_def c lines_of_def)
  next
    case False
    then show ?thesis using Cons.IH [OF False] by (simp add: Let_def c lines_of_def write_bytes_twice)
  qed
qed simp

text \<open>Operations add files and never remove one, so there was room before if there is room after.\<close>

definition grows :: "outbox \<Rightarrow> outbox \<Rightarrow> bool" where
  "grows a b = (ob_prefix b = ob_prefix a \<and> dom (map_of (ob_files a)) \<subseteq> dom (map_of (ob_files b)))"

lemma grows_trans: "grows a b \<Longrightarrow> grows b c \<Longrightarrow> grows a c"
  by (auto simp: grows_def)

lemma grows_ops: "grows a (open_current a)" "grows a (rotate_file a)" "grows a (write_bytes b a)" "grows a (ensure_handle a)" "grows a (reopen a)"
  by (auto simp: grows_def open_current_def rotate_file_def write_bytes_def ensure_handle_def reopen_def new_outbox_def Let_def dsetdefault_def)

lemma has_room_grows:
  assumes "grows a b" "has_room b"
  shows "has_room a"
proof -
  have "set (list_files a) \<subseteq> set (list_files b)" using assms(1) by (force simp: grows_def in_list_files domIff subset_iff)
  then show ?thesis using assms last_counter_less [of a 999999] last_counter_less [of b 999999]
    by (auto simp: has_room_def grows_def)
qed

lemma grows_append: "grows ob (snd (append_with_cursor enc es ob))"
proof (cases "es = []")
  case False
  let ?w = "write_bytes (lines_of enc es) (ensure_handle ob)"
  have w: "grows ob ?w" using grows_trans grows_ops by blast
  have "snd (append_with_cursor enc es ob) = ?w \<or> snd (append_with_cursor enc es ob) = rotate_file ?w"
    using False by (simp add: append_with_cursor_def append_locked_def Let_def write_events_bytes)
  then show ?thesis using w grows_trans [OF w grows_ops(2)] by auto
qed (simp add: append_with_cursor_def grows_def)

text \<open>The laws of the log: appending, reading on, and starting again.\<close>

lemma append_log:
  assumes "codec_ok enc dec" "outbox_ok enc ob" "es \<noteq> []" "append_with_cursor enc es ob = (c, ob')" "has_room ob'"
  shows "outbox_ok enc ob' \<and> (\<exists>ys. log_of dec ob' = log_of dec ob @ ys \<and> map fst ys = es \<and> c = Some (snd (last ys)))"
proof -
  define ob1 where "ob1 = ensure_handle ob"
  obtain ob2 where w: "write_events enc es None ob1 = (c, ob2)"
    and ob': "ob' = (if length (contents ob2 (ob_current ob2)) \<ge> ob_max ob2 then rotate_file ob2 else ob2)"
    using assms(3,4) by (auto simp: append_with_cursor_def append_locked_def Let_def ob1_def split: prod.splits)
  have c: "c = Some (ob_current ob1, length (contents ob1 (ob_current ob1)) + length (lines_of enc es))"
    and ob2: "ob2 = write_bytes (lines_of enc es) ob1"
    using write_events_bytes [OF assms(3)] w by auto
  have room: "has_room ob2" "has_room ob" "\<not> has_room ob2 \<longrightarrow> ob' = ob2"
    using assms(5) ob' grows_ops(2) [of ob2] grows_trans [OF grows_ops(4,3), of ob] has_room_grows ob2 ob1_def
    by (metis (full_types))+
  obtain es0 where e: "files_ok ob1" "writes_to enc es0 ob1" "ob_open ob1" "log_of dec ob1 = log_of dec ob"
    using ensure_handle_log [OF assms(2) room(2)] ob1_def by blast
  note b = write_bytes_log [OF assms(1) e(1,2), of "lines_of enc es", folded ob2]
  let ?ys = "stamped enc (ob_current ob1) (length (lines_of enc es0)) es"
  have cur: "ob_current ob2 = ob_current ob1" "ob_open ob2" using e(3) by (simp_all add: ob2 write_bytes_def)
  have w2: "writes_to enc (es0 @ es) ob2"
    using e(2) b(3,4) cur by (auto simp: writes_to_def lines_of_def ob2 write_bytes_def)
  have log: "log_of dec ob2 = log_of dec ob @ ?ys"
    using b(2) e(4) decode_lines_of [OF assms(1), of "ob_current ob1" "length (lines_of enc es0)" es "[]"] by simp
  have "c = Some (snd (last ?ys))" using c e(2) assms(3) by (simp add: last_stamped writes_to_def)
  moreover have "log_of dec ob' = log_of dec ob2 \<and> outbox_ok enc ob'"
    using rotate_file_log [OF b(1) room(1)] b(1) w2 cur ob'
    by (auto simp: outbox_ok_def writes_to_def)
  ultimately show ?thesis using log map_fst_stamped by metis
qed

text \<open>Reading on from the cursor of an event gives the events behind it.\<close>

lemma concat_resume:
  assumes "\<And>k x. x \<in> set (f k) \<Longrightarrow> key x = k" "concat (map f ks) = xs @ x # ys"
  shows "\<exists>as bs us vs. ks = as @ key x # bs \<and> f (key x) = us @ x # vs \<and> ys = vs @ concat (map f bs)"
  using assms(2)
proof (induction ks arbitrary: xs)
  case (Cons k ks)
  have later: ?case if "concat (map f ks) = zs @ x # ys" for zs
    using Cons.IH [OF that] by (metis append_Cons)
  obtain us where "f k = xs @ us \<and> us @ concat (map f ks) = x # ys \<or> f k @ us = xs \<and> concat (map f ks) = us @ x # ys"
    using Cons.prems by (auto simp: append_eq_append_conv2)
  then consider vs where "f k = xs @ x # vs" "ys = vs @ concat (map f ks)" | "concat (map f ks) = x # ys"
    | "concat (map f ks) = us @ x # ys"
    by (cases us) auto
  then show ?case
  proof cases
    case (1 vs)
    then have "key x = k" using assms(1) [of x k] by simp
    then show ?thesis using 1 by (metis append_Nil)
  qed (use later [of "[]"] later [of us] in auto)
qed simp

lemma resume_log:
  assumes "files_ok ob" "log_of dec ob = xs @ (e, c) # ys"
  shows "iter_events_with_cursors dec (Some c) ob = ys"
proof -
  have key: "fst (snd x) = name" if x: "x \<in> set (read_file dec ob 0 name)" for x name
  proof -
    obtain as bs where "read_file dec ob 0 name = as @ x # bs" using split_list [OF x] by blast
    then show ?thesis using decode_lines_resume [of dec name 0 "contents ob name" as "fst x" "snd x" bs]
      by (auto simp: read_file_def)
  qed
  obtain f off where c: "c = (f, off)" by (cases c)
  obtain as bs us vs where fs: "list_files ob = as @ f # bs" and r: "read_file dec ob 0 f = us @ (e, c) # vs"
    and ys: "ys = vs @ concat (map (read_file dec ob 0) bs)"
    using concat_resume [of "read_file dec ob 0" "\<lambda>x. fst (snd x)", OF key assms(2) [unfolded log_of_files]] c by auto
  have vs: "vs = read_file dec ob off f"
    using decode_lines_resume [of dec f 0 "contents ob f" us e c vs] r c by (auto simp: read_file_def)
  have "globbed (ob_prefix ob) f" using fs in_list_files [of f ob] by simp
  then have ne: "f \<noteq> []" by (auto simp: globbed_def starts_with_def)
  have d: "distinct (list_files ob)" "sorted (list_files ob)" using distinct_list_files [OF assms(1)] by auto
  then have lt: "\<forall>a \<in> set as. a < f" "\<forall>b \<in> set bs. f < b" using fs by (auto simp: sorted_append order.strict_iff_order)
  define g where "g name = (if f \<noteq> [] \<and> name < f then []
    else read_file dec ob (if f \<noteq> [] \<and> name = f then off else 0) name)" for name
  have "concat (map g as) = []" using lt(1) ne by (auto simp: g_def)
  moreover have "map g bs = map (read_file dec ob 0) bs" "g f = vs" using lt(2) ne vs by (auto simp: g_def)
  moreover have "iter_events_with_cursors dec (Some c) ob = concat (map g (list_files ob))"
    by (simp add: iter_events_with_cursors_def c g_def [abs_def])
  ultimately show ?thesis using fs ys by (simp del: map_eq_conv)
qed

lemma reopen_log:
  assumes "files_ok ob" "has_room ob"
  shows "outbox_ok enc (reopen ob)" "log_of dec (reopen ob) = log_of dec ob"
proof -
  have r: "reopen ob = ob\<lparr>ob_current := next_path ob, ob_open := False\<rparr>"
    by (simp add: reopen_def new_outbox_def next_path_def last_counter_def list_files_def)
  show "outbox_ok enc (reopen ob)"
    using assms next_path_new [OF assms] by (simp add: outbox_ok_def r files_ok_def list_files_def)
  show "log_of dec (reopen ob) = log_of dec ob" by (rule log_of_cong) (simp_all add: r)
qed

lemma torn_log:
  assumes "codec_ok enc dec" "outbox_ok enc ob" "has_room (torn_append enc es k ob)"
  shows "outbox_ok enc (torn_append enc es k ob) \<and>
    (\<exists>ys n. log_of dec (torn_append enc es k ob) = log_of dec ob @ ys \<and> map fst ys = take n es)"
proof -
  let ?w = "write_bytes (take k (lines_of enc es)) (ensure_handle ob)"
  have t: "torn_append enc es k ob = reopen ?w" by (simp add: torn_append_def lines_of_def)
  have g: "grows ob (ensure_handle ob)" "grows (ensure_handle ob) ?w" "grows ?w (reopen ?w)" by (rule grows_ops)+
  have room: "has_room ?w" "has_room ob" using has_room_grows g assms(3) unfolding t by blast+
  obtain es0 where e: "files_ok (ensure_handle ob)" "writes_to enc es0 (ensure_handle ob)" "log_of dec (ensure_handle ob) = log_of dec ob"
    using ensure_handle_log [OF assms(2) room(2)] by blast
  note b = write_bytes_log [OF assms(1) e(1,2), of "take k (lines_of enc es)"]
  let ?ys = "decode_lines dec (ob_current (ensure_handle ob)) (length (lines_of enc es0)) (text_lines (take k (lines_of enc es)))"
  obtain n where n: "map fst ?ys = take n es \<or> n < length es \<and> map fst ?ys = take n es @ [es ! n]"
    using decode_torn [OF assms(1), of "ob_current (ensure_handle ob)" "length (lines_of enc es0)" k es] by fastforce
  then obtain m where m: "map fst ?ys = take m es" by (metis take_Suc_conv_app_nth)
  have "log_of dec (torn_append enc es k ob) = log_of dec ob @ ?ys"
    unfolding t reopen_log(2) [OF b(1) room(1)] b(2) e(3) ..
  moreover have "outbox_ok enc (torn_append enc es k ob)" using reopen_log(1) [OF b(1) room(1)] t by simp
  ultimately show ?thesis using m by blast
qed

section \<open>The log as its readers rely on it\<close>

text \<open>
  The interface: \<open>app\<close> appends and answers the cursor of the last event, \<open>rd\<close> reads what follows a
  cursor. \<open>room\<close> is the condition on the directory under which the names stay in order.
\<close>

definition up_to :: "('c option \<Rightarrow> 's \<Rightarrow> ('e \<times> 'c) list) \<Rightarrow> 's \<Rightarrow> 'c option \<Rightarrow> nat \<Rightarrow> bool" where
  "up_to rd s c k = (k \<le> length (rd None s) \<and> (case c of None \<Rightarrow> k = 0 | Some p \<Rightarrow> 0 < k \<and> snd (rd None s ! (k - 1)) = p))"

locale cursor_log =
  fixes ok room :: "'s \<Rightarrow> bool"
    and app :: "'e list \<Rightarrow> 's \<Rightarrow> 'c option \<times> 's"
    and rd :: "'c option \<Rightarrow> 's \<Rightarrow> ('e \<times> 'c) list"
  assumes app_log: "ok s \<Longrightarrow> es \<noteq> [] \<Longrightarrow> app es s = (c, s') \<Longrightarrow> room s' \<Longrightarrow>
      ok s' \<and> room s \<and> (\<exists>ys. rd None s' = rd None s @ ys \<and> map fst ys = es \<and> c = Some (snd (last ys)))"
    and resume: "ok s \<Longrightarrow> rd None s = xs @ (e, p) # ys \<Longrightarrow> rd (Some p) s = ys"
begin

lemma rd_up_to:
  assumes "ok s" "up_to rd s c k"
  shows "rd c s = drop k (rd None s)"
proof (cases c)
  case None
  then show ?thesis using assms by (simp add: up_to_def)
next
  case (Some p)
  then have k: "0 < k" "k \<le> length (rd None s)" "snd (rd None s ! (k - 1)) = p" using assms(2) by (auto simp: up_to_def)
  then have "rd None s = take (k - 1) (rd None s) @ (fst (rd None s ! (k - 1)), p) # drop k (rd None s)"
    using id_take_nth_drop [of "k - 1" "rd None s"] by (metis One_nat_def Suc_pred diff_less less_le_trans less_one prod.collapse)
  then show ?thesis using resume [OF assms(1)] Some by blast
qed

lemma rd_more:
  assumes "rd None s' = rd None s @ ys" "up_to rd s c k"
  shows "up_to rd s' c k"
  using assms by (cases c) (auto simp: up_to_def nth_append)

lemma rd_last:
  assumes "rd None s' = rd None s @ ys" "ys \<noteq> []"
  shows "up_to rd s' (Some (snd (last ys))) (length (rd None s'))"
  using assms by (cases ys rule: rev_cases) (auto simp: up_to_def nth_append)

text \<open>A reader that goes on from the last event it saw sees the next ones.\<close>

lemma rd_step:
  assumes "ok s" "up_to rd s c k" "k \<le> n" "n \<le> length (rd None s)"
  shows "k < n \<Longrightarrow> up_to rd s (Some (snd (last (take (n - k) (rd c s))))) n"
    and "map fst (take n (rd None s)) = map fst (take k (rd None s)) @ map fst (take (n - k) (rd c s))"
proof -
  have d: "rd c s = drop k (rd None s)" by (rule rd_up_to [OF assms(1,2)])
  show "map fst (take n (rd None s)) = map fst (take k (rd None s)) @ map fst (take (n - k) (rd c s))"
    unfolding d map_append [symmetric] using assms(3) by (metis le_add_diff_inverse take_add)
  assume k: "k < n"
  have "length (take (n - k) (rd c s)) = n - k" using assms(4) d by simp
  then have "last (take (n - k) (rd c s)) = take (n - k) (rd c s) ! (n - k - 1)"
    using k by (metis last_conv_nth length_0_conv zero_less_diff less_numeral_extra(3))
  moreover have "take (n - k) (rd c s) ! (n - k - 1) = rd None s ! (n - 1)" using k assms(4) by (simp add: d)
  moreover note k
  ultimately show "up_to rd s (Some (snd (last (take (n - k) (rd c s))))) n" using assms(4) by (simp add: up_to_def)
qed

end

interpretation outbox_log: cursor_log "\<lambda>ob. codec_ok enc dec \<and> outbox_ok enc ob" has_room
  "append_with_cursor enc" "iter_events_with_cursors dec" for enc dec
proof (unfold_locales)
  fix s s' es c
  assume a: "codec_ok enc dec \<and> outbox_ok enc s" "es \<noteq> []" "append_with_cursor enc es s = (c, s')" "has_room s'"
  then have g: "grows s s'" using grows_append [of s enc es] by simp
  then show "(codec_ok enc dec \<and> outbox_ok enc s') \<and> has_room s \<and>
      (\<exists>ys. iter_events_with_cursors dec None s' = iter_events_with_cursors dec None s @ ys \<and> map fst ys = es \<and> c = Some (snd (last ys)))"
    using append_log [of enc dec s es c s'] a has_room_grows [OF g] by (simp add: log_of_def)
qed (use resume_log in \<open>auto simp: outbox_ok_def log_of_def\<close>)

section \<open>Acknowledged events\<close>

text \<open>What may happen to a log: appends, a clean stop, a new process, and one that died in a write.\<close>

datatype 'e outbox_op = OpAppend "'e list" | OpStop | OpReopen | OpTorn "'e list" nat

primrec run_op :: "('e \<Rightarrow> string) \<Rightarrow> 'e outbox_op \<Rightarrow> outbox \<Rightarrow> outbox" where
  "run_op enc (OpAppend es) ob = snd (append_with_cursor enc es ob)"
| "run_op enc OpStop ob = stop_outbox ob"
| "run_op enc OpReopen ob = reopen ob"
| "run_op enc (OpTorn es k) ob = torn_append enc es k ob"

definition run_ops :: "('e \<Rightarrow> string) \<Rightarrow> 'e outbox_op list \<Rightarrow> outbox \<Rightarrow> outbox" where
  "run_ops enc ops ob = foldl (\<lambda>s op. run_op enc op s) ob ops"

fun acknowledged :: "'e outbox_op list \<Rightarrow> 'e list" where
  "acknowledged [] = []"
| "acknowledged (OpAppend es # ops) = es @ acknowledged ops"
| "acknowledged (_ # ops) = acknowledged ops"

fun handed_over :: "'e outbox_op list \<Rightarrow> 'e list" where
  "handed_over [] = []"
| "handed_over (OpAppend es # ops) = es @ handed_over ops"
| "handed_over (OpTorn es k # ops) = es @ handed_over ops"
| "handed_over (_ # ops) = handed_over ops"

lemma acknowledged_append [simp]: "acknowledged (as @ bs) = acknowledged as @ acknowledged bs"
  by (induction as rule: acknowledged.induct) auto

lemma handed_over_append [simp]: "handed_over (as @ bs) = handed_over as @ handed_over bs"
  by (induction as rule: handed_over.induct) auto

lemma grows_op: "grows ob (run_op enc op ob)"
proof (cases op)
  case (OpTorn es k)
  have "grows ob (reopen (write_bytes b (ensure_handle ob)))" for b using grows_trans grows_ops by blast
  then show ?thesis by (simp add: OpTorn torn_append_def)
qed (simp_all add: grows_append grows_ops, simp add: grows_def stop_outbox_def)

lemma stop_log: "outbox_ok enc ob \<Longrightarrow> outbox_ok enc (stop_outbox ob)" "log_of dec (stop_outbox ob) = log_of dec ob"
  by (simp_all add: stop_outbox_def log_of_cong [of "ob\<lparr>ob_open := False\<rparr>" ob]
      outbox_ok_def files_ok_def list_files_def writes_to_def contents_def)

lemma new_outbox_ok: "p \<noteq> [] \<Longrightarrow> outbox_ok enc (new_outbox p limit []) \<and> iter_events dec (new_outbox p limit []) = []"
  by (simp add: outbox_ok_def new_outbox_def files_ok_def list_files_def iter_events_def)

lemma run_op_log:
  assumes "codec_ok enc dec" "outbox_ok enc ob" "has_room (run_op enc op ob)"
  shows "outbox_ok enc (run_op enc op ob) \<and> (\<exists>zs. iter_events dec (run_op enc op ob) = iter_events dec ob @ zs \<and>
     subseq (acknowledged [op]) zs \<and> set zs \<subseteq> set (handed_over [op]) \<and> ((\<forall>es k. op \<noteq> OpTorn es k) \<longrightarrow> zs = acknowledged [op]))"
proof (cases op)
  case (OpAppend es)
  show ?thesis
  proof (cases "es = []")
    case True
    then show ?thesis using assms(2) by (simp add: OpAppend append_with_cursor_def)
  next
    case False
    obtain c ob' where "append_with_cursor enc es ob = (c, ob')" by fastforce
    then show ?thesis using append_log [OF assms(1,2) False, of c ob'] assms(3)
      by (auto simp: OpAppend iter_events_log)
  qed
next
  case OpReopen
  have "files_ok ob" "has_room ob" using assms(2,3) has_room_grows [OF grows_op] by (auto simp: outbox_ok_def)
  then show ?thesis using reopen_log(1) [of ob enc] reopen_log(2) [of ob dec] by (simp add: OpReopen iter_events_log)
next
  case (OpTorn es k)
  obtain ys n where "outbox_ok enc (torn_append enc es k ob)" "log_of dec (torn_append enc es k ob) = log_of dec ob @ ys"
    "map fst ys = take n es"
    using torn_log [OF assms(1,2), of es k] assms(3) by (auto simp: OpTorn)
  then show ?thesis by (auto simp: OpTorn iter_events_log dest: in_set_takeD)
qed (use assms(2) in \<open>simp_all add: iter_events_log stop_log\<close>)

lemma run_ops_log:
  assumes "codec_ok enc dec" "p \<noteq> []" "has_room (run_ops enc ops (new_outbox p limit []))"
  shows "outbox_ok enc (run_ops enc ops (new_outbox p limit [])) \<and>
    subseq (acknowledged ops) (iter_events dec (run_ops enc ops (new_outbox p limit []))) \<and>
    set (iter_events dec (run_ops enc ops (new_outbox p limit []))) \<subseteq> set (handed_over ops) \<and>
    ((\<forall>es k. OpTorn es k \<notin> set ops) \<longrightarrow> iter_events dec (run_ops enc ops (new_outbox p limit [])) = acknowledged ops)"
  using assms(3)
proof (induction ops rule: rev_induct)
  case Nil
  then show ?case using new_outbox_ok [OF assms(2), of enc limit dec] by (simp add: run_ops_def)
next
  case (snoc op ops)
  let ?s = "run_ops enc ops (new_outbox p limit [])"
  have s: "run_ops enc (ops @ [op]) (new_outbox p limit []) = run_op enc op ?s" by (simp add: run_ops_def)
  have IH: "outbox_ok enc ?s" "subseq (acknowledged ops) (iter_events dec ?s)" "set (iter_events dec ?s) \<subseteq> set (handed_over ops)"
    "(\<forall>es k. OpTorn es k \<notin> set ops) \<longrightarrow> iter_events dec ?s = acknowledged ops"
    using snoc.IH snoc.prems has_room_grows [OF grows_op] s by auto
  obtain zs where "outbox_ok enc (run_op enc op ?s)" "iter_events dec (run_op enc op ?s) = iter_events dec ?s @ zs"
    "subseq (acknowledged [op]) zs" "set zs \<subseteq> set (handed_over [op])" "(\<forall>es k. op \<noteq> OpTorn es k) \<longrightarrow> zs = acknowledged [op]"
    using run_op_log [OF assms(1) IH(1), of op] snoc.prems [unfolded s] by blast
  then show ?case using IH unfolding s by (auto intro: list_emb_append_mono)
qed

text \<open>
  C15: The outbox loses nothing it acknowledged. After any sequence of appends, clean stops, new
  processes and processes that died in the middle of a write, from an empty directory, the events
  read back contain the acknowledged ones in their order; every other event read was handed to an
  append that never returned, and without such a death exactly the acknowledged ones are read.
  The file counter must not have passed 999998, beyond which the names no longer sort by age.
\<close>

theorem outbox_keeps_acknowledged:
  assumes "codec_ok enc dec" "p \<noteq> []" "has_room (run_ops enc ops (new_outbox p limit []))"
  shows "subseq (acknowledged ops) (iter_events dec (run_ops enc ops (new_outbox p limit []))) \<and>
    set (iter_events dec (run_ops enc ops (new_outbox p limit []))) \<subseteq> set (handed_over ops) \<and>
    ((\<forall>es k. OpTorn es k \<notin> set ops) \<longrightarrow> iter_events dec (run_ops enc ops (new_outbox p limit [])) = acknowledged ops)"
  using run_ops_log [OF assms] by simp

text \<open>
  A cursor marks a place for good. In every such state, reading from the cursor that came with
  an event gives exactly the events behind it.
\<close>

theorem cursor_resumes:
  assumes "codec_ok enc dec" "p \<noteq> []" "has_room (run_ops enc ops (new_outbox p limit []))"
    and "iter_events_with_cursors dec None (run_ops enc ops (new_outbox p limit [])) = xs @ (e, c) # ys"
  shows "iter_events_with_cursors dec (Some c) (run_ops enc ops (new_outbox p limit [])) = ys"
  by (rule outbox_log.resume [where enc = enc, OF _ assms(4)]) (use run_ops_log [OF assms(1-3)] assms(1) in simp)

text \<open>
  What a death in a write does to the newest events. The torn last line of a file ends the
  backward read of \<open>recent\<close> before its first event: it shows nothing of that file, although every
  complete event of it is there for the other readers.
\<close>

theorem recent_hides_torn_file:
  assumes "codec_ok enc dec" "list_files ob = [name]" "contents ob name = lines_of enc es @ t"
    and "eol \<notin> set t" "str_strip t \<noteq> []" "dec (str_strip t) = None"
  shows "recent_events dec limit ob = [] \<and> iter_events dec ob = es"
proof -
  have ne: "t \<noteq> []" using assms(5) by (auto simp: str_strip_def lstrip_by_def rstrip_by_def)
  have "text_lines (lines_of enc xs @ t) = map (json_line enc) xs @ [t]" for xs
  proof (induction xs)
    case Nil
    then show ?case using text_lines_open [OF assms(4)] ne by (simp add: lines_of_def)
  next
    case (Cons x xs)
    have "eol \<notin> set (enc x)" using assms(1) by (simp add: codec_ok_def)
    from text_lines_line [OF this, of "lines_of enc xs @ t"] Cons show ?case by (simp add: lines_of_def json_line_def)
  qed
  then have "decode_back dec (rev (text_lines (contents ob name))) = []" using assms(3,5,6) by (simp add: Let_def)
  moreover have "iter_events dec ob = es"
    using decode_lines_of [OF assms(1), of name 0 es t] text_lines_open [OF assms(4)] ne assms
    by (simp add: iter_events_log log_of_files read_file_def Let_def)
  ultimately show ?thesis using assms(2) by (simp add: recent_events_def)
qed

section \<open>A concrete log\<close>

text \<open>Events are numbers, written as one-element arrays.\<close>

definition num_enc :: "nat \<Rightarrow> string" where
  "num_enc n = ''['' @ nat_str n @ '']''"

definition num_dec :: "string \<Rightarrow> nat option" where
  "num_dec s = (if s \<noteq> [] \<and> hd s = CHR ''['' \<and> last s = CHR '']'' then parse_nat (butlast (tl s)) else None)"

lemma nat_str_no_bracket: "c \<in> set (nat_str n) \<Longrightarrow> is_digit c"
  using nat_str_all_digits [of n] by (auto simp: all_digits_def list_all_iff)

lemma num_codec: "codec_ok num_enc num_dec"
  unfolding codec_ok_def
proof (intro allI conjI impI)
  fix n :: nat
  have sp: "\<not> py_space CHR ''[''" "\<not> py_space CHR '']''" by (simp_all add: py_space_def)
  show "num_dec (num_enc n) = Some n" by (simp add: num_dec_def num_enc_def)
  show strip: "str_strip (num_enc n) = num_enc n" using sp by (simp add: str_strip_def lstrip_by_def rstrip_by_def num_enc_def)
  show "num_enc n \<noteq> []" by (simp add: num_enc_def)
  show "eol \<notin> set (num_enc n)" using nat_str_no_bracket [of eol n] by (auto simp: num_enc_def eol_def is_digit_def)
  fix k assume "k < length (num_enc n)"
  then have "set (take k (num_enc n)) \<subseteq> insert CHR ''['' (set (nat_str n))"
    by (cases k) (auto simp: num_enc_def dest: in_set_takeD)
  moreover have "set (str_strip s) \<subseteq> set s" for s
    by (auto simp: str_strip_def lstrip_by_def rstrip_by_def dest!: set_dropWhileD)
  ultimately have "CHR '']'' \<notin> set (str_strip (take k (num_enc n)))"
    using nat_str_no_bracket [of "CHR '']''" n] by (auto simp: is_digit_def)
  then show "num_dec (str_strip (take k (num_enc n))) = None"
    unfolding num_dec_def using last_in_set by metis
qed

definition sample_ops :: "nat outbox_op list" where
  "sample_ops = [OpAppend [1, 2], OpTorn [3, 4] 5, OpAppend [5]]"

lemma sample_room: "has_room (run_ops num_enc sample_ops (new_outbox ''e'' 100 []))"
  by code_simp

lemma outbox_keeps_acknowledged_witness:
  "subseq [1, 2, 5] (iter_events num_dec (run_ops num_enc sample_ops (new_outbox ''e'' 100 [])))"
proof -
  have "acknowledged sample_ops = [1, 2, 5]" by (simp add: sample_ops_def)
  then show ?thesis using outbox_keeps_acknowledged [OF num_codec _ sample_room] by auto
qed

lemma cursor_resumes_witness:
  "map fst (iter_events_with_cursors num_dec (Some (''e_000001.jsonl'', 4)) (run_ops num_enc sample_ops (new_outbox ''e'' 100 []))) = [2, 3, 5]"
proof -
  have "iter_events_with_cursors num_dec None (run_ops num_enc sample_ops (new_outbox ''e'' 100 [])) =
    [] @ (1, (''e_000001.jsonl'', 4)) # [(2, (''e_000001.jsonl'', 8)), (3, (''e_000001.jsonl'', 12)), (5, (''e_000002.jsonl'', 4))]"
    by code_simp
  from cursor_resumes [OF num_codec _ sample_room this] show ?thesis by simp
qed

definition torn_outbox :: outbox where
  "torn_outbox = \<lparr>ob_prefix = ''e'', ob_max = 100, ob_files = [(''e_000001.jsonl'', lines_of num_enc [7, 8] @ ''[9'')],
     ob_current = ''e_000002.jsonl'', ob_open = False\<rparr>"

lemma recent_hides_torn_file_witness: "recent_events num_dec 50 torn_outbox = [] \<and> iter_events num_dec torn_outbox = [7, 8]"
proof (rule recent_hides_torn_file [OF num_codec])
  show "list_files torn_outbox = [''e_000001.jsonl'']" by code_simp
  show "contents torn_outbox ''e_000001.jsonl'' = lines_of num_enc [7, 8] @ ''[9''" by (simp add: torn_outbox_def contents_def)
qed code_simp+

end
