(* ===== verification/Replay.thy ===== *)
theory Replay
  imports Outbox Py_Value
begin

text \<open>
  Delivery of the log to the remote stores, \<open>event_runtime/state/replay.py\<close>: an append goes to the
  local log first and then to each remote; what a remote missed is replayed to it from its
  checkpoint. The local sink is the pair of its two methods, the remotes and the clock are
  arguments over a world \<open>'w\<close>; \<open>rp_got\<close> records the batches a remote confirmed. A name stands for
  one remote.
\<close>

section \<open>State\<close>

record ('b, 'e, 'c) log_sink =
  lg_append :: "'e list \<Rightarrow> 'b \<Rightarrow> 'c option \<times> 'b"
  lg_after :: "'c option \<Rightarrow> 'b \<Rightarrow> ('e \<times> 'c) list"

record 'c checkpoint =
  ck_cursor :: 'c
  ck_last :: pyval
  ck_total :: int
  ck_updated :: string

record ('b, 'w, 'e, 'c) replayer =
  rp_box :: 'b
  rp_world :: 'w
  rp_marks :: "(string \<times> 'c checkpoint) list"
  rp_disk :: "(string \<times> 'c checkpoint) list option"
  rp_got :: "(string \<times> 'e list) list"

record ('b, 'w, 'e, 'c) replay_config =
  rc_log :: "('b, 'e, 'c) log_sink"
  rc_remotes :: "string list"
  rc_send :: "string \<Rightarrow> 'e list \<Rightarrow> ('w, bool) op"
  rc_id :: "'e \<Rightarrow> pyval"
  rc_clock :: "'w \<Rightarrow> string"
  rc_batch :: int

section \<open>Checkpoints\<close>

definition get_cursor :: "string \<Rightarrow> ('b, 'w, 'e, 'c) replayer \<Rightarrow> 'c option" where
  "get_cursor name s = map_option ck_cursor (map_of (rp_marks s) name)"

definition mark_replayed ::
  "('b, 'w, 'e, 'c) replay_config \<Rightarrow> string \<Rightarrow> 'c \<Rightarrow> pyval \<Rightarrow> nat \<Rightarrow> (('b, 'w, 'e, 'c) replayer, unit) op" where
  "mark_replayed cfg name c event_id n s =
     (let total = (case map_of (rp_marks s) name of None \<Rightarrow> 0 | Some k \<Rightarrow> ck_total k) + int n;
          marks = dset name \<lparr>ck_cursor = c, ck_last = event_id, ck_total = total, ck_updated = rc_clock cfg (rp_world s)\<rparr> (rp_marks s)
      in (Inr (), s\<lparr>rp_marks := marks, rp_disk := Some marks\<rparr>))"

text \<open>A new process reads the checkpoint file; a missing or unreadable one counts as empty.\<close>

definition load_marks :: "(string \<times> 'c checkpoint) list option \<Rightarrow> (string \<times> 'c checkpoint) list" where
  "load_marks disk = (case disk of None \<Rightarrow> [] | Some m \<Rightarrow> m)"

section \<open>Appending\<close>

definition remote_append ::
  "('b, 'w, 'e, 'c) replay_config \<Rightarrow> string \<Rightarrow> 'e list \<Rightarrow> (('b, 'w, 'e, 'c) replayer, bool) op" where
  "remote_append cfg name es s = (case rc_send cfg name es (rp_world s) of
     (r, w) \<Rightarrow> (r, s\<lparr>rp_world := w, rp_got := (if r = Inr True then rp_got s @ [(name, es)] else rp_got s)\<rparr>))"

definition behind :: "('b, 'w, 'e, 'c) replay_config \<Rightarrow> string \<Rightarrow> ('b, 'w, 'e, 'c) replayer \<Rightarrow> bool" where
  "behind cfg name s = (lg_after (rc_log cfg) (get_cursor name s) (rp_box s) \<noteq> [])"

definition caught_up :: "('b, 'w, 'e, 'c) replay_config \<Rightarrow> ('b, 'w, 'e, 'c) replayer \<Rightarrow> (string \<times> bool) list" where
  "caught_up cfg s = map (\<lambda>name. (name, \<not> behind cfg name s)) (rc_remotes cfg)"

definition local_append ::
  "('b, 'w, 'e, 'c) replay_config \<Rightarrow> 'e list \<Rightarrow> (('b, 'w, 'e, 'c) replayer, 'c option) op" where
  "local_append cfg es s = (case lg_append (rc_log cfg) es (rp_box s) of (c, b) \<Rightarrow> (Inr c, s\<lparr>rp_box := b\<rparr>))"

definition deliver_inline ::
  "('b, 'w, 'e, 'c) replay_config \<Rightarrow> 'e list \<Rightarrow> 'c \<Rightarrow> string \<times> bool \<Rightarrow> (('b, 'w, 'e, 'c) replayer, unit) op" where
  "deliver_inline cfg es c sink = (case sink of (name, caught) \<Rightarrow>
     st_try (st_bind (remote_append cfg name es) (\<lambda>ok.
         if ok \<and> caught then mark_replayed cfg name c (rc_id cfg (last es)) (length es) else st_return ()))
       (\<lambda>_. st_return ()))"

definition append_events :: "('b, 'w, 'e, 'c) replay_config \<Rightarrow> 'e list \<Rightarrow> (('b, 'w, 'e, 'c) replayer, bool) op" where
  "append_events cfg es =
     (if es = [] then st_return True
      else st_bind (st_get (caught_up cfg)) (\<lambda>sinks.
        st_bind (local_append cfg es) (\<lambda>cur. case cur of
          None \<Rightarrow> st_return False
        | Some c \<Rightarrow> st_bind (st_fold (\<lambda>sink _. deliver_inline cfg es c sink) sinks ()) (\<lambda>_. st_return True))))"

section \<open>Replaying\<close>

text \<open>The result for one remote: its success, the number replayed, and whether events stay pending.\<close>

record sink_result =
  sk_name :: string
  sk_success :: bool
  sk_replayed :: nat
  sk_pending :: bool
  sk_error :: "string option"

definition replay_batch :: "('b, 'w, 'e, 'c) replay_config \<Rightarrow> string \<Rightarrow> ('b, 'w, 'e, 'c) replayer \<Rightarrow> ('e \<times> 'c) list" where
  "replay_batch cfg n s = take (max 1 (nat (rc_batch cfg))) (lg_after (rc_log cfg) (get_cursor n s) (rp_box s))"

definition replay_sink ::
  "('b, 'w, 'e, 'c) replay_config \<Rightarrow> string \<Rightarrow> (('b, 'w, 'e, 'c) replayer, sink_result) op" where
  "replay_sink cfg name s =
     (let batch = replay_batch cfg name s;
          failed = \<lparr>sk_name = name, sk_success = False, sk_replayed = 0, sk_pending = True, sk_error = None\<rparr>;
          n = length batch
      in if batch = [] then (Inr \<lparr>sk_name = name, sk_success = True, sk_replayed = 0, sk_pending = False, sk_error = None\<rparr>, s)
         else st_try (st_bind (remote_append cfg name (map fst batch)) (\<lambda>ok.
             if ok then st_bind (mark_replayed cfg name (snd (last batch)) (rc_id cfg (fst (last batch))) n)
               (\<lambda>_. st_return \<lparr>sk_name = name, sk_success = True, sk_replayed = n, sk_pending = False, sk_error = None\<rparr>)
             else st_return failed))
           (\<lambda>e. st_return (failed\<lparr>sk_error := Some (exn_text e)\<rparr>)) s)"

definition replay_once ::
  "('b, 'w, 'e, 'c) replay_config \<Rightarrow> (('b, 'w, 'e, 'c) replayer, bool \<times> nat \<times> sink_result list) op" where
  "replay_once cfg =
     st_bind (st_fold (\<lambda>name acc. st_bind (replay_sink cfg name) (\<lambda>r. st_return (acc @ [r]))) (rc_remotes cfg) [])
       (\<lambda>rs. let any_success = (\<exists>r \<in> set rs. sk_success r \<and> sk_replayed r > 0);
                 any_pending = (\<exists>r \<in> set rs. \<not> sk_success r \<or> sk_replayed r > 0)
             in st_return (any_success \<or> \<not> any_pending, sum_list (map sk_replayed rs), rs))"

section \<open>Queries\<close>

text \<open>
  Alert queries go to the first remote whose store is available, with a note when it lags behind
  the log; else to the local log.
\<close>

fun ask_remotes ::
  "('b, 'w, 'e, 'c) replay_config \<Rightarrow> (string \<Rightarrow> ('w, 'p) op) \<Rightarrow> string list \<Rightarrow> (('b, 'w, 'e, 'c) replayer, (string \<times> 'p) option) op" where
  "ask_remotes cfg ask [] s = (Inr None, s)"
| "ask_remotes cfg ask (n # ns) s = (case ask n (rp_world s) of
     (Inr p, w) \<Rightarrow> (Inr (Some (n, p)), s\<lparr>rp_world := w\<rparr>)
   | (Inl e, w) \<Rightarrow> if exn_class e = ''AlertStoreUnavailable'' then ask_remotes cfg ask ns (s\<lparr>rp_world := w\<rparr>)
       else (Inl e, s\<lparr>rp_world := w\<rparr>))"

definition list_alerts ::
  "('b, 'w, 'e, 'c) replay_config \<Rightarrow> (string \<Rightarrow> ('w, 'p) op) \<Rightarrow> ('b \<Rightarrow> 'p) \<Rightarrow> (('b, 'w, 'e, 'c) replayer, 'p \<times> bool) op" where
  "list_alerts cfg ask local_ask =
     st_bind (ask_remotes cfg ask (rc_remotes cfg)) (\<lambda>found. case found of
       Some (n, p) \<Rightarrow> st_get (\<lambda>s. (p, behind cfg n s))
     | None \<Rightarrow> st_get (\<lambda>s. (local_ask (rp_box s), False)))"

fun get_alert_remote ::
  "('b, 'w, 'e, 'c) replay_config \<Rightarrow> (string \<Rightarrow> ('w, 'p option) op) \<Rightarrow> string list \<Rightarrow> (('b, 'w, 'e, 'c) replayer, 'p option option) op" where
  "get_alert_remote cfg ask [] s = (Inr None, s)"
| "get_alert_remote cfg ask (n # ns) s = (case ask n (rp_world s) of
     (Inr p, w) \<Rightarrow>
       if p \<noteq> None \<or> \<not> behind cfg n s then (Inr (Some p), s\<lparr>rp_world := w\<rparr>) else get_alert_remote cfg ask ns (s\<lparr>rp_world := w\<rparr>)
   | (Inl e, w) \<Rightarrow> if exn_class e = ''AlertStoreUnavailable'' then get_alert_remote cfg ask ns (s\<lparr>rp_world := w\<rparr>)
       else (Inl e, s\<lparr>rp_world := w\<rparr>))"

definition get_alert ::
  "('b, 'w, 'e, 'c) replay_config \<Rightarrow> (string \<Rightarrow> ('w, 'p option) op) \<Rightarrow> ('b \<Rightarrow> 'p option) \<Rightarrow> (('b, 'w, 'e, 'c) replayer, 'p option) op" where
  "get_alert cfg ask local_ask =
     st_bind (get_alert_remote cfg ask (rc_remotes cfg)) (\<lambda>found. case found of
       Some p \<Rightarrow> st_return p
     | None \<Rightarrow> st_get (\<lambda>s. local_ask (rp_box s)))"

section \<open>Several sinks\<close>

text \<open>
  \<open>event_runtime/state/composite.py\<close>: every sink gets the events, whatever the others do, and the
  write counts if one durable sink took it.
\<close>

record ('w, 'e) state_sink =
  ss_name :: string
  ss_durable :: bool
  ss_append :: "'e list \<Rightarrow> ('w, bool) op"
  ss_recent :: "int \<Rightarrow> 'w \<Rightarrow> 'e list"

definition composite_sinks :: "('w, 'e) state_sink list \<Rightarrow> ('w, 'e) state_sink list res" where
  "composite_sinks sinks =
     (if sinks = [] then value_error ''CompositeStateSink requires at least one sink''
      else if \<not> list_ex ss_durable sinks then value_error ''CompositeStateSink requires at least one durable sink''
      else Inr sinks)"

definition composite_append :: "('w, 'e) state_sink list \<Rightarrow> 'e list \<Rightarrow> ('w, bool) op" where
  "composite_append sinks es =
     st_bind (st_fold (\<lambda>sink acc.
         st_bind (st_try (ss_append sink es) (\<lambda>_. st_return False)) (\<lambda>ok.
           st_return (if ss_durable sink then (True, snd acc \<or> ok) else acc))) sinks (False, False))
       (\<lambda>(attempted, stored). st_return (if attempted then stored else False))"

fun composite_recent :: "('w, 'e) state_sink list \<Rightarrow> int \<Rightarrow> 'w \<Rightarrow> 'e list" where
  "composite_recent [] limit w = []"
| "composite_recent (s # ss) limit w = (let es = ss_recent s limit w in if es \<noteq> [] then es else composite_recent ss limit w)"

text \<open>The first sink whose store is available answers a query; the reasons of the others are collected.\<close>

fun first_answer :: "(('w, 'e) state_sink \<Rightarrow> ('w, 'p) op) \<Rightarrow> ('w, 'e) state_sink list \<Rightarrow> string list \<Rightarrow> ('w, 'p) op" where
  "first_answer ask [] reasons w =
     (Inl (PyExn ''AlertStoreUnavailable'' (if reasons = [] then ''no sinks'' else str_join ''; '' reasons)), w)"
| "first_answer ask (s # ss) reasons w = (case ask s w of
     (Inr p, w') \<Rightarrow> (Inr p, w')
   | (Inl e, w') \<Rightarrow> if exn_class e = ''AlertStoreUnavailable'' then first_answer ask ss (reasons @ [ss_name s @ '': '' @ exn_text e]) w'
       else (Inl e, w'))"

section \<open>Nothing is skipped\<close>

text \<open>What a remote confirmed, in order.\<close>

definition got :: "string \<Rightarrow> ('b, 'w, 'e, 'c) replayer \<Rightarrow> 'e list" where
  "got name s = concat (map snd (filter (\<lambda>g. fst g = name) (rp_got s)))"

text \<open>The cursor of a remote stands behind the first \<open>k\<close> events, and the remote confirmed those.\<close>

definition delivered_to ::
  "('c option \<Rightarrow> 'b \<Rightarrow> ('e \<times> 'c) list) \<Rightarrow> string \<Rightarrow> nat \<Rightarrow> ('b, 'w, 'e, 'c) replayer \<Rightarrow> bool" where
  "delivered_to rd n k s = (up_to rd (rp_box s) (get_cursor n s) k \<and> subseq (map fst (take k (rd None (rp_box s)))) (got n s))"

definition nothing_skipped :: "('c option \<Rightarrow> 'b \<Rightarrow> ('e \<times> 'c) list) \<Rightarrow> ('b, 'w, 'e, 'c) replayer \<Rightarrow> bool" where
  "nothing_skipped rd s = ((\<forall>n. \<exists>k. delivered_to rd n k s) \<and> (rp_disk s = None \<or> rp_disk s = Some (rp_marks s)))"

lemma remote_append_got:
  assumes "remote_append cfg n es s = (r, t)"
  shows "rp_box t = rp_box s" "rp_marks t = rp_marks s" "rp_disk t = rp_disk s"
    "got m t = (if r = Inr True \<and> m = n then got m s @ es else got m s)"
  using assms by (auto simp: remote_append_def got_def split: prod.splits)

lemma mark_replayed_keep:
  assumes "mark_replayed cfg n c i k s = (r, t)"
  shows "r = Inr ()" "rp_box t = rp_box s" "got m t = got m s" "rp_disk t = Some (rp_marks t)"
    "get_cursor m t = (if m = n then Some c else get_cursor m s)"
  using assms by (auto simp: mark_replayed_def Let_def got_def get_cursor_def)

text \<open>
  What an attempt at one remote may change: either nothing that counts, or the remote confirmed the
  batch and its cursor moved to \<open>c\<close>, if there is one.
\<close>

definition sink_step ::
  "string \<Rightarrow> 'e list \<Rightarrow> 'c option \<Rightarrow> ('b, 'w, 'e, 'c) replayer \<Rightarrow> ('b, 'w, 'e, 'c) replayer \<Rightarrow> bool" where
  "sink_step n es c s t = (rp_box t = rp_box s \<and>
     (rp_disk t = rp_disk s \<and> rp_marks t = rp_marks s \<or> rp_disk t = Some (rp_marks t)) \<and>
     (\<forall>m. got m t = got m s \<and> get_cursor m t = get_cursor m s \<or>
        m = n \<and> got m t = got m s @ es \<and> get_cursor m t = (if c = None then get_cursor m s else c)))"

lemma sink_step_refl: "sink_step n es c s s"
  by (simp add: sink_step_def)

lemma sink_step_sent:
  assumes "remote_append cfg n es s = (r, t)"
  shows "sink_step n es None s t" "r \<noteq> Inr True \<Longrightarrow> sink_step n es c s t"
  using remote_append_got [OF assms] by (auto simp: sink_step_def get_cursor_def)

lemma sink_step_marked:
  assumes "remote_append cfg n es s = (Inr True, t)" "mark_replayed cfg n c i k t = (r, u)"
  shows "sink_step n es (Some c) s u" "r = Inr ()"
  using remote_append_got [OF assms(1)] mark_replayed_keep [OF assms(2)] by (simp_all add: sink_step_def get_cursor_def)

lemma deliver_inline_step:
  assumes "deliver_inline cfg es c (n, caught) s = (r, t)"
  shows "r = Inr () \<and> sink_step n es (if caught then Some c else None) s t"
proof -
  obtain r1 t1 where 1: "remote_append cfg n es s = (r1, t1)" by fastforce
  show ?thesis
  proof (cases "r1 = Inr True \<and> caught")
    case True
    obtain r2 u where 2: "mark_replayed cfg n c (rc_id cfg (last es)) (length es) t1 = (r2, u)" by fastforce
    note m = sink_step_marked [OF 1 [unfolded conjunct1 [OF True]] 2]
    then show ?thesis using assms 1 2 True by (simp add: deliver_inline_def st_try_def st_bind_def)
  next
    case False
    then have "r = Inr () \<and> t = t1" using assms 1
      by (cases r1) (auto simp: deliver_inline_def st_try_def st_bind_def st_return_def)
    then show ?thesis using sink_step_sent [OF 1] False by auto
  qed
qed

lemma replay_sink_step:
  assumes "replay_sink cfg n s = (r, t)"
  shows "(\<exists>x. r = Inr x) \<and>
    (replay_batch cfg n s = [] \<and> t = s \<or>
     replay_batch cfg n s \<noteq> [] \<and> sink_step n (map fst (replay_batch cfg n s)) (Some (snd (last (replay_batch cfg n s)))) s t)"
proof (cases "replay_batch cfg n s = []")
  case True
  then show ?thesis using assms by (auto simp: replay_sink_def Let_def)
next
  case False
  let ?b = "replay_batch cfg n s"
  obtain r1 t1 where 1: "remote_append cfg n (map fst ?b) s = (r1, t1)" by fastforce
  obtain r2 u where 2: "mark_replayed cfg n (snd (last ?b)) (rc_id cfg (fst (last ?b))) (length ?b) t1 = (r2, u)" by fastforce
  show ?thesis
  proof (cases "r1 = Inr True")
    case True
    note m = sink_step_marked [OF 1 [unfolded True] 2]
    have "(\<exists>x. r = Inr x) \<and> t = u"
      using assms 1 2 m(2) True False
      by (auto simp: replay_sink_def Let_def st_try_def st_bind_def st_return_def)
    then show ?thesis using m(1) False by auto
  next
    case no: False
    have "(\<exists>x. r = Inr x) \<and> t = t1"
      using assms 1 no False
      by (cases r1) (auto simp: replay_sink_def Let_def st_try_def st_bind_def st_return_def)
    then show ?thesis using sink_step_sent(2) [OF 1 no] False by auto
  qed
qed

lemma deliver_all_box: "rp_box (snd (st_fold (\<lambda>sink _. deliver_inline cfg es c sink) xs () v)) = rp_box v"
proof (induction xs arbitrary: v)
  case (Cons x xs)
  obtain n caught where x: "x = (n, caught)" by (cases x)
  obtain r w where w: "deliver_inline cfg es c x v = (r, w)" by fastforce
  then have "r = Inr () \<and> rp_box w = rp_box v" using deliver_inline_step [OF w [unfolded x]] by (simp add: sink_step_def)
  then show ?case using Cons.IH [of w] w by (simp add: st_bind_def)
qed (simp add: st_return_def)

context cursor_log
begin

lemma batch_delivered:
  assumes "rc_log cfg = \<lparr>lg_append = app, lg_after = rd\<rparr>" "ok (rp_box s)" "delivered_to rd n k s" "rp_box t = rp_box s"
    and "b = replay_batch cfg n s" "b \<noteq> []" "got n t = got n s @ map fst b" "get_cursor n t = Some (snd (last b))"
  shows "delivered_to rd n (min (length (rd None (rp_box s))) (k + max 1 (nat (rc_batch cfg)))) t"
proof -
  let ?L = "rd None (rp_box s)" and ?B = "max 1 (nat (rc_batch cfg))"
  have u: "up_to rd (rp_box s) (get_cursor n s) k" and g: "subseq (map fst (take k ?L)) (got n s)"
    using assms(3) by (auto simp: delivered_to_def)
  have d: "rd (get_cursor n s) (rp_box s) = drop k ?L" by (rule rd_up_to [OF assms(2) u])
  have k: "k \<le> length ?L" using u by (simp add: up_to_def)
  let ?n = "min (length ?L) (k + ?B)"
  have n: "k \<le> ?n" "?n \<le> length ?L" using k by auto
  have b: "b = take (?n - k) (rd (get_cursor n s) (rp_box s))"
    unfolding assms(5) replay_batch_def using assms(1) by (cases "k + ?B \<le> length ?L") (simp_all add: d min_def)
  have "k < ?n" using assms(6) b by (metis diff_is_0_eq' not_le take_0)
  then have "up_to rd (rp_box s) (Some (snd (last b))) ?n" "map fst (take ?n ?L) = map fst (take k ?L) @ map fst b"
    using rd_step [OF assms(2) u n] b by auto
  then show ?thesis using g assms(4,7,8) by (simp add: delivered_to_def list_emb_append_mono)
qed

lemma delivered_still:
  assumes "delivered_to rd n k s" "rp_box t = rp_box s" "got n t = got n s @ es" "get_cursor n t = get_cursor n s"
  shows "delivered_to rd n k t"
  using assms by (auto simp: delivered_to_def)

lemma replay_sink_keeps:
  assumes "rc_log cfg = \<lparr>lg_append = app, lg_after = rd\<rparr>" "ok (rp_box s)" "nothing_skipped rd s" "replay_sink cfg n s = (r, t)"
  shows "nothing_skipped rd t \<and> rp_box t = rp_box s"
proof (cases "replay_batch cfg n s = []")
  case True
  then show ?thesis using replay_sink_step [OF assms(4)] assms(3) by simp
next
  case False
  have step: "sink_step n (map fst (replay_batch cfg n s)) (Some (snd (last (replay_batch cfg n s)))) s t"
    using replay_sink_step [OF assms(4)] False by simp
  have "\<exists>k. delivered_to rd m k t" for m
  proof -
    obtain k where k: "delivered_to rd m k s" using assms(3) by (auto simp: nothing_skipped_def)
    consider "got m t = got m s" "get_cursor m t = get_cursor m s"
      | "m = n" "got n t = got n s @ map fst (replay_batch cfg n s)" "get_cursor n t = Some (snd (last (replay_batch cfg n s)))"
      using step by (auto simp: sink_step_def)
    then show ?thesis
    proof cases
      case 1
      then show ?thesis using delivered_still [OF k, of t "[]"] step by (auto simp: sink_step_def)
    next
      case 2
      then show ?thesis using batch_delivered [OF assms(1,2) k [unfolded 2(1)] _ refl False] step by (auto simp: sink_step_def)
    qed
  qed
  then show ?thesis using step assms(3) by (auto simp: nothing_skipped_def sink_step_def)
qed

lemma replay_once_keeps:
  assumes "rc_log cfg = \<lparr>lg_append = app, lg_after = rd\<rparr>" "ok (rp_box s)" "nothing_skipped rd s" "replay_once cfg s = (r, t)"
  shows "nothing_skipped rd t \<and> rp_box t = rp_box s"
proof -
  have "nothing_skipped rd (snd (st_fold (\<lambda>name acc. st_bind (replay_sink cfg name) (\<lambda>r. st_return (acc @ [r]))) ns acc u)) \<and>
     rp_box (snd (st_fold (\<lambda>name acc. st_bind (replay_sink cfg name) (\<lambda>r. st_return (acc @ [r]))) ns acc u)) = rp_box s"
    if "nothing_skipped rd u" "rp_box u = rp_box s" for ns acc u
    using that
  proof (induction ns arbitrary: acc u)
    case Nil
    then show ?case by (simp add: st_return_def)
  next
    case (Cons n ns)
    obtain r1 v where v: "replay_sink cfg n u = (r1, v)" by fastforce
    have "ok (rp_box u)" using assms(2) Cons.prems by simp
    from replay_sink_keeps [OF assms(1) this Cons.prems(1) v] replay_sink_step [OF v] Cons.prems(2)
    obtain x where "nothing_skipped rd v" "rp_box v = rp_box s" "r1 = Inr x" by auto
    then show ?case using Cons.IH [of v "acc @ [x]"] v by (simp add: st_bind_def st_return_def)
  qed
  from this [OF assms(3) refl, of "rc_remotes cfg" "[]"] show ?thesis
    using assms(4) by (auto simp: replay_once_def st_bind_def Let_def st_return_def split: prod.splits sum.splits)
qed

lemma deliver_keeps:
  assumes "ok b" "rd None b = L @ ys" "map fst ys = es" "ys \<noteq> []" "c = snd (last ys)"
    and "nothing_skipped rd s" "rp_box s = b" "\<forall>n. (n, True) \<in> set sinks \<longrightarrow> subseq (map fst L) (got n s)"
    and "sink \<in> set sinks" "deliver_inline cfg es c sink s = (r, t)"
  shows "r = Inr () \<and> nothing_skipped rd t \<and> rp_box t = b \<and> (\<forall>n. (n, True) \<in> set sinks \<longrightarrow> subseq (map fst L) (got n t))"
proof -
  obtain n caught where sink: "sink = (n, caught)" by (cases sink)
  have r: "r = Inr ()" and step: "sink_step n es (if caught then Some c else None) s t"
    using deliver_inline_step [OF assms(10) [unfolded sink]] by auto
  have "\<exists>k. delivered_to rd m k t" for m
  proof -
    obtain k where k: "delivered_to rd m k s" using assms(6) by (auto simp: nothing_skipped_def)
    consider "got m t = got m s" "get_cursor m t = get_cursor m s"
      | "got m t = got m s @ es" "get_cursor m t = get_cursor m s"
      | "m = n" caught "got m t = got m s @ es" "get_cursor m t = Some c"
      using step by (auto simp: sink_step_def split: if_splits)
    then show ?thesis
    proof cases
      case 3
      have "subseq (map fst L) (got m s)" using assms(8,9) sink 3 by auto
      then have "subseq (map fst (rd None b)) (got m t)" using assms(2,3) 3 by (simp add: list_emb_append_mono)
      moreover have "up_to rd b (Some c) (length (rd None b))"
        using assms(2,4,5) by (cases ys rule: rev_cases) (auto simp: up_to_def nth_append)
      ultimately show ?thesis using 3 step assms(7) by (auto simp: delivered_to_def sink_step_def)
    qed (use delivered_still [OF k, of t "[]"] delivered_still [OF k, of t es] step in \<open>auto simp: sink_step_def\<close>)
  qed
  moreover have "subseq (map fst L) (got m t)" if "(m, True) \<in> set sinks" for m
  proof -
    have "got m t = got m s \<or> got m t = got m s @ es" using step by (auto simp: sink_step_def)
    moreover have "subseq (map fst L) (got m s)" using assms(8) that by blast
    ultimately show ?thesis by (metis subseq_rev_drop_many)
  qed
  ultimately show ?thesis using r step assms(6,7) by (auto simp: nothing_skipped_def sink_step_def)
qed

lemma append_events_keeps:
  fixes s t :: "('s, 'w, 'e, 'c) replayer"
  assumes "rc_log cfg = \<lparr>lg_append = app, lg_after = rd\<rparr>" "ok (rp_box s)" "nothing_skipped rd s"
    and "append_events cfg es s = (r, t)" "room (rp_box t)"
  shows "r = Inr True \<and> ok (rp_box t) \<and> room (rp_box s) \<and> nothing_skipped rd t \<and>
    map fst (rd None (rp_box t)) = map fst (rd None (rp_box s)) @ es"
proof (cases "es = []")
  case True
  then show ?thesis using assms by (auto simp: append_events_def st_return_def)
next
  case False
  obtain c0 b where ab: "app es (rp_box s) = (c0, b)" by fastforce
  define s1 where "s1 = s\<lparr>rp_box := b\<rparr>"
  let ?L = "rd None (rp_box s)" and ?sinks = "caught_up cfg s"
  define J where "J u \<longleftrightarrow> nothing_skipped rd u \<and> rp_box u = b \<and> (\<forall>n. (n, True) \<in> set ?sinks \<longrightarrow> subseq (map fst ?L) (got n u))"
    for u :: "('s, 'w, 'e, 'c) replayer"
  have run: "append_events cfg es s = (case c0 of None \<Rightarrow> (Inr False, s1)
      | Some c \<Rightarrow> st_bind (st_fold (\<lambda>sink _. deliver_inline cfg es c sink) ?sinks ()) (\<lambda>_. st_return True) s1)"
    using False assms(1) ab
    by (auto simp: append_events_def st_bind_def st_get_def local_append_def st_return_def s1_def split: option.splits)
  have loop: "\<exists>u. st_fold (\<lambda>sink _. deliver_inline cfg es c sink) xs () v = (Inr (), u) \<and> J u"
    if "J v" "set xs \<subseteq> set ?sinks" "ok b" "rd None b = ?L @ ys" "map fst ys = es" "ys \<noteq> []" "c = snd (last ys)" for xs v c ys
    using that(1,2)
  proof (induction xs arbitrary: v)
    case Nil
    then show ?case by (simp add: st_return_def)
  next
    case (Cons x xs)
    obtain r1 w where w: "deliver_inline cfg es c x v = (r1, w)" by fastforce
    have "r1 = Inr () \<and> J w"
      unfolding J_def by (rule deliver_keeps [OF that(3-7) _ _ _ _ w]) (use Cons.prems in \<open>auto simp: J_def\<close>)
    then show ?case using Cons.IH [of w] Cons.prems w by (auto simp: st_bind_def)
  qed
  have box: "rp_box t = b"
  proof (cases c0)
    case (Some c)
    from deliver_all_box [of cfg es c ?sinks s1] show ?thesis using run Some assms(4)
      by (auto simp: s1_def st_bind_def st_return_def split: prod.splits sum.splits)
  qed (use run assms(4) in \<open>auto simp: s1_def\<close>)
  obtain ys where b: "ok b" "room (rp_box s)" "rd None b = ?L @ ys" "map fst ys = es" "c0 = Some (snd (last ys))"
    using app_log [OF assms(2) False ab] assms(5) box by auto
  have "J s1"
    unfolding J_def
  proof (intro conjI allI impI)
    have "\<exists>k. delivered_to rd n k s1" for n
    proof -
      obtain k where "delivered_to rd n k s" using assms(3) by (auto simp: nothing_skipped_def)
      moreover have "get_cursor n s1 = get_cursor n s" "got n s1 = got n s" "rp_box s1 = b"
        by (simp_all add: s1_def get_cursor_def got_def)
      ultimately have "delivered_to rd n k s1"
        using rd_more [OF b(3), of "get_cursor n s" k] by (simp add: delivered_to_def b(3)) (simp add: up_to_def)
      then show ?thesis ..
    qed
    then show "nothing_skipped rd s1" using assms(3) by (simp add: nothing_skipped_def s1_def)
    show "rp_box s1 = b" by (simp add: s1_def)
    fix n assume "(n, True) \<in> set ?sinks"
    then have nil: "rd (get_cursor n s) (rp_box s) = []" using assms(1) by (auto simp: caught_up_def behind_def)
    obtain k where k: "delivered_to rd n k s" using assms(3) by (auto simp: nothing_skipped_def)
    then have "drop k ?L = []" using rd_up_to [OF assms(2), of "get_cursor n s" k] nil by (simp add: delivered_to_def)
    then show "subseq (map fst ?L) (got n s1)" using k by (simp add: delivered_to_def s1_def got_def)
  qed
  moreover have "ys \<noteq> []" using b(4) False by auto
  ultimately obtain u where "st_fold (\<lambda>sink _. deliver_inline cfg es (snd (last ys)) sink) ?sinks () s1 = (Inr (), u)" "J u"
    using loop [OF _ subset_refl b(1,3,4) _ refl] by blast
  then show ?thesis using run b assms(4) box by (auto simp: st_bind_def st_return_def J_def)
qed

text \<open>With remotes that answer, a replay moves every cursor on by a batch.\<close>

lemma replay_sink_progress:
  assumes "rc_log cfg = \<lparr>lg_append = app, lg_after = rd\<rparr>" "ok (rp_box s)" "replay_sink cfg n s = (r, t)"
    and "\<forall>n es w. \<exists>w'. rc_send cfg n es w = (Inr True, w')" "delivered_to rd m k s"
  shows "rp_box t = rp_box s \<and> (\<exists>j \<ge> k. delivered_to rd m j t) \<and>
    (m = n \<longrightarrow> (\<exists>j \<ge> min (length (rd None (rp_box s))) (k + max 1 (nat (rc_batch cfg))). delivered_to rd m j t))"
proof (cases "replay_batch cfg n s = []")
  case True
  then have t: "t = s" using assms(3) by (simp add: replay_sink_def Let_def)
  have u: "up_to rd (rp_box s) (get_cursor m s) k" using assms(5) by (simp add: delivered_to_def)
  have "k = length (rd None (rp_box s))" if "m = n"
  proof -
    have "take (max 1 (nat (rc_batch cfg))) (drop k (rd None (rp_box s))) = []"
      using True that rd_up_to [OF assms(2) u] assms(1) by (simp add: replay_batch_def)
    then show ?thesis using u by (simp add: up_to_def)
  qed
  then show ?thesis using assms(5) t by auto
next
  case False
  let ?b = "replay_batch cfg n s"
  obtain w' where send: "rc_send cfg n (map fst ?b) (rp_world s) = (Inr True, w')" using assms(4) by blast
  obtain t1 where 1: "remote_append cfg n (map fst ?b) s = (Inr True, t1)" using send by (simp add: remote_append_def)
  obtain r2 where 2: "mark_replayed cfg n (snd (last ?b)) (rc_id cfg (fst (last ?b))) (length ?b) t1 = (r2, t)"
    using assms(3) 1 False by (auto simp: replay_sink_def Let_def st_try_def st_bind_def st_return_def mark_replayed_def split: prod.splits)
  note k = remote_append_got [OF 1] mark_replayed_keep [OF 2]
  have box: "rp_box t = rp_box s" using k by simp
  show ?thesis
  proof (cases "m = n")
    case True
    then have "delivered_to rd n (min (length (rd None (rp_box s))) (k + max 1 (nat (rc_batch cfg)))) t"
      using batch_delivered [OF assms(1,2) assms(5) [unfolded True] box refl False] k by simp
    moreover have "k \<le> min (length (rd None (rp_box s))) (k + max 1 (nat (rc_batch cfg)))"
      using assms(5) by (simp add: delivered_to_def up_to_def)
    ultimately show ?thesis using True box by blast
  next
    case no: False
    have "get_cursor m t = get_cursor m s" using k no by (simp add: get_cursor_def)
    then show ?thesis using delivered_still [OF assms(5) box, of "[]"] k no box by auto
  qed
qed

lemma replay_once_progress:
  fixes s t :: "('s, 'w, 'e, 'c) replayer"
  assumes "rc_log cfg = \<lparr>lg_append = app, lg_after = rd\<rparr>" "ok (rp_box s)" "replay_once cfg s = (r, t)"
    and send: "\<forall>n es w. \<exists>w'. rc_send cfg n es w = (Inr True, w')" and "delivered_to rd m k s" "m \<in> set (rc_remotes cfg)"
  shows "rp_box t = rp_box s \<and> (\<exists>j \<ge> min (length (rd None (rp_box s))) (k + max 1 (nat (rc_batch cfg))). delivered_to rd m j t)"
proof -
  let ?n = "\<lambda>k. min (length (rd None (rp_box s))) (k + max 1 (nat (rc_batch cfg)))"
  let ?f = "\<lambda>name acc. st_bind (replay_sink cfg name) (\<lambda>r. st_return (acc @ [r]))"
  have "rp_box (snd (st_fold ?f ns acc u)) = rp_box s \<and> (\<exists>j \<ge> k. delivered_to rd m j (snd (st_fold ?f ns acc u))) \<and>
    (m \<in> set ns \<longrightarrow> (\<exists>j \<ge> ?n k. delivered_to rd m j (snd (st_fold ?f ns acc u))))"
    if "rp_box u = rp_box s" "delivered_to rd m k u" for ns acc u k
    using that
  proof (induction ns arbitrary: acc u k)
    case Nil
    then show ?case by (auto simp: st_return_def)
  next
    case (Cons n ns)
    obtain r1 v where v: "replay_sink cfg n u = (r1, v)" by fastforce
    obtain x where x: "r1 = Inr x" using replay_sink_step [OF v] by auto
    have ok: "ok (rp_box u)" using assms(2) Cons.prems by simp
    note p = replay_sink_progress [OF assms(1) ok v send Cons.prems(2)]
    have box: "rp_box v = rp_box s" using p Cons.prems(1) by simp
    have fold: "st_fold ?f (n # ns) acc u = st_fold ?f ns (acc @ [x]) v" using v x by (simp add: st_bind_def st_return_def)
    have any: "\<exists>i \<ge> j. delivered_to rd m i (snd (st_fold ?f ns (acc @ [x]) v))"
      "m \<in> set ns \<Longrightarrow> \<exists>i \<ge> ?n j. delivered_to rd m i (snd (st_fold ?f ns (acc @ [x]) v))"
      "rp_box (snd (st_fold ?f ns (acc @ [x]) v)) = rp_box s" if "delivered_to rd m j v" for j
      using Cons.IH [OF box that] by auto
    obtain j where j: "j \<ge> k" "delivered_to rd m j v" using p by blast
    have "\<exists>i \<ge> ?n k. delivered_to rd m i (snd (st_fold ?f ns (acc @ [x]) v))" if mem: "m \<in> set (n # ns)"
    proof (cases "m = n")
      case True
      then obtain i where "i \<ge> ?n k" "delivered_to rd m i v" using p Cons.prems(1) by auto
      then show ?thesis using any(1) by (meson order_trans)
    next
      case False
      then obtain i where "i \<ge> ?n j" "delivered_to rd m i (snd (st_fold ?f ns (acc @ [x]) v))" using any(2) [OF j(2)] mem by auto
      moreover have "?n k \<le> ?n j" using j(1) by simp
      ultimately show ?thesis by (meson order_trans)
    qed
    then show ?case unfolding fold using any [OF j(2)] j(1) by (meson order_trans)
  qed
  from this [OF refl assms(5), of "rc_remotes cfg" "[]"] show ?thesis
    using assms(3,6) by (auto simp: replay_once_def st_bind_def Let_def st_return_def split: prod.splits sum.splits)
qed

lemma drained:
  fixes s :: "('s, 'w, 'e, 'c) replayer"
  assumes "rc_log cfg = \<lparr>lg_append = app, lg_after = rd\<rparr>" "ok (rp_box s)" "nothing_skipped rd s"
    and send: "\<forall>n es w. \<exists>w'. rc_send cfg n es w = (Inr True, w')" and "m \<in> set (rc_remotes cfg)"
    and "length (rd None (rp_box s)) \<le> j * max 1 (nat (rc_batch cfg))"
  shows "\<not> behind cfg m (((\<lambda>s. snd (replay_once cfg s)) ^^ j) s)"
proof -
  let ?s = "\<lambda>i. ((\<lambda>s. snd (replay_once cfg s)) ^^ i) s" and ?L = "rd None (rp_box s)"
  have "rp_box (?s i) = rp_box s \<and> (\<exists>k \<ge> min (length ?L) (i * max 1 (nat (rc_batch cfg))). delivered_to rd m k (?s i))" for i
  proof (induction i)
    case 0
    then show ?case using assms(3) by (auto simp: nothing_skipped_def)
  next
    case (Suc i)
    then obtain k where box: "rp_box (?s i) = rp_box s" and k: "k \<ge> min (length ?L) (i * max 1 (nat (rc_batch cfg)))" "delivered_to rd m k (?s i)"
      by auto
    obtain r t where t: "replay_once cfg (?s i) = (r, t)" by fastforce
    have ok: "ok (rp_box (?s i))" using assms(2) box by simp
    obtain j where j: "rp_box t = rp_box s" "j \<ge> min (length ?L) (k + max 1 (nat (rc_batch cfg)))" "delivered_to rd m j t"
      using replay_once_progress [OF assms(1) ok t send k(2) assms(5)] box by auto
    moreover have "j \<ge> min (length ?L) (Suc i * max 1 (nat (rc_batch cfg)))" using j(2) k(1) by (simp add: min_le_iff_disj) linarith
    ultimately show ?case using t by auto
  qed
  from this [of j] obtain k where k: "rp_box (?s j) = rp_box s" "k \<ge> length ?L" "delivered_to rd m k (?s j)" using assms(6) by auto
  then have "rd (get_cursor m (?s j)) (rp_box (?s j)) = []"
    using rd_up_to [of "rp_box (?s j)" "get_cursor m (?s j)" k] assms(2) by (simp add: delivered_to_def)
  then show ?thesis using assms(1) by (simp add: behind_def)
qed

end

section \<open>The sink over the outbox\<close>

definition outbox_sink :: "('e \<Rightarrow> string) \<Rightarrow> (string \<Rightarrow> 'e option) \<Rightarrow> (outbox, 'e, file_cursor) log_sink" where
  "outbox_sink enc dec = \<lparr>lg_append = append_with_cursor enc, lg_after = iter_events_with_cursors dec\<rparr>"

definition replay_start :: "string \<Rightarrow> nat \<Rightarrow> 'w \<Rightarrow> (outbox, 'w, 'e, file_cursor) replayer" where
  "replay_start p limit w = \<lparr>rp_box = new_outbox p limit [], rp_world = w, rp_marks = [], rp_disk = None, rp_got = []\<rparr>"

text \<open>A new process: the directory as it was left and the checkpoints of the file.\<close>

definition restart_replay :: "('e \<Rightarrow> string) \<Rightarrow> 'e outbox_op \<Rightarrow> (outbox, 'w, 'e, file_cursor) replayer \<Rightarrow> (outbox, 'w, 'e, file_cursor) replayer" where
  "restart_replay enc op s = s\<lparr>rp_box := run_op enc op (rp_box s), rp_marks := load_marks (rp_disk s)\<rparr>"

inductive replay_step ::
  "(outbox, 'w, 'e, file_cursor) replay_config \<Rightarrow> ('e \<Rightarrow> string) \<Rightarrow>
   (outbox, 'w, 'e, file_cursor) replayer \<Rightarrow> (outbox, 'w, 'e, file_cursor) replayer \<Rightarrow> bool"
  for cfg enc where
  step_append: "append_events cfg es s = (r, t) \<Longrightarrow> replay_step cfg enc s t"
| step_replay: "replay_once cfg s = (r, t) \<Longrightarrow> replay_step cfg enc s t"
| step_restart: "op = OpReopen \<or> (\<exists>es k. op = OpTorn es k) \<Longrightarrow> replay_step cfg enc s (restart_replay enc op s)"
| step_lost: "replay_step cfg enc s (s\<lparr>rp_disk := None\<rparr>)"

inductive replay_reaches ::
  "(outbox, 'w, 'e, file_cursor) replay_config \<Rightarrow> ('e \<Rightarrow> string) \<Rightarrow>
   (outbox, 'w, 'e, file_cursor) replayer \<Rightarrow> (outbox, 'w, 'e, file_cursor) replayer \<Rightarrow> bool"
  for cfg enc s where
  reach_start: "replay_reaches cfg enc s s"
| reach_step: "replay_reaches cfg enc s t \<Longrightarrow> replay_step cfg enc t u \<Longrightarrow> replay_reaches cfg enc s u"

lemma delivered_to_loaded:
  assumes "nothing_skipped rd s" "\<And>k. up_to rd (rp_box s) None k \<Longrightarrow> up_to rd b None k"
    and "\<And>c k. up_to rd (rp_box s) c k \<Longrightarrow> up_to rd b c k \<and> take k (rd None b) = take k (rd None (rp_box s))"
  shows "nothing_skipped rd (s\<lparr>rp_box := b, rp_marks := load_marks (rp_disk s)\<rparr>)"
proof -
  let ?t = "s\<lparr>rp_box := b, rp_marks := load_marks (rp_disk s)\<rparr>"
  have "\<exists>k. delivered_to rd n k ?t" for n
  proof (cases "rp_disk s")
    case None
    then have "get_cursor n ?t = None" by (simp add: get_cursor_def load_marks_def)
    then have "delivered_to rd n 0 ?t" by (simp add: delivered_to_def up_to_def)
    then show ?thesis ..
  next
    case (Some m)
    then have "m = rp_marks s" using assms(1) by (simp add: nothing_skipped_def)
    then have same: "get_cursor n ?t = get_cursor n s" "got n ?t = got n s" using Some by (simp_all add: get_cursor_def load_marks_def got_def)
    obtain k where "delivered_to rd n k s" using assms(1) by (auto simp: nothing_skipped_def)
    then have "delivered_to rd n k ?t" using assms(3) [of "get_cursor n s" k] same by (simp add: delivered_to_def)
    then show ?thesis ..
  qed
  then show ?thesis using assms(1) by (auto simp: nothing_skipped_def load_marks_def split: option.splits)
qed

lemma replay_step_inv:
  fixes s t :: "(outbox, 'w, 'e, file_cursor) replayer"
  assumes "rc_log cfg = outbox_sink enc dec" "codec_ok enc dec" "replay_step cfg enc s t" "has_room (rp_box t)"
    and inv: "has_room (rp_box s) \<Longrightarrow> outbox_ok enc (rp_box s) \<and> nothing_skipped (iter_events_with_cursors dec) s"
  shows "outbox_ok enc (rp_box t) \<and> nothing_skipped (iter_events_with_cursors dec) t"
  using assms(3)
proof cases
  case (step_append es r)
  note log = assms(1) [unfolded outbox_sink_def]
  have g: "grows (rp_box s) (rp_box t)"
  proof (cases "es = []")
    case True
    then show ?thesis using step_append by (simp add: append_events_def st_return_def grows_def)
  next
    case False
    obtain c b where b: "append_with_cursor enc es (rp_box s) = (c, b)" by fastforce
    have "rp_box t = b"
    proof (cases c)
      case (Some c)
      then show ?thesis
        using False step_append log b deliver_all_box [of cfg es c "caught_up cfg s" "s\<lparr>rp_box := b\<rparr>"]
        by (auto simp: append_events_def st_bind_def st_get_def local_append_def st_return_def split: prod.splits sum.splits)
    qed (use False step_append log b in \<open>auto simp: append_events_def st_bind_def st_get_def local_append_def st_return_def\<close>)
    then show ?thesis using grows_append [of "rp_box s" enc es] b by simp
  qed
  then show ?thesis
    using outbox_log.append_events_keeps [OF log _ _ step_append assms(4)] inv has_room_grows [OF g assms(4)] assms(2) by blast
next
  case (step_replay r)
  have "rp_box t = rp_box s"
  proof -
    have "rp_box (snd (st_fold (\<lambda>name acc. st_bind (replay_sink cfg name) (\<lambda>r. st_return (acc @ [r]))) ns acc u)) = rp_box u" for ns acc u
    proof (induction ns arbitrary: acc u)
      case (Cons n ns)
      obtain r1 v where v: "replay_sink cfg n u = (r1, v)" by fastforce
      then show ?case using replay_sink_step [OF v] Cons.IH by (auto simp: st_bind_def st_return_def sink_step_def)
    qed (simp add: st_return_def)
    from this [of "rc_remotes cfg" "[]" s] show ?thesis using step_replay
      by (auto simp: replay_once_def st_bind_def Let_def st_return_def split: prod.splits sum.splits)
  qed
  then show ?thesis
    using outbox_log.replay_once_keeps [where enc = enc, OF assms(1) [unfolded outbox_sink_def] _ _ step_replay] inv assms(2,4) by auto
next
  case (step_restart op)
  let ?rd = "iter_events_with_cursors dec" and ?b = "run_op enc op (rp_box s)"
  have room: "has_room ?b" "has_room (rp_box s)"
    using assms(4) has_room_grows [OF grows_op] by (auto simp: step_restart restart_replay_def)
  have box: "outbox_ok enc (rp_box s)" and skip: "nothing_skipped ?rd s" using inv room by auto
  obtain ys where b: "outbox_ok enc ?b" "?rd None ?b = ?rd None (rp_box s) @ ys"
  proof (cases "op = OpReopen")
    case True
    have "files_ok (rp_box s)" using box by (simp add: outbox_ok_def)
    from reopen_log(1) [OF this room(2), of enc] reopen_log(2) [OF this room(2), of dec]
    show ?thesis by (intro that [of "[]"]) (simp_all add: True log_of_def)
  next
    case False
    then obtain es k where op: "op = OpTorn es k" using step_restart(2) by auto
    from torn_log [OF assms(2) box, of es k] room(1) show ?thesis
      by (auto simp: op log_of_def intro: that)
  qed
  have "nothing_skipped ?rd (restart_replay enc op s)"
    unfolding restart_replay_def by (rule delivered_to_loaded [OF skip]) (use outbox_log.rd_more [OF b(2)] b(2) in \<open>auto simp: up_to_def nth_append split: option.splits\<close>)
  then show ?thesis using b(1) step_restart(1) by (simp add: restart_replay_def)
next
  case step_lost
  then show ?thesis using inv assms(4) by (auto simp: nothing_skipped_def delivered_to_def get_cursor_def got_def)
qed

lemma start_ok:
  assumes "p \<noteq> []"
  shows "outbox_ok enc (rp_box (replay_start p limit w)) \<and> nothing_skipped (iter_events_with_cursors dec) (replay_start p limit w)"
proof -
  have "delivered_to (iter_events_with_cursors dec) n 0 (replay_start p limit w)" for n
    by (simp add: delivered_to_def replay_start_def get_cursor_def up_to_def)
  then show ?thesis using new_outbox_ok [OF assms, of enc limit] by (auto simp: nothing_skipped_def replay_start_def)
qed

lemma replay_reaches_inv:
  assumes "replay_reaches cfg enc (replay_start p limit w) s" "rc_log cfg = outbox_sink enc dec" "codec_ok enc dec" "p \<noteq> []" "has_room (rp_box s)"
  shows "outbox_ok enc (rp_box s) \<and> nothing_skipped (iter_events_with_cursors dec) s"
  using assms(1,5)
proof (induction rule: replay_reaches.induct)
  case reach_start
  show ?case by (rule start_ok [OF assms(4)])
next
  case (reach_step t u)
  show ?case by (rule replay_step_inv [OF assms(2,3) reach_step(2) reach_step.prems]) (rule reach_step.IH)
qed


text \<open>
  Replay catches up. When every remote accepts what it is sent, as many rounds as the log has
  batches leave no remote behind, from any reachable state; a batch size below one counts as one.
\<close>

theorem replay_drains:
  assumes "replay_reaches cfg enc (replay_start p limit w) s" "rc_log cfg = outbox_sink enc dec" "codec_ok enc dec" "p \<noteq> []"
    and "has_room (rp_box s)" "\<forall>n es w. \<exists>w'. rc_send cfg n es w = (Inr True, w')" "n \<in> set (rc_remotes cfg)"
    and "length (iter_events dec (rp_box s)) \<le> j * max 1 (nat (rc_batch cfg))"
  shows "\<not> behind cfg n (((\<lambda>s. snd (replay_once cfg s)) ^^ j) s)"
proof (rule outbox_log.drained [where enc = enc and dec = dec])
  show "rc_log cfg = \<lparr>lg_append = append_with_cursor enc, lg_after = iter_events_with_cursors dec\<rparr>"
    using assms(2) by (simp add: outbox_sink_def)
  show "codec_ok enc dec \<and> outbox_ok enc (rp_box s)" "nothing_skipped (iter_events_with_cursors dec) s"
    using replay_reaches_inv [OF assms(1-5)] assms(3) by auto
  show "length (iter_events_with_cursors dec None (rp_box s)) \<le> j * max 1 (nat (rc_batch cfg))"
    using assms(8) by (simp add: iter_events_log log_of_def)
qed (use assms in auto)

text \<open>
  Appends that overlap can lose an event. Two appends that both find a remote caught up, of
  which the second succeeds at the remote and the first does not, leave the cursor behind both: the
  events of the first are in the log, the remote does not have them, and nothing is left to replay.
\<close>

theorem overlapping_appends_lose:
  assumes "rc_log cfg = outbox_sink enc dec" "codec_ok enc dec" "outbox_ok enc (rp_box s)" "es1 \<noteq> []" "es2 \<noteq> []"
    and "(n, True) \<in> set (caught_up cfg s)"
    and "local_append cfg es1 s = (Inr (Some c1), s1)" "local_append cfg es2 s1 = (Inr (Some c2), s2)"
    and "deliver_inline cfg es1 c1 (n, True) s2 = (r3, s3)" "fst (rc_send cfg n es1 (rp_world s2)) \<noteq> Inr True"
    and "deliver_inline cfg es2 c2 (n, True) s3 = (r4, s4)" "fst (rc_send cfg n es2 (rp_world s3)) = Inr True"
    and "has_room (rp_box s2)"
  shows "iter_events dec (rp_box s4) = iter_events dec (rp_box s) @ es1 @ es2 \<and> got n s4 = got n s @ es2 \<and> \<not> behind cfg n s4"
proof -
  let ?rd = "iter_events_with_cursors dec"
  obtain b1 where b1: "append_with_cursor enc es1 (rp_box s) = (Some c1, b1)" "s1 = s\<lparr>rp_box := b1\<rparr>"
    using assms(1,7) by (auto simp: local_append_def outbox_sink_def split: prod.splits)
  obtain b2 where b2: "append_with_cursor enc es2 b1 = (Some c2, b2)" "s2 = s\<lparr>rp_box := b2\<rparr>"
    using assms(1,8) b1 by (auto simp: local_append_def outbox_sink_def split: prod.splits)
  have room: "has_room b2" "has_room b1" using assms(13) b2 has_room_grows [of b1 b2] grows_append [of b1 enc es2] by auto
  obtain ys1 where 1: "outbox_ok enc b1" "?rd None b1 = ?rd None (rp_box s) @ ys1" "map fst ys1 = es1"
    using append_log [OF assms(2,3,4) b1(1) room(2)] by (auto simp: log_of_def)
  obtain ys2 where 2: "outbox_ok enc b2" "?rd None b2 = ?rd None b1 @ ys2" "map fst ys2 = es2" "c2 = snd (last ys2)"
    using append_log [OF assms(2) 1(1) assms(5) b2(1) room(1)] by (auto simp: log_of_def)
  obtain w3 r where s3: "s3 = s2\<lparr>rp_world := w3\<rparr>" "rc_send cfg n es1 (rp_world s2) = (r, w3)" "r \<noteq> Inr True"
    using assms(9,10) by (cases "rc_send cfg n es1 (rp_world s2)"; cases "fst (rc_send cfg n es1 (rp_world s2))")
      (auto simp: deliver_inline_def remote_append_def st_try_def st_bind_def st_return_def)
  obtain w4 where w4: "rc_send cfg n es2 (rp_world s3) = (Inr True, w4)" using assms(12) by (metis prod.collapse)
  have s4: "get_cursor n s4 = Some c2" "rp_box s4 = b2" "got n s4 = got n s @ es2"
    using assms(11) w4 by (auto simp: deliver_inline_def remote_append_def st_try_def st_bind_def mark_replayed_def
        Let_def get_cursor_def got_def s3(1) b2(2))
  have "ys2 \<noteq> []" using 2(3) assms(5) by auto
  then have "up_to ?rd b2 (Some c2) (length (?rd None b2))"
    using outbox_log.rd_last [OF 2(2)] 2(4) by simp
  then have "?rd (Some c2) b2 = []"
    using outbox_log.rd_up_to [where enc = enc and dec = dec and s = b2] 2(1) assms(2) by simp
  moreover have "iter_events dec b2 = iter_events dec (rp_box s) @ es1 @ es2" using 1 2 by (simp add: iter_events_log log_of_def)
  ultimately show ?thesis using s4 assms(1) by (simp add: behind_def outbox_sink_def)
qed

section \<open>A concrete sink\<close>

text \<open>One remote, which refuses the first \<open>w\<close> batches.\<close>

definition sample_replay :: "(outbox, nat, nat, file_cursor) replay_config" where
  "sample_replay = \<lparr>rc_log = outbox_sink num_enc num_dec, rc_remotes = [''pg''],
     rc_send = (\<lambda>n es w. (Inr (w = 0), w - 1)), rc_id = (\<lambda>e. PInt (int e)), rc_clock = (\<lambda>w. ''t''), rc_batch = 2\<rparr>"

definition steady_replay :: "(outbox, unit, nat, file_cursor) replay_config" where
  "steady_replay = \<lparr>rc_log = outbox_sink num_enc num_dec, rc_remotes = [''pg''],
     rc_send = (\<lambda>n es w. (Inr True, w)), rc_id = (\<lambda>e. PInt (int e)), rc_clock = (\<lambda>w. ''t''), rc_batch = 2\<rparr>"

definition sample_behind :: "(outbox, nat, nat, file_cursor) replayer" where
  "sample_behind = snd (append_events sample_replay [1, 2, 3] (replay_start ''e'' 100 1))"

lemma sample_behind_reached: "replay_reaches sample_replay num_enc (replay_start ''e'' 100 1) sample_behind"
proof -
  define r where "r = fst (append_events sample_replay [1, 2, 3] (replay_start ''e'' 100 1))"
  have eq: "append_events sample_replay [1, 2, 3] (replay_start ''e'' 100 1) = (r, sample_behind)"
    unfolding sample_behind_def r_def by (rule prod.collapse [symmetric])
  have "replay_step sample_replay num_enc (replay_start ''e'' 100 1) sample_behind"
    by (rule step_append) (rule eq)
  then show ?thesis by (rule reach_step [OF reach_start])
qed


definition steady_behind :: "(outbox, unit, nat, file_cursor) replayer" where
  "steady_behind = restart_replay num_enc (OpTorn [1, 2, 3] 100) (replay_start ''e'' 100 ())"

lemma replay_drains_witness: "\<not> behind steady_replay ''pg'' (((\<lambda>s. snd (replay_once steady_replay s)) ^^ 2) steady_behind)"
proof (rule replay_drains [where enc = num_enc and dec = num_dec and p = "''e''" and limit = 100 and w = "()"])
  show "replay_reaches steady_replay num_enc (replay_start ''e'' 100 ()) steady_behind"
    unfolding steady_behind_def by (rule reach_step [OF reach_start step_restart]) simp
  show "has_room (rp_box steady_behind)" by code_simp
  show "length (iter_events num_dec (rp_box steady_behind)) \<le> 2 * max 1 (nat (rc_batch steady_replay))" by code_simp
qed (simp_all add: steady_replay_def num_codec)

definition overlap_state :: "nat \<Rightarrow> (outbox, nat, nat, file_cursor) replayer" where
  "overlap_state k = (let s0 = replay_start ''e'' 100 1; s1 = snd (local_append sample_replay [1] s0); s2 = snd (local_append sample_replay [2] s1);
     s3 = snd (deliver_inline sample_replay [1] (''e_000001.jsonl'', 4) (''pg'', True) s2);
     s4 = snd (deliver_inline sample_replay [2] (''e_000001.jsonl'', 8) (''pg'', True) s3)
   in [s0, s1, s2, s3, s4] ! k)"

lemma overlapping_appends_lose_witness:
  "iter_events num_dec (rp_box (overlap_state 4)) = [1, 2] \<and> got ''pg'' (overlap_state 4) = [2] \<and> \<not> behind sample_replay ''pg'' (overlap_state 4)"
proof -
  have start: "overlap_state 0 = replay_start ''e'' 100 1" by (simp add: overlap_state_def Let_def)
  have ok: "outbox_ok num_enc (rp_box (overlap_state 0))" unfolding start by (rule start_ok [THEN conjunct1]) simp
  have caught: "(''pg'', True) \<in> set (caught_up sample_replay (overlap_state 0))" by code_simp
  have steps: "local_append sample_replay [1] (overlap_state 0) = (Inr (Some (''e_000001.jsonl'', 4)), overlap_state 1)"
    "local_append sample_replay [2] (overlap_state 1) = (Inr (Some (''e_000001.jsonl'', 8)), overlap_state 2)"
    "deliver_inline sample_replay [1] (''e_000001.jsonl'', 4) (''pg'', True) (overlap_state 2) = (Inr (), overlap_state 3)"
    "fst (rc_send sample_replay ''pg'' [1] (rp_world (overlap_state 2))) \<noteq> Inr True"
    "deliver_inline sample_replay [2] (''e_000001.jsonl'', 8) (''pg'', True) (overlap_state 3) = (Inr (), overlap_state 4)"
    "fst (rc_send sample_replay ''pg'' [2] (rp_world (overlap_state 3))) = Inr True" "has_room (rp_box (overlap_state 2))"
    by code_simp+
  have none: "iter_events num_dec (rp_box (overlap_state 0)) = []" "got ''pg'' (overlap_state 0) = []" by code_simp+
  show ?thesis
    using overlapping_appends_lose [where enc = num_enc and dec = num_dec, OF _ num_codec ok _ _ caught steps(1-7)] none
    by (simp add: sample_replay_def)
qed

end
