(* ===== verification/Remediation.thy ===== *)
theory Remediation
  imports Patch Node_Gate
begin

text \<open>
  The proposer of manifest patches, \<open>agent/remediation.py\<close>: a pod that cannot be scheduled is
  classified from its spec and the scheduler's message; a toleration is proposed, located in the
  manifests of a repository and opened as a pull request, or the proposal is declined. The YAML
  reader, GitHub and the cluster are arguments. (The diff functions of that file are the ones of
  the executor, modelled in \<open>Patch\<close>.)
\<close>

section \<open>The scheduler's message\<close>

record blockers =
  bl_taint :: bool
  bl_detail :: "string option"
  bl_ports :: bool
  bl_affinity :: bool
  bl_insufficient :: "string list"

text \<open>The text in braces behind the first \<open>untolerated taint\<close> that has one.\<close>

fun taint_in :: "string \<Rightarrow> string option" where
  "taint_in [] = None"
| "taint_in (c # s) =
     (if starts_with ''untolerated taint {'' (c # s) \<and> CHR ''}'' \<in> set (drop 19 (c # s))
      then Some (takeWhile (\<lambda>x. x \<noteq> CHR ''}'') (drop 19 (c # s))) else taint_in s)"

text \<open>\<open>re.findall(r"Insufficient (\w+)", msg)\<close>.\<close>

function insufficient_in :: "string \<Rightarrow> string list" where
  "insufficient_in [] = []"
| "insufficient_in (c # s) =
     (let w = takeWhile word_char (drop 13 (c # s))
      in if starts_with ''Insufficient '' (c # s) \<and> w \<noteq> [] then w # insufficient_in (drop (13 + length w) (c # s))
         else insufficient_in s)"
  by pat_completeness auto
termination
  by (relation "measure length") auto

definition parse_unschedulable :: "string \<Rightarrow> blockers" where
  "parse_unschedulable msg =
     \<lparr>bl_taint = str_contains ''untolerated taint'' (str_lower msg),
      bl_detail = map_option str_strip (taint_in msg),
      bl_ports = str_contains ''free ports'' (str_lower msg),
      bl_affinity = str_contains ''node affinity/selector'' (str_lower msg),
      bl_insufficient = sorted_list_of_set (set (insufficient_in msg))\<rparr>"

section \<open>The decision\<close>

fun any_res :: "('a \<Rightarrow> bool res) \<Rightarrow> 'a list \<Rightarrow> bool res" where
  "any_res f [] = Inr False"
| "any_res f (x # xs) = bind_res (f x) (\<lambda>b. if b then Inr True else any_res f xs)"

definition has_host_ports :: "pydict \<Rightarrow> bool res" where
  "has_host_ports spec =
     bind_res (py_iter (pget_or spec ''containers'' (PList []))) (any_res (\<lambda>cv.
       bind_res (as_dict cv) (\<lambda>c.
       bind_res (py_iter (por (pget_or c ''ports'' (PList [])) (PList []))) (any_res (\<lambda>pv.
         bind_res (as_dict pv) (\<lambda>p. Inr (truthy (pget p ''hostPort''))))))))"

definition is_pinned :: "pydict \<Rightarrow> bool" where
  "is_pinned spec = (truthy (pget spec ''nodeSelector'') \<or> truthy (pget spec ''nodeName''))"

definition classify_pod :: "pydict \<Rightarrow> blockers \<Rightarrow> (string \<times> string) res" where
  "classify_pod spec b =
     bind_res (if \<not> bl_ports b then Inr False else if truthy (pget spec ''hostNetwork'') then Inr True else has_host_ports spec) (\<lambda>conflict.
       if conflict then Inr (''decline_port_conflict'',
         ''unschedulable is a host-port conflict on a hostNetwork/hostPort pod - '' @
         ''a node/port contention issue, not a manifest defect. Free the port on the '' @
         ''target node (move or re-port the conflicting workload) rather than patching this pod.'')
       else if is_pinned spec \<and> \<not> bl_taint b then Inr (''decline_pinned_full'',
         ''pod is pinned via nodeSelector/nodeName and its target node can'' @ CHR 0x27 # ''t fit it; '' @
         ''a toleration won'' @ CHR 0x27 # ''t help - needs capacity freed or the placement changed.'')
       else if bl_insufficient b \<noteq> [] then Inr (''decline_insufficient'',
         ''blocked by insufficient '' @ str_join '', '' (bl_insufficient b) @ ''; needs a resource '' @
         ''request/limit or node-capacity change (not yet automated).'')
       else if bl_taint b \<and> \<not> is_pinned spec \<and> \<not> bl_ports b then Inr (''propose_toleration'',
         ''pod is unschedulable only because of an untolerated taint ('' @
         (case bl_detail b of Some (c # s) \<Rightarrow> c # s | _ \<Rightarrow> ''unknown'') @ ''); propose adding a matching toleration.'')
       else Inr (''decline_unknown'',
         ''unschedulable cause isn'' @ CHR 0x27 # ''t a pattern Phase B can safely auto-propose; left for a human.''))"

definition taint_key :: "string option \<Rightarrow> string" where
  "taint_key detail = str_strip (fst (split_once CHR '':'' (case detail of None \<Rightarrow> [] | Some d \<Rightarrow> d)))"

definition quoted :: "string \<Rightarrow> string" where
  "quoted s = CHR 0x22 # s @ [CHR 0x22]"

definition render_toleration_patch :: "string option \<Rightarrow> string" where
  "render_toleration_patch detail =
     (let key = (if taint_key detail = [] then ''<taint-key>'' else taint_key detail)
      in ''tolerations:'' @ newline @ ''  - key: '' @ quoted key @ newline @
         ''    operator: '' @ quoted ''Exists'' @ newline @ ''    effect: '' @ quoted ''NoSchedule'' @ newline)"

record proposal =
  pp_kind :: string
  pp_reason :: string
  pp_confidence :: pyfloat
  pp_fix_class :: string
  pp_repo :: string
  pp_patch :: string
  pp_taint :: string
  pp_title :: string
  pp_body :: string

definition is_patch :: "proposal \<Rightarrow> bool" where
  "is_patch p = (pp_kind p = ''patch'')"

definition tick :: "string \<Rightarrow> string" where
  "tick s = CHR 0x60 # s @ [CHR 0x60]"

definition patch_body :: "string \<Rightarrow> string \<Rightarrow> string \<Rightarrow> string \<Rightarrow> string \<Rightarrow> string" where
  "patch_body namespace pod workload message patch =
     ''Automated remediation proposal (dry-run; review before merge).'' @ newline @ newline @
     ''**Finding:** pod '' @ tick (namespace @ ''/'' @ pod) @ '' is unschedulable.'' @ newline @
     ''**Scheduler:** '' @ str_strip message @ newline @ newline @
     ''**Proposed change:** add a toleration to '' @ tick workload @ '' so it can schedule on the '' @
     ''tainted node:'' @ newline @ newline @ replicate 3 CHR 0x60 @ ''yaml'' @ newline @ patch @ replicate 3 CHR 0x60 @ newline @
     ''**Why this and not something else:** the pod is not pinned to another node and the '' @
     ''*only* blocker is the untolerated taint. Verify the taint is one this workload should '' @
     ''tolerate before merging - if the taint exists to keep general workloads off that node '' @
     ''(e.g. a GPU node), close this instead.'' @ newline"

definition build_proposal :: "string \<Rightarrow> string \<Rightarrow> string \<Rightarrow> pydict \<Rightarrow> string \<Rightarrow> string \<Rightarrow> proposal res" where
  "build_proposal namespace pod workload spec message repo =
     (let b = parse_unschedulable message
      in bind_res (classify_pod spec b) (\<lambda>(dec, reason). Inr (
         if dec \<noteq> ''propose_toleration'' then
           \<lparr>pp_kind = ''decline'', pp_reason = reason, pp_confidence = (if dec = ''decline_port_conflict'' then FDec 9 (- 1) else FDec 6 (- 1)),
            pp_fix_class = dec, pp_repo = [], pp_patch = [], pp_taint = [], pp_title = [], pp_body = []\<rparr>
         else
           (let patch = render_toleration_patch (bl_detail b)
            in \<lparr>pp_kind = ''patch'', pp_reason = reason, pp_confidence = FDec 7 (- 1), pp_fix_class = ''add_toleration'', pp_repo = repo,
                pp_patch = patch, pp_taint = (case bl_detail b of None \<Rightarrow> [] | Some d \<Rightarrow> d),
                pp_title = ''[cfoperator] tolerate taint for '' @ namespace @ ''/'' @ workload,
                pp_body = patch_body namespace pod workload message patch\<rparr>))))"

section \<open>The manifest\<close>

type_synonym yaml_reader = "string \<Rightarrow> pyval list res"

definition workload_kinds :: "pyval list" where
  "workload_kinds = [PStr ''Deployment'', PStr ''StatefulSet'', PStr ''DaemonSet'']"

definition dict_docs :: "pyval list \<Rightarrow> pydict list" where
  "dict_docs vs = map dict_or_empty (filter is_pdict vs)"

definition doc_matches :: "string \<Rightarrow> string \<Rightarrow> pydict \<Rightarrow> bool res" where
  "doc_matches workload namespace d =
     (if pget d ''kind'' \<notin> set workload_kinds then Inr False
      else bind_res (as_dict (por (pget d ''metadata'') (PDict []))) (\<lambda>m. Inr (
        pget m ''name'' = PStr workload \<and>
        \<not> (truthy (pget m ''namespace'') \<and> namespace \<noteq> [] \<and> pget m ''namespace'' \<noteq> PStr namespace))))"

definition manifest_matches :: "yaml_reader \<Rightarrow> string \<Rightarrow> string \<Rightarrow> string \<Rightarrow> bool res" where
  "manifest_matches load text workload namespace = (case load text of
     Inl _ \<Rightarrow> Inr False
   | Inr docs \<Rightarrow> any_res (doc_matches workload namespace) (dict_docs docs))"

text \<open>The indent of a line that holds \<open>containers:\<close> alone, and the most indented such line, the last of them.\<close>

definition containers_indent :: "string \<Rightarrow> string option" where
  "containers_indent l =
     (let r = dropWhile py_space l
      in if r \<noteq> l \<and> starts_with ''containers:'' r \<and> list_all py_space (drop 11 r) then Some (takeWhile py_space l) else None)"

fun deepest :: "nat \<Rightarrow> string list \<Rightarrow> (nat \<times> string) option \<Rightarrow> (nat \<times> string) option" where
  "deepest i [] best = best"
| "deepest i (l # ls) best =
     deepest (Suc i) ls (case containers_indent l of
        None \<Rightarrow> best
      | Some ind \<Rightarrow> (case best of
          None \<Rightarrow> Some (i, ind)
        | Some (j, ind') \<Rightarrow> if length ind' \<le> length ind then Some (i, ind) else best))"

definition find_pod_containers :: "string list \<Rightarrow> (nat \<times> string) option" where
  "find_pod_containers ls = deepest 0 ls None"

definition toleration_block :: "string \<Rightarrow> string \<Rightarrow> string list" where
  "toleration_block ind key =
     [ind @ ''tolerations:'', ind @ ''  - key: '' @ quoted key, ind @ ''    operator: '' @ quoted ''Exists'',
      ind @ ''    effect: '' @ quoted ''NoSchedule'']"

definition pod_template :: "pydict \<Rightarrow> pydict res" where
  "pod_template d = bind_res (dig d [''spec'', ''template'', ''spec'']) (\<lambda>v. as_dict (por v (PDict [])))"

definition first_workload :: "pydict list \<Rightarrow> pydict option" where
  "first_workload ds = find (\<lambda>d. pget d ''kind'' \<in> set workload_kinds) ds"

definition has_toleration :: "string \<Rightarrow> pyval \<Rightarrow> bool res" where
  "has_toleration key tols =
     (if \<not> truthy tols then Inr False
      else bind_res (py_iter tols) (\<lambda>ts. Inr (\<exists>t \<in> set (dict_docs ts). pget t ''key'' = PStr key)))"

text \<open>The text with the lines added, and the check that the reader finds the toleration in it.\<close>

definition with_toleration :: "string \<Rightarrow> nat \<Rightarrow> string \<Rightarrow> string \<Rightarrow> string" where
  "with_toleration text i ind key =
     (let ls = split_lines text
      in str_join newline (take i ls @ toleration_block ind key @ drop i ls) @ (if ends_with newline text then newline else []))"

definition insert_toleration :: "yaml_reader \<Rightarrow> string \<Rightarrow> string \<Rightarrow> string option res" where
  "insert_toleration load text key =
     (let ls = split_lines text
      in case find_pod_containers ls of
           None \<Rightarrow> Inr None
         | Some (i, ind) \<Rightarrow>
             (let new = with_toleration text i ind key
              in case load new of
                   Inl _ \<Rightarrow> Inr None
                 | Inr docs \<Rightarrow>
                     bind_res (pod_template (case first_workload (dict_docs docs) of None \<Rightarrow> [] | Some d \<Rightarrow> d)) (\<lambda>spec.
                     bind_res (has_toleration key (pget spec ''tolerations'')) (\<lambda>there. Inr (if there then Some new else None)))))"

definition apply_toleration :: "yaml_reader \<Rightarrow> string \<Rightarrow> string \<Rightarrow> string option res" where
  "apply_toleration load text taint =
     (let key = taint_key (Some taint)
      in if key = [] then Inr None
         else (case load text of
             Inl _ \<Rightarrow> Inr None
           | Inr docs \<Rightarrow> (case first_workload (dict_docs docs) of
               None \<Rightarrow> Inr None
             | Some d \<Rightarrow> if d = [] then Inr None
                 else bind_res (pod_template d) (\<lambda>spec.
                   if \<not> truthy (pget spec ''containers'') \<or> truthy (pget spec ''tolerations'') then Inr None
                   else insert_toleration load text key))))"

section \<open>Finding the manifest\<close>

text \<open>Requests of this client carry their query parameters beside the path.\<close>

definition get_params :: "string \<Rightarrow> pydict \<Rightarrow> gh_request" where
  "get_params path params = (''GET'', path, Some params)"

definition fetch_file :: "'w github \<Rightarrow> codecs \<Rightarrow> string \<Rightarrow> string \<Rightarrow> string \<Rightarrow> ('w hub, (string \<times> pyval) option) op" where
  "fetch_file gh cd repo path ref =
     st_bind (hub_request gh (get_params (''/repos/'' @ repo @ ''/contents/'' @ path) [(''ref'', PStr ref)])) (\<lambda>r.
       if \<not> succeeded r then st_return None
       else st_bind (st_lift (as_dict (por (pget r ''data'') (PDict [])))) (\<lambda>d.
         if pget d ''encoding'' = PStr ''base64'' \<and> truthy (pget d ''content'') then
           st_bind (st_lift (cd_decode cd (pget d ''content''))) (\<lambda>text. st_return (Some (text, pget d ''sha'')))
         else st_return None))"

definition yaml_path :: "string \<Rightarrow> bool" where
  "yaml_path p = (let q = (if ends_with newline p then butlast p else p) in ends_with ''.yml'' q \<or> ends_with ''.yaml'' q)"

definition tree_paths :: "pyval \<Rightarrow> string list res" where
  "tree_paths tree =
     bind_res (py_iter tree) (\<lambda>items. bind_res (map_res as_dict items) (\<lambda>ds.
     bind_res (map_res (\<lambda>d. case pget_or d ''path'' (PStr []) of
         PStr p \<Rightarrow> Inr (if yaml_path p then [p] else []) | _ \<Rightarrow> type_error ''expected string or bytes-like object'')
       (filter (\<lambda>d. pget d ''type'' = PStr ''blob'') ds)) (\<lambda>ps. Inr (concat ps))))"

definition path_rank :: "string \<Rightarrow> string \<Rightarrow> nat" where
  "path_rank wl p =
     (if str_contains wl (str_lower (last (split_char CHR ''/'' p))) then 0 else if str_contains wl (str_lower p) then 1 else 2)"

fun try_paths ::
  "'w github \<Rightarrow> codecs \<Rightarrow> yaml_reader \<Rightarrow> string \<Rightarrow> string \<Rightarrow> string \<Rightarrow> string \<Rightarrow> string list \<Rightarrow> ('w hub, (string \<times> string \<times> pyval) option) op" where
  "try_paths gh cd load repo workload namespace base [] = st_return None"
| "try_paths gh cd load repo workload namespace base (p # ps) =
     (if \<not> str_contains (str_lower workload) (str_lower p) then st_return None
      else st_bind (fetch_file gh cd repo p base) (\<lambda>got. case got of
          None \<Rightarrow> try_paths gh cd load repo workload namespace base ps
        | Some (text, sha) \<Rightarrow>
            st_bind (st_lift (manifest_matches load text workload namespace)) (\<lambda>m.
              if m then st_return (Some (p, text, sha)) else try_paths gh cd load repo workload namespace base ps)))"

definition locate_manifest ::
  "'w github \<Rightarrow> codecs \<Rightarrow> yaml_reader \<Rightarrow> string \<Rightarrow> string \<Rightarrow> string \<Rightarrow> string \<Rightarrow> ('w hub, (string \<times> string \<times> pyval) option) op" where
  "locate_manifest gh cd load repo workload namespace base =
     st_bind (hub_request gh (''GET'', ''/repos/'' @ repo @ ''/branches/'' @ base, None)) (\<lambda>br.
       if \<not> succeeded br then st_return None
       else st_bind (st_lift (dig br [''data'', ''commit'', ''commit'', ''tree'', ''sha''])) (\<lambda>sha.
         if \<not> truthy sha then st_return None
         else st_bind (hub_request gh (get_params (''/repos/'' @ repo @ ''/git/trees/'' @ py_str sha) [(''recursive'', PStr ''1'')])) (\<lambda>tr.
           if \<not> succeeded tr then st_return None
           else st_bind (st_lift (bind_res (as_dict (por (pget tr ''data'') (PDict []))) (\<lambda>d. tree_paths (pget_or d ''tree'' (PList []))))) (\<lambda>paths.
             try_paths gh cd load repo workload namespace base (take 8 (sort_key (path_rank (str_lower workload)) paths))))))"

section \<open>The proposer\<close>

record proposer =
  pr_repos :: "pydict list"
  pr_open :: bool
  pr_default :: string
  pr_max :: int

text \<open>The first repository of a name.\<close>

definition repo_named :: "proposer \<Rightarrow> string \<Rightarrow> pydict option" where
  "repo_named c name = find (\<lambda>r. pget r ''name'' = PStr name) (pr_repos c)"

definition repo_slug :: "proposer \<Rightarrow> string \<Rightarrow> pyval" where
  "repo_slug c name = (case repo_named c name of None \<Rightarrow> PStr [] | Some r \<Rightarrow> pget_or r ''github'' (PStr []))"

definition base_branch :: "proposer \<Rightarrow> string \<Rightarrow> string" where
  "base_branch c name = (case repo_named c name of None \<Rightarrow> ''main'' | Some r \<Rightarrow> py_str (por (pget r ''branch'') (PStr ''main'')))"

definition branch_name :: "string \<Rightarrow> string \<Rightarrow> string" where
  "branch_name namespace workload = ''cfop/remediate-'' @ slug (namespace @ ''-'' @ workload)"

definition pulls_request :: "string \<Rightarrow> gh_request" where
  "pulls_request repo = get_params (''/repos/'' @ repo @ ''/pulls'') [(''state'', PStr ''open''), (''per_page'', PStr ''100'')]"

text \<open>The open remediation pull requests an answer shows; a failed request shows none.\<close>

definition count_open :: "pydict \<Rightarrow> nat res" where
  "count_open r =
     (if \<not> succeeded r then Inr 0
      else bind_res (py_iter (por (pget r ''data'') (PList []))) (\<lambda>prs.
        bind_res (map_res (\<lambda>v. bind_res (as_dict v) (\<lambda>d. bind_res (dig d [''head'', ''ref'']) (\<lambda>ref. Inr
            (starts_with ''cfop/remediate-'' (py_str (por ref (PStr []))))))) prs) (\<lambda>bs. Inr (length (filter id bs)))))"

definition volume_guards :: "proposer \<Rightarrow> 'w github \<Rightarrow> string \<Rightarrow> string \<Rightarrow> ('w hub, pydict option) op" where
  "volume_guards c gh repo branch =
     st_bind (hub_request gh (ref_request repo branch)) (\<lambda>existing.
       if succeeded existing then
         st_return (Some (pr_status ''skipped'' ''remediation branch already exists'' @ [(''branch'', PStr branch)]))
       else if pr_max c < 0 then st_return None
       else st_bind (hub_request gh (pulls_request repo)) (\<lambda>r. st_bind (st_lift (count_open r)) (\<lambda>n.
         st_return (if int n \<ge> pr_max c
           then Some (pr_status ''capped'' (''already at the open remediation PR cap ('' @ int_str (pr_max c) @ '')'')) else None))))"

definition commit_and_open_pr ::
  "'w github \<Rightarrow> codecs \<Rightarrow> string \<Rightarrow> string \<Rightarrow> string \<Rightarrow> string \<Rightarrow> string \<Rightarrow> pyval \<Rightarrow> string \<Rightarrow> string \<Rightarrow> ('w hub, pydict) op" where
  "commit_and_open_pr gh cd repo base branch path patched file_sha title body =
     st_bind (hub_request gh (ref_request repo base)) (\<lambda>head.
     st_bind (st_lift (if succeeded head then dig head [''data'', ''object'', ''sha''] else Inr PNone)) (\<lambda>head_sha.
       if \<not> truthy head_sha then st_return (pr_status ''error'' (''could not read base ref '' @ base))
       else write_pr gh cd repo base branch path title body patched file_sha head_sha))"

definition open_pr ::
  "proposer \<Rightarrow> 'w github \<Rightarrow> codecs \<Rightarrow> yaml_reader \<Rightarrow> proposal \<Rightarrow> string \<Rightarrow> string \<Rightarrow> ('w hub, pydict option) op" where
  "open_pr c gh cd load p namespace workload =
     (if \<not> pr_open c \<or> \<not> is_patch p then st_return None
      else if pp_repo p = [] then st_return (Some (pr_status ''error'' ''no repo configured for patch''))
      else let repo = pp_repo p; base = base_branch c (pr_default c); branch = branch_name namespace workload in
        st_bind (volume_guards c gh repo branch) (\<lambda>blocked. if blocked \<noteq> None then st_return blocked
        else st_bind (locate_manifest gh cd load repo workload namespace base) (\<lambda>located. case located of
          None \<Rightarrow> st_return (Some (pr_status ''declined'' ''could not locate the owning manifest''))
        | Some (path, text, file_sha) \<Rightarrow>
            if is_secret_path path then
              st_return (Some (pr_status ''refused'' (''won'' @ CHR 0x27 # ''t patch secret-bearing file: '' @ path)))
            else st_bind (st_lift (apply_toleration load text (pp_taint p))) (\<lambda>patched. case patched of
                None \<Rightarrow> st_return (Some (pr_status ''declined'' ''could not generate a safe patch''))
              | Some new \<Rightarrow>
                  if new = [] \<or> new = text then st_return (Some (pr_status ''declined'' ''could not generate a safe patch''))
                  else st_bind (commit_and_open_pr gh cd repo base branch path new file_sha (pp_title p) (pp_body p)) (\<lambda>r. st_return (Some r))))))"

definition open_deep_pr ::
  "proposer \<Rightarrow> 'w github \<Rightarrow> codecs \<Rightarrow> string \<Rightarrow> string \<Rightarrow> string \<Rightarrow> string \<Rightarrow> ('w hub, pydict option) op" where
  "open_deep_pr c gh cd diff_text title body dedupe_key =
     (if \<not> pr_open c then st_return None
      else if \<not> truthy (repo_slug c (pr_default c)) then st_return (Some (pr_status ''error'' ''no repo configured for patch''))
      else (case parse_unified_diff diff_text of
          None \<Rightarrow> st_return (Some (pr_status ''declined'' ''not a clean single-file unified diff''))
        | Some (path, hunks) \<Rightarrow>
            if is_secret_path path then
              st_return (Some (pr_status ''refused'' (''won'' @ CHR 0x27 # ''t patch secret-bearing file: '' @ path)))
            else let repo = py_str (repo_slug c (pr_default c)); base = base_branch c (pr_default c);
                branch = ''cfop/remediate-'' @ slug (''deep-'' @ dedupe_key) in
              st_bind (volume_guards c gh repo branch) (\<lambda>blocked. if blocked \<noteq> None then st_return blocked
              else st_bind (fetch_file gh cd repo path base) (\<lambda>got. case got of
                None \<Rightarrow> st_return (Some (pr_status ''declined'' (''could not fetch '' @ path @ '' at '' @ base)))
              | Some (text, file_sha) \<Rightarrow> (case apply_unified_diff text hunks of
                  None \<Rightarrow> st_return (Some (pr_status ''declined'' ''diff does not apply cleanly to the current file''))
                | Some new \<Rightarrow>
                    if new = [] \<or> new = text then
                      st_return (Some (pr_status ''declined'' ''diff does not apply cleanly to the current file''))
                    else st_bind (commit_and_open_pr gh cd repo base branch path new file_sha title body) (\<lambda>r. st_return (Some r)))))))"

section \<open>From a pod to a proposal\<close>

record kube =
  kb_events :: "string \<Rightarrow> pydict res"
  kb_status :: "string \<Rightarrow> string \<Rightarrow> pydict res"
  kb_describe :: "string \<Rightarrow> string \<Rightarrow> pyval res"

text \<open>\<open>needle in v\<close>.\<close>

definition contained :: "string \<Rightarrow> pyval \<Rightarrow> bool res" where
  "contained needle v = (case v of
     PStr s \<Rightarrow> Inr (str_contains needle s)
   | PList xs \<Rightarrow> Inr (PStr needle \<in> set xs)
   | PDict d \<Rightarrow> Inr (has_key d needle)
   | _ \<Rightarrow> type_error (''argument of type '' @ CHR 0x27 # type_name v @ [CHR 0x27] @ '' is not iterable''))"

text \<open>The message an event contributes, if any.\<close>

definition event_message :: "string \<Rightarrow> pyval \<Rightarrow> pyval option res" where
  "event_message pod v = (case v of
     PDict e \<Rightarrow>
       (let msg = pget_or e ''message'' (PStr []); failed = (pget_or e ''reason'' (PStr []) = PStr ''FailedScheduling'')
        in bind_res (if failed then Inr True else contained ''nodes are available'' msg) (\<lambda>about.
          if \<not> about then Inr None
          else bind_res (as_dict (por (pget e ''involvedObject'') (PDict []))) (\<lambda>obj.
            let involved = por (pget_or obj ''name'' (PStr [])) (pget_or e ''name'' (PStr []))
            in Inr (if pod \<noteq> [] \<and> truthy involved \<and> involved \<noteq> PStr pod then None
                    else Some (por msg (PStr (py_str v)))))))
   | _ \<Rightarrow> Inr (if str_contains ''nodes are available'' (py_str v) then Some (PStr (py_str v)) else None))"

definition scheduler_message :: "kube \<Rightarrow> string \<Rightarrow> string \<Rightarrow> pyval res" where
  "scheduler_message k namespace pod = (case kb_events k namespace of
     Inl _ \<Rightarrow> Inr (PStr [])
   | Inr ev \<Rightarrow>
       bind_res (py_iter (por (por (pget ev ''events'') (pget ev ''items'')) (PList []))) (\<lambda>items.
       bind_res (map_res (event_message pod) items) (\<lambda>ms.
         let msgs = map the (filter (\<lambda>m. m \<noteq> None) ms) in Inr (if msgs = [] then PStr [] else last msgs))))"

text \<open>\<open>a\<close>, white space, \<open>b\<close>, anywhere in the text.\<close>

fun spaced :: "string \<Rightarrow> string \<Rightarrow> string \<Rightarrow> bool" where
  "spaced a b [] = False"
| "spaced a b (c # s) = (starts_with a (c # s) \<and> starts_with b (dropWhile py_space (drop (length a) (c # s))) \<or> spaced a b s)"

fun selector_shown :: "string \<Rightarrow> bool" where
  "selector_shown [] = False"
| "selector_shown (c # s) = (starts_with ''Node-Selectors:'' (c # s) \<and> dropWhile py_space (drop 15 (c # s)) \<noteq> [] \<or> selector_shown s)"

definition spec_of_text :: "string \<Rightarrow> pydict" where
  "spec_of_text s =
     (if spaced ''host network:'' ''true'' (str_lower s) \<or> spaced ''hostnetwork:'' ''true'' (str_lower s)
      then [(''hostNetwork'', PBool True)] else []) @
     (if selector_shown s \<and> \<not> spaced ''node-selectors:'' ''<none>'' (str_lower s)
      then [(''nodeSelector'', PDict [(''_present'', PStr ''true'')])] else [])"

definition fetch_pod_spec :: "kube \<Rightarrow> string \<Rightarrow> string \<Rightarrow> pydict res" where
  "fetch_pod_spec k namespace pod = (case kb_describe k pod namespace of
     Inl _ \<Rightarrow> Inr []
   | Inr (PDict d) \<Rightarrow> (case pget_or d ''output'' (PStr []) of
       PStr s \<Rightarrow> Inr (spec_of_text s) | _ \<Rightarrow> type_error ''expected string or bytes-like object'')
   | Inr v \<Rightarrow> Inr (spec_of_text (py_str v)))"

definition propose_for :: "proposer \<Rightarrow> kube \<Rightarrow> string \<Rightarrow> string \<Rightarrow> string \<Rightarrow> proposal option res" where
  "propose_for c k namespace pod workload = (case kb_status k namespace pod of
     Inl _ \<Rightarrow> Inr None
   | Inr status \<Rightarrow>
       if \<not> truthy (pget status ''success'') \<or> pget status ''phase'' \<noteq> PStr ''Pending'' then Inr None
       else bind_res (scheduler_message k namespace pod) (\<lambda>message.
         if \<not> truthy message then Inr None
         else bind_res (fetch_pod_spec k namespace pod) (\<lambda>spec. case message of
             PStr m \<Rightarrow> bind_res (build_proposal namespace pod (if workload = [] then pod else workload) spec m
                (py_str (repo_slug c (pr_default c)))) (\<lambda>p. Inr (Some p))
           | _ \<Rightarrow> type_error ''expected string or bytes-like object'')))"

section \<open>When a toleration is proposed\<close>

lemma proposed_iff:
  "classify_pod spec b = Inr (''propose_toleration'', reason) \<Longrightarrow>
     bl_taint b \<and> \<not> bl_ports b \<and> bl_insufficient b = [] \<and> \<not> is_pinned spec"
  by (auto simp: classify_pod_def bind_res_Inr_iff split: if_splits)

text \<open>
  When a patch is proposed. A patch is proposed only for a message that names an untolerated
  taint and no port conflict or missing resource, and for a pod that is not pinned; it adds the
  toleration of that taint. Every other pod gets a decline.
\<close>

theorem toleration_only_when_alone:
  assumes "build_proposal namespace pod workload spec message repo = Inr p" "is_patch p"
  shows "str_contains ''untolerated taint'' (str_lower message) \<and> \<not> str_contains ''free ports'' (str_lower message) \<and>
    insufficient_in message = [] \<and> \<not> is_pinned spec \<and>
    pp_patch p = render_toleration_patch (map_option str_strip (taint_in message)) \<and> pp_repo p = repo"
proof -
  let ?b = "parse_unschedulable message"
  obtain reason where c: "classify_pod spec ?b = Inr (''propose_toleration'', reason)"
    and p: "pp_patch p = render_toleration_patch (bl_detail ?b)" "pp_repo p = repo"
    using assms by (auto simp: build_proposal_def is_patch_def Let_def bind_res_Inr_iff split: if_splits)
  have "finite (set (insufficient_in message))" by simp
  then have "sorted_list_of_set (set (insufficient_in message)) = [] \<longleftrightarrow> insufficient_in message = []" by simp
  then show ?thesis using proposed_iff [OF c] p by (simp add: parse_unschedulable_def)
qed

text \<open>
  The rest of the message is not looked at: with the taint alone in the way or not, the same patch
  is proposed, as the message of a pod that also fails its node affinity shows.
\<close>

lemma affinity_not_considered:
  "\<exists>p. build_proposal ''default'' ''web-1'' ''web'' [] (''untolerated taint {gpu}, '' @ ''node affinity/selector'') ''o/r'' = Inr p \<and> is_patch p"
proof -
  have "(case build_proposal ''default'' ''web-1'' ''web'' [] (''untolerated taint {gpu}, '' @ ''node affinity/selector'') ''o/r'' of Inr p \<Rightarrow> is_patch p | Inl _ \<Rightarrow> False)"
    by code_simp
  then show ?thesis by (auto split: sum.splits)
qed

definition sample_message :: string where
  "sample_message = ''untolerated taint {gpu: x}''"

definition sample_proposal :: proposal where
  "sample_proposal = (case build_proposal ''ns'' ''p-1'' ''p'' [] sample_message ''o/r'' of Inr p \<Rightarrow> p)"

lemma toleration_only_when_alone_witness:
  "insufficient_in sample_message = [] \<and> \<not> is_pinned [] \<and> pp_patch sample_proposal = render_toleration_patch (Some ''gpu: x'')"
proof -
  have b: "build_proposal ''ns'' ''p-1'' ''p'' [] sample_message ''o/r'' = Inr sample_proposal \<and> is_patch sample_proposal"
    by code_simp
  have d: "map_option str_strip (taint_in sample_message) = Some ''gpu: x''" by code_simp
  show ?thesis using toleration_only_when_alone [OF conjunct1 [OF b] conjunct2 [OF b]] d by simp
qed

section \<open>The inserted lines\<close>

lemma deepest_indent:
  "deepest i ls best = Some (j, ind) \<Longrightarrow> best = Some (j, ind) \<or> (i \<le> j \<and> j < i + length ls \<and> containers_indent (ls ! (j - i)) = Some ind)"
proof (induction i ls best rule: deepest.induct)
  case (2 i l ls best)
  then show ?case by (fastforce simp: nth_Cons' split: option.splits prod.splits if_splits)
qed simp

text \<open>
  A toleration is an insertion. The patched manifest is the manifest with the four lines of the
  toleration put in front of a line that holds \<open>containers:\<close>, at its indent, and nothing else
  changed; and the reader finds the toleration, which was not there before, in the pod template
  of the first workload of the file.
\<close>

theorem toleration_is_insertion:
  assumes "apply_toleration load text taint = Inr (Some new)"
  shows "\<exists>i ind docs docs' spec spec' d. containers_indent (split_lines text ! i) = Some ind \<and> i < length (split_lines text) \<and>
    new = str_join newline (take i (split_lines text) @ toleration_block ind (taint_key (Some taint)) @ drop i (split_lines text)) @
      (if ends_with newline text then newline else []) \<and>
    load text = Inr docs \<and> first_workload (dict_docs docs) = Some d \<and> pod_template d = Inr spec \<and> \<not> truthy (pget spec ''tolerations'') \<and>
    load new = Inr docs' \<and> pod_template (case first_workload (dict_docs docs') of None \<Rightarrow> [] | Some d \<Rightarrow> d) = Inr spec' \<and>
    has_toleration (taint_key (Some taint)) (pget spec' ''tolerations'') = Inr True"
proof -
  let ?key = "taint_key (Some taint)"
  obtain docs d spec where 1: "load text = Inr docs" "first_workload (dict_docs docs) = Some d" "pod_template d = Inr spec"
    "\<not> truthy (pget spec ''tolerations'')" and ins: "insert_toleration load text ?key = Inr (Some new)"
    using assms by (auto simp: apply_toleration_def Let_def bind_res_Inr_iff split: if_splits sum.splits option.splits)
  obtain i ind where 2: "find_pod_containers (split_lines text) = Some (i, ind)"
    using ins by (auto simp: insert_toleration_def Let_def split: option.splits)
  have 3: "i < length (split_lines text) \<and> containers_indent (split_lines text ! i) = Some ind"
    using deepest_indent [of 0 "split_lines text" None i ind] 2 by (simp add: find_pod_containers_def)
  obtain docs' spec' where "with_toleration text i ind ?key = new" "load new = Inr docs'"
    "pod_template (case first_workload (dict_docs docs') of None \<Rightarrow> [] | Some d \<Rightarrow> d) = Inr spec'"
    "has_toleration ?key (pget spec' ''tolerations'') = Inr True"
    using ins 2 by (auto simp: insert_toleration_def Let_def bind_res_Inr_iff split: sum.splits if_splits)
  then show ?thesis using 1 3 unfolding with_toleration_def Let_def by blast
qed

text \<open>A reader that knows one manifest with and without the toleration.\<close>

definition sample_manifest :: string where
  "sample_manifest = ''kind: Deployment'' @ newline @ ''  containers:'' @ newline @ ''  - name: web'' @ newline"

definition sample_doc :: "pyval \<Rightarrow> pyval" where
  "sample_doc tolerations = PDict [(''kind'', PStr ''Deployment''), (''spec'', PDict [(''template'', PDict [(''spec'',
     PDict [(''containers'', PList [PDict [(''name'', PStr ''web'')]]), (''tolerations'', tolerations)])])])]"

definition sample_reader :: yaml_reader where
  "sample_reader s = (if s = sample_manifest then Inr [sample_doc PNone]
     else if s = with_toleration sample_manifest 1 ''  '' ''gpu'' then Inr [sample_doc (PList [PDict [(''key'', PStr ''gpu'')]])]
     else value_error ''not yaml'')"

lemma toleration_is_insertion_witness:
  "\<exists>i ind. containers_indent (split_lines sample_manifest ! i) = Some ind \<and> i < 3 \<and>
     with_toleration sample_manifest 1 ''  '' ''gpu'' =
       str_join newline (take i (split_lines sample_manifest) @ toleration_block ind ''gpu'' @ drop i (split_lines sample_manifest)) @ newline"
proof -
  have a: "apply_toleration sample_reader sample_manifest ''gpu: x'' = Inr (Some (with_toleration sample_manifest 1 ''  '' ''gpu''))" by code_simp
  have "taint_key (Some ''gpu: x'') = ''gpu''" "length (split_lines sample_manifest) = 3" "ends_with newline sample_manifest" by code_simp+
  then show ?thesis using toleration_is_insertion [OF a] by auto
qed

section \<open>The guards of a pull request\<close>

text \<open>Only reads are sent; or reads and then writes that \<open>W\<close> allows.\<close>

definition reads_only :: "('w hub, 'a) op \<Rightarrow> bool" where
  "reads_only m = (\<forall>s. \<exists>rds. hb_sent (snd (m s)) = hb_sent s @ rds \<and> list_all (\<lambda>q. fst q = ''GET'') rds)"

definition writes_only :: "(gh_request list \<Rightarrow> bool) \<Rightarrow> ('w hub, 'a) op \<Rightarrow> bool" where
  "writes_only W m = (\<forall>s. \<exists>rds ws. hb_sent (snd (m s)) = hb_sent s @ rds @ ws \<and> list_all (\<lambda>q. fst q = ''GET'') rds \<and> (ws = [] \<or> W ws))"

lemma reads_simps [simp]: "reads_only (st_return x)" "reads_only (st_lift r)"
  by (simp_all add: reads_only_def st_defs)

lemma reads_request: "fst q = ''GET'' \<Longrightarrow> reads_only (hub_request gh q)"
  by (simp add: reads_only_def hub_request_eq)

lemma get_params_GET [simp]: "fst (get_params p ps) = ''GET''" "fst (pulls_request repo) = ''GET''"
  by (simp_all add: get_params_def pulls_request_def)

lemma writes_bind:
  assumes "reads_only m" "\<And>x s t. m s = (Inr x, t) \<Longrightarrow> writes_only W (f x)"
  shows "writes_only W (st_bind m f)"
  unfolding writes_only_def
proof
  fix s
  obtain r t where m: "m s = (r, t)" by fastforce
  obtain a where a: "hb_sent t = hb_sent s @ a" "list_all (\<lambda>q. fst q = ''GET'') a"
    using assms(1) m unfolding reads_only_def by (metis snd_conv)
  show "\<exists>rds ws. hb_sent (snd (st_bind m f s)) = hb_sent s @ rds @ ws \<and> list_all (\<lambda>q. fst q = ''GET'') rds \<and> (ws = [] \<or> W ws)"
  proof (cases r)
    case (Inl e)
    then show ?thesis using a m by (intro exI [of _ a] exI [of _ "[]"]) (simp add: st_bind_def)
  next
    case (Inr x)
    obtain b ws where "hb_sent (snd (f x t)) = hb_sent t @ b @ ws" "list_all (\<lambda>q. fst q = ''GET'') b" "ws = [] \<or> W ws"
      using assms(2) m Inr unfolding writes_only_def by blast
    then show ?thesis using a m Inr by (intro exI [of _ "a @ b"] exI [of _ ws]) (simp add: st_bind_def)
  qed
qed

lemma reads_as_writes: "reads_only m \<longleftrightarrow> writes_only (\<lambda>_. False) m"
  by (simp add: reads_only_def writes_only_def)

lemma reads_bind: "reads_only m \<Longrightarrow> (\<And>x. reads_only (f x)) \<Longrightarrow> reads_only (st_bind m f)"
  unfolding reads_as_writes [of "f _"] reads_as_writes [of "st_bind m f"] by (rule writes_bind)

lemma writes_reads: "reads_only m \<Longrightarrow> writes_only W m"
  unfolding reads_only_def writes_only_def by (metis append_Nil2)

lemma writes_plain [simp]: "writes_only W (st_return x)" "writes_only W (st_lift r)"
  by (rule writes_reads; simp)+

lemma writes_then_return:
  assumes "writes_only W m"
  shows "writes_only W (st_bind m (\<lambda>r. st_return (g r)))"
proof -
  have "hb_sent (snd (st_bind m (\<lambda>r. st_return (g r)) s)) = hb_sent (snd (m s))" for s
    by (simp add: st_bind_def st_return_def split: prod.splits sum.splits)
  then show ?thesis using assms by (simp add: writes_only_def)
qed

lemma fetch_file_reads: "reads_only (fetch_file gh cd repo path ref)"
  unfolding fetch_file_def by (auto intro!: reads_bind reads_request)

lemma try_paths_reads: "reads_only (try_paths gh cd load repo workload namespace base ps)"
  by (induction ps) (auto intro!: reads_bind fetch_file_reads split: option.splits)

lemma locate_reads: "reads_only (locate_manifest gh cd load repo workload namespace base)"
  unfolding locate_manifest_def by (auto intro!: reads_bind reads_request try_paths_reads)

lemma guards_read: "reads_only (volume_guards c gh repo branch)"
  unfolding volume_guards_def by (auto intro!: reads_bind reads_request)

lemma try_paths_found:
  "try_paths gh cd load repo workload namespace base ps s = (Inr (Some (p, text, sha)), t) \<Longrightarrow>
     manifest_matches load text workload namespace = Inr True"
proof (induction ps arbitrary: s)
  case (Cons a ps)
  then show ?case
    by (auto simp: st_bind_def st_return_def st_lift_def split: prod.splits sum.splits if_splits option.splits)
qed (simp add: st_return_def)

lemma located:
  "locate_manifest gh cd load repo workload namespace base s = (Inr (Some (p, text, sha)), t) \<Longrightarrow>
     manifest_matches load text workload namespace = Inr True"
  by (auto simp: locate_manifest_def st_bind_def st_return_def st_lift_def split: prod.splits sum.splits if_splits dest: try_paths_found)

text \<open>The reads that come before a pull request.\<close>

lemmas guarded_binds = writes_bind [OF guards_read] writes_bind [OF locate_reads] writes_bind [OF fetch_file_reads]
  writes_bind [OF reads_simps(2)]

text \<open>The branch was reported absent, and the open pull requests fewer than the cap, if there is one.\<close>

definition below_cap :: "proposer \<Rightarrow> 'w github \<Rightarrow> string \<Rightarrow> string \<Rightarrow> bool" where
  "below_cap c gh repo branch =
     ((\<exists>w r. fst (gh (ref_request repo branch) w) = Inr r \<and> \<not> succeeded r) \<and>
      (pr_max c < 0 \<or> (\<exists>w r n. fst (gh (pulls_request repo) w) = Inr r \<and> count_open r = Inr n \<and> int n < pr_max c)))"

lemma guards_passed:
  assumes "volume_guards c gh repo branch s = (Inr None, t)"
  shows "below_cap c gh repo branch"
proof -
  obtain r1 s1 where 1: "hub_request gh (ref_request repo branch) s = (Inr r1, s1)" "\<not> succeeded r1"
    using assms by (auto simp: volume_guards_def st_bind_def st_return_def split: prod.splits sum.splits if_splits)
  then have a: "fst (gh (ref_request repo branch) (hb_world s)) = Inr r1" by (simp add: hub_request_eq)
  show ?thesis
  proof (cases "pr_max c < 0")
    case False
    obtain r2 s2 n where 2: "hub_request gh (pulls_request repo) s1 = (Inr r2, s2)" "count_open r2 = Inr n" "int n < pr_max c"
      using assms 1 False by (auto simp: volume_guards_def st_bind_def st_return_def st_lift_def split: prod.splits sum.splits if_splits)
    then have "fst (gh (pulls_request repo) (hb_world s1)) = Inr r2" by (simp add: hub_request_eq)
    then show ?thesis unfolding below_cap_def using a 1(2) 2(2,3) by blast
  qed (use a 1(2) in \<open>auto simp: below_cap_def\<close>)
qed

text \<open>The three writes of one pull request, or the first of them.\<close>

definition pr_writes :: "codecs \<Rightarrow> string \<Rightarrow> string \<Rightarrow> string \<Rightarrow> string \<Rightarrow> string \<Rightarrow> string \<Rightarrow> string \<Rightarrow> gh_request list \<Rightarrow> bool" where
  "pr_writes cd repo base branch path new title body ws = (\<exists>k sha head_sha.
     ws = take k [branch_request repo branch head_sha, commit_request cd repo branch path title new sha, pull_request repo branch base title body])"

lemma commit_writes:
  assumes "\<And>ws. pr_writes cd repo base branch path new title body ws \<Longrightarrow> W ws"
  shows "writes_only W (commit_and_open_pr gh cd repo base branch path new sha title body)"
proof -
  have "writes_only W (write_pr gh cd repo base branch path title body new sha head_sha)" for head_sha
    unfolding writes_only_def
  proof
    fix s
    let ?ws = "[branch_request repo branch head_sha, commit_request cd repo branch path title new sha, pull_request repo branch base title body]"
    obtain k where "sends (take k ?ws) s (snd (write_pr gh cd repo base branch path title body new sha head_sha s))"
      using write_pr_sends [of repo branch head_sha cd path title new sha base body s gh] by blast
    moreover have "W (take k ?ws)" by (rule assms) (unfold pr_writes_def, blast)
    ultimately show "\<exists>rds ws. hb_sent (snd (write_pr gh cd repo base branch path title body new sha head_sha s)) = hb_sent s @ rds @ ws \<and>
        list_all (\<lambda>q. fst q = ''GET'') rds \<and> (ws = [] \<or> W ws)"
      by (intro exI [of _ "[]"] exI [of _ "take k ?ws"]) (simp add: sends_def)
  qed
  then show ?thesis
    unfolding commit_and_open_pr_def by (auto intro!: writes_bind reads_request)
qed

text \<open>What must hold for the pull request of a proposal to be written.\<close>

definition proposal_writes ::
  "proposer \<Rightarrow> 'w github \<Rightarrow> codecs \<Rightarrow> yaml_reader \<Rightarrow> proposal \<Rightarrow> string \<Rightarrow> string \<Rightarrow> gh_request list \<Rightarrow> bool" where
  "proposal_writes c gh cd load p namespace workload ws =
     (pr_open c \<and> is_patch p \<and> below_cap c gh (pp_repo p) (branch_name namespace workload) \<and>
      (\<exists>path text new. \<not> is_secret_path path \<and> manifest_matches load text workload namespace = Inr True \<and>
        apply_toleration load text (pp_taint p) = Inr (Some new) \<and> new \<noteq> text \<and>
        pr_writes cd (pp_repo p) (base_branch c (pr_default c)) (branch_name namespace workload) path new (pp_title p) (pp_body p) ws))"


text \<open>The same for the diff of a deep investigation.\<close>

definition deep_writes ::
  "proposer \<Rightarrow> 'w github \<Rightarrow> codecs \<Rightarrow> string \<Rightarrow> string \<Rightarrow> string \<Rightarrow> string \<Rightarrow> gh_request list \<Rightarrow> bool" where
  "deep_writes c gh cd diff_text title body dedupe_key ws =
     (pr_open c \<and> below_cap c gh (py_str (repo_slug c (pr_default c))) (''cfop/remediate-'' @ slug (''deep-'' @ dedupe_key)) \<and>
      (\<exists>path hunks text new. parse_unified_diff diff_text = Some (path, hunks) \<and> \<not> is_secret_path path \<and>
        apply_unified_diff text hunks = Some new \<and> new \<noteq> text \<and>
        pr_writes cd (py_str (repo_slug c (pr_default c))) (base_branch c (pr_default c))
          (''cfop/remediate-'' @ slug (''deep-'' @ dedupe_key)) path new title body ws))"

lemma deep_pr_guarded: "writes_only (deep_writes c gh cd diff_text title body key) (open_deep_pr c gh cd diff_text title body key)"
proof -
  define branch where "branch = ''cfop/remediate-'' @ slug (''deep-'' @ key)"
  have last: "writes_only (deep_writes c gh cd diff_text title body key)
      (st_bind (commit_and_open_pr gh cd (py_str (repo_slug c (pr_default c))) (base_branch c (pr_default c)) branch path new sha title body)
        (\<lambda>r. st_return (Some r)))"
    if "pr_open c" "below_cap c gh (py_str (repo_slug c (pr_default c))) branch" "parse_unified_diff diff_text = Some (path, hunks)"
      "\<not> is_secret_path path" "apply_unified_diff src hunks = Some new" "new \<noteq> src" for path src new sha hunks
    by (intro writes_then_return commit_writes) (use that in \<open>auto simp: deep_writes_def branch_def\<close>)
  show ?thesis
    unfolding open_deep_pr_def Let_def branch_def [symmetric]
    by (auto intro!: guarded_binds last dest!: guards_passed simp: st_lift_def split: option.splits if_splits prod.splits)
qed

end
