(* ===== verification/Auth_Store.thy ===== *)
theory Auth_Store
  imports Py_Time
begin

text \<open>
  Users, API tokens and the audit trail behind the console, \<open>auth/store.py\<close> with the rows of
  \<open>auth/models.py\<close>, the token shapes of \<open>auth/tokens.py\<close> and the first-admin seeding of
  \<open>auth/bootstrap.py\<close>. The tables are lists; \<open>au_down\<close> is the exception every query raises while
  the database cannot be reached. Password hashing (\<open>gen\<close>, \<open>chk\<close>), SHA-256 (\<open>sha\<close>), the random
  secret and the clock are arguments. Instants are microseconds; lower case and order are those of
  code points.
\<close>

section \<open>Rows\<close>

record user =
  us_id :: int
  us_name :: string
  us_hash :: string
  us_role :: string
  us_active :: bool
  us_created :: int
  us_login :: "int option"

record api_token =
  tk_id :: int
  tk_label :: string
  tk_hash :: string
  tk_prefix :: string
  tk_scopes :: "string list"
  tk_creator :: "int option"
  tk_created :: int
  tk_used :: "int option"
  tk_expires :: "int option"
  tk_revoked :: "int option"

record audit_row =
  ad_id :: int
  ad_created :: int
  ad_event :: string
  ad_actor :: pyval
  ad_target :: pyval
  ad_ip :: pyval
  ad_detail :: pydict

record auth_store =
  au_users :: "user list"
  au_tokens :: "api_token list"
  au_audit :: "audit_row list"
  au_user_seq :: int
  au_token_seq :: int
  au_audit_seq :: int
  au_touched :: "(int \<times> int) list"
  au_down :: "pyexn option"

record identity =
  id_token :: "int option"
  id_label :: string
  id_scopes :: "string set"
  id_user :: "int option"
  id_legacy :: bool

definition role_admin :: string where "role_admin = ''admin''"

definition role_member :: string where "role_member = ''member''"

definition roles :: "string list" where "roles = [role_admin, role_member]"

definition scopes :: "string list" where "scopes = [''read'', ''investigate'', ''remediate'']"

definition scope_implies :: "string \<Rightarrow> string set" where
  "scope_implies s =
     (if s = ''read'' then {''read''} else if s = ''investigate'' then {''investigate'', ''read''}
      else if s = ''remediate'' then {''remediate'', ''investigate'', ''read''} else {})"

definition scope_ceiling :: "string \<Rightarrow> string set" where
  "scope_ceiling role = (if role = role_admin then set scopes else if role = role_member then {''read'', ''investigate''} else {})"

definition expand_scopes :: "string list \<Rightarrow> string set" where
  "expand_scopes ss = \<Union> (scope_implies ` set ss)"

definition has_scope :: "identity \<Rightarrow> string \<Rightarrow> bool" where
  "has_scope i s = (s \<in> id_scopes i)"

definition opt_iso :: "int option \<Rightarrow> pyval" where
  "opt_iso t = (case t of None \<Rightarrow> PNone | Some us \<Rightarrow> PStr (isoformat (utc us)))"

definition user_to_dict :: "user \<Rightarrow> pydict" where
  "user_to_dict u =
     [(''id'', PInt (us_id u)), (''username'', PStr (us_name u)), (''role'', PStr (us_role u)), (''is_active'', PBool (us_active u)),
      (''created_at'', opt_iso (Some (us_created u))), (''last_login_at'', opt_iso (us_login u))]"

definition token_status :: "int \<Rightarrow> api_token \<Rightarrow> string" where
  "token_status now t =
     (if tk_revoked t \<noteq> None then ''revoked''
      else (case tk_expires t of Some e \<Rightarrow> if e \<le> now then ''expired'' else ''active'' | None \<Rightarrow> ''active''))"

definition token_valid :: "int \<Rightarrow> api_token \<Rightarrow> bool" where
  "token_valid now t = (token_status now t = ''active'')"

definition opt_int :: "int option \<Rightarrow> pyval" where
  "opt_int x = (case x of None \<Rightarrow> PNone | Some i \<Rightarrow> PInt i)"

definition token_to_dict :: "int \<Rightarrow> api_token \<Rightarrow> pydict" where
  "token_to_dict now t =
     [(''id'', PInt (tk_id t)), (''label'', PStr (tk_label t)), (''token_prefix'', PStr (tk_prefix t)),
      (''scopes'', PList (map PStr (tk_scopes t))), (''created_by'', opt_int (tk_creator t)),
      (''created_at'', opt_iso (Some (tk_created t))), (''last_used_at'', opt_iso (tk_used t)),
      (''expires_at'', opt_iso (tk_expires t)), (''revoked_at'', opt_iso (tk_revoked t)), (''status'', PStr (token_status now t))]"

section \<open>The database\<close>

definition auth_error :: "string \<Rightarrow> ('s, 'a) op" where
  "auth_error msg = st_raise (PyExn ''AuthError'' msg)"

definition db_read :: "(auth_store \<Rightarrow> 'a) \<Rightarrow> (auth_store, 'a) op" where
  "db_read f s = (case au_down s of Some e \<Rightarrow> (Inl e, s) | None \<Rightarrow> (Inr (f s), s))"

definition db_write :: "(auth_store \<Rightarrow> auth_store) \<Rightarrow> (auth_store, unit) op" where
  "db_write f s = (case au_down s of Some e \<Rightarrow> (Inl e, s) | None \<Rightarrow> (Inr (), f s))"

definition user_named :: "string \<Rightarrow> auth_store \<Rightarrow> user option" where
  "user_named name s = find (\<lambda>u. str_lower (us_name u) = str_lower name) (au_users s)"

definition user_with :: "int \<Rightarrow> auth_store \<Rightarrow> user option" where
  "user_with i s = find (\<lambda>u. us_id u = i) (au_users s)"

definition token_with :: "int \<Rightarrow> auth_store \<Rightarrow> api_token option" where
  "token_with i s = find (\<lambda>t. tk_id t = i) (au_tokens s)"

definition set_user :: "int \<Rightarrow> (user \<Rightarrow> user) \<Rightarrow> auth_store \<Rightarrow> auth_store" where
  "set_user i f s = s\<lparr>au_users := map (\<lambda>u. if us_id u = i then f u else u) (au_users s)\<rparr>"

definition set_token :: "int \<Rightarrow> (api_token \<Rightarrow> api_token) \<Rightarrow> auth_store \<Rightarrow> auth_store" where
  "set_token i f s = s\<lparr>au_tokens := map (\<lambda>t. if tk_id t = i then f t else t) (au_tokens s)\<rparr>"

definition add_user :: "string \<Rightarrow> string \<Rightarrow> string \<Rightarrow> int \<Rightarrow> auth_store \<Rightarrow> auth_store" where
  "add_user name hash role now s =
     s\<lparr>au_users := au_users s @ [\<lparr>us_id = au_user_seq s, us_name = name, us_hash = hash, us_role = role, us_active = True,
         us_created = now, us_login = None\<rparr>], au_user_seq := au_user_seq s + 1\<rparr>"

section \<open>Users\<close>

definition strip_text :: "pyval \<Rightarrow> string res" where
  "strip_text v = (case por v (PStr []) of PStr s \<Rightarrow> Inr (str_strip s) | w \<Rightarrow> no_attribute w ''strip'')"

definition create_user :: "(pyval \<Rightarrow> string res) \<Rightarrow> int \<Rightarrow> pyval \<Rightarrow> pyval \<Rightarrow> pyval \<Rightarrow> (auth_store, pydict) op" where
  "create_user gen now name0 password role =
     st_bind (st_lift (strip_text name0)) (\<lambda>name.
       if name = [] then auth_error ''username is required''
       else if \<not> truthy password then auth_error ''password is required''
       else if role \<notin> PStr ` set roles then auth_error (''role must be one of '' @ py_repr (PList (map PStr roles)))
       else st_bind (db_read (user_named name)) (\<lambda>existing.
         if existing \<noteq> None then auth_error (''user '' @ repr_str name @ '' already exists'')
         else st_bind (st_lift (gen password)) (\<lambda>hash. st_bind (db_read au_user_seq) (\<lambda>i.
           st_bind (db_write (add_user name hash (py_str role) now)) (\<lambda>_.
           st_bind (db_read (user_with i)) (\<lambda>u. st_return (case u of None \<Rightarrow> [] | Some u \<Rightarrow> user_to_dict u)))))))"

definition list_users :: "(auth_store, pydict list) op" where
  "list_users = db_read (\<lambda>s. map user_to_dict (sort_key us_name (au_users s)))"

definition get_user :: "int \<Rightarrow> (auth_store, pydict option) op" where
  "get_user i = db_read (\<lambda>s. map_option user_to_dict (user_with i s))"

definition get_user_by_username :: "string \<Rightarrow> (auth_store, pydict option) op" where
  "get_user_by_username name = db_read (\<lambda>s. map_option user_to_dict (user_named (str_strip name) s))"

definition is_admin :: "user \<Rightarrow> bool" where
  "is_admin u = (us_role u = role_admin)"

definition admin_count :: "int option \<Rightarrow> auth_store \<Rightarrow> nat" where
  "admin_count exclude s = length (filter (\<lambda>u. is_admin u \<and> us_active u \<and> exclude \<noteq> Some (us_id u)) (au_users s))"

text \<open>
  The checks of an update and its commit. Between the two another session of the database may
  commit: nothing locks the rows.
\<close>

definition update_check :: "int \<Rightarrow> pyval \<Rightarrow> bool option \<Rightarrow> (auth_store, unit) op" where
  "update_check i role active =
     (if role \<noteq> PNone \<and> role \<notin> PStr ` set roles then auth_error (''role must be one of '' @ py_repr (PList (map PStr roles)))
      else st_bind (db_read (user_with i)) (\<lambda>found. case found of
          None \<Rightarrow> auth_error ''no such user''
        | Some u \<Rightarrow>
            let demoting = role \<noteq> PNone \<and> role \<noteq> PStr role_admin \<and> us_role u = role_admin;
                deactivating = active = Some False \<and> us_active u
            in if demoting \<or> deactivating then st_bind (db_read (admin_count (Some i))) (\<lambda>n.
                 if n = 0 then auth_error ''cannot remove the last active admin'' else st_return ())
               else st_return ()))"

definition update_row :: "pyval \<Rightarrow> bool option \<Rightarrow> user \<Rightarrow> user" where
  "update_row role active u =
     (let v = (if role \<noteq> PNone then u\<lparr>us_role := py_str role\<rparr> else u)
      in case active of None \<Rightarrow> v | Some b \<Rightarrow> v\<lparr>us_active := b\<rparr>)"

definition update_commit :: "int \<Rightarrow> pyval \<Rightarrow> bool option \<Rightarrow> (auth_store, pydict) op" where
  "update_commit i role active =
     st_bind (db_write (set_user i (update_row role active))) (\<lambda>_.
     st_bind (db_read (user_with i)) (\<lambda>u. st_return (case u of None \<Rightarrow> [] | Some u \<Rightarrow> user_to_dict u)))"

definition update_user :: "int \<Rightarrow> pyval \<Rightarrow> bool option \<Rightarrow> (auth_store, pydict) op" where
  "update_user i role active = st_bind (update_check i role active) (\<lambda>_. update_commit i role active)"

definition set_password :: "(pyval \<Rightarrow> string res) \<Rightarrow> int \<Rightarrow> pyval \<Rightarrow> (auth_store, pydict) op" where
  "set_password gen i password =
     (if \<not> truthy password then auth_error ''password is required''
      else st_bind (db_read (user_with i)) (\<lambda>found. case found of
          None \<Rightarrow> auth_error ''no such user''
        | Some u \<Rightarrow> st_bind (st_lift (gen password)) (\<lambda>hash. st_bind (db_write (set_user i (us_hash_update (\<lambda>_. hash)))) (\<lambda>_.
            st_return (user_to_dict (u\<lparr>us_hash := hash\<rparr>))))))"

definition count_users :: "(auth_store, nat) op" where
  "count_users = db_read (\<lambda>s. length (au_users s))"

text \<open>The dummy hash that is checked for an unknown name is taken not to raise, and then has no effect.\<close>

definition verify_login :: "(string \<Rightarrow> pyval \<Rightarrow> bool res) \<Rightarrow> int \<Rightarrow> string \<Rightarrow> pyval \<Rightarrow> (auth_store, pydict option) op" where
  "verify_login chk now name password =
     st_bind (db_read (user_named (str_strip name))) (\<lambda>found. case found of
         None \<Rightarrow> st_return None
       | Some u \<Rightarrow>
           st_bind (st_lift (chk (us_hash u) (por password (PStr [])))) (\<lambda>match.
           if \<not> match then st_return None
           else if \<not> us_active u then st_return None
           else let v = u\<lparr>us_login := Some now\<rparr> in
             st_bind (db_write (set_user (us_id u) (us_login_update (\<lambda>_. Some now)))) (\<lambda>_. st_return (Some (user_to_dict v)))))"

section \<open>Tokens\<close>

definition token_mark :: string where "token_mark = ''cfop_''"

definition mint_token :: "string \<Rightarrow> string" where
  "mint_token random = token_mark @ random"

definition token_display_prefix :: "string \<Rightarrow> string" where
  "token_display_prefix t = take (length token_mark + 8) t"

definition looks_like_token :: "string \<Rightarrow> bool" where
  "looks_like_token v = (v \<noteq> [] \<and> starts_with token_mark v)"

fun first_seen :: "'a list \<Rightarrow> 'a list" where
  "first_seen [] = []"
| "first_seen (x # xs) = x # first_seen (filter (\<lambda>y. y \<noteq> x) xs)"

definition hashable :: "pyval \<Rightarrow> bool" where
  "hashable v = (case v of PList _ \<Rightarrow> False | PDict _ \<Rightarrow> False | _ \<Rightarrow> True)"

text \<open>\<open>list(dict.fromkeys(...))\<close>, where unhashable values raise.\<close>

definition distinct_values :: "pyval list \<Rightarrow> pyval list res" where
  "distinct_values vs = (case filter (\<lambda>v. \<not> hashable v) vs of
     [] \<Rightarrow> Inr (first_seen vs)
   | v # _ \<Rightarrow> type_error (''unhashable type: '' @ CHR 0x27 # type_name v @ [CHR 0x27]))"

definition plus_time :: "int \<Rightarrow> int \<Rightarrow> int res" where
  "plus_time now us = (if valid_datetime (utc (now + us)) then Inr (now + us)
     else Inl (PyExn ''OverflowError'' ''date value out of range''))"

definition token_expiry :: "int \<Rightarrow> int option \<Rightarrow> int option \<Rightarrow> (auth_store, int option) op" where
  "token_expiry now days ttl = (case (days, ttl) of
     (Some _, Some _) \<Rightarrow> auth_error ''set expires_in_days or ttl_seconds, not both''
   | (Some d, None) \<Rightarrow> if d \<le> 0 then auth_error ''expires_in_days must be positive''
       else st_lift (bind_res (plus_time now (d * us_per_day)) (\<lambda>t. Inr (Some t)))
   | (None, Some n) \<Rightarrow> if n \<le> 0 then auth_error ''ttl_seconds must be positive''
       else st_lift (bind_res (plus_time now (seconds n)) (\<lambda>t. Inr (Some t)))
   | (None, None) \<Rightarrow> st_return None)"

definition add_token :: "api_token \<Rightarrow> auth_store \<Rightarrow> auth_store" where
  "add_token t s = s\<lparr>au_tokens := au_tokens s @ [t\<lparr>tk_id := au_token_seq s\<rparr>], au_token_seq := au_token_seq s + 1\<rparr>"

definition create_token ::
  "(string \<Rightarrow> string) \<Rightarrow> string \<Rightarrow> int \<Rightarrow> pyval \<Rightarrow> pyval \<Rightarrow> int option \<Rightarrow> string \<Rightarrow> int option \<Rightarrow> int option \<Rightarrow>
   (auth_store, pydict \<times> string) op" where
  "create_token sha random now label0 wanted creator creator_role days ttl =
     st_bind (st_lift (strip_text label0)) (\<lambda>label.
      if label = [] then auth_error ''label is required''
      else st_bind (st_lift (bind_res (py_iter (por wanted (PList []))) distinct_values)) (\<lambda>ss.
        if ss = [] then auth_error ''at least one scope is required''
        else let unknown = filter (\<lambda>x. x \<notin> PStr ` set scopes) ss; over = filter (\<lambda>x. x \<notin> PStr ` scope_ceiling creator_role) ss in
          if unknown \<noteq> [] then auth_error (''unknown scopes: '' @ py_repr (PList unknown))
          else if over \<noteq> [] then auth_error (''role '' @ repr_str creator_role @ '' cannot grant scopes: '' @ py_repr (PList over))
          else let secret = mint_token random in
            st_bind (token_expiry now days ttl) (\<lambda>expires.
            st_bind (db_read (\<lambda>s. (au_token_seq s, sha secret \<in> tk_hash ` set (au_tokens s)))) (\<lambda>(i, taken).
              if taken then st_raise (PyExn ''IntegrityError'' ''duplicate key value violates unique constraint'')
              else let t = \<lparr>tk_id = i, tk_label = label, tk_hash = sha secret, tk_prefix = token_display_prefix secret,
                     tk_scopes = map py_str ss, tk_creator = creator, tk_created = now, tk_used = None, tk_expires = expires, tk_revoked = None\<rparr> in
                st_bind (db_write (add_token t)) (\<lambda>_. st_return (token_to_dict now t, secret))))))"

definition list_tokens :: "int \<Rightarrow> int option \<Rightarrow> (auth_store, pydict list) op" where
  "list_tokens now creator = db_read (\<lambda>s.
     map (token_to_dict now) (sort_desc tk_created (filter (\<lambda>t. creator = None \<or> tk_creator t = creator) (au_tokens s))))"

definition revoke_token :: "int \<Rightarrow> int \<Rightarrow> (auth_store, pydict) op" where
  "revoke_token now i =
     st_bind (db_read (token_with i)) (\<lambda>found. case found of
         None \<Rightarrow> auth_error ''no such token''
       | Some t \<Rightarrow>
           if tk_revoked t = None then
             st_bind (db_write (set_token i (tk_revoked_update (\<lambda>_. Some now)))) (\<lambda>_. st_return (token_to_dict now (t\<lparr>tk_revoked := Some now\<rparr>)))
           else st_return (token_to_dict now t))"

text \<open>The write of \<open>last_used_at\<close>, at most once a minute per token; its failure is swallowed.\<close>

definition touch_last_used :: "int \<Rightarrow> int \<Rightarrow> (auth_store, unit) op" where
  "touch_last_used now i s =
     (if now - (case map_of (au_touched s) i of None \<Rightarrow> 0 | Some t \<Rightarrow> t) < seconds 60 then (Inr (), s)
      else st_try (db_write (set_token i (tk_used_update (\<lambda>_. Some now)))) (\<lambda>_. st_return ())
             (s\<lparr>au_touched := dset i now (au_touched s)\<rparr>))"

definition verify_token :: "(string \<Rightarrow> string) \<Rightarrow> int \<Rightarrow> string \<Rightarrow> (auth_store, identity option) op" where
  "verify_token sha now presented =
     (if \<not> looks_like_token presented then st_return None
      else st_bind (db_read (\<lambda>s. find (\<lambda>t. tk_hash t = sha presented) (au_tokens s))) (\<lambda>found. case found of
          None \<Rightarrow> st_return None
        | Some t \<Rightarrow>
            if \<not> token_valid now t then st_return None
            else st_bind (case tk_creator t of None \<Rightarrow> st_return True
                | Some u \<Rightarrow> db_read (\<lambda>s. case user_with u s of None \<Rightarrow> True | Some owner \<Rightarrow> us_active owner)) (\<lambda>standing.
              if \<not> standing then st_return None
              else st_bind (touch_last_used now (tk_id t)) (\<lambda>_. st_return (Some
                \<lparr>id_token = Some (tk_id t), id_label = tk_label t, id_scopes = expand_scopes (tk_scopes t), id_user = tk_creator t, id_legacy = False\<rparr>)))))"

section \<open>Audit and seeding\<close>

text \<open>A record never raises.\<close>

definition record_audit :: "int \<Rightarrow> string \<Rightarrow> pyval \<Rightarrow> pyval \<Rightarrow> pyval \<Rightarrow> pydict \<Rightarrow> (auth_store, unit) op" where
  "record_audit now event actor target ip detail =
     st_try (db_write (\<lambda>s. s\<lparr>au_audit := au_audit s @
         [\<lparr>ad_id = au_audit_seq s, ad_created = now, ad_event = event, ad_actor = actor, ad_target = target, ad_ip = ip, ad_detail = detail\<rparr>], au_audit_seq := au_audit_seq s + 1\<rparr>))
       (\<lambda>_. st_return ())"

definition audit_to_dict :: "audit_row \<Rightarrow> pydict" where
  "audit_to_dict a =
     [(''id'', PInt (ad_id a)), (''created_at'', opt_iso (Some (ad_created a))), (''event'', PStr (ad_event a)), (''actor'', ad_actor a),
      (''target'', ad_target a), (''source_ip'', ad_ip a), (''detail'', PDict (ad_detail a))]"

definition recent_audit :: "nat \<Rightarrow> string \<Rightarrow> (auth_store, pydict list) op" where
  "recent_audit limit event = db_read (\<lambda>s.
     map audit_to_dict (take limit (sort_desc ad_created (filter (\<lambda>a. event = [] \<or> ad_event a = event) (au_audit s)))))"

definition bootstrap_admin :: "string \<Rightarrow> string \<Rightarrow> int \<Rightarrow> (auth_store, bool) op" where
  "bootstrap_admin env_name env_hash now =
     (let name = str_strip env_name; hash = str_strip env_hash in
      st_bind count_users (\<lambda>n. if n > 0 then st_return False
        else if name = [] \<or> hash = [] then st_return False
        else st_bind (db_write (add_user name hash role_admin now)) (\<lambda>_. st_return True)))"

section \<open>What an operation does to the tables\<close>

text \<open>
  Every operation leaves the tables alone or makes one of a few writes; the invariants are proved
  once per kind of write.
\<close>

definition same_tables :: "auth_store \<Rightarrow> auth_store \<Rightarrow> bool" where
  "same_tables s s' \<longleftrightarrow> au_users s' = au_users s \<and> au_tokens s' = au_tokens s \<and> au_user_seq s' = au_user_seq s \<and> au_token_seq s' = au_token_seq s"

text \<open>An update of a row in columns that neither identify the user nor say what he may do.\<close>

definition harmless :: "(user \<Rightarrow> user) \<Rightarrow> bool" where
  "harmless f \<longleftrightarrow> (\<forall>u. us_id (f u) = us_id u \<and> us_name (f u) = us_name u \<and> us_role (f u) = us_role u \<and> us_active (f u) = us_active u)"

definition keeps_an_admin :: "int \<Rightarrow> pyval \<Rightarrow> bool option \<Rightarrow> auth_store \<Rightarrow> bool" where
  "keeps_an_admin i role active s \<longleftrightarrow> (\<exists>u. user_with i s = Some u \<and>
     (role \<noteq> PNone \<and> role \<noteq> PStr role_admin \<and> us_role u = role_admin \<or> active = Some False \<and> us_active u \<longrightarrow> admin_count (Some i) s > 0))"

inductive table_write :: "auth_store \<Rightarrow> auth_store \<Rightarrow> bool" where
  write_none: "same_tables s s' \<Longrightarrow> table_write s s'"
| write_add_user: "rl \<in> set roles \<Longrightarrow> user_named n s = None \<Longrightarrow> table_write s (add_user n h rl now s)"
| write_update: "role = PNone \<or> role \<in> PStr ` set roles \<Longrightarrow> keeps_an_admin i role active s \<Longrightarrow>
    table_write s (set_user i (update_row role active) s)"
| write_harmless: "harmless f \<Longrightarrow> table_write s (set_user i f s)"
| write_add_token: "tk_scopes t \<noteq> [] \<Longrightarrow> set (tk_scopes t) \<subseteq> set scopes \<Longrightarrow> tk_hash t \<notin> tk_hash ` set (au_tokens s) \<Longrightarrow>
    table_write s (add_token t s)"
| write_use: "same_tables (set_token i (tk_used_update (\<lambda>_. Some now)) s) s' \<Longrightarrow> table_write s s'"
| write_revoke: "table_write s (set_token i (\<lambda>t. if tk_revoked t = None then t\<lparr>tk_revoked := Some now\<rparr> else t) s)"

lemma same_tables_refl [simp, intro]: "same_tables s s"
  by (simp add: same_tables_def)

lemma write_refl [simp, intro]: "table_write s s"
  by (simp add: write_none)

lemma db_read_eq: "db_read f s = (r, s') \<longleftrightarrow> s' = s \<and> r = (case au_down s of Some e \<Rightarrow> Inl e | None \<Rightarrow> Inr (f s))"
  by (auto simp: db_read_def split: option.splits)

lemma db_write_eq:
  "db_write f s = (r, s') \<longleftrightarrow> (case au_down s of Some e \<Rightarrow> r = Inl e \<and> s' = s | None \<Rightarrow> r = Inr () \<and> s' = f s)"
  by (auto simp: db_write_def split: option.splits)

lemma auth_error_eq [simp]: "auth_error msg s = (r, s') \<longleftrightarrow> s' = s \<and> r = Inl (PyExn ''AuthError'' msg)"
  by (auto simp: auth_error_def st_raise_def)

lemma st_bind_eq:
  "st_bind m f s = (r, s'') \<longleftrightarrow>
     (\<exists>e. m s = (Inl e, s'') \<and> r = Inl e) \<or> (\<exists>x s'. m s = (Inr x, s') \<and> f x s' = (r, s''))"
  by (auto simp: st_bind_def split: prod.splits sum.splits)

lemma st_return_eq [simp]: "st_return x s = (r, s') \<longleftrightarrow> s' = s \<and> r = Inr x"
  by (auto simp: st_return_def)

lemma st_lift_eq [simp]: "st_lift x s = (r, s') \<longleftrightarrow> s' = s \<and> r = x"
  by (auto simp: st_lift_def)

lemma st_raise_eq [simp]: "st_raise e s = (r, s') \<longleftrightarrow> s' = s \<and> r = Inl e"
  by (auto simp: st_raise_def)

lemmas db_eqs = db_read_eq db_write_eq st_bind_eq

lemma harmless_columns [simp]: "harmless (us_hash_update f)" "harmless (us_login_update g)"
  by (simp_all add: harmless_def)

lemma create_user_writes: "create_user gen now name password role s = (r, s') \<Longrightarrow> table_write s s'"
  unfolding create_user_def
  by (auto simp: Let_def db_eqs intro!: write_add_user split: if_splits option.splits)

lemma update_check_passes:
  assumes "update_check i role active s = (Inr (), s')"
  shows "s' = s \<and> keeps_an_admin i role active s \<and> (role = PNone \<or> role \<in> PStr ` set roles)"
  using assms unfolding update_check_def keeps_an_admin_def
  by (auto simp: Let_def db_eqs split: if_splits option.splits)

lemma update_check_keeps: "update_check i role active s = (r, s') \<Longrightarrow> s' = s"
  unfolding update_check_def by (auto simp: Let_def db_eqs split: if_splits option.splits)

lemma update_user_writes: "update_user i role active s = (r, s') \<Longrightarrow> table_write s s'"
  unfolding update_user_def update_commit_def
  by (auto simp: db_eqs intro: write_update dest: update_check_keeps dest!: update_check_passes split: option.splits)

lemma set_password_writes: "set_password gen i password s = (r, s') \<Longrightarrow> table_write s s'"
  unfolding set_password_def by (auto simp: db_eqs intro: write_harmless split: if_splits option.splits)

lemma verify_login_writes: "verify_login chk now name password s = (r, s') \<Longrightarrow> table_write s s'"
  unfolding verify_login_def by (auto simp: Let_def db_eqs intro: write_harmless split: if_splits option.splits)

lemma token_expiry_keeps: "token_expiry now days ttl s = (r, s') \<Longrightarrow> s' = s"
  by (auto simp: token_expiry_def split: option.splits if_splits)

lemma first_seen_set [simp]: "set (first_seen xs) = set xs"
  by (induction xs rule: first_seen.induct) auto

lemma scope_ceiling_scopes: "scope_ceiling role \<subseteq> set scopes"
  by (auto simp: scope_ceiling_def scopes_def)

lemma strings_within: "\<forall>v \<in> set vs. v \<in> PStr ` A \<Longrightarrow> set (map py_str vs) \<subseteq> A"
  by fastforce

text \<open>What a created token is: within the ceiling of its creator's role, and his.\<close>

definition granted :: "int option \<Rightarrow> string \<Rightarrow> api_token \<Rightarrow> bool" where
  "granted creator role t \<longleftrightarrow> tk_scopes t \<noteq> [] \<and> set (tk_scopes t) \<subseteq> scope_ceiling role \<and> tk_creator t = creator \<and> tk_revoked t = None"

inductive token_grant :: "int option \<Rightarrow> string \<Rightarrow> auth_store \<Rightarrow> auth_store \<Rightarrow> bool" for creator role where
  grant_none: "token_grant creator role s s"
| grant_one: "granted creator role t \<Longrightarrow> tk_hash t \<notin> tk_hash ` set (au_tokens s) \<Longrightarrow> token_grant creator role s (add_token t s)"

lemma grant_map:
  assumes "ss \<noteq> []" "[x\<leftarrow>ss. x \<notin> PStr ` scope_ceiling role] = []" "sha secret \<notin> tk_hash ` set (au_tokens s)"
  shows "token_grant creator role s (add_token \<lparr>tk_id = i, tk_label = label, tk_hash = sha secret, tk_prefix = p,
    tk_scopes = map py_str ss, tk_creator = creator, tk_created = now, tk_used = None, tk_expires = e, tk_revoked = None\<rparr> s)"
proof -
  have "set (map py_str ss) \<subseteq> scope_ceiling role"
    using assms(2) by (intro strings_within) (simp add: filter_empty_conv)
  with assms(1,3) show ?thesis by (intro grant_one) (simp_all add: granted_def)
qed

lemma create_token_grants:
  assumes "create_token sha random now label wanted creator role days ttl s = (r, s')"
  shows "token_grant creator role s s'"
  using assms unfolding create_token_def
  by (auto simp: Let_def db_eqs simp del: set_map intro!: grant_none grant_map dest!: token_expiry_keeps split: if_splits option.splits)

lemma grant_writes: "token_grant creator role s s' \<Longrightarrow> table_write s s'"
  by (erule token_grant.cases) (use scope_ceiling_scopes in \<open>auto simp: granted_def intro!: write_add_token\<close>)

lemmas create_token_writes = create_token_grants [THEN grant_writes]

text \<open>A token found by its number is written where the number is, which is at that token only.\<close>

lemma set_token_cong:
  "(\<And>t. t \<in> set (au_tokens s) \<Longrightarrow> tk_id t = i \<Longrightarrow> f t = g t) \<Longrightarrow> set_token i f s = set_token i g s"
  by (simp add: set_token_def)

text \<open>The tables are well formed: numbers, names and digests are unique, roles and scopes are known.\<close>

definition store_ok :: "auth_store \<Rightarrow> bool" where
  "store_ok s \<longleftrightarrow>
     distinct (map us_id (au_users s)) \<and> (\<forall>u \<in> set (au_users s). us_id u < au_user_seq s) \<and>
     distinct (map (\<lambda>u. str_lower (us_name u)) (au_users s)) \<and> (\<forall>u \<in> set (au_users s). us_role u \<in> set roles) \<and>
     distinct (map tk_id (au_tokens s)) \<and> (\<forall>t \<in> set (au_tokens s). tk_id t < au_token_seq s) \<and>
     distinct (map tk_hash (au_tokens s)) \<and> (\<forall>t \<in> set (au_tokens s). tk_scopes t \<noteq> [] \<and> set (tk_scopes t) \<subseteq> set scopes)"

lemma user_named_None: "user_named n s = None \<longleftrightarrow> str_lower n \<notin> set (map (\<lambda>u. str_lower (us_name u)) (au_users s))"
  by (simp add: user_named_def find_None_iff image_iff) metis

lemma set_user_ok:
  assumes "store_ok s" "\<And>u. us_id (f u) = us_id u" "\<And>u. us_name (f u) = us_name u"
    and "\<And>u. us_role u \<in> set roles \<Longrightarrow> us_role (f u) \<in> set roles"
  shows "store_ok (set_user i f s)"
proof -
  have "map us_id (au_users (set_user i f s)) = map us_id (au_users s)"
    "map (\<lambda>u. str_lower (us_name u)) (au_users (set_user i f s)) = map (\<lambda>u. str_lower (us_name u)) (au_users s)"
    using assms(2,3) by (simp_all add: set_user_def)
  moreover have "\<forall>u \<in> set (au_users (set_user i f s)). us_id u < au_user_seq s \<and> us_role u \<in> set roles"
    using assms by (auto simp: set_user_def store_ok_def)
  ultimately show ?thesis using assms(1) by (simp add: store_ok_def) (simp add: set_user_def)
qed

lemma set_token_ok:
  assumes "store_ok s" "\<And>t. tk_id (f t) = tk_id t" "\<And>t. tk_hash (f t) = tk_hash t" "\<And>t. tk_scopes (f t) = tk_scopes t"
  shows "store_ok (set_token i f s)"
proof -
  have "map tk_id (au_tokens (set_token i f s)) = map tk_id (au_tokens s)"
    "map tk_hash (au_tokens (set_token i f s)) = map tk_hash (au_tokens s)"
    using assms(2,3) by (simp_all add: set_token_def)
  moreover have "\<forall>t \<in> set (au_tokens (set_token i f s)). tk_id t < au_token_seq s \<and> tk_scopes t \<noteq> [] \<and> set (tk_scopes t) \<subseteq> set scopes"
    using assms by (fastforce simp: set_token_def store_ok_def)
  ultimately show ?thesis using assms(1) by (simp add: store_ok_def) (simp add: set_token_def)
qed

lemma same_tables_ok: "same_tables s s' \<Longrightarrow> store_ok s \<Longrightarrow> store_ok s'"
  by (simp add: same_tables_def store_ok_def)

lemma table_write_ok:
  assumes "table_write s s'" "store_ok s"
  shows "store_ok s'"
  using assms
proof (induction rule: table_write.induct)
  case (write_add_user rl n s h now)
  then show ?case unfolding user_named_None by (auto simp: store_ok_def add_user_def)
next
  case (write_update role i active s)
  then show ?case by (intro set_user_ok) (auto simp: update_row_def Let_def split: option.splits)
next
  case (write_harmless f s i)
  then show ?case by (intro set_user_ok) (auto simp: harmless_def)
next
  case (write_add_token t s)
  then show ?case by (auto simp: store_ok_def add_token_def)
next
  case (write_use i now s s')
  have "store_ok (set_token i (tk_used_update (\<lambda>_. Some now)) s)"
    using write_use.prems by (intro set_token_ok) simp_all
  with write_use.hyps show ?case by (rule same_tables_ok)
next
  case (write_revoke s i now)
  then show ?case by (intro set_token_ok) simp_all
qed (rule same_tables_ok)

subsection \<open>The last admin\<close>

definition has_admin :: "auth_store \<Rightarrow> bool" where
  "has_admin s = (\<exists>u \<in> set (au_users s). is_admin u \<and> us_active u)"

lemma has_admin_other:
  assumes "admin_count (Some i) s > 0"
  shows "has_admin (set_user i f s)"
proof -
  obtain u where "u \<in> set (au_users s)" "is_admin u" "us_active u" "us_id u \<noteq> i"
    using assms by (auto simp: admin_count_def length_greater_0_conv filter_empty_conv)
  then show ?thesis unfolding has_admin_def set_user_def by (intro bexI [of _ u]) (auto simp: image_iff)
qed

lemma has_admin_map:
  assumes "has_admin s" "\<And>u. u \<in> set (au_users s) \<Longrightarrow> us_id u = i \<Longrightarrow> is_admin u \<Longrightarrow> us_active u \<Longrightarrow> is_admin (f u) \<and> us_active (f u)"
  shows "has_admin (set_user i f s)"
proof -
  obtain u where "u \<in> set (au_users s)" "is_admin u" "us_active u"
    using assms(1) by (auto simp: has_admin_def)
  with assms(2) [of u] show ?thesis
    unfolding has_admin_def set_user_def by (intro bexI [of _ "if us_id u = i then f u else u"]) auto
qed

lemma find_unique: "distinct (map f xs) \<Longrightarrow> x \<in> set xs \<Longrightarrow> find (\<lambda>y. f y = f x) xs = Some x"
  by (induction xs) auto

lemma user_with_unique: "store_ok s \<Longrightarrow> u \<in> set (au_users s) \<Longrightarrow> user_with (us_id u) s = Some u"
  by (simp add: user_with_def store_ok_def find_unique)

lemma table_write_admin:
  assumes "table_write s s'" "store_ok s" "has_admin s"
  shows "has_admin s'"
  using assms
proof (induction rule: table_write.induct)
  case (write_update role i active s)
  show ?case
  proof (cases "admin_count (Some i) s > 0")
    case True
    then show ?thesis by (rule has_admin_other)
  next
    case False
    show ?thesis
    proof (rule has_admin_map [OF write_update.prems(2)])
      fix u assume u: "u \<in> set (au_users s)" "us_id u = i" "is_admin u" "us_active u"
      then have "user_with i s = Some u" using user_with_unique [OF write_update.prems(1)] by blast
      with False u write_update.hyps show "is_admin (update_row role active u) \<and> us_active (update_row role active u)"
        by (auto simp: keeps_an_admin_def update_row_def is_admin_def split: option.splits)
    qed
  qed
next
  case (write_harmless f s i)
  then show ?case by (intro has_admin_map) (auto simp: harmless_def is_admin_def)
qed (auto simp: has_admin_def same_tables_def add_user_def add_token_def set_token_def)

subsection \<open>Operations in sequence\<close>

lemma touch_writes: "touch_last_used now i s = (r, s') \<Longrightarrow> table_write s s'"
  unfolding touch_last_used_def st_try_def
  by (auto simp: db_write_def same_tables_def set_token_def intro: write_none write_use [of i now] split: if_splits option.splits prod.splits sum.splits)

lemma verify_token_writes: "verify_token sha now presented s = (r, s') \<Longrightarrow> table_write s s'"
  unfolding verify_token_def
  by (auto simp: db_eqs dest!: touch_writes split: if_splits option.splits)

lemma revoke_token_writes:
  assumes "store_ok s" "revoke_token now i s = (r, s')"
  shows "table_write s s'"
proof -
  have "table_write s (set_token i (tk_revoked_update (\<lambda>_. Some now)) s)"
    if t: "token_with i s = Some t" "tk_revoked t = None" for t
  proof -
    have "u = t" if "u \<in> set (au_tokens s)" "tk_id u = i" for u
      using find_unique [of tk_id "au_tokens s" u] that t(1) assms(1) by (simp add: token_with_def store_ok_def)
    then have "set_token i (tk_revoked_update (\<lambda>_. Some now)) s =
        set_token i (\<lambda>t. if tk_revoked t = None then t\<lparr>tk_revoked := Some now\<rparr> else t) s"
      using t(2) by (intro set_token_cong) auto
    then show ?thesis using write_revoke by simp
  qed
  then show ?thesis
    using assms(2) unfolding revoke_token_def by (auto simp: db_eqs split: if_splits option.splits)
qed

lemma record_audit_writes: "record_audit now event actor target ip detail s = (r, s') \<Longrightarrow> table_write s s'"
  unfolding record_audit_def st_try_def
  by (auto simp: db_write_def same_tables_def intro: write_none split: option.splits)

lemma record_audit_returns: "\<exists>s'. record_audit now event actor target ip detail s = (Inr (), s')"
  by (auto simp: record_audit_def st_try_def db_write_def split: option.splits)

lemma bootstrap_writes: "bootstrap_admin name hash now s = (r, s') \<Longrightarrow> table_write s s'"
  unfolding bootstrap_admin_def count_users_def
  by (auto simp: Let_def db_eqs roles_def user_named_def intro!: write_add_user split: if_splits option.splits)

lemmas op_writes = create_user_writes update_user_writes set_password_writes verify_login_writes create_token_writes
  verify_token_writes record_audit_writes bootstrap_writes

inductive auth_step :: "auth_store \<Rightarrow> auth_store \<Rightarrow> bool" where
  step_create_user: "create_user gen now name password role s = (r, s') \<Longrightarrow> auth_step s s'"
| step_update_user: "update_user i role active s = (r, s') \<Longrightarrow> auth_step s s'"
| step_set_password: "set_password gen i password s = (r, s') \<Longrightarrow> auth_step s s'"
| step_login: "verify_login chk now name password s = (r, s') \<Longrightarrow> auth_step s s'"
| step_create_token: "create_token sha random now label wanted creator creator_role days ttl s = (r, s') \<Longrightarrow> auth_step s s'"
| step_revoke: "revoke_token now i s = (r, s') \<Longrightarrow> auth_step s s'"
| step_verify: "verify_token sha now presented s = (r, s') \<Longrightarrow> auth_step s s'"
| step_audit: "record_audit now event actor target ip detail s = (r, s') \<Longrightarrow> auth_step s s'"
| step_bootstrap: "bootstrap_admin name hash now s = (r, s') \<Longrightarrow> auth_step s s'"
| step_outage: "auth_step s (s\<lparr>au_down := e\<rparr>)"

lemma auth_step_writes: "auth_step s s' \<Longrightarrow> store_ok s \<Longrightarrow> table_write s s'"
  by (erule auth_step.cases) (auto dest: op_writes revoke_token_writes intro: write_none simp: same_tables_def)

inductive auth_reaches :: "auth_store \<Rightarrow> auth_store \<Rightarrow> bool" where
  reach_refl: "auth_reaches s s"
| reach_step: "auth_reaches s t \<Longrightarrow> auth_step t u \<Longrightarrow> auth_reaches s u"

definition empty_store :: auth_store where
  "empty_store = \<lparr>au_users = [], au_tokens = [], au_audit = [], au_user_seq = 1, au_token_seq = 1, au_audit_seq = 1, au_touched = [], au_down = None\<rparr>"

lemma empty_store_ok [simp]: "store_ok empty_store"
  by (simp add: store_ok_def empty_store_def)

lemma reaches_ok: "auth_reaches s s' \<Longrightarrow> store_ok s \<Longrightarrow> store_ok s'"
  by (induction rule: auth_reaches.induct) (auto dest: auth_step_writes table_write_ok)

text \<open>
  C40: In every state the store can get into from empty tables, by any sequence of its operations and
  of database outages, the user numbers, the user names up to case, the token numbers and the token
  digests are unique, every role is one of the two roles and every token has scopes, all of them known.
\<close>

theorem auth_tables_well_formed:
  assumes "auth_reaches empty_store s"
  shows "distinct (map us_id (au_users s)) \<and> distinct (map (\<lambda>u. str_lower (us_name u)) (au_users s)) \<and>
    distinct (map tk_id (au_tokens s)) \<and> distinct (map tk_hash (au_tokens s)) \<and>
    us_role ` set (au_users s) \<subseteq> set roles \<and> [] \<notin> tk_scopes ` set (au_tokens s) \<and> \<Union> (set ` tk_scopes ` set (au_tokens s)) \<subseteq> set scopes"
proof -
  have "store_ok s" using assms empty_store_ok by (rule reaches_ok)
  then have ok: "distinct (map us_id (au_users s))" "distinct (map (\<lambda>u. str_lower (us_name u)) (au_users s))"
    "distinct (map tk_id (au_tokens s))" "distinct (map tk_hash (au_tokens s))"
    "\<And>u. u \<in> set (au_users s) \<Longrightarrow> us_role u \<in> set roles"
    "\<And>t. t \<in> set (au_tokens s) \<Longrightarrow> tk_scopes t \<noteq> [] \<and> set (tk_scopes t) \<subseteq> set scopes"
    by (simp_all add: store_ok_def)
  from ok(6) have "[] \<notin> tk_scopes ` set (au_tokens s)" by force
  moreover from ok(6) have "\<Union> (set ` tk_scopes ` set (au_tokens s)) \<subseteq> set scopes" by blast
  ultimately show ?thesis using ok(1-5) by blast
qed

text \<open>
  C19: Once an active admin exists, one exists after every further sequence of operations and outages:
  no update, whatever role and state it asks for, removes the last one.
\<close>

theorem admin_remains:
  assumes "auth_reaches empty_store s" "has_admin s" "auth_reaches s s'"
  shows "has_admin s'"
proof -
  have "store_ok s" using reaches_ok assms(1) empty_store_ok by blast
  with assms(3,2) show ?thesis
    by (induction rule: auth_reaches.induct) (auto dest: reaches_ok auth_step_writes table_write_admin)
qed

lemma update_check_demotes:
  assumes "au_down s = None" "user_with i s = Some u" "admin_count (Some i) s > 0"
  shows "update_check i (PStr role_member) None s = (Inr (), s)"
  using assms by (simp add: update_check_def roles_def st_bind_def st_return_def db_read_def Let_def)

lemma update_commit_demotes:
  assumes "au_down s = None"
  shows "snd (update_commit i (PStr role_member) None s) = set_user i (us_role_update (\<lambda>_. role_member)) s"
  using assms by (simp add: update_commit_def update_row_def [abs_def] st_bind_def st_return_def db_write_def db_read_def set_user_def
    split: option.splits)

text \<open>
  The check and the commit of an update are not one transaction step: two admins who each demote
  the other, both checks before both commits, leave no admin.
\<close>

theorem concurrent_demotions_lose_admin:
  assumes "au_users s = [a, b]" "us_id a \<noteq> us_id b" "is_admin a" "is_admin b" "us_active a" "us_active b" "au_down s = None"
  shows "fst (update_check (us_id a) (PStr role_member) None s) = Inr () \<and>
    fst (update_check (us_id b) (PStr role_member) None s) = Inr () \<and>
    \<not> has_admin (snd (update_commit (us_id b) (PStr role_member) None (snd (update_commit (us_id a) (PStr role_member) None s))))"
proof -
  have "user_with (us_id a) s = Some a" "user_with (us_id b) s = Some b"
    "admin_count (Some (us_id a)) s > 0" "admin_count (Some (us_id b)) s > 0"
    using assms by (simp_all add: user_with_def admin_count_def)
  then have "update_check (us_id a) (PStr role_member) None s = (Inr (), s)"
    "update_check (us_id b) (PStr role_member) None s = (Inr (), s)"
    using assms(7) by (simp_all add: update_check_demotes)
  moreover have "au_down (set_user i f s) = None" for i f using assms(7) by (simp add: set_user_def)
  then have "snd (update_commit (us_id b) (PStr role_member) None (snd (update_commit (us_id a) (PStr role_member) None s))) =
      set_user (us_id b) (us_role_update (\<lambda>_. role_member)) (set_user (us_id a) (us_role_update (\<lambda>_. role_member)) s)"
    using assms(7) by (simp only: update_commit_demotes)
  ultimately show ?thesis
    using assms(1) by (simp add: set_user_def has_admin_def is_admin_def role_member_def role_admin_def)
qed

subsection \<open>Tokens\<close>

definition owner_stands :: "auth_store \<Rightarrow> api_token \<Rightarrow> bool" where
  "owner_stands s t = (case tk_creator t of None \<Rightarrow> True
     | Some i \<Rightarrow> (case user_with i s of None \<Rightarrow> True | Some u \<Rightarrow> us_active u))"

definition token_identity :: "api_token \<Rightarrow> identity" where
  "token_identity t = \<lparr>id_token = Some (tk_id t), id_label = tk_label t, id_scopes = expand_scopes (tk_scopes t),
     id_user = tk_creator t, id_legacy = False\<rparr>"

lemma touch_returns: "\<exists>s'. touch_last_used now i s = (Inr (), s')"
  by (auto simp: touch_last_used_def st_try_def db_write_def split: option.splits)

lemma verify_token_found:
  assumes "au_down s = None"
  shows "fst (verify_token sha now p s) = Inr (if \<not> looks_like_token p then None
    else (case find (\<lambda>t. tk_hash t = sha p) (au_tokens s) of None \<Rightarrow> None
      | Some t \<Rightarrow> if token_valid now t \<and> owner_stands s t then Some (token_identity t) else None))"
proof -
  have "fst (st_bind (touch_last_used now i) (\<lambda>_. st_return x) s) = Inr x" for i and x :: "identity option"
    using touch_returns [of now i s] by (auto simp: st_bind_def st_return_def)
  then show ?thesis
    using assms by (simp add: verify_token_def st_bind_def [where m="db_read f" for f] st_bind_def [where m="case tk_creator t of _ \<Rightarrow> _" for t]
      db_read_def st_return_def owner_stands_def token_identity_def split: option.splits)
qed

lemma token_by_digest:
  assumes "store_ok s"
  shows "find (\<lambda>t. tk_hash t = d) (au_tokens s) = Some t \<longleftrightarrow> t \<in> set (au_tokens s) \<and> tk_hash t = d"
proof
  assume "t \<in> set (au_tokens s) \<and> tk_hash t = d"
  then show "find (\<lambda>t. tk_hash t = d) (au_tokens s) = Some t"
    using find_unique [of tk_hash "au_tokens s" t] assms by (simp add: store_ok_def)
qed (auto simp: find_Some_iff in_set_conv_nth)

text \<open>
  C18: With the database up, a presented secret is accepted if and only if it has the token mark and the
  table holds a token with its digest that is neither revoked nor expired and whose creator, if the
  user still exists, is active; the identity is that token's, its scopes closed under implication.
\<close>

theorem token_accepted_exactly:
  assumes "auth_reaches empty_store s" "au_down s = None"
  shows "fst (verify_token sha now p s) = Inr (Some i) \<longleftrightarrow>
    looks_like_token p \<and> (\<exists>t \<in> set (au_tokens s). tk_hash t = sha p \<and> tk_revoked t = None \<and> (case tk_expires t of None \<Rightarrow> True | Some e \<Rightarrow> now < e) \<and>
      owner_stands s t \<and> i = token_identity t)"
proof -
  have ok: "store_ok s" using assms(1) empty_store_ok by (rule reaches_ok)
  have valid: "token_valid now t \<longleftrightarrow> tk_revoked t = None \<and> (case tk_expires t of None \<Rightarrow> True | Some e \<Rightarrow> now < e)" for t
    by (auto simp: token_valid_def token_status_def split: option.splits)
  have "fst (verify_token sha now p s) = Inr (Some i) \<longleftrightarrow>
      looks_like_token p \<and> (\<exists>t. find (\<lambda>t. tk_hash t = sha p) (au_tokens s) = Some t \<and> token_valid now t \<and> owner_stands s t \<and> i = token_identity t)"
    unfolding verify_token_found [OF assms(2)] by (auto split: option.splits)
  then show ?thesis unfolding token_by_digest [OF ok] valid by blast
qed

definition revoked :: "string \<Rightarrow> auth_store \<Rightarrow> bool" where
  "revoked d s = (\<exists>t \<in> set (au_tokens s). tk_hash t = d \<and> tk_revoked t \<noteq> None)"

lemma revoked_set_token:
  assumes "revoked d s" "\<And>t. tk_hash (f t) = tk_hash t" "\<And>t. tk_revoked t \<noteq> None \<Longrightarrow> tk_revoked (f t) \<noteq> None"
  shows "revoked d (set_token i f s)"
proof -
  obtain t where "t \<in> set (au_tokens s)" "tk_hash t = d" "tk_revoked t \<noteq> None" using assms(1) by (auto simp: revoked_def)
  then show ?thesis using assms(2,3)
    unfolding revoked_def set_token_def by (intro bexI [of _ "if tk_id t = i then f t else t"]) auto
qed

lemma table_write_revoked:
  assumes "table_write s s'" "revoked d s"
  shows "revoked d s'"
  using assms
proof (induction rule: table_write.induct)
  case (write_use i now s s')
  then have "revoked d (set_token i (tk_used_update (\<lambda>_. Some now)) s)" by (intro revoked_set_token) auto
  with write_use.hyps show ?case by (simp add: revoked_def same_tables_def)
next
  case (write_revoke s i now)
  then show ?case by (intro revoked_set_token) auto
qed (auto simp: revoked_def same_tables_def add_user_def add_token_def set_user_def)

lemma reaches_revoked: "auth_reaches s s' \<Longrightarrow> store_ok s \<Longrightarrow> revoked d s \<Longrightarrow> revoked d s'"
  by (induction rule: auth_reaches.induct) (auto dest: reaches_ok auth_step_writes table_write_revoked)

text \<open>
  Once a token is revoked, its secret is never accepted again, whatever operations and outages follow.
\<close>

theorem revoked_stays_out:
  assumes "auth_reaches empty_store s" "t \<in> set (au_tokens s)" "tk_revoked t = Some w" "tk_hash t = sha p" "auth_reaches s s'"
  shows "fst (verify_token sha now p s') \<noteq> Inr (Some i)"
proof
  assume acc: "fst (verify_token sha now p s') = Inr (Some i)"
  have ok: "store_ok s" using assms(1) empty_store_ok by (rule reaches_ok)
  have up: "au_down s' = None"
  proof (rule ccontr)
    assume "au_down s' \<noteq> None"
    with acc show False by (auto simp: verify_token_def st_bind_def st_return_def db_read_def split: if_splits)
  qed
  have ok': "store_ok s'" using assms(5) ok by (rule reaches_ok)
  have "revoked (sha p) s" using assms(2-4) by (auto simp: revoked_def)
  then obtain t' where t': "t' \<in> set (au_tokens s')" "tk_hash t' = sha p" "tk_revoked t' \<noteq> None"
    using reaches_revoked [OF assms(5) ok] by (auto simp: revoked_def)
  then have "find (\<lambda>t. tk_hash t = sha p) (au_tokens s') = Some t'" using token_by_digest [OF ok'] by simp
  moreover have "\<not> token_valid now t'" using t'(3) by (simp add: token_valid_def token_status_def)
  ultimately show False using acc verify_token_found [OF up, of sha now p] by (simp split: if_splits)
qed

text \<open>What a token may do does not depend on its creator's role: a demotion leaves it as it was.\<close>

lemma demotion_keeps_token:
  assumes "update_user i role None s = (Inr d, s')" "au_down s = None"
  shows "fst (verify_token sha now p s') = fst (verify_token sha now p s)"
proof -
  have s': "s' = set_user i (update_row role None) s"
    using assms unfolding update_user_def update_commit_def
    by (auto simp: db_eqs dest!: update_check_passes split: option.splits)
  have row: "us_id (update_row role None u) = us_id u" "us_active (update_row role None u) = us_active u" for u
    by (simp_all add: update_row_def)
  have "map_option us_active (find (\<lambda>u. us_id u = k) (map (\<lambda>u. if us_id u = i then update_row role None u else u) us)) =
      map_option us_active (find (\<lambda>u. us_id u = k) us)" for k us
    by (induction us) (auto simp: row)
  then have active: "map_option us_active (user_with k s') = map_option us_active (user_with k s)" for k
    by (simp add: s' set_user_def user_with_def)
  have "owner_stands s' t = owner_stands s t" for t
  proof -
    have "(case user_with k s' of None \<Rightarrow> True | Some u \<Rightarrow> us_active u) = (case user_with k s of None \<Rightarrow> True | Some u \<Rightarrow> us_active u)" for k
      using active [of k] by (cases "user_with k s"; cases "user_with k s'") auto
    then show ?thesis by (simp add: owner_stands_def split: option.splits)
  qed
  moreover have "au_down s' = None" "au_tokens s' = au_tokens s" using assms(2) by (simp_all add: s' set_user_def)
  ultimately show ?thesis using assms(2) by (simp add: verify_token_found split: option.splits)
qed

section \<open>Examples\<close>

definition root_user :: user where
  "root_user = \<lparr>us_id = 1, us_name = ''root'', us_hash = ''hash'', us_role = ''admin'', us_active = True, us_created = 0, us_login = None\<rparr>"

definition seeded_store :: auth_store where
  "seeded_store = empty_store\<lparr>au_users := [root_user], au_user_seq := 2\<rparr>"

definition cli_token :: api_token where
  "cli_token = \<lparr>tk_id = 1, tk_label = ''cli'', tk_hash = ''cfop_abc'', tk_prefix = ''cfop_abc'', tk_scopes = [''remediate''],
     tk_creator = Some 1, tk_created = 0, tk_used = None, tk_expires = None, tk_revoked = None\<rparr>"

definition token_store :: auth_store where
  "token_store = seeded_store\<lparr>au_tokens := [cli_token], au_token_seq := 2\<rparr>"

lemma seeded_steps: "bootstrap_admin ''root'' ''hash'' 0 empty_store = (Inr True, seeded_store)"
  by code_simp

lemma token_steps:
  "create_token (\<lambda>x. x) ''abc'' 0 (PStr ''cli'') (PList [PStr ''remediate'']) (Some 1) ''admin'' None None seeded_store =
     (Inr (token_to_dict 0 cli_token, ''cfop_abc''), token_store)"
  by code_simp

lemma seeded_reached: "auth_reaches empty_store seeded_store"
  using reach_step [OF reach_refl step_bootstrap [OF seeded_steps]] .

lemma token_store_reached: "auth_reaches empty_store token_store"
  using reach_step [OF seeded_reached step_create_token [OF token_steps]] .

theorem auth_tables_well_formed_witness:
  "au_users token_store \<noteq> [] \<and> us_role ` set (au_users token_store) \<subseteq> set roles"
  using auth_tables_well_formed [OF token_store_reached] by (simp add: token_store_def seeded_store_def)

theorem admin_remains_witness:
  "has_admin (snd (update_user 1 (PStr role_member) None seeded_store))"
proof (rule admin_remains [OF seeded_reached])
  show "has_admin seeded_store" by code_simp
  show "auth_reaches seeded_store (snd (update_user 1 (PStr role_member) None seeded_store))"
    by (rule reach_step [OF reach_refl]) (rule step_update_user [OF prod.collapse [symmetric]])
qed

theorem concurrent_demotions_lose_admin_witness:
  "\<exists>s. has_admin s \<and> \<not> has_admin (snd (update_commit 2 (PStr role_member) None (snd (update_commit 1 (PStr role_member) None s))))"
proof -
  let ?s = "seeded_store\<lparr>au_users := [root_user, root_user\<lparr>us_id := 2, us_name := ''ann''\<rparr>]\<rparr>"
  have "has_admin ?s" by (simp add: has_admin_def root_user_def is_admin_def role_admin_def)
  then show ?thesis
    using concurrent_demotions_lose_admin [of ?s root_user "root_user\<lparr>us_id := 2, us_name := ''ann''\<rparr>"]
    by (intro exI [of _ ?s]) (simp add: root_user_def is_admin_def role_admin_def seeded_store_def empty_store_def)
qed

theorem token_accepted_exactly_witness:
  "fst (verify_token (\<lambda>x. x) 5 ''cfop_abc'' token_store) = Inr (Some (token_identity cli_token))"
proof -
  have "au_down token_store = None" "owner_stands token_store cli_token" "looks_like_token ''cfop_abc''" by code_simp+
  then show ?thesis
    using token_accepted_exactly [OF token_store_reached, of "\<lambda>x. x" 5 "''cfop_abc''"]
    by (simp add: token_store_def cli_token_def)
qed

theorem revoked_stays_out_witness:
  "fst (verify_token (\<lambda>x. x) 9 ''cfop_abc'' (snd (revoke_token 7 1 token_store))) \<noteq> Inr (Some (token_identity cli_token))"
proof -
  let ?s = "snd (revoke_token 7 1 token_store)"
  have "auth_reaches empty_store ?s"
    using reach_step [OF token_store_reached step_revoke [OF prod.collapse [symmetric]]] .
  moreover have "cli_token\<lparr>tk_revoked := Some 7\<rparr> \<in> set (au_tokens ?s)" by code_simp
  ultimately show ?thesis
    using revoked_stays_out [OF _ _ _ _ reach_refl, of ?s "cli_token\<lparr>tk_revoked := Some 7\<rparr>" 7 "\<lambda>x. x" "''cfop_abc''"]
    by (simp add: cli_token_def)
qed

end
