(* ===== verification/Web_Auth.thy ===== *)
theory Web_Auth
  imports Auth_Store
begin

text \<open>
  The gate in front of the console, \<open>web_auth.py\<close>, and the user and token routes behind it,
  \<open>auth/routes.py\<close>: which request proceeds, with what identity and role, the login with its
  lockout, and each route from the role check to the answer. A request carries its headers and the
  session the signed cookie holds. Hashes and the clock are arguments, as in \<open>Auth_Store\<close>.
\<close>

section \<open>Requests\<close>

record console =
  cs_store :: bool
  cs_disabled :: bool
  cs_username :: string
  cs_password_hash :: string
  cs_api_token :: string
  cs_completion :: string

record web_request =
  rq_path :: string
  rq_authorization :: string
  rq_completion :: string
  rq_accept :: string
  rq_session :: pydict
  rq_ip :: string

record caller =
  cl_user :: "pydict option"
  cl_token :: "identity option"
  cl_session :: pydict

record crypto =
  cr_sha :: "string \<Rightarrow> string"
  cr_gen :: "pyval \<Rightarrow> string res"
  cr_chk :: "string \<Rightarrow> pyval \<Rightarrow> bool res"

datatype answer = Json (status: int) pydict | Redirect string

definition exempt_paths :: "string list" where
  "exempt_paths = [''/api/health'', ''/metrics'', ''/login'', ''/logout'', ''/favicon.svg'']"

text \<open>The expression \<open>_COMPLETION_TOKEN_PATHS\<close>; its \<open>$\<close> also matches before a final newline.\<close>

definition completion_path :: "string \<Rightarrow> bool" where
  "completion_path p =
     (let q = (if ends_with [CHR 0x0A] p then butlast p else p); r = (if ends_with ''/'' q then butlast q else q);
          n = length ''/v1/remediations/''; m = length ''/complete''
      in r \<in> {''/v1/deep-investigations'', ''/v1/remediations/feed-sweeps'', ''/v1/remediations/feed-summary''} \<or>
         starts_with ''/v1/remediations/'' r \<and> ends_with ''/complete'' (drop n r) \<and> all_digits (take (length r - n - m) (drop n r)))"

definition wants_html :: "web_request \<Rightarrow> bool" where
  "wants_html r = (str_contains ''text/html'' (rq_accept r) \<and> \<not> str_contains ''application/json'' (rq_accept r))"

text \<open>\<open>secrets.compare_digest\<close> of two strings.\<close>

definition compare_digest :: "string \<Rightarrow> string \<Rightarrow> bool res" where
  "compare_digest a b =
     (if list_all (\<lambda>c. (of_char c :: nat) < 128) (a @ b) then Inr (a = b)
      else type_error ''comparing strings with non-ASCII characters is not supported'')"

definition unavailable :: answer where
  "unavailable = Json 503 [(''error'', PStr ''authentication backend unavailable'')]"

definition unauthenticated :: answer where
  "unauthenticated = Json 401 [(''error'', PStr ''authentication required'')]"

definition forbidden :: "string \<Rightarrow> answer" where
  "forbidden detail = Json 403 [(''error'', PStr ''forbidden''), (''detail'', PStr detail)]"

section \<open>The gate\<close>

definition configured :: "console \<Rightarrow> bool" where
  "configured c = (cs_store c \<or> cs_username c \<noteq> [] \<and> cs_password_hash c \<noteq> [] \<and> cs_api_token c \<noteq> [])"

definition legacy_identity :: identity where
  "legacy_identity = \<lparr>id_token = None, id_label = ''legacy CFOP_API_TOKEN'', id_scopes = {''read'', ''investigate'', ''remediate''},
     id_user = None, id_legacy = True\<rparr>"

definition service_token :: "crypto \<Rightarrow> console \<Rightarrow> int \<Rightarrow> web_request \<Rightarrow> (auth_store, identity option) op" where
  "service_token cr c now r =
     (if \<not> starts_with ''Bearer '' (rq_authorization r) then st_return None
      else let presented = str_strip (drop 7 (rq_authorization r)) in
        if presented = [] then st_return None
        else st_bind (if cs_store c then verify_token (cr_sha cr) now presented else st_return None) (\<lambda>found.
          if found \<noteq> None then st_return found
          else st_bind (st_lift (if cs_api_token c = [] then Inr False else compare_digest presented (cs_api_token c))) (\<lambda>shared.
            if \<not> shared then st_return None
            else st_bind (if cs_store c then record_audit now ''token.legacy_used'' PNone PNone (PStr (rq_ip r)) [(''path'', PStr (rq_path r))]
                          else st_return ()) (\<lambda>_. st_return (Some legacy_identity)))))"

definition completion_token :: "console \<Rightarrow> web_request \<Rightarrow> bool res" where
  "completion_token c r =
     (if \<not> completion_path (rq_path r) then Inr False
      else if cs_completion c = [] \<or> rq_completion r = [] then Inr False
      else compare_digest (rq_completion r) (cs_completion c))"

text \<open>The user number of a session; it is a number or \<open>None\<close>, since only the login writes it.\<close>

definition session_user :: "pydict \<Rightarrow> (auth_store, pydict option) op" where
  "session_user sess = (case pget sess ''cfop_user_id'' of PInt i \<Rightarrow> get_user i | _ \<Rightarrow> db_read (\<lambda>_. None))"

definition active_user :: "pydict option \<Rightarrow> bool" where
  "active_user u = (case u of None \<Rightarrow> False | Some d \<Rightarrow> d \<noteq> [] \<and> truthy (pget d ''is_active''))"

definition anonymous :: "web_request \<Rightarrow> caller" where
  "anonymous r = \<lparr>cl_user = None, cl_token = None, cl_session = rq_session r\<rparr>"

text \<open>\<open>try: x = m except Exception as e: ...\<close> with the rest of the body behind it.\<close>

definition attempt :: "('s, 'a) op \<Rightarrow> ('s, 'a res) op" where
  "attempt m s = (Inr (fst (m s)), snd (m s))"

text \<open>The session of the console; without a store its word is enough.\<close>

definition gate_session :: "console \<Rightarrow> web_request \<Rightarrow> caller \<Rightarrow> (auth_store, answer option \<times> caller) op" where
  "gate_session c r g =
     (let refuse = Some (if wants_html r then Redirect ''/login'' else unauthenticated) in
      if \<not> truthy (pget (rq_session r) ''cfop_user'') then st_return (refuse, g)
      else if \<not> cs_store c then st_return (None, g)
      else st_bind (attempt (session_user (rq_session r))) (\<lambda>looked. case looked of
          Inl _ \<Rightarrow> st_return (Some unavailable, g)
        | Inr u \<Rightarrow> st_return (if active_user u then (None, g\<lparr>cl_user := u\<rparr>) else (refuse, g\<lparr>cl_session := []\<rparr>))))"

text \<open>
  No answer: the request proceeds, as the caller given. (The query of the redirect, which names the
  page to come back to, is left out.)
\<close>

definition check_request :: "crypto \<Rightarrow> console \<Rightarrow> int \<Rightarrow> web_request \<Rightarrow> (auth_store, answer option \<times> caller) op" where
  "check_request cr c now r =
     (let g = anonymous r in
      if cs_disabled c \<or> rq_path r \<in> set exempt_paths then st_return (None, g)
      else if \<not> configured c then st_return (Some (Json 503 [(''error'', PStr ''console auth is not configured''),
          (''detail'', PStr ''no auth database, and CFOP_UI_USERNAME / CFOP_UI_PASSWORD_HASH / CFOP_API_TOKEN are unset'')]), g)
      else st_bind (attempt (service_token cr c now r)) (\<lambda>service. case service of
          Inl _ \<Rightarrow> st_return (Some unavailable, g)
        | Inr (Some t) \<Rightarrow> st_return (None, g\<lparr>cl_token := Some t\<rparr>)
        | Inr None \<Rightarrow> st_bind (st_lift (completion_token c r)) (\<lambda>machine.
            if machine then st_return (None, g) else gate_session c r g)))"

section \<open>Roles\<close>

definition token_role :: "identity \<Rightarrow> pyval" where
  "token_role t = PStr (if has_scope t ''remediate'' then role_admin else role_member)"

definition current_role :: "caller \<Rightarrow> pyval" where
  "current_role g = (case cl_user g of
     Some u \<Rightarrow> pget u ''role'' | None \<Rightarrow> (case cl_token g of Some t \<Rightarrow> token_role t | None \<Rightarrow> PNone))"

definition backend_unavailable :: "pyexn \<Rightarrow> ('s, 'a) op" where
  "backend_unavailable e = st_raise (PyExn ''AuthBackendUnavailable'' (exn_text e))"

definition effective_role :: "console \<Rightarrow> caller \<Rightarrow> (auth_store, pyval) op" where
  "effective_role c g =
     (if \<not> cs_store c then st_return (if truthy (pget (cl_session g) ''cfop_user'') \<or> cl_token g \<noteq> None then PStr role_admin else PNone)
      else (case cl_user g of
          Some u \<Rightarrow> st_return (pget u ''role'')
        | None \<Rightarrow>
            if pget (cl_session g) ''cfop_user_id'' \<noteq> PNone then
              st_bind (st_try (session_user (cl_session g)) backend_unavailable) (\<lambda>u.
                st_return (if active_user u then pget (the u) ''role'' else PNone))
            else st_return (current_role g)))"

definition require_role :: "console \<Rightarrow> caller \<Rightarrow> string \<Rightarrow> (auth_store, answer) op \<Rightarrow> (auth_store, answer) op" where
  "require_role c g role body =
     (if cs_disabled c then body
      else st_bind (attempt (effective_role c g)) (\<lambda>found. case found of
          Inl e \<Rightarrow> if exn_class e = ''AuthBackendUnavailable'' then st_return unavailable else st_raise e
        | Inr v \<Rightarrow>
            if v = PNone then st_return unauthenticated
            else if role = role_admin \<and> v \<noteq> PStr role_admin then st_return (forbidden (''this action requires the '' @ role @ '' role''))
            else body))"

definition require_console_admin :: "console \<Rightarrow> caller \<Rightarrow> (auth_store, answer) op \<Rightarrow> (auth_store, answer) op" where
  "require_console_admin c g body =
     (if cs_disabled c then body
      else if cl_token g \<noteq> None then st_return (forbidden ''this action requires a console admin session, not an API token'')
      else st_bind (attempt (effective_role c g)) (\<lambda>found. case found of
          Inl e \<Rightarrow> if exn_class e = ''AuthBackendUnavailable'' then st_return unavailable else st_raise e
        | Inr v \<Rightarrow>
            if v = PNone then st_return unauthenticated
            else if v \<noteq> PStr role_admin then st_return (forbidden ''this action requires the admin role'')
            else body))"

definition require_token_scope :: "console \<Rightarrow> caller \<Rightarrow> string \<Rightarrow> (auth_store, answer) op \<Rightarrow> (auth_store, answer) op" where
  "require_token_scope c g scope body =
     (if cs_disabled c then body
      else (case cl_token g of
          Some t \<Rightarrow> if has_scope t scope then body else st_return (forbidden (''this action requires the '' @ scope @ '' scope''))
        | None \<Rightarrow> if cl_user g \<noteq> None \<or> truthy (pget (cl_session g) ''cfop_user'') then body else st_return unauthenticated))"

section \<open>Login\<close>

type_synonym failures = "(string \<times> nat \<times> int) list"

record web_state =
  ws_auth :: auth_store
  ws_failures :: failures

definition max_failures :: nat where "max_failures = 8"

definition lockout :: int where "lockout = seconds 300"

definition locked_out :: "int \<Rightarrow> string \<Rightarrow> failures \<Rightarrow> bool \<times> failures" where
  "locked_out now ip fs = (case map_of fs ip of
     None \<Rightarrow> (False, fs)
   | Some (n, first) \<Rightarrow> if now - first > lockout then (False, ddel ip fs) else (max_failures \<le> n, fs))"

definition record_login_failure :: "int \<Rightarrow> string \<Rightarrow> failures \<Rightarrow> failures" where
  "record_login_failure now ip fs = (case map_of fs ip of
     None \<Rightarrow> dset ip (1, now) fs
   | Some (n, first) \<Rightarrow> if now - first > lockout then dset ip (1, now) fs else dset ip (n + 1, first) fs)"

definition on_auth :: "(auth_store, 'a) op \<Rightarrow> (web_state, 'a) op" where
  "on_auth m w = (case m (ws_auth w) of (r, s) \<Rightarrow> (r, w\<lparr>ws_auth := s\<rparr>))"

definition verify_credentials :: "crypto \<Rightarrow> console \<Rightarrow> int \<Rightarrow> string \<Rightarrow> pyval \<Rightarrow> (auth_store, pydict option) op" where
  "verify_credentials cr c now user password =
     (if cs_store c then verify_login (cr_chk cr) now user password
      else st_bind (st_lift (compare_digest user (cs_username c))) (\<lambda>user_ok.
        st_bind (st_lift (cr_chk cr (cs_password_hash c) password)) (\<lambda>pass_ok. st_return (
          if user_ok \<and> pass_ok then Some [(''id'', PNone), (''username'', PStr (cs_username c)), (''role'', PStr role_admin), (''is_active'', PBool True)]
          else None))))"

definition audit_login :: "console \<Rightarrow> int \<Rightarrow> string \<Rightarrow> pyval \<Rightarrow> string \<Rightarrow> (web_state, unit) op" where
  "audit_login c now event actor ip = (if cs_store c then on_auth (record_audit now event actor PNone (PStr ip) []) else st_return ())"

text \<open>The answer, and the session a login starts, from what the check of the credentials came to.\<close>

definition login_checked :: "console \<Rightarrow> int \<Rightarrow> string \<Rightarrow> pydict \<Rightarrow> string \<Rightarrow> pydict option res \<Rightarrow> (web_state, answer \<times> pydict option) op" where
  "login_checked c now ip data user checked = (case checked of
     Inl _ \<Rightarrow> st_return (unavailable, None)
   | Inr None \<Rightarrow>
       st_bind (st_modify (ws_failures_update (record_login_failure now ip))) (\<lambda>_.
       st_bind (audit_login c now ''login.failure'' (PStr user) ip) (\<lambda>_.
         st_return (Json 401 [(''error'', PStr ''invalid credentials'')], None)))
   | Inr (Some u) \<Rightarrow>
       st_bind (st_modify (ws_failures_update (ddel ip))) (\<lambda>_.
       st_bind (audit_login c now ''login.success'' (pget u ''username'') ip) (\<lambda>_.
         st_return (Json 200 [(''ok'', PBool True), (''next'', por (pget data ''next'') (PStr ''/'')),
             (''user'', PDict [(''username'', pget u ''username''), (''role'', pget_or u ''role'' (PStr role_admin))])],
           Some [(''cfop_user'', pget u ''username''), (''cfop_user_id'', pget u ''id''),
                 (''cfop_role'', pget_or u ''role'' (PStr role_admin))]))))"

definition login_post :: "crypto \<Rightarrow> console \<Rightarrow> int \<Rightarrow> string \<Rightarrow> pydict \<Rightarrow> (web_state, answer \<times> pydict option) op" where
  "login_post cr c now ip data =
     st_bind (st_get (\<lambda>w. locked_out now ip (ws_failures w))) (\<lambda>(locked, fs).
     st_bind (st_modify (ws_failures_update (\<lambda>_. fs))) (\<lambda>_.
       if locked then st_bind (audit_login c now ''login.lockout'' PNone ip)
         (\<lambda>_. st_return (Json 429 [(''error'', PStr ''too many attempts, try again later'')], None))
       else if \<not> configured c then st_return (Json 503 [(''error'', PStr ''console auth is not configured'')], None)
       else st_bind (st_lift (strip_text (pget data ''username''))) (\<lambda>user.
         st_bind (attempt (on_auth (verify_credentials cr c now user (por (pget data ''password'') (PStr []))))) (login_checked c now ip data user))))"

section \<open>The routes\<close>

definition guarded :: "(auth_store, answer) op \<Rightarrow> (auth_store, answer) op" where
  "guarded m = st_try m (\<lambda>e. st_return (
     if exn_class e = ''AuthError'' then Json 400 [(''error'', PStr (exn_text e))] else unavailable))"

text \<open>\<open>_effective_role\<close>, \<open>_caller_user_id\<close> and \<open>_actor\<close>.\<close>

definition route_role :: "console \<Rightarrow> caller \<Rightarrow> (auth_store, pyval) op" where
  "route_role c g = (if cs_disabled c then st_return (PStr role_admin) else effective_role c g)"

definition caller_user_id :: "caller \<Rightarrow> int option" where
  "caller_user_id g = (case cl_user g of
     Some u \<Rightarrow> (case pget u ''id'' of PInt i \<Rightarrow> Some i | _ \<Rightarrow> None)
   | None \<Rightarrow> (case cl_token g of Some t \<Rightarrow> id_user t | None \<Rightarrow> None))"

definition actor :: "caller \<Rightarrow> string" where
  "actor g = (case cl_user g of
     Some u \<Rightarrow> if truthy (pget u ''username'') then py_str (pget u ''username'') else (case cl_token g of Some t \<Rightarrow> ''token:'' @ id_label t | None \<Rightarrow> ''unknown'')
   | None \<Rightarrow> (case cl_token g of Some t \<Rightarrow> ''token:'' @ id_label t | None \<Rightarrow> ''unknown''))"

definition audit :: "int \<Rightarrow> web_request \<Rightarrow> caller \<Rightarrow> string \<Rightarrow> pyval \<Rightarrow> pydict \<Rightarrow> (auth_store, unit) op" where
  "audit now r g event target detail = record_audit now event (PStr (actor g)) target (PStr (rq_ip r)) detail"

datatype route =
    ListUsers
  | CreateUser pydict
  | UpdateUser int pydict
  | ResetPassword int pydict
  | ChangePassword pydict
  | ListTokens
  | CreateToken pydict
  | RevokeToken int
  | RecentAudit pyval string

definition route_list_users :: "(auth_store, answer) op" where
  "route_list_users = st_bind list_users (\<lambda>us. st_return (Json 200 [(''users'', PList (map PDict us))]))"

definition route_create_user :: "crypto \<Rightarrow> int \<Rightarrow> web_request \<Rightarrow> caller \<Rightarrow> pydict \<Rightarrow> (auth_store, answer) op" where
  "route_create_user cr now r g data =
     st_bind (create_user (cr_gen cr) now (pget data ''username'') (pget data ''password'') (por (pget data ''role'') (PStr role_member))) (\<lambda>u.
     st_bind (audit now r g ''user.created'' (pget u ''username'') [(''role'', pget u ''role'')]) (\<lambda>_. st_return (Json 201 u)))"

definition route_update_user :: "int \<Rightarrow> web_request \<Rightarrow> caller \<Rightarrow> int \<Rightarrow> pydict \<Rightarrow> (auth_store, answer) op" where
  "route_update_user now r g i data =
     (if \<not> has_key data ''role'' \<and> \<not> has_key data ''is_active'' then auth_error ''nothing to update: send role and/or is_active''
      else let active = pget data ''is_active'' in
        if active \<noteq> PNone \<and> active \<notin> {PBool True, PBool False} then auth_error ''is_active must be true or false''
        else st_bind (update_user i (pget data ''role'') (if active = PNone then None else Some (truthy active))) (\<lambda>u.
          st_bind (audit now r g (if active = PBool False then ''user.deactivated'' else ''user.updated'') (pget u ''username'')
              [(''role'', pget u ''role''), (''is_active'', pget u ''is_active'')]) (\<lambda>_. st_return (Json 200 u))))"

definition route_reset_password :: "crypto \<Rightarrow> int \<Rightarrow> web_request \<Rightarrow> caller \<Rightarrow> int \<Rightarrow> pydict \<Rightarrow> (auth_store, answer) op" where
  "route_reset_password cr now r g i data =
     st_bind (set_password (cr_gen cr) i (por (pget data ''password'') (PStr []))) (\<lambda>u.
     st_bind (audit now r g ''user.password_changed'' (pget u ''username'') [(''reset_by_admin'', PBool True)]) (\<lambda>_. st_return (Json 200 u)))"

definition route_change_password :: "crypto \<Rightarrow> int \<Rightarrow> web_request \<Rightarrow> caller \<Rightarrow> pydict \<Rightarrow> (auth_store, answer) op" where
  "route_change_password cr now r g data = (case cl_user g of
     None \<Rightarrow> st_return (Json 409 [(''error'', PStr ''this session is not tied to a user account''),
         (''detail'', PStr ''log in with a console account to change a password'')])
   | Some u \<Rightarrow> (case pget u ''id'' of
       PInt i \<Rightarrow>
         if \<not> truthy (pget data ''new_password'') then auth_error ''new_password is required''
         else st_bind (verify_login (cr_chk cr) now (py_str (pget u ''username'')) (por (pget data ''current_password'') (PStr []))) (\<lambda>proved.
           if proved = None then st_return (Json 403 [(''error'', PStr ''current password is incorrect'')])
           else st_bind (set_password (cr_gen cr) i (pget data ''new_password'')) (\<lambda>_.
             st_bind (audit now r g ''user.password_changed'' (pget u ''username'') [(''self_service'', PBool True)]) (\<lambda>_.
               st_return (Json 200 [(''ok'', PBool True)]))))
     | _ \<Rightarrow> st_return (Json 409 [(''error'', PStr ''this session is not tied to a user account''),
         (''detail'', PStr ''log in with a console account to change a password'')])))"

definition tokens_answer :: "pydict list \<Rightarrow> answer" where
  "tokens_answer ts = Json 200 [(''tokens'', PList (map PDict ts))]"

definition route_list_tokens :: "console \<Rightarrow> int \<Rightarrow> caller \<Rightarrow> (auth_store, answer) op" where
  "route_list_tokens c now g =
     st_bind (route_role c g) (\<lambda>role.
       if role = PStr role_admin then st_bind (list_tokens now None) (\<lambda>ts. st_return (tokens_answer ts))
       else (case caller_user_id g of
           None \<Rightarrow> st_return (tokens_answer [])
         | Some i \<Rightarrow> st_bind (list_tokens now (Some i)) (\<lambda>ts. st_return (tokens_answer ts))))"

text \<open>An optional number of the body: what \<open>int()\<close> refuses is the caller's error, an infinity is not.\<close>

definition number_field :: "pydict \<Rightarrow> string \<Rightarrow> (auth_store, int option) op" where
  "number_field data k = (if pget data k = PNone then st_return None
     else (case py_int (pget data k) of
         Inr i \<Rightarrow> st_return (Some i)
       | Inl e \<Rightarrow> if exn_class e \<in> {''TypeError'', ''ValueError''} then auth_error (k @ '' must be a number'') else st_raise e))"

definition is_text :: "pyval \<Rightarrow> bool" where
  "is_text v = (case v of PStr _ \<Rightarrow> True | _ \<Rightarrow> False)"

text \<open>\<open>_effective_role() or ROLE_MEMBER\<close>: a role is a string or missing.\<close>

definition role_or_member :: "pyval \<Rightarrow> string" where
  "role_or_member v = (case v of PStr s \<Rightarrow> if s = [] then role_member else s | _ \<Rightarrow> role_member)"

definition route_create_token :: "crypto \<Rightarrow> console \<Rightarrow> int \<Rightarrow> string \<Rightarrow> web_request \<Rightarrow> caller \<Rightarrow> pydict \<Rightarrow> (auth_store, answer) op" where
  "route_create_token cr c now random r g data =
     (if is_text (pget data ''scopes'') then auth_error ''scopes must be a list''
      else st_bind (number_field data ''expires_in_days'') (\<lambda>days. st_bind (number_field data ''ttl_seconds'') (\<lambda>ttl.
        st_bind (number_field data ''investigation_id'') (\<lambda>inv. st_bind (route_role c g) (\<lambda>role.
        st_bind (create_token (cr_sha cr) random now (pget data ''label'') (pget data ''scopes'') (caller_user_id g) (role_or_member role) days ttl) (\<lambda>(row, secret).
        st_bind (audit now r g ''token.created'' (pget row ''token_prefix'')
            ([(''token_id'', pget row ''id''), (''label'', pget row ''label''), (''scopes'', pget row ''scopes'')] @
             (case inv of None \<Rightarrow> [] | Some i \<Rightarrow> [(''investigation_id'', PInt i)]) @
             (case ttl of None \<Rightarrow> [] | Some i \<Rightarrow> [(''ttl_seconds'', PInt i)]))) (\<lambda>_.
          st_return (Json 201 (row @ [(''secret'', PStr secret)])))))))))"

definition route_revoke_token :: "console \<Rightarrow> int \<Rightarrow> web_request \<Rightarrow> caller \<Rightarrow> int \<Rightarrow> (auth_store, answer) op" where
  "route_revoke_token c now r g i =
     st_bind (route_role c g) (\<lambda>role.
     st_bind (if role = PStr role_admin then st_return True
              else (case caller_user_id g of
                  None \<Rightarrow> st_return False
                | Some u \<Rightarrow> st_bind (list_tokens now (Some u)) (\<lambda>ts. st_return (PInt i \<in> (\<lambda>t. pget t ''id'') ` set ts)))) (\<lambda>owned.
       if \<not> owned then st_return (forbidden ''a member may only revoke tokens they created'')
       else st_bind (revoke_token now i) (\<lambda>row.
         st_bind (audit now r g ''token.revoked'' (pget row ''token_prefix'') [(''token_id'', pget row ''id''), (''label'', pget row ''label'')]) (\<lambda>_.
           st_return (Json 200 row)))))"

definition route_audit :: "pyval \<Rightarrow> string \<Rightarrow> (auth_store, answer) op" where
  "route_audit raw event = (case py_int raw of
     Inl e \<Rightarrow> if exn_class e \<in> {''TypeError'', ''ValueError''} then auth_error ''limit must be a number'' else st_raise e
   | Inr n \<Rightarrow> (let limit = max 1 (min n 1000) in
       st_bind (recent_audit (nat limit) event) (\<lambda>rows. st_return (Json 200 [(''audit'', PList (map PDict rows)), (''limit'', PInt limit)]))))"

definition handle :: "crypto \<Rightarrow> console \<Rightarrow> int \<Rightarrow> string \<Rightarrow> web_request \<Rightarrow> caller \<Rightarrow> route \<Rightarrow> (auth_store, answer) op" where
  "handle cr c now random r g rt = (let admin = (\<lambda>m. require_role c g role_admin (guarded m)) in case rt of
     ListUsers \<Rightarrow> admin route_list_users
   | CreateUser data \<Rightarrow> admin (route_create_user cr now r g data)
   | UpdateUser i data \<Rightarrow> admin (route_update_user now r g i data)
   | ResetPassword i data \<Rightarrow> admin (route_reset_password cr now r g i data)
   | ChangePassword data \<Rightarrow> guarded (route_change_password cr now r g data)
   | ListTokens \<Rightarrow> guarded (route_list_tokens c now g)
   | CreateToken data \<Rightarrow> guarded (route_create_token cr c now random r g data)
   | RevokeToken i \<Rightarrow> guarded (route_revoke_token c now r g i)
   | RecentAudit raw event \<Rightarrow> admin (route_audit raw event))"

text \<open>One request: the gate, then the route.\<close>

definition serve :: "crypto \<Rightarrow> console \<Rightarrow> int \<Rightarrow> string \<Rightarrow> web_request \<Rightarrow> route \<Rightarrow> (auth_store, answer) op" where
  "serve cr c now random r rt =
     st_bind (check_request cr c now r) (\<lambda>(a, g). case a of Some x \<Rightarrow> st_return x | None \<Rightarrow> handle cr c now random r g rt)"

section \<open>Who gets past the gate\<close>

lemma st_try_eq:
  "st_try m h s = (r, s') \<longleftrightarrow> (\<exists>x. m s = (Inr x, s') \<and> r = Inr x) \<or> (\<exists>e t. m s = (Inl e, t) \<and> h e t = (r, s'))"
  by (auto simp: st_try_def split: prod.splits sum.splits)

lemmas op_eqs = db_read_eq db_write_eq st_bind_eq st_try_eq

text \<open>The bearer text of a request, and what makes it a credential.\<close>

definition bearer :: "web_request \<Rightarrow> string" where
  "bearer r = (if starts_with ''Bearer '' (rq_authorization r) then str_strip (drop 7 (rq_authorization r)) else [])"

definition bears_token :: "crypto \<Rightarrow> console \<Rightarrow> int \<Rightarrow> web_request \<Rightarrow> auth_store \<Rightarrow> identity \<Rightarrow> bool" where
  "bears_token cr c now r s i \<longleftrightarrow> bearer r \<noteq> [] \<and>
     (cs_store c \<and> fst (verify_token (cr_sha cr) now (bearer r) s) = Inr (Some i) \<or>
      cs_api_token c \<noteq> [] \<and> bearer r = cs_api_token c \<and> i = legacy_identity)"

definition completion_call :: "console \<Rightarrow> web_request \<Rightarrow> bool" where
  "completion_call c r \<longleftrightarrow> completion_path (rq_path r) \<and> cs_completion c \<noteq> [] \<and> rq_completion r = cs_completion c"

definition session_stands :: "console \<Rightarrow> web_request \<Rightarrow> auth_store \<Rightarrow> pydict option \<Rightarrow> bool" where
  "session_stands c r s u \<longleftrightarrow> truthy (pget (rq_session r) ''cfop_user'') \<and>
     (if cs_store c then active_user u \<and> au_down s = None \<and>
        (\<exists>i. pget (rq_session r) ''cfop_user_id'' = PInt i \<and> u = map_option user_to_dict (user_with i s)) else u = None)"

lemma compare_digest_True:
  "compare_digest a b = Inr True \<Longrightarrow> a = b"
  "Inr True = compare_digest a b \<Longrightarrow> a = b"
  by (simp_all add: compare_digest_def type_error_def split: if_splits)

lemma service_token_Some:
  assumes "service_token cr c now r s = (Inr (Some i), s')"
  shows "bears_token cr c now r s i"
  using assms unfolding service_token_def bears_token_def bearer_def
  by (auto simp: Let_def op_eqs dest: compare_digest_True split: if_splits)

text \<open>What the gate may change: the time a token was last used, and the audit trail.\<close>

definition gate_keeps :: "auth_store \<Rightarrow> auth_store \<Rightarrow> bool" where
  "gate_keeps s s' \<longleftrightarrow> au_users s' = au_users s \<and> au_down s' = au_down s \<and>
     map (tk_used_update (\<lambda>_. None)) (au_tokens s') = map (tk_used_update (\<lambda>_. None)) (au_tokens s)"

lemma gate_keeps_refl [simp, intro]: "gate_keeps s s"
  by (simp add: gate_keeps_def)

lemma gate_keeps_trans [trans]: "gate_keeps s t \<Longrightarrow> gate_keeps t u \<Longrightarrow> gate_keeps s u"
  by (simp add: gate_keeps_def)

lemma touch_keeps: "touch_last_used now i s = (r, s') \<Longrightarrow> gate_keeps s s'"
  unfolding touch_last_used_def st_try_def db_write_def set_token_def gate_keeps_def
  by (auto split: if_splits option.splits)

lemma verify_token_keeps: "verify_token sha now p s = (r, s') \<Longrightarrow> gate_keeps s s'"
  unfolding verify_token_def by (auto simp: op_eqs dest!: touch_keeps split: if_splits option.splits)

lemma record_audit_keeps: "record_audit now event a t ip d s = (r, s') \<Longrightarrow> gate_keeps s s'"
  unfolding record_audit_def by (auto simp: op_eqs gate_keeps_def split: option.splits)

lemma service_token_keeps: "service_token cr c now r s = (x, s') \<Longrightarrow> gate_keeps s s'"
  unfolding service_token_def
  by (auto simp: Let_def st_bind_eq dest!: verify_token_keeps record_audit_keeps intro: gate_keeps_trans split: if_splits)

lemma session_user_eq: "session_user sess s = (x, s') \<longleftrightarrow> s' = s \<and> x = (case au_down s of Some e \<Rightarrow> Inl e
    | None \<Rightarrow> Inr (case pget sess ''cfop_user_id'' of PInt i \<Rightarrow> map_option user_to_dict (user_with i s) | _ \<Rightarrow> None))"
  by (auto simp: session_user_def get_user_def db_read_def split: pyval.splits option.splits)

lemma session_user_snd [simp]: "snd (session_user sess s) = s"
  by (metis prod.collapse session_user_eq)

lemma session_user_active:
  "fst (session_user sess s) = Inr u \<Longrightarrow> active_user u \<Longrightarrow>
     au_down s = None \<and> (\<exists>i. pget sess ''cfop_user_id'' = PInt i \<and> u = map_option user_to_dict (user_with i s))"
  by (cases "session_user sess s") (auto simp: session_user_eq active_user_def split: option.splits pyval.splits)

lemma effective_role_keeps: "effective_role c g s = (x, s') \<Longrightarrow> s' = s"
  unfolding effective_role_def backend_unavailable_def
  by (auto simp: op_eqs session_user_eq split: if_splits option.splits)

lemma attempt_eq: "attempt m s = (r, s') \<longleftrightarrow> r = Inr (fst (m s)) \<and> s' = snd (m s)"
  by (auto simp: attempt_def)

lemma gate_session_keeps: "gate_session c r g s = (x, s') \<Longrightarrow> s' = s"
  unfolding gate_session_def by (auto simp: Let_def st_bind_eq attempt_eq split: if_splits sum.splits)

lemma gate_session_passes:
  "gate_session c r (anonymous r) s = (Inr (None, g), s') \<Longrightarrow> \<exists>u. session_stands c r s u \<and> g = anonymous r\<lparr>cl_user := u\<rparr>"
  unfolding gate_session_def session_stands_def
  by (auto simp: Let_def st_bind_eq attempt_eq anonymous_def dest!: session_user_active split: if_splits sum.splits)

lemma check_request_keeps: "check_request cr c now r s = (x, s') \<Longrightarrow> gate_keeps s s'"
  unfolding check_request_def
  by (auto simp: Let_def st_bind_eq attempt_eq dest!: gate_session_keeps
      intro: service_token_keeps [OF prod.collapse [symmetric]] split: if_splits sum.splits option.splits)

lemma session_stands_keeps: "gate_keeps s t \<Longrightarrow> session_stands c r t u \<longleftrightarrow> session_stands c r s u"
  by (simp add: gate_keeps_def session_stands_def user_with_def)

text \<open>
  C6: A request proceeds only if authentication is switched off, its path is one of the exempt ones, or
  the console is configured and the request bears an accepted token (the shared one included), or calls
  a completion path with the completion secret, or holds the session of a user who is active in the
  database now. The caller it proceeds as has the identity of just that credential.
\<close>

theorem gate_admits_only_credentials:
  assumes "fst (check_request cr c now r s) = Inr (None, g)"
  shows "(cs_disabled c \<or> rq_path r \<in> set exempt_paths) \<and> g = anonymous r \<or>
    configured c \<and>
      ((\<exists>i. bears_token cr c now r s i \<and> g = anonymous r\<lparr>cl_token := Some i\<rparr>) \<or>
       completion_call c r \<and> g = anonymous r \<or>
       (\<exists>u. session_stands c r s u \<and> g = anonymous r\<lparr>cl_user := u\<rparr>))"
proof -
  obtain s' where c: "check_request cr c now r s = (Inr (None, g), s')" using assms by (metis prod.collapse)
  show ?thesis
  proof (cases "cs_disabled c \<or> rq_path r \<in> set exempt_paths")
    case True
    with c show ?thesis by (auto simp: check_request_def)
  next
    case False
    obtain v t where v: "service_token cr c now r s = (v, t)" by (cases "service_token cr c now r s")
    with c False have conf: "configured c" by (auto simp: check_request_def Let_def split: if_splits)
    show ?thesis
    proof (cases "v = Inr None")
      case True
      then consider "completion_token c r = Inr True" "g = anonymous r" | "gate_session c r (anonymous r) t = (Inr (None, g), s')"
        using c False conf v by (auto simp: check_request_def Let_def st_bind_eq attempt_eq split: if_splits)
      then show ?thesis
      proof cases
        case 1
        then show ?thesis
          using conf by (auto simp: completion_token_def completion_call_def dest: compare_digest_True split: if_splits)
      next
        case 2
        then show ?thesis
          using conf gate_session_passes session_stands_keeps [OF service_token_keeps [OF v]] by blast
      qed
    next
      case no: False
      then obtain i where "v = Inr (Some i)" "g = anonymous r\<lparr>cl_token := Some i\<rparr>"
        using c False conf v by (auto simp: check_request_def Let_def st_bind_eq attempt_eq split: sum.splits option.splits)
      then show ?thesis using conf v service_token_Some by blast
    qed
  qed
qed

text \<open>
  C32: While the database cannot be reached, the gate of a console with a store lets nothing through but
  switched-off authentication, exempt paths, the shared token and completion calls with their secret,
  none of which it asks the database about, and leaves no trace in the tables: nobody is let in because a lookup
  could not run.
\<close>

theorem outage_fails_closed:
  assumes "cs_store c" "au_down s = Some e" "check_request cr c now r s = (Inr (a, g), s')"
  shows "au_tokens s' = au_tokens s \<and> au_users s' = au_users s \<and> au_audit s' = au_audit s \<and>
    (a = None \<longrightarrow> cs_disabled c \<or> rq_path r \<in> set exempt_paths \<or> bearer r \<noteq> [] \<and> bearer r = cs_api_token c \<or> completion_call c r)"
proof -
  have down: "au_down t = Some e \<Longrightarrow> fst (verify_token sha now p t) \<noteq> Inr (Some i)" for sha p i t
    by (auto simp: verify_token_def st_bind_def st_return_def db_read_def)
  have audit: "record_audit n ev ac ta ip d s = (x, t) \<Longrightarrow> t = s" for n ev ac ta ip d x t
    using assms(2) by (auto simp: record_audit_def st_try_def db_write_def st_return_def)
  have verify: "verify_token sha n p s = (x, t) \<Longrightarrow> t = s" for sha n p x t
    using assms(2) by (auto simp: verify_token_def st_bind_def st_return_def db_read_def split: if_splits)
  have "snd (service_token cr c now r s) = s"
    unfolding service_token_def using assms(2)
    by (auto simp: Let_def st_bind_def st_return_def st_lift_def dest!: audit verify split: prod.splits sum.splits)
  then have "s' = s"
    using assms(3) unfolding check_request_def
    by (auto simp: Let_def st_bind_eq attempt_eq dest!: gate_session_keeps split: if_splits sum.splits option.splits)
  moreover have "cs_disabled c \<or> rq_path r \<in> set exempt_paths \<or> bearer r \<noteq> [] \<and> bearer r = cs_api_token c \<or> completion_call c r" if "a = None"
    using gate_admits_only_credentials [of cr c now r s g] that assms down [OF assms(2)]
    by (auto simp: bears_token_def session_stands_def)
  ultimately show ?thesis by blast
qed

section \<open>What a request may change\<close>

text \<open>What identifies the users and says what they may do, and the digests of the tokens.\<close>

definition standing :: "auth_store \<Rightarrow> (int \<times> string \<times> string \<times> bool) list" where
  "standing s = map (\<lambda>u. (us_id u, us_name u, us_role u, us_active u)) (au_users s)"

definition digests :: "auth_store \<Rightarrow> string list" where
  "digests s = map tk_hash (au_tokens s)"

definition grants_nothing :: "auth_store \<Rightarrow> auth_store \<Rightarrow> bool" where
  "grants_nothing s s' \<longleftrightarrow> standing s' = standing s \<and> digests s' = digests s"

named_theorems inert \<open>operations that neither change a user's standing nor add a token\<close>

lemma inert_refl [simp, intro]: "grants_nothing s s"
  by (simp add: grants_nothing_def)

lemma inert_trans [trans]: "grants_nothing s t \<Longrightarrow> grants_nothing t u \<Longrightarrow> grants_nothing s u"
  by (simp add: grants_nothing_def)

lemma gate_inert:
  assumes "gate_keeps s s'"
  shows "grants_nothing s s'"
proof -
  have d: "digests s = map tk_hash (map (tk_used_update (\<lambda>_. None)) (au_tokens s))" for s by (simp add: digests_def)
  have "digests s' = digests s" unfolding d using assms by (simp only: gate_keeps_def)
  moreover have "standing s' = standing s" using assms by (simp add: gate_keeps_def standing_def)
  ultimately show ?thesis by (simp add: grants_nothing_def)
qed

lemma record_audit_inert [inert]: "record_audit now event a t ip d s = (r, s') \<Longrightarrow> grants_nothing s s'"
  by (rule gate_inert) (rule record_audit_keeps)

lemma audit_inert [inert]: "audit now r g event t d s = (x, s') \<Longrightarrow> grants_nothing s s'"
  unfolding audit_def by (rule record_audit_inert)

lemma set_user_inert: "harmless f \<Longrightarrow> grants_nothing s (set_user i f s)"
  by (auto simp: grants_nothing_def standing_def digests_def set_user_def harmless_def)

lemma set_password_inert [inert]: "set_password gen i p s = (r, s') \<Longrightarrow> grants_nothing s s'"
  unfolding set_password_def by (auto simp: db_eqs intro: set_user_inert split: if_splits option.splits)

lemma verify_login_inert [inert]: "verify_login chk now n p s = (r, s') \<Longrightarrow> grants_nothing s s'"
  unfolding verify_login_def by (auto simp: Let_def db_eqs intro: set_user_inert split: if_splits option.splits)

lemma revoke_token_inert [inert]: "revoke_token now i s = (r, s') \<Longrightarrow> grants_nothing s s'"
  unfolding revoke_token_def
  by (auto simp: db_eqs grants_nothing_def standing_def digests_def set_token_def split: if_splits option.splits)

lemma list_tokens_keeps [inert]: "list_tokens now u s = (r, s') \<Longrightarrow> grants_nothing s s'"
  by (simp add: list_tokens_def db_read_eq)

lemma list_users_keeps [inert]: "list_users s = (r, s') \<Longrightarrow> grants_nothing s s'"
  by (simp add: list_users_def db_read_eq)

lemma recent_audit_keeps [inert]: "recent_audit n e s = (r, s') \<Longrightarrow> grants_nothing s s'"
  by (simp add: recent_audit_def db_read_eq)

lemma route_role_keeps: "route_role c g s = (r, s') \<Longrightarrow> s' = s"
  by (auto simp: route_role_def dest: effective_role_keeps split: if_splits)

lemma route_role_inert [inert]: "route_role c g s = (r, s') \<Longrightarrow> grants_nothing s s'"
  using route_role_keeps by blast

lemma bind_inert:
  assumes "st_bind m f s = (x, s')" "\<And>y t. m s = (y, t) \<Longrightarrow> grants_nothing s t"
    and "\<And>y t x s'. m s = (Inr y, t) \<Longrightarrow> f y t = (x, s') \<Longrightarrow> grants_nothing t s'"
  shows "grants_nothing s s'"
  using assms by (auto simp: st_bind_eq intro: inert_trans)

lemma guarded_snd [simp]: "snd (guarded m s) = snd (m s)"
  by (auto simp: guarded_def st_try_def st_return_def split: prod.splits sum.splits)

lemma guarded_body:
  assumes "guarded m s = (x, s')"
  obtains y where "m s = (y, s')"
  by (metis assms guarded_snd prod.collapse snd_conv)

lemma route_change_password_inert: "route_change_password cr now r g data s = (x, s') \<Longrightarrow> grants_nothing s s'"
  unfolding route_change_password_def
  by (auto elim!: bind_inert dest: inert split: option.splits pyval.splits if_splits)

lemma route_list_tokens_inert: "route_list_tokens c now g s = (x, s') \<Longrightarrow> grants_nothing s s'"
  unfolding route_list_tokens_def
  by (auto elim!: bind_inert dest: inert split: option.splits if_splits)

lemma route_revoke_token_inert: "route_revoke_token c now r g i s = (x, s') \<Longrightarrow> grants_nothing s s'"
  unfolding route_revoke_token_def
  by (auto elim!: bind_inert dest: inert split: option.splits if_splits)

lemma create_token_creates:
  "create_token sha random now label wanted u role days ttl s = (x, s') \<Longrightarrow> token_grant u role s s'"
  by (rule create_token_grants)

text \<open>A body behind the admin role either does nothing, or runs for an admin.\<close>

lemma require_role_admin:
  assumes "require_role c g role_admin m s = (x, s')"
  shows "s' = s \<or> m s = (x, s') \<and> route_role c g s = (Inr (PStr role_admin), s)"
proof (cases "effective_role c g s")
  case (Pair v t)
  with effective_role_keeps have "t = s" by blast
  with Pair assms show ?thesis
    by (auto simp: require_role_def route_role_def st_bind_eq attempt_eq split: if_splits sum.splits)
qed

text \<open>The routes of the admin add no token.\<close>

named_theorems same_digests \<open>operations that add no token\<close>

lemma bind_digests:
  assumes "st_bind m f s = (x, s')" "\<And>y t. m s = (y, t) \<Longrightarrow> digests t = digests s"
    and "\<And>y t x s'. m s = (Inr y, t) \<Longrightarrow> f y t = (x, s') \<Longrightarrow> digests s' = digests t"
  shows "digests s' = digests s"
  using assms by (auto simp: st_bind_eq)

lemma inert_digests: "grants_nothing s t \<Longrightarrow> digests t = digests s"
  by (simp add: grants_nothing_def)

lemmas inert_same_digests [same_digests] = audit_inert [THEN inert_digests] set_password_inert [THEN inert_digests]
  list_users_keeps [THEN inert_digests] recent_audit_keeps [THEN inert_digests]

lemma create_user_digests [same_digests]: "create_user gen now n p rl s = (y, t) \<Longrightarrow> digests t = digests s"
  by (auto simp: create_user_def db_eqs digests_def add_user_def split: if_splits option.splits)

lemma update_user_digests [same_digests]: "update_user i rl b s = (y, t) \<Longrightarrow> digests t = digests s"
  by (auto simp: update_user_def update_commit_def db_eqs digests_def set_user_def dest!: update_check_keeps split: if_splits option.splits)

lemma admin_routes_digests:
  "route_list_users s = (y, t) \<Longrightarrow> digests t = digests s"
  "route_create_user cr now r g data s = (y, t) \<Longrightarrow> digests t = digests s"
  "route_update_user now r g i data s = (y, t) \<Longrightarrow> digests t = digests s"
  "route_reset_password cr now r g i data s = (y, t) \<Longrightarrow> digests t = digests s"
  "route_audit raw event s = (y, t) \<Longrightarrow> digests t = digests s"
  unfolding route_list_users_def route_create_user_def route_update_user_def route_reset_password_def route_audit_def
  by (auto simp: Let_def elim!: bind_digests dest: same_digests split: if_splits sum.splits)

text \<open>The routes fall into three kinds.\<close>

lemma handle_cases:
  assumes "handle cr c now random r g rt s = (x, s')"
  shows "grants_nothing s s' \<or> route_role c g s = (Inr (PStr role_admin), s) \<and> digests s' = digests s \<or>
    (\<exists>data. rt = CreateToken data \<and> snd (route_create_token cr c now random r g data s) = s')"
proof -
  have admin: "grants_nothing s s' \<or> route_role c g s = (Inr (PStr role_admin), s) \<and> digests s' = digests s"
    if "\<And>y t. m s = (y, t) \<Longrightarrow> digests t = digests s" "require_role c g role_admin (guarded m) s = (x, s')" for m
    using require_role_admin [OF that(2)] that(1) by (metis guarded_body inert_refl)
  show ?thesis
  proof (cases rt)
    case (CreateToken data)
    with assms have "guarded (route_create_token cr c now random r g data) s = (x, s')" by (simp add: handle_def)
    then show ?thesis using CreateToken by (metis guarded_snd snd_conv)
  qed (use assms admin [OF admin_routes_digests(1)] admin [OF admin_routes_digests(2)] admin [OF admin_routes_digests(3)]
      admin [OF admin_routes_digests(4)] admin [OF admin_routes_digests(5)]
    in \<open>auto simp: handle_def elim!: guarded_body
      dest: route_change_password_inert route_list_tokens_inert route_revoke_token_inert\<close>)
qed

lemma bind_reader:
  assumes "st_bind m f s = (x, s')" "\<And>y t. m s = (y, t) \<Longrightarrow> t = s"
  obtains "s' = s" | y where "m s = (Inr y, s)" "f y s = (x, s')"
  using assms by (auto simp: st_bind_eq)

lemma number_field_keeps: "number_field data k s = (y, t) \<Longrightarrow> t = s"
  by (auto simp: number_field_def split: if_splits sum.splits)

lemmas bind_number = bind_reader [where m="number_field data k" for data k, OF _ number_field_keeps]

lemmas bind_role = bind_reader [where m="route_role c g" for c g, OF _ route_role_keeps]

text \<open>A creation stops before it writes, or grants a token under the role and the number of its caller.\<close>

lemma route_create_token_grants:
  assumes "route_create_token cr c now random r g data s = (x, s')"
  obtains "s' = s"
  | role t where "route_role c g s = (Inr role, s)" "token_grant (caller_user_id g) (role_or_member role) s t" "gate_keeps t s'"
proof (cases "is_text (pget data ''scopes'')")
  case True
  with assms that(1) show ?thesis by (auto simp: route_create_token_def)
next
  case False
  let ?make = "\<lambda>days ttl role. create_token (cr_sha cr) random now (pget data ''label'') (pget data ''scopes'') (caller_user_id g)
    (role_or_member role) days ttl"
  show ?thesis
    using assms unfolding route_create_token_def if_not_P [OF False]
  proof (elim bind_number bind_role)
    fix days ttl inv role
    assume role: "route_role c g s = (Inr role, s)"
      and rest: "st_bind (?make days ttl role) (\<lambda>(row, secret). st_bind (audit now r g ''token.created'' (pget row ''token_prefix'')
            ([(''token_id'', pget row ''id''), (''label'', pget row ''label''), (''scopes'', pget row ''scopes'')] @
             (case inv of None \<Rightarrow> [] | Some i \<Rightarrow> [(''investigation_id'', PInt i)]) @
             (case ttl of None \<Rightarrow> [] | Some i \<Rightarrow> [(''ttl_seconds'', PInt i)])))
          (\<lambda>_. st_return (Json 201 (row @ [(''secret'', PStr secret)])))) s = (x, s')"
    obtain y t where make: "?make days ttl role s = (y, t)" by (cases "?make days ttl role s")
    have "gate_keeps t s'"
      using rest make by (auto simp: st_bind_eq audit_def split: prod.splits dest: record_audit_keeps)
    then show ?thesis using that(2) role create_token_grants [OF make] by blast
  qed (use that(1) in auto)
qed

lemma serve_cases:
  assumes "serve cr c now random r rt s = (x, s')"
  obtains "grants_nothing s s'"
  | g t where "check_request cr c now r s = (Inr (None, g), t)" "gate_keeps s t" "handle cr c now random r g rt t = (x, s')"
proof -
  obtain v t where check: "check_request cr c now r s = (v, t)" by (cases "check_request cr c now r s")
  note keeps = check_request_keeps [OF check]
  show ?thesis
  proof (cases "\<exists>g. v = Inr (None, g)")
    case True
    then obtain g where "v = Inr (None, g)" ..
    with assms check keeps show ?thesis by (intro that(2) [of g t]) (simp_all add: serve_def st_bind_def)
  next
    case False
    with assms check have "s' = t" by (auto simp: serve_def st_bind_eq split: option.splits)
    with keeps show ?thesis by (intro that(1) gate_inert) simp
  qed
qed

lemma grant_new:
  "t \<in> set (au_tokens u) \<Longrightarrow> tk_hash t \<notin> tk_hash ` set (au_tokens s) \<Longrightarrow> token_grant creator role s u \<Longrightarrow> granted creator role t"
  by (erule token_grant.cases) (auto simp: add_token_def granted_def dest: subsetD)

text \<open>
  C17: A token that is new after a request was created by a request the gate let through, belongs to its
  caller, and has only scopes his role may grant; with the scope remediate only if that role is admin.
\<close>

theorem new_token_within_ceiling:
  assumes "serve cr c now random r rt s = (x, s')" "t \<in> set (au_tokens s')" "tk_hash t \<notin> tk_hash ` set (au_tokens s)"
  shows "\<exists>g s1 role. check_request cr c now r s = (Inr (None, g), s1) \<and> route_role c g s1 = (Inr role, s1) \<and>
    tk_creator t = caller_user_id g \<and> set (tk_scopes t) \<subseteq> scope_ceiling (role_or_member role) \<and>
    (''remediate'' \<in> set (tk_scopes t) \<longrightarrow> role = PStr role_admin)"
  using assms(1)
proof (cases rule: serve_cases)
  case 1
  then have "tk_hash ` set (au_tokens s') = tk_hash ` set (au_tokens s)"
    by (metis grants_nothing_def digests_def set_map)
  with assms(2,3) show ?thesis by blast
next
  case (2 g s1)
  have old: "tk_hash ` set (au_tokens s1) = tk_hash ` set (au_tokens s)"
    using gate_inert [OF 2(2)] by (metis grants_nothing_def digests_def set_map)
  have new: "digests s' \<noteq> digests s1" using assms(2,3) old by (metis digests_def imageI set_map)
  then obtain data where data: "snd (route_create_token cr c now random r g data s1) = s'"
    using handle_cases [OF 2(3)] by (auto simp: grants_nothing_def)
  obtain y where "route_create_token cr c now random r g data s1 = (y, s')" using data by (metis prod.collapse)
  then show ?thesis
  proof (cases rule: route_create_token_grants)
    case 1
    with new show ?thesis by simp
  next
    case (2 role u)
    have hash: "tk_hash ` set (au_tokens s') = tk_hash ` set (au_tokens u)"
      using gate_inert [OF 2(3)] by (metis grants_nothing_def digests_def set_map)
    have "tk_used_update (\<lambda>_. None) t \<in> tk_used_update (\<lambda>_. None) ` set (au_tokens s')" using assms(2) by blast
    also have "\<dots> = tk_used_update (\<lambda>_. None) ` set (au_tokens u)"
      using 2(3) by (metis gate_keeps_def set_map)
    finally obtain t' where t': "t' \<in> set (au_tokens u)" "tk_used_update (\<lambda>_. None) t' = tk_used_update (\<lambda>_. None) t" by auto
    then have same: "tk_hash t' = tk_hash t" "tk_scopes t' = tk_scopes t" "tk_creator t' = tk_creator t"
      by (metis api_token.surjective api_token.update_convs(8) api_token.select_convs)+
    have "tk_hash t' \<notin> tk_hash ` set (au_tokens s1)" using assms(3) same old by simp
    with t'(1) have "granted (caller_user_id g) (role_or_member role) t'"
      by (rule grant_new) (rule 2(2))
    then have "tk_creator t = caller_user_id g" "set (tk_scopes t) \<subseteq> scope_ceiling (role_or_member role)"
      using same by (simp_all add: granted_def)
    moreover have "role = PStr role_admin" if "''remediate'' \<in> scope_ceiling (role_or_member role)"
      using that by (cases role) (auto simp: scope_ceiling_def role_or_member_def role_member_def role_admin_def split: if_splits)
    ultimately show ?thesis using 2(1) \<open>check_request cr c now r s = (Inr (None, g), s1)\<close> by blast
  qed
qed

text \<open>
  If a request adds a user or changes the name, the role or the activity of one, then the gate let
  it through and its effective role is admin.
\<close>

theorem users_managed_by_admins:
  assumes "serve cr c now random r rt s = (x, s')" "standing s' \<noteq> standing s"
  shows "\<exists>g s1. check_request cr c now r s = (Inr (None, g), s1) \<and> route_role c g s1 = (Inr (PStr role_admin), s1)"
  using assms(1)
proof (cases rule: serve_cases)
  case 1
  with assms(2) show ?thesis by (simp add: grants_nothing_def)
next
  case (2 g s1)
  have "standing s1 = standing s" using gate_inert [OF 2(2)] by (simp add: grants_nothing_def)
  with assms(2) have new: "standing s' \<noteq> standing s1" by simp
  moreover have False if data: "snd (route_create_token cr c now random r g data s1) = s'" for data
  proof -
    obtain y where "route_create_token cr c now random r g data s1 = (y, s')" using data by (metis prod.collapse)
    then show False
    proof (cases rule: route_create_token_grants)
      case (2 role u)
      have "standing u = standing s1" using 2(2) by (auto simp: standing_def add_token_def elim!: token_grant.cases)
      with gate_inert [OF 2(3)] new show False by (simp add: grants_nothing_def)
    qed (use new in simp)
  qed
  ultimately show ?thesis using handle_cases [OF 2(3)] 2(1) by (auto simp: grants_nothing_def)
qed

text \<open>
  A demotion takes effect for sessions but not for tokens: an admin's token with the scope remediate
  passes the gate after his demotion with the same identity, and still has the effective role admin.
\<close>

theorem demoted_admin_keeps_token_power:
  assumes "update_user i (PStr role_member) None s = (Inr d, s')" "au_down s = None"
    and "cs_store c" "\<not> cs_disabled c" "rq_path r \<notin> set exempt_paths" "bearer r \<noteq> []" "rq_session r = []"
    and "fst (verify_token (cr_sha cr) now (bearer r) s) = Inr (Some t)" "has_scope t ''remediate''"
  shows "\<exists>u. check_request cr c now r s' = (Inr (None, anonymous r\<lparr>cl_token := Some t\<rparr>), u) \<and>
    effective_role c (anonymous r\<lparr>cl_token := Some t\<rparr>) u = (Inr (PStr role_admin), u)"
proof -
  have "fst (verify_token (cr_sha cr) now (bearer r) s') = Inr (Some t)"
    using demotion_keeps_token [OF assms(1,2)] assms(8) by simp
  then obtain u where "verify_token (cr_sha cr) now (bearer r) s' = (Inr (Some t), u)" by (metis prod.collapse)
  then have "service_token cr c now r s' = (Inr (Some t), u)"
    using assms(3,6) by (simp add: service_token_def bearer_def st_bind_def st_return_def Let_def split: if_splits)
  then have "check_request cr c now r s' = (Inr (None, anonymous r\<lparr>cl_token := Some t\<rparr>), u)"
    using assms(3-5) by (simp add: check_request_def Let_def configured_def st_bind_def attempt_def st_return_def)
  moreover have "effective_role c (anonymous r\<lparr>cl_token := Some t\<rparr>) u = (Inr (PStr role_admin), u)"
    using assms(3,7,9) by (simp add: effective_role_def anonymous_def current_role_def token_role_def st_return_def)
  ultimately show ?thesis by blast
qed

section \<open>The lockout\<close>

definition login_status :: "(answer \<times> pydict option) res \<Rightarrow> int" where
  "login_status r = (case r of Inr (Json k _, _) \<Rightarrow> k | Inr (Redirect _, _) \<Rightarrow> 302 | Inl _ \<Rightarrow> 500)"

text \<open>Login requests one after the other, and the status each is answered with.\<close>

fun logins :: "crypto \<Rightarrow> console \<Rightarrow> (int \<times> string \<times> pydict) list \<Rightarrow> web_state \<Rightarrow> (int \<times> string \<times> int) list" where
  "logins cr c [] w = []"
| "logins cr c ((now, ip, data) # rs) w =
     (case login_post cr c now ip data w of (r, w') \<Rightarrow> (now, ip, login_status r) # logins cr c rs w')"

definition refused_at :: "string \<Rightarrow> (int \<times> string \<times> int) list \<Rightarrow> int list" where
  "refused_at ip log = map fst (filter (\<lambda>(t, j, k). j = ip \<and> k = 401) log)"

lemma on_auth_failures: "on_auth m w = (r, w') \<Longrightarrow> ws_failures w' = ws_failures w"
  by (auto simp: on_auth_def split: prod.splits)

lemma audit_login_failures: "audit_login c now e a ip w = (r, w') \<Longrightarrow> ws_failures w' = ws_failures w"
  by (auto simp: audit_login_def dest: on_auth_failures split: if_splits)

lemma audit_login_returns: "audit_login c now e a ip w = (Inl x, v) \<longleftrightarrow> False"
  using record_audit_returns [of now e a PNone "PStr ip" "[]" "ws_auth w"]
  by (auto simp: audit_login_def on_auth_def split: prod.splits)

text \<open>What an answer of the given status leaves in the table of failures.\<close>

definition failures_after :: "int \<Rightarrow> int \<Rightarrow> string \<Rightarrow> failures \<Rightarrow> failures" where
  "failures_after k now ip fs = (if k = 200 then ddel ip fs else if k = 401 then record_login_failure now ip fs else fs)"

lemma login_checked_failures:
  assumes "login_checked c now ip data user checked w = (r, w')"
  shows "ws_failures w' = failures_after (login_status r) now ip (ws_failures w)"
proof -
  consider e where "checked = Inl e" | "checked = Inr None" | u where "checked = Inr (Some u)" by (metis option.exhaust sum.exhaust)
  then show ?thesis
    by cases (use assms in \<open>auto simp: login_checked_def login_status_def failures_after_def unavailable_def st_bind_eq st_modify_def
      audit_login_returns dest!: audit_login_failures\<close>)
qed

lemma login_post_failures:
  assumes "login_post cr c now ip data w = (r, w')"
  shows "ws_failures w' = failures_after (login_status r) now ip (snd (locked_out now ip (ws_failures w)))"
    and "login_status r = 401 \<Longrightarrow> \<not> fst (locked_out now ip (ws_failures w))"
proof -
  obtain locked fs where l: "locked_out now ip (ws_failures w) = (locked, fs)" by (cases "locked_out now ip (ws_failures w)")
  have verify: "ws_failures (snd (on_auth m v)) = ws_failures v" for m :: "(auth_store, pydict option) op" and v
    by (metis on_auth_failures prod.collapse)
  have "ws_failures w' = failures_after (login_status r) now ip fs \<and> (login_status r = 401 \<longrightarrow> \<not> locked)"
    using assms unfolding login_post_def
    by (auto simp: l st_get_def st_bind_eq attempt_eq st_modify_def failures_after_def login_status_def audit_login_returns verify
      dest!: audit_login_failures login_checked_failures split: if_splits)
  then show "ws_failures w' = failures_after (login_status r) now ip (snd (locked_out now ip (ws_failures w)))"
    and "login_status r = 401 \<Longrightarrow> \<not> fst (locked_out now ip (ws_failures w))" by (simp_all add: l)
qed

text \<open>
  The entry of an address against its refusals so far: the last window holds at most eight, starts with its
  first refusal, and starts more than the lockout after all but eight of those before it.
\<close>

definition window_ok :: "int list \<Rightarrow> nat \<Rightarrow> int \<Rightarrow> bool" where
  "window_ok F n first \<longleftrightarrow> 0 < n \<and> n \<le> max_failures \<and> n \<le> length F \<and> F ! (length F - n) = first \<and>
     (\<forall>i. i + max_failures \<le> length F - n \<longrightarrow> first - F ! i > lockout)"

definition entry_ok :: "int \<Rightarrow> int list \<Rightarrow> (nat \<times> int) option \<Rightarrow> bool" where
  "entry_ok now F e \<longleftrightarrow> sorted F \<and> (\<forall>t \<in> set F. t \<le> now) \<and>
     (\<forall>i. i + 2 * max_failures < length F \<longrightarrow> F ! (i + 2 * max_failures) - F ! i > lockout) \<and>
     (case e of Some (n, first) \<Rightarrow> window_ok F n first
      | None \<Rightarrow> F = [] \<or> (\<exists>n first. window_ok F n first \<and> now - first > lockout))"

lemma entry_ok_later: "entry_ok now F e \<Longrightarrow> now \<le> later \<Longrightarrow> entry_ok later F e"
  by (fastforce simp: entry_ok_def split: option.splits prod.splits)

lemma entry_ok_expires:
  "entry_ok now F (Some (n, first)) \<Longrightarrow> now - first > lockout \<Longrightarrow> entry_ok now F None"
  by (auto simp: entry_ok_def)

lemma sorted_snoc_time: "sorted F \<Longrightarrow> \<forall>t \<in> set F. t \<le> now \<Longrightarrow> sorted (F @ [now :: int])"
  by (simp add: sorted_append)

text \<open>One more refusal, in the same window or at the start of a new one.\<close>

lemma entry_ok_same_window:
  assumes "entry_ok now F (Some (n, first))" "n < max_failures"
  shows "entry_ok now (F @ [now]) (Some (Suc n, first))"
proof -
  let ?m = "length F"
  from assms have F: "sorted F" "\<forall>t \<in> set F. t \<le> now"
    and sp: "\<And>i. i + 2 * max_failures < ?m \<Longrightarrow> F ! (i + 2 * max_failures) - F ! i > lockout"
    and n: "0 < n" "n \<le> ?m" "F ! (?m - n) = first"
    and old: "\<And>i. i + max_failures \<le> ?m - n \<Longrightarrow> first - F ! i > lockout"
    by (auto simp: entry_ok_def window_ok_def)
  have "first \<le> now" using F(2) n by (metis diff_less nth_mem order_less_le_trans)
  then have new: "now - F ! i > lockout" if "i + 2 * max_failures = ?m" for i
  proof -
    have "i + max_failures \<le> ?m - n" using that assms(2) by arith
    then show ?thesis using old [of i] \<open>first \<le> now\<close> by linarith
  qed
  have "(F @ [now]) ! (i + 2 * max_failures) - (F @ [now]) ! i > lockout" if "i + 2 * max_failures < Suc ?m" for i
  proof (cases "i + 2 * max_failures = ?m")
    case True
    then have "i < ?m" by (simp add: max_failures_def)
    with True new show ?thesis by (simp add: nth_append)
  next
    case False
    with that sp [of i] show ?thesis by (simp add: nth_append)
  qed
  moreover have "window_ok (F @ [now]) (Suc n) first"
    using n old assms(2) by (auto simp: window_ok_def nth_append)
  ultimately show ?thesis using F sorted_snoc_time by (auto simp: entry_ok_def)
qed

lemma entry_ok_new_window:
  assumes "entry_ok now F None"
  shows "entry_ok now (F @ [now]) (Some (1, now))"
proof (cases "F = []")
  case True
  then show ?thesis by (simp add: entry_ok_def window_ok_def max_failures_def)
next
  case False
  let ?m = "length F"
  from assms False obtain n first where F: "sorted F" "\<forall>t \<in> set F. t \<le> now"
    and sp: "\<And>i. i + 2 * max_failures < ?m \<Longrightarrow> F ! (i + 2 * max_failures) - F ! i > lockout"
    and n: "0 < n" "n \<le> max_failures" "n \<le> ?m" "F ! (?m - n) = first" "now - first > lockout"
    by (auto simp: entry_ok_def window_ok_def)
  have old: "now - F ! i > lockout" if "i + max_failures \<le> ?m" for i
  proof -
    have "F ! i \<le> F ! (?m - n)" using F(1) that n by (intro sorted_nth_mono) auto
    then show ?thesis using n(4,5) by simp
  qed
  have "(F @ [now]) ! (i + 2 * max_failures) - (F @ [now]) ! i > lockout" if "i + 2 * max_failures < Suc ?m" for i
  proof (cases "i + 2 * max_failures = ?m")
    case True
    then have "i < ?m" by (simp add: max_failures_def)
    with True old [of i] show ?thesis by (simp add: nth_append)
  next
    case False
    with that sp [of i] show ?thesis by (simp add: nth_append)
  qed
  moreover have "(F @ [now]) ! i = F ! i" if "i + max_failures \<le> ?m" for i
    using that by (simp add: nth_append max_failures_def)
  then have "window_ok (F @ [now]) 1 now"
    using old by (auto simp: window_ok_def max_failures_def)
  ultimately show ?thesis using F sorted_snoc_time by (auto simp: entry_ok_def)
qed

lemma max_failures_pos [simp]: "0 < max_failures"
  by (simp add: max_failures_def)

text \<open>One login request keeps the relation between the entry of an address and its refusals.\<close>

lemma login_post_entry:
  assumes "login_post cr c now j data w = (r, w')" "login_status r \<noteq> 200 \<or> j \<noteq> ip" "entry_ok now F (map_of (ws_failures w) ip)"
  shows "entry_ok now (F @ (if j = ip \<and> login_status r = 401 then [now] else [])) (map_of (ws_failures w') ip)"
proof (cases "j = ip")
  case False
  have "map_of (snd (locked_out now j fs)) ip = map_of fs ip" "map_of (failures_after k now j fs) ip = map_of fs ip" for fs k
    using False by (auto simp: locked_out_def failures_after_def record_login_failure_def split: option.splits prod.splits)
  then show ?thesis using assms False login_post_failures(1) [OF assms(1)] by auto
next
  case True
  then have st: "login_status r \<noteq> 200" using assms(2) by simp
  note fs = login_post_failures [OF assms(1)]
  obtain locked gs where l: "locked_out now ip (ws_failures w) = (locked, gs)" by (cases "locked_out now ip (ws_failures w)")
  have keep: "entry_ok now F (map_of gs ip)"
    using l assms(3) entry_ok_expires by (auto simp: locked_out_def split: option.splits prod.splits if_splits)
  show ?thesis
  proof (cases "login_status r = 401")
    case False
    with True fs(1) st l keep show ?thesis by (simp add: failures_after_def)
  next
    case 401: True
    with fs l True have w': "ws_failures w' = record_login_failure now ip gs" and "\<not> locked" by (simp_all add: failures_after_def)
    show ?thesis
    proof (cases "map_of gs ip")
      case None
      with keep entry_ok_new_window True 401 w' show ?thesis by (simp add: record_login_failure_def)
    next
      case (Some e)
      obtain n first where e: "e = (n, first)" by (cases e)
      with Some l \<open>\<not> locked\<close> have "n < max_failures" "\<not> now - first > lockout"
        by (auto simp: locked_out_def split: option.splits prod.splits if_splits)
      with Some e keep entry_ok_same_window True 401 w' show ?thesis by (simp add: record_login_failure_def)
    qed
  qed
qed

lemma refused_at_Cons:
  "refused_at ip ((t, j, k) # log) = (if j = ip \<and> k = 401 then [t] else []) @ refused_at ip log"
  by (simp add: refused_at_def)

lemma logins_entry:
  assumes "sorted (map fst reqs)" "\<forall>t \<in> fst ` set reqs. start \<le> t" "\<forall>t. (t, ip, 200) \<notin> set (logins cr c reqs w)"
    and "entry_ok start F (map_of (ws_failures w) ip)"
  shows "\<exists>later e. entry_ok later (F @ refused_at ip (logins cr c reqs w)) e"
  using assms
proof (induction reqs arbitrary: w F start)
  case Nil
  then show ?case by (auto simp: refused_at_def)
next
  case (Cons q reqs)
  obtain now j data where q: "q = (now, j, data)" by (cases q)
  obtain r w' where r: "login_post cr c now j data w = (r, w')" by (cases "login_post cr c now j data w")
  have "entry_ok now F (map_of (ws_failures w) ip)"
    using Cons.prems(2,4) q by (auto intro: entry_ok_later)
  moreover have "login_status r \<noteq> 200 \<or> j \<noteq> ip" using Cons.prems(3) q r by auto
  ultimately have "entry_ok now (F @ (if j = ip \<and> login_status r = 401 then [now] else [])) (map_of (ws_failures w') ip)"
    using login_post_entry [OF r] by blast
  moreover have "sorted (map fst reqs)" "\<forall>t \<in> fst ` set reqs. now \<le> t" "\<forall>t. (t, ip, 200) \<notin> set (logins cr c reqs w')"
    using Cons.prems(1,3) q r by auto
  ultimately show ?case
    using Cons.IH q r by (simp add: refused_at_Cons split del: if_split) (metis append_assoc)
qed

text \<open>
  Whoever guesses passwords from one address, without a success, is told that a password was wrong at
  most sixteen times within any five minutes, whatever other addresses do in between: of seventeen such
  answers in a row the last is more than the lockout after the first. (Eight is the bound per window only,
  since a window is counted from its first failure.)
\<close>

theorem wrong_passwords_bounded:
  assumes "sorted (map fst reqs)" "ws_failures w = []" "\<forall>t. (t, ip, 200) \<notin> set (logins cr c reqs w)"
    and "i + 16 < length (refused_at ip (logins cr c reqs w))"
  shows "refused_at ip (logins cr c reqs w) ! (i + 16) - refused_at ip (logins cr c reqs w) ! i > lockout"
proof -
  obtain start where "\<forall>t \<in> fst ` set reqs. start \<le> t"
    by (meson Min_le List.finite_set finite_imageI)
  moreover have "entry_ok start [] (map_of (ws_failures w) ip)" using assms(2) by (simp add: entry_ok_def)
  ultimately obtain later e where "entry_ok later ([] @ refused_at ip (logins cr c reqs w)) e"
    using logins_entry [OF assms(1) _ assms(3)] by blast
  then show ?thesis using assms(4) by (simp add: entry_ok_def max_failures_def)
qed

section \<open>Examples\<close>

definition sample_crypto :: crypto where
  "sample_crypto = \<lparr>cr_sha = (\<lambda>x. x), cr_gen = (\<lambda>v. Inr (py_str v)), cr_chk = (\<lambda>h v. Inr (v = PStr h))\<rparr>"

definition sample_console :: console where
  "sample_console = \<lparr>cs_store = True, cs_disabled = False, cs_username = [], cs_password_hash = [], cs_api_token = [], cs_completion = []\<rparr>"

definition sample_session :: web_request where
  "sample_session = \<lparr>rq_path = ''/api/auth/tokens'', rq_authorization = [], rq_completion = [], rq_accept = [],
     rq_session = [(''cfop_user'', PStr ''root''), (''cfop_user_id'', PInt 1)], rq_ip = ''10.0.0.1''\<rparr>"

definition sample_bearer :: web_request where
  "sample_bearer = sample_session\<lparr>rq_authorization := ''Bearer cfop_abc'', rq_session := []\<rparr>"

theorem gate_admits_only_credentials_witness:
  "\<exists>i. bears_token sample_crypto sample_console 5 sample_bearer token_store i"
proof -
  have "fst (check_request sample_crypto sample_console 5 sample_bearer token_store) =
      Inr (None, anonymous sample_bearer\<lparr>cl_token := Some (token_identity cli_token)\<rparr>)"
    by code_simp
  from gate_admits_only_credentials [OF this] show ?thesis
    by (auto simp: sample_console_def sample_bearer_def sample_session_def exempt_paths_def anonymous_def completion_call_def)
qed

theorem outage_fails_closed_witness:
  "\<exists>a g s'. check_request sample_crypto sample_console 5 sample_session (token_store\<lparr>au_down := Some (PyExn ''OperationalError'' [])\<rparr>) = (Inr (Some a, g), s')"
proof -
  let ?s = "token_store\<lparr>au_down := Some (PyExn ''OperationalError'' [])\<rparr>"
  have "check_request sample_crypto sample_console 5 sample_session ?s = (Inr (Some unavailable, anonymous sample_session), ?s)"
    by code_simp
  then show ?thesis
    using outage_fails_closed [of sample_console ?s "PyExn ''OperationalError'' []" sample_crypto 5 sample_session]
    by (auto simp: sample_console_def)
qed

theorem new_token_within_ceiling_witness:
  "\<exists>g s1. check_request sample_crypto sample_console 5 sample_session seeded_store = (Inr (None, g), s1) \<and>
    route_role sample_console g s1 = (Inr (PStr role_admin), s1)"
proof -
  let ?data = "[(''label'', PStr ''cli''), (''scopes'', PList [PStr ''remediate''])]"
  obtain x s' where served: "serve sample_crypto sample_console 5 ''abc'' sample_session (CreateToken ?data) seeded_store = (x, s')"
    by (cases "serve sample_crypto sample_console 5 ''abc'' sample_session (CreateToken ?data) seeded_store")
  have "cli_token\<lparr>tk_created := 5\<rparr> \<in> set (au_tokens (snd (serve sample_crypto sample_console 5 ''abc'' sample_session (CreateToken ?data) seeded_store)))"
    by code_simp
  with served have "cli_token\<lparr>tk_created := 5\<rparr> \<in> set (au_tokens s')" by simp
  from new_token_within_ceiling [OF served this] show ?thesis
    by (auto simp: cli_token_def seeded_store_def empty_store_def)
qed

theorem users_managed_by_admins_witness:
  "\<exists>g s1. check_request sample_crypto sample_console 5 sample_session seeded_store = (Inr (None, g), s1) \<and>
    route_role sample_console g s1 = (Inr (PStr role_admin), s1)"
proof -
  let ?data = "[(''username'', PStr ''ann''), (''password'', PStr ''pw'')]"
  have "standing (snd (serve sample_crypto sample_console 5 [] sample_session (CreateUser ?data) seeded_store)) \<noteq> standing seeded_store"
    by code_simp
  from users_managed_by_admins [OF prod.collapse [symmetric] this] show ?thesis .
qed

theorem demoted_admin_keeps_token_power_witness:
  "\<exists>s u. fst (update_user 1 (PStr role_member) None s) = Inr (user_to_dict (root_user\<lparr>us_role := role_member\<rparr>)) \<and>
    effective_role sample_console (anonymous sample_bearer\<lparr>cl_token := Some (token_identity cli_token)\<rparr>) u = (Inr (PStr role_admin), u)"
proof -
  let ?s = "token_store\<lparr>au_users := [root_user, root_user\<lparr>us_id := 2, us_name := ''ann''\<rparr>]\<rparr>"
  have "fst (update_user 1 (PStr role_member) None ?s) = Inr (user_to_dict (root_user\<lparr>us_role := role_member\<rparr>))" by code_simp
  then obtain s' where up: "update_user 1 (PStr role_member) None ?s = (Inr (user_to_dict (root_user\<lparr>us_role := role_member\<rparr>)), s')"
    by (metis prod.collapse)
  have "au_down ?s = None" "cs_store sample_console" "\<not> cs_disabled sample_console" "rq_path sample_bearer \<notin> set exempt_paths"
    "bearer sample_bearer \<noteq> []" "rq_session sample_bearer = []"
    "fst (verify_token (cr_sha sample_crypto) 5 (bearer sample_bearer) ?s) = Inr (Some (token_identity cli_token))"
    "has_scope (token_identity cli_token) ''remediate''" by code_simp+
  from demoted_admin_keeps_token_power [OF up this] up show ?thesis by (metis fst_conv)
qed

definition guesses :: "(int \<times> string \<times> pydict) list" where
  "guesses = map (\<lambda>t. (seconds t, ''10.0.0.9'', [(''password'', PStr ''x'')])) [0,0,0,0,0,0,0,0,301,301,301,301,301,301,301,301,602]"

theorem wrong_passwords_bounded_witness:
  "refused_at ''10.0.0.9'' (logins sample_crypto sample_console guesses \<lparr>ws_auth = seeded_store, ws_failures = []\<rparr>) ! 16 -
   refused_at ''10.0.0.9'' (logins sample_crypto sample_console guesses \<lparr>ws_auth = seeded_store, ws_failures = []\<rparr>) ! 0 > lockout"
proof -
  let ?log = "logins sample_crypto sample_console guesses \<lparr>ws_auth = seeded_store, ws_failures = []\<rparr>"
  have log: "?log = map (\<lambda>g. (fst g, ''10.0.0.9'', 401)) guesses" by code_simp
  have "sorted (map fst guesses)" by code_simp
  moreover have "length (refused_at ''10.0.0.9'' ?log) = 17" unfolding log by code_simp
  moreover have "\<forall>t. (t, ''10.0.0.9'', 200) \<notin> set ?log" unfolding log by auto
  ultimately show ?thesis
    using wrong_passwords_bounded [of guesses "\<lparr>ws_auth = seeded_store, ws_failures = []\<rparr>" "''10.0.0.9''" sample_crypto sample_console 0] by simp
qed

end
