(* ===== verification/Py_Regex.thy ===== *)
theory Py_Regex
  imports Py_Base
begin

text \<open>
  The regular expressions of Python's \<open>re\<close> as the program uses them, with the semantics of a backtracking
  matcher: a match has an order of preference, groups are captured, look-around and back references are
  evaluated where they stand. A place in a text is what was read (backwards), what is ahead, and the groups
  captured so far; an expression maps a place to the places a match can end at, the preferred one first.
  Strings hold no code point above 255, so the classes are those of the prelude.
\<close>

section \<open>Expressions\<close>

datatype rx =
    REps
  | RChr "char \<Rightarrow> bool"
  | RSeq rx rx
  | RAlt rx rx
  | RStar bool rx
  | RGroup nat rx
  | RRef nat
  | RAhead bool rx
  | RNotBehind "char \<Rightarrow> bool"
  | RStart
  | REnd
  | RLineStart
  | RWordB

datatype place = At (seen: string) (ahead: string) (caps: "(nat \<times> string) list")

text \<open>Composite expressions, written as in a pattern.\<close>

definition lits :: "string \<Rightarrow> rx" where
  "lits s = foldr (\<lambda>c. RSeq (RChr (\<lambda>d. d = c))) s REps"

fun seqs :: "rx list \<Rightarrow> rx" where
  "seqs [] = REps"
| "seqs [r] = r"
| "seqs (r # q # rs) = RSeq r (seqs (q # rs))"

fun alts :: "rx list \<Rightarrow> rx" where
  "alts [] = RChr (\<lambda>c. False)"
| "alts [r] = r"
| "alts (r # q # rs) = RAlt r (alts (q # rs))"

definition opt :: "bool \<Rightarrow> rx \<Rightarrow> rx" where
  "opt greedy r = (if greedy then RAlt r REps else RAlt REps r)"

definition plus :: "bool \<Rightarrow> rx \<Rightarrow> rx" where
  "plus greedy r = RSeq r (RStar greedy r)"

fun between :: "bool \<Rightarrow> nat \<Rightarrow> nat \<Rightarrow> rx \<Rightarrow> rx" where
  "between greedy lo 0 r = REps"
| "between greedy 0 (Suc hi) r = opt greedy (RSeq r (between greedy 0 hi r))"
| "between greedy (Suc lo) (Suc hi) r = RSeq r (between greedy lo hi r)"

definition at_least :: "bool \<Rightarrow> nat \<Rightarrow> rx \<Rightarrow> rx" where
  "at_least greedy lo r = RSeq (between greedy lo lo r) (RStar greedy r)"

definition in_range :: "char \<Rightarrow> char \<Rightarrow> char \<Rightarrow> bool" where
  "in_range a b c = (of_char a \<le> (of_char c :: nat) \<and> of_char c \<le> (of_char b :: nat))"

section \<open>Matching\<close>

definition step_over :: "char \<Rightarrow> string \<Rightarrow> place \<Rightarrow> place" where
  "step_over c s p = At (c # seen p) s (caps p)"

fun eat_text :: "string \<Rightarrow> place \<Rightarrow> place list" where
  "eat_text [] p = [p]"
| "eat_text (c # w) p = (case ahead p of [] \<Rightarrow> [] | d # s \<Rightarrow> if d = c then eat_text w (step_over d s p) else [])"

definition word_head :: "string \<Rightarrow> bool" where
  "word_head s = (case s of [] \<Rightarrow> False | c # s' \<Rightarrow> word_char c)"

text \<open>The text between two places.\<close>

definition text_between :: "place \<Rightarrow> place \<Rightarrow> string" where
  "text_between p q = take (length (ahead p) - length (ahead q)) (ahead p)"

text \<open>A repetition goes on while its body consumes; the length of the text ahead bounds the rounds.\<close>

fun repeat_rx :: "bool \<Rightarrow> (place \<Rightarrow> place list) \<Rightarrow> nat \<Rightarrow> place \<Rightarrow> place list" where
  "repeat_rx greedy f 0 p = [p]"
| "repeat_rx greedy f (Suc n) p =
     (let more = concat (map (repeat_rx greedy f n) (filter (\<lambda>q. length (ahead q) < length (ahead p)) (f p)))
      in if greedy then more @ [p] else p # more)"

primrec matches :: "rx \<Rightarrow> place \<Rightarrow> place list" where
  "matches REps p = [p]"
| "matches (RChr f) p = (case ahead p of [] \<Rightarrow> [] | c # s \<Rightarrow> if f c then [step_over c s p] else [])"
| "matches (RSeq r q) p = concat (map (matches q) (matches r p))"
| "matches (RAlt r q) p = matches r p @ matches q p"
| "matches (RStar greedy r) p = repeat_rx greedy (matches r) (length (ahead p)) p"
| "matches (RGroup n r) p = map (\<lambda>q. At (seen q) (ahead q) ((n, text_between p q) # caps q)) (matches r p)"
| "matches (RRef n) p = (case map_of (caps p) n of None \<Rightarrow> [] | Some w \<Rightarrow> eat_text w p)"
| "matches (RAhead pos r) p = (if (matches r p \<noteq> []) = pos then [p] else [])"
| "matches (RNotBehind f) p = (case seen p of [] \<Rightarrow> [p] | c # s \<Rightarrow> if f c then [] else [p])"
| "matches RStart p = (if seen p = [] then [p] else [])"
| "matches REnd p = (if ahead p = [] \<or> ahead p = [CHR 0x0A] then [p] else [])"
| "matches RLineStart p = (case seen p of [] \<Rightarrow> [p] | c # s \<Rightarrow> if c = CHR 0x0A then [p] else [])"
| "matches RWordB p = (if word_head (seen p) \<noteq> word_head (ahead p) then [p] else [])"

section \<open>The functions of the module\<close>

definition first_match :: "rx \<Rightarrow> place \<Rightarrow> place option" where
  "first_match r p = (case matches r p of [] \<Rightarrow> None | q # qs \<Rightarrow> Some q)"

definition start_of :: "string \<Rightarrow> place" where
  "start_of s = At [] s []"

definition rx_match :: "rx \<Rightarrow> string \<Rightarrow> place option" where
  "rx_match r s = first_match r (start_of s)"

definition rx_fullmatch :: "rx \<Rightarrow> string \<Rightarrow> place option" where
  "rx_fullmatch r s = (case filter (\<lambda>q. ahead q = []) (matches r (start_of s)) of [] \<Rightarrow> None | q # qs \<Rightarrow> Some q)"

text \<open>A search gives the place it started at and the place it ended at.\<close>

fun search_from :: "rx \<Rightarrow> string \<Rightarrow> string \<Rightarrow> (place \<times> place) option" where
  "search_from r l [] = map_option (\<lambda>q. (At l [] [], q)) (first_match r (At l [] []))"
| "search_from r l (c # s) = (case first_match r (At l (c # s) []) of
     Some q \<Rightarrow> Some (At l (c # s) [], q)
   | None \<Rightarrow> search_from r (c # l) s)"

definition rx_search :: "rx \<Rightarrow> string \<Rightarrow> (place \<times> place) option" where
  "rx_search r s = search_from r [] s"

definition found :: "rx \<Rightarrow> string \<Rightarrow> bool" where
  "found r s = (rx_search r s \<noteq> None)"

text \<open>\<open>m.group(n)\<close>: the last capture of the group.\<close>

definition group :: "nat \<Rightarrow> place \<Rightarrow> string option" where
  "group n q = map_of (caps q) n"

text \<open>The replacement of every match, for the expressions that match no empty text, as all of the program's do.\<close>

function sub_from :: "rx \<Rightarrow> (place \<Rightarrow> string) \<Rightarrow> string \<Rightarrow> string \<Rightarrow> string" where
  "sub_from r f l [] = []"
| "sub_from r f l (c # s) = (case first_match r (At l (c # s) []) of
     None \<Rightarrow> c # sub_from r f (c # l) s
   | Some q \<Rightarrow> if length (ahead q) < Suc (length s) then f q @ sub_from r f (seen q) (ahead q) else c # sub_from r f (c # l) s)"
  by pat_completeness auto
termination
  by (relation "measure (\<lambda>(r, f, l, s). length s)") auto

definition rx_sub :: "rx \<Rightarrow> string \<Rightarrow> string \<Rightarrow> string" where
  "rx_sub r w s = sub_from r (\<lambda>q. w) [] s"

text \<open>\<open>re.split(r, s, 1)[0]\<close>: the text in front of the first match.\<close>

definition split_head :: "rx \<Rightarrow> string \<Rightarrow> string" where
  "split_head r s = (case rx_search r s of None \<Rightarrow> s | Some (p, q) \<Rightarrow> rev (seen p))"

section \<open>What a match is\<close>

text \<open>A match reads on from its place: what it read moved from ahead to behind.\<close>

inductive reads_on :: "place \<Rightarrow> place \<Rightarrow> bool" where
  reads_onI: "ahead p = u @ ahead q \<Longrightarrow> seen q = rev u @ seen p \<Longrightarrow> reads_on p q"

inductive_cases reads_onE: "reads_on p q"

lemma reads_on_refl [simp, intro]: "reads_on p p"
  by (rule reads_onI [of _ "[]"]) simp_all

lemma reads_on_trans: "reads_on p q \<Longrightarrow> reads_on q r \<Longrightarrow> reads_on p r"
  by (elim reads_onE) (rule reads_onI, auto)

lemma reads_on_step [intro]: "ahead p = c # s \<Longrightarrow> reads_on p (step_over c s p)"
  by (rule reads_onI [of _ "[c]"]) (simp_all add: step_over_def)

lemma reads_on_length: "reads_on p q \<Longrightarrow> length (ahead q) \<le> length (ahead p)"
  by (auto elim: reads_onE)

lemma reads_on_between: "reads_on p q \<Longrightarrow> ahead p = text_between p q @ ahead q"
  by (auto elim!: reads_onE simp: text_between_def)

lemma eat_text_reads_on: "q \<in> set (eat_text w p) \<Longrightarrow> reads_on p q"
proof (induction w arbitrary: p)
  case (Cons c w)
  then obtain s where "ahead p = c # s" "q \<in> set (eat_text w (step_over c s p))" by (cases "ahead p") (auto split: if_splits)
  with Cons.IH reads_on_step reads_on_trans show ?case by blast
qed simp

lemma repeat_reads_on:
  assumes "\<And>p q. q \<in> set (f p) \<Longrightarrow> reads_on p q"
  shows "q \<in> set (repeat_rx g f n p) \<Longrightarrow> reads_on p q"
proof (induction n arbitrary: p)
  case (Suc n)
  then consider "q = p" | t where "t \<in> set (f p)" "q \<in> set (repeat_rx g f n t)" by (auto simp: Let_def split: if_splits)
  then show ?case
  proof cases
    case 2
    with Suc.IH assms reads_on_trans show ?thesis by blast
  qed simp
qed simp

lemma matches_read_on: "q \<in> set (matches r p) \<Longrightarrow> reads_on p q"
proof (induction r arbitrary: p q)
  case (RSeq r1 r2)
  then obtain t where "t \<in> set (matches r1 p)" "q \<in> set (matches r2 t)" by auto
  with RSeq.IH reads_on_trans show ?case by blast
next
  case (RStar g r)
  then show ?case using repeat_reads_on [of "matches r"] by simp
next
  case (RGroup n r)
  then obtain t where "q = At (seen t) (ahead t) ((n, text_between p t) # caps t)" "reads_on p t" by auto
  then show ?case by (auto elim!: reads_onE intro: reads_onI)
next
  case (RRef n)
  then show ?case using eat_text_reads_on by (auto split: option.splits)
qed (auto split: list.splits if_splits)

text \<open>The bound on the rounds is enough: more rounds change nothing.\<close>

lemma repeat_enough: "length (ahead p) \<le> n \<Longrightarrow> repeat_rx g f n p = repeat_rx g f (length (ahead p)) p"
proof (induction "length (ahead p)" arbitrary: p n rule: less_induct)
  case less
  show ?case
  proof (cases n)
    case 0
    with less.prems show ?thesis by simp
  next
    case (Suc m)
    let ?next = "filter (\<lambda>q. length (ahead q) < length (ahead p)) (f p)"
    show ?thesis
    proof (cases "length (ahead p)")
      case 0
      then show ?thesis using Suc by (simp add: Let_def)
    next
      case l: (Suc l)
      have "repeat_rx g f m q = repeat_rx g f l q" if "q \<in> set ?next" for q
      proof -
        have q: "length (ahead q) < length (ahead p)" using that by simp
        then have "length (ahead q) \<le> m" "length (ahead q) \<le> l" using less.prems Suc l by simp_all
        with less.hyps [OF q] show ?thesis by metis
      qed
      then have "map (repeat_rx g f m) ?next = map (repeat_rx g f l) ?next" by (rule map_cong [OF refl])
      then show ?thesis unfolding Suc l by (simp only: repeat_rx.simps Let_def l)
    qed
  qed
qed

lemma first_match_in: "first_match r p = Some q \<Longrightarrow> q \<in> set (matches r p)"
  by (simp add: first_match_def split: list.splits)

lemma first_match_reads_on: "first_match r p = Some q \<Longrightarrow> reads_on p q"
  using first_match_in matches_read_on by blast

lemma lits_match: "matches (lits w) p = eat_text w p"
  by (induction w arbitrary: p) (auto simp: lits_def split: list.splits)

lemma eat_text_append: "eat_text w (At l (w @ s) cs) = [At (rev w @ l) s cs]"
  by (induction w arbitrary: l) (auto simp: step_over_def)

lemma alts_match: "matches (alts rs) p = concat (map (\<lambda>r. matches r p) rs)"
  by (induction rs rule: alts.induct) (auto split: list.splits)

lemma found_iff: "found r s \<longleftrightarrow> (\<exists>a b. s = a @ b \<and> matches r (At (rev a) b []) \<noteq> [])"
proof -
  have "search_from r l s \<noteq> None \<longleftrightarrow> (\<exists>a b. s = a @ b \<and> matches r (At (rev a @ l) b []) \<noteq> [])" for l
  proof (induction s arbitrary: l)
    case Nil
    then show ?case by (simp add: first_match_def split: list.splits)
  next
    case (Cons c s)
    have split: "(\<exists>a b. c # s = a @ b \<and> P a b) \<longleftrightarrow> P [] (c # s) \<or> (\<exists>a b. s = a @ b \<and> P (c # a) b)" for P :: "string \<Rightarrow> string \<Rightarrow> bool"
      by (auto simp: Cons_eq_append_conv)
    have "search_from r l (c # s) \<noteq> None \<longleftrightarrow> matches r (At l (c # s) []) \<noteq> [] \<or> search_from r (c # l) s \<noteq> None"
      by (simp add: first_match_def split: list.splits)
    then show ?case unfolding split [of "\<lambda>a b. matches r (At (rev a @ l) b []) \<noteq> []"] Cons.IH by simp
  qed
  from this [of "[]"] show ?thesis by (simp add: found_def rx_search_def)
qed

end
