(* ===== verification/Ssh_Policy.thy ===== *)
theory Ssh_Policy
  imports Py_Regex
begin

text \<open>
  The classifier of shell commands that verification turns and unattended runs go through, and the rewrite of
  socket readers, \<open>tools/ssh.py\<close>. A command line is cut into the simple commands a shell would run, each is
  stripped of its launchers and checked for redirects, for a body handed over as a string, and for the
  known programs that write. The expressions are those of the source, constructor by constructor.
\<close>

section \<open>The expressions\<close>

definition blank_chr :: rx where "blank_chr = RChr py_space"

definition solid_chr :: rx where "solid_chr = RChr (\<lambda>c. \<not> py_space c)"

definition blanks :: rx where "blanks = plus True blank_chr"

definition solid :: rx where "solid = plus True solid_chr"

definition line_text :: rx where
  "line_text =
     RStar True (RChr (\<lambda>c. c \<noteq> CHR 0x0A))"

definition letter :: rx where
  "letter =
     RChr (\<lambda>c. in_range (CHR ''A'') (CHR ''Z'') c \<or> in_range (CHR ''a'') (CHR ''z'') c)"

definition letters :: rx where
  "letters =
     RStar True letter"

definition name_start :: rx where
  "name_start =
     RChr (\<lambda>c. in_range (CHR ''A'') (CHR ''Z'') c \<or> in_range (CHR ''a'') (CHR ''z'') c \<or> c = CHR ''_'')"

definition word_tail :: rx where
  "word_tail =
     RStar True (RChr word_char)"

definition value_sep :: rx where
  "value_sep =
     alts [blanks, RAhead True solid_chr]"

definition word_sep :: rx where
  "word_sep =
     alts [lits ''='', blanks]"

definition dash_word :: rx where
  "dash_word =
     seqs [lits ''-'', solid]"

definition dash_words :: rx where
  "dash_words =
     RStar True (seqs [blanks, lits ''-'', solid])"

definition assignment :: rx where
  "assignment =
     seqs [name_start, word_tail, lits ''='', RStar True solid_chr]"

definition sudo_opt :: rx where
  "sudo_opt =
     alts [seqs [lits ''--'', alts [lits ''user'', lits ''group'', lits ''host'', lits ''prompt'', lits ''chdir'', lits ''chroot'', lits ''role'',
       lits ''type'', lits ''command-timeout'', lits ''close-from'', lits ''other-user'', lits ''login-class''], blanks, solid], seqs [lits ''-'',
       letters, RChr (\<lambda>c. c \<in> set ''ugUhpCDRrtT''), value_sep, solid], dash_word]"

definition dev_sink :: rx where
  "dev_sink =
     seqs [lits ''/dev/'', alts [lits ''null'', lits ''stdout'', lits ''stderr'', lits ''stdin'', seqs [lits ''fd/'', plus True (RChr is_digit)], seqs
       [alts [lits ''tcp'', lits ''udp''], lits ''/'', solid]], RAhead False (RChr (\<lambda>c. \<not> (py_space c \<or> c \<in> set '';|&)'')))]"

definition first_segment_end :: rx where
  "first_segment_end =
     alts [seqs [RNotBehind (\<lambda>c. c \<in> set ''|&''), RChr (\<lambda>c. c \<in> set ''|&;''), RAhead False
       (RChr (\<lambda>c. c \<in> set ''&|''))], lits [CHR 0x0A]]"

definition env_assign :: rx where
  "env_assign =
     seqs [RStart, plus True (seqs [name_start, word_tail, lits ''='', RStar True solid_chr, blanks])]"

text \<open>The launchers, one alternative each.\<close>

definition launchers :: "rx list" where
  "launchers = [
     seqs [lits ''sudo'', RStar True (seqs [blanks, sudo_opt])],
     seqs [lits ''doas'', RStar True (seqs [blanks, alts [seqs [lits ''-u'', RStar True blank_chr, solid], dash_word]])],
     seqs [lits ''env'', RStar True (seqs [blanks, alts [seqs [lits ''-'', RChr (\<lambda>c. c \<in> set ''uCP''), value_sep, solid], seqs
       [lits ''--'', alts [lits ''unset'', lits ''chdir''], word_sep, solid], dash_word, assignment]])],
     seqs [lits ''nice'', RStar True (seqs [blanks, alts [seqs [lits ''-n'', RStar True blank_chr, opt True (lits ''-''), plus True (RChr is_digit)],
       seqs [lits ''--adjustment'', word_sep, opt True (lits ''-''), plus True (RChr is_digit)], seqs [between True 1 2 (lits ''-''), plus True
       (RChr is_digit)]]])],
     seqs [lits ''ionice'', dash_words],
     seqs [lits ''timeout'', RStar True (seqs [blanks, alts [seqs [lits ''-'', RChr (\<lambda>c. c \<in> set ''sk''), value_sep, solid], seqs
       [lits ''--'', alts [lits ''signal'', lits ''kill-after''], word_sep, solid], dash_word]]), blanks, solid],
     lits ''command'',
     lits ''exec'',
     lits ''nohup'',
     lits ''time'',
     seqs [lits ''stdbuf'', dash_words],
     seqs [lits ''xargs'', RStar True (seqs [blanks, alts [seqs [lits ''-'', RChr (\<lambda>c. c \<in> set ''InPLsdEa''), value_sep, solid],
       dash_word]])],
     seqs [lits ''watch'', RStar True (seqs [blanks, alts [seqs [lits ''-'', RChr (\<lambda>c. c \<in> set ''ng''), value_sep, solid], seqs
       [lits ''--interval'', word_sep, solid], dash_word]])],
     seqs [lits ''flock'', RStar True (seqs [blanks, alts [seqs [lits ''-'', RChr (\<lambda>c. c \<in> set ''wE''), value_sep, solid], seqs
       [lits ''-'', RAhead False (seqs [letters, lits ''c'', RWordB]), solid]]]), blanks, RAhead False (seqs [lits ''-'', letters, lits ''c'',
       RWordB]), solid],
     seqs [lits ''chroot'', dash_words, blanks, solid],
     seqs [lits ''setsid'', dash_words],
     seqs [lits ''unshare'', dash_words],
     seqs [lits ''nsenter'', RStar True (seqs [blanks, alts [seqs [lits ''-'', RChr (\<lambda>c. c \<in> set ''tSG''), value_sep, solid], seqs
       [lits ''--'', alts [lits ''target'', lits ''setuid'', lits ''setgid''], word_sep, solid], dash_word]])],
     seqs [lits ''runuser'', RStar True (seqs [blanks, alts [seqs [lits ''-'', RChr (\<lambda>c. c \<in> set ''ugG''), value_sep, solid], seqs
       [lits ''-'', RAhead False (seqs [lits ''-'', alts [blank_chr, REnd]]), RAhead False (seqs [letters, lits ''c'', RWordB]), solid]]]), blanks,
       lits ''--''],
     seqs [lits ''ssh'', RStar True (seqs [blanks, alts [seqs [lits ''-'', letters, RChr (\<lambda>c. c \<in> set ''BbcDEeFIiJLlmOoPpQRSWw''),
       value_sep, solid], dash_word]]), blanks, solid],
     lits [CHR 0x5C]]"

definition wrapper :: rx where
  "wrapper = seqs [RStart, alts launchers, blanks]"

definition shell_c :: rx where
  "shell_c =
     seqs [RStart, opt True (seqs [alts [seqs [opt True (alts [lits ''ba'', lits ''z'', lits ''da'', lits ''k'', lits ''a'']), lits ''sh''],
       lits ''su'', lits ''runuser'', lits ''flock''], RStar False (seqs [blanks, RAhead False (seqs [lits ''-'', letters, lits ''c'', RWordB]),
       solid]), blanks]), lits ''-'', letters, lits ''c'', blanks, RGroup 1 (RChr (\<lambda>c. c \<in> set [CHR 0x27, CHR 0x22])), RGroup 2 (RStar
       True (RChr (\<lambda>c. True))), RRef 1]"

definition wholly_quoted :: rx where
  "wholly_quoted =
     seqs [RStart, RGroup 1 (RChr (\<lambda>c. c \<in> set [CHR 0x27, CHR 0x22])), RGroup 2 (RStar True (RChr (\<lambda>c. True))), RRef 1, REnd]"

definition program_path :: rx where
  "program_path =
     seqs [RStart, opt True (seqs [between True 0 2 (lits ''.''), lits ''/'']), plus True (seqs [plus True
       (RChr (\<lambda>c. word_char c \<or> c \<in> set ''.+-'')), lits ''/'']), RAhead True
       (RChr (\<lambda>c. word_char c \<or> c \<in> set ''.+-''))]"

definition quoted_span :: rx where
  "quoted_span =
     alts [seqs [lits [CHR 0x27], RStar True (RChr (\<lambda>c. \<not> (c = CHR 0x27))), lits [CHR 0x27]], seqs [lits [CHR 0x22], RStar True
       (RChr (\<lambda>c. \<not> (c = CHR 0x22))), lits [CHR 0x22]]]"

definition redirect :: rx where
  "redirect =
     seqs [RNotBehind (\<lambda>c. is_digit c \<or> c \<in> set ''<>&''), between True 1 2 (lits ''>''), opt True (lits ''|''), RAhead False (seqs
       [RStar True blank_chr, alts [seqs [lits ''&'', RStar True blank_chr, RChr (\<lambda>c. c \<in> set ''12'')], dev_sink]])]"

definition mutators :: "(rx \<times> string) list" where
  "mutators = [
     (seqs [RStart, lits ''systemctl'', blanks, RStar True (seqs [lits ''-'', opt True (lits ''-''), solid, blanks]), RGroup 1 (alts
       [lits ''restart'', lits ''stop'', lits ''start'', lits ''reload'', lits ''reload-or-restart'', lits ''try-restart'', lits ''enable'',
       lits ''disable'', lits ''mask'', lits ''unmask'', lits ''kill'', lits ''daemon-reload'', lits ''daemon-reexec'', lits ''reset-failed'',
       lits ''isolate'', lits ''set-default'', lits ''set-property'', lits ''revert'', lits ''edit'']), RWordB],
       ''systemctl {0} changes service state''),
     (seqs [RStart, RGroup 1 (alts [lits ''reboot'', lits ''shutdown'', lits ''poweroff'', lits ''halt'', seqs [lits ''init'', blanks,
       RChr (\<lambda>c. c \<in> set ''06'')]]), RWordB], ''{0} takes the host down''),
     (seqs [RStart, RGroup 1 (alts [lits ''kill'', lits ''pkill'', lits ''killall'']), RWordB], ''{0} ends processes''),
     (seqs [RStart, RGroup 1 (alts [lits ''rm'', lits ''rmdir'', lits ''mv'', lits ''cp'', lits ''dd'', lits ''truncate'', lits ''shred'',
       lits ''ln'', lits ''chmod'', lits ''chown'', lits ''chgrp'', lits ''touch'', lits ''mkdir'', seqs [lits ''mkfs'', RStar True solid_chr],
       lits ''fdisk'', lits ''parted'', lits ''wipefs'', lits ''swapoff'', lits ''swapon'']), RWordB], ''{0} changes the filesystem''),
     (seqs [RStart, lits ''sed'', RWordB, RAhead True (seqs [line_text, alts [seqs [blank_chr, lits ''-'', RStar True
       (RChr (\<lambda>c. in_range (CHR ''a'') (CHR ''z'') c \<or> in_range (CHR ''A'') (CHR ''Z'') c)), lits ''i'', RStar True
       (RChr (\<lambda>c. in_range (CHR ''a'') (CHR ''z'') c \<or> in_range (CHR ''A'') (CHR ''Z'') c)), RWordB], seqs [blank_chr,
       lits ''--in-place'']]])], ''sed -i edits a file in place''),
     (seqs [RStart, lits ''tee'', RWordB], ''tee writes a file''),
     (seqs [RStart, RGroup 1 (alts [lits ''apt'', lits ''apt-get'', lits ''dnf'', lits ''yum'', lits ''zypper'', lits ''pacman'', lits ''snap'', seqs
       [lits ''pip'', opt True (lits ''3'')], lits ''npm'', lits ''brew'']), blanks, RStar True (seqs [lits ''-'', solid, blanks]), RGroup 2 (alts
       [lits ''install'', lits ''remove'', lits ''purge'', lits ''upgrade'', lits ''update'', lits ''dist-upgrade'', lits ''autoremove'',
       lits ''uninstall'', lits ''refresh'']), RWordB], ''{0} {1} changes installed packages''),
     (seqs [RStart, lits ''umount'', RWordB], ''umount unmounts a filesystem''),
     (seqs [RStart, lits ''mount'', blanks, RAhead False (seqs [lits ''-l'', RWordB]), solid_chr], ''mount with arguments mounts something''),
     (seqs [RStart, lits ''docker'', blanks, opt True (seqs [lits ''compose'', blanks]), RGroup 1 (alts [lits ''restart'', lits ''stop'',
       lits ''start'', lits ''rm'', lits ''rmi'', lits ''kill'', lits ''run'', lits ''exec'', lits ''up'', lits ''down'', lits ''prune'',
       lits ''pull'', lits ''create'', lits ''rename'', lits ''update'', lits ''pause'', lits ''unpause'', lits ''cp'']), RWordB],
       ''docker {0} changes container state''),
     (seqs [RStart, alts [lits ''kubectl'', seqs [lits ''k3s'', blanks, lits ''kubectl''], lits ''oc''], blanks, RStar True (seqs [lits ''-'', opt
       True (lits ''-''), solid, blanks]), RGroup 1 (alts [lits ''apply'', lits ''delete'', lits ''patch'', lits ''edit'', lits ''scale'',
       lits ''exec'', lits ''cp'', lits ''drain'', lits ''cordon'', lits ''uncordon'', lits ''taint'', lits ''label'', lits ''annotate'',
       lits ''create'', lits ''replace'', lits ''rollout'', lits ''set'', lits ''expose'', lits ''run'']), RWordB],
       ''kubectl {0} changes cluster state''),
     (seqs [RStart, RGroup 1 (alts [lits ''iptables'', lits ''ip6tables'']), RWordB, RAhead False (seqs [line_text, blank_chr, lits ''-'',
       RChr (\<lambda>c. c \<in> set ''LSC''), RWordB])], ''{0} without -L changes firewall rules''),
     (seqs [RStart, lits ''nft'', RWordB, RAhead False (seqs [blanks, lits ''list'', RWordB])], ''nft changes firewall rules''),
     (seqs [RStart, lits ''ufw'', RWordB, RAhead False (seqs [blanks, lits ''status'', RWordB])], ''ufw changes firewall rules''),
     (seqs [RStart, lits ''crontab'', blanks, RAhead False (seqs [lits ''-l'', RWordB])], ''crontab edits scheduled jobs''),
     (seqs [RStart, RGroup 1 (alts [lits ''useradd'', lits ''userdel'', lits ''usermod'', lits ''passwd'', lits ''chpasswd'', lits ''groupadd'',
       lits ''groupdel'', lits ''groupmod'', lits ''visudo'']), RWordB], ''{0} changes accounts''),
     (seqs [RStart, lits ''git'', blanks, opt True (seqs [lits ''-C'', blanks, solid, blanks]), RGroup 1 (alts [lits ''push'', lits ''commit'',
       lits ''reset'', lits ''checkout'', lits ''switch'', lits ''rebase'', lits ''merge'', lits ''clean'', lits ''stash'', lits ''pull'',
       lits ''rm'', lits ''mv'', lits ''add'', lits ''tag'', lits ''restore'']), RWordB], ''git {0} changes the working tree or remote''),
     (seqs [RStart, RGroup 1 (alts [seqs [lits ''sysctl'', blanks, alts [lits ''-w'', seqs [solid, lits ''='']]], lits ''modprobe'', lits ''rmmod'',
       lits ''insmod'', seqs [lits ''hostnamectl'', blanks, lits ''set''], seqs [lits ''timedatectl'', blanks, lits ''set''], seqs [lits ''nmcli'',
       blanks, alts [lits ''con'', lits ''connection'', lits ''dev'', lits ''device''], blanks, alts [lits ''up'', lits ''down'', lits ''mod'',
       lits ''modify'', lits ''del'', lits ''delete'', lits ''add'']], seqs [lits ''ip'', blanks, alts [lits ''link'', lits ''addr'',
       lits ''address'', lits ''route'', lits ''neigh''], blanks, alts [lits ''add'', lits ''del'', lits ''delete'', lits ''set'', lits ''flush'',
       lits ''change'', lits ''replace'']]]), RWordB], ''{0} changes network or kernel state''),
     (seqs [RStart, RGroup 1 (alts [lits ''systemd-run'', lits ''at'', lits ''batch'']), RWordB], ''{0} schedules work on the host''),
     (seqs [RStart, lits ''journalctl'', RWordB, RAhead True (seqs [line_text, lits ''--'', alts [lits ''vacuum'', lits ''rotate'',
       lits ''flush'']])], ''journalctl --vacuum/--rotate changes the journal''),
     (seqs [RStart, lits ''find'', RWordB, RAhead True (seqs [line_text, blank_chr, alts [seqs [lits ''-delete'', RWordB], seqs [lits ''-exec'',
       blanks, alts [lits ''rm'', lits ''mv'', lits ''chmod'', lits ''chown'', seqs [lits ''sed'', blanks, lits ''-i'']], RWordB]]])],
       ''find -delete/-exec changes files''),
     (seqs [RStart, lits ''curl'', RWordB, RAhead True (seqs [line_text, blank_chr, alts [seqs [lits ''-X'', RStar True blank_chr, alts
       [lits ''POST'', lits ''PUT'', lits ''DELETE'', lits ''PATCH''], RWordB], seqs [lits ''--request'', blanks, alts [lits ''POST'', lits ''PUT'',
       lits ''DELETE'', lits ''PATCH''], RWordB], seqs [lits ''-d'', RWordB], seqs [lits ''--data'', RStar True solid_chr], seqs [lits ''--json'',
       RWordB], seqs [lits ''-F'', RWordB], seqs [lits ''--form'', RStar True solid_chr], seqs [lits ''-T'', RWordB], seqs [lits ''--upload-file'',
       RWordB], seqs [lits ''-'', letters, lits ''o'', alts [blanks, opt True (lits ''='')], RAhead False (alts [dev_sink, seqs [lits ''-'', alts
       [blank_chr, REnd]]]), solid_chr], seqs [lits ''--output'', alts [blanks, lits ''=''], RAhead False (alts [dev_sink, seqs [lits ''-'', alts
       [blank_chr, REnd]]]), solid_chr], seqs [lits ''-O'', RWordB], seqs [lits ''--remote-name'', RWordB]]])], ''curl that writes or sends data''),
     (seqs [RStart, lits ''wget'', RWordB, RAhead False (seqs [line_text, alts [seqs [lits ''-'', opt True (lits ''q''), lits ''O'', RStar True
       blank_chr, lits ''-''], lits ''--spider'']])], ''wget writes a file''),
     (seqs [RStart, RGroup 1 (lits ''rocm-smi''), RWordB, RAhead True (seqs [line_text, blank_chr, alts [seqs [lits ''--'', alts [seqs [lits ''set'',
       RStar True solid_chr], seqs [lits ''reset'', RStar True solid_chr], lits ''gpureset'', lits ''load'', lits ''save'', lits ''autorespond'', seqs
       [lits ''ras'', alts [lits ''enable'', lits ''disable'', lits ''inject'']]]], lits ''-r''], alts
       [RChr (\<lambda>c. py_space c \<or> c = CHR ''=''), REnd]])], ''{0} changes GPU settings''),
     (seqs [RStart, RGroup 1 (lits ''amd-smi''), blanks, RStar True (seqs [lits ''-'', solid, blanks]), alts [lits ''set'', lits ''reset''], RWordB],
       ''{0} changes GPU settings''),
     (seqs [RStart, RGroup 1 (lits ''nvidia-smi''), RWordB, RAhead False (seqs [blanks, alts [lits ''dmon'', lits ''pmon'', lits ''topo''], RWordB]),
       RAhead True (seqs [line_text, blank_chr, alts [lits ''-pl'', lits ''-ac'', lits ''-rac'', lits ''-r'', lits ''-pm'', lits ''-c'', lits ''-e'',
       lits ''-lgc'', lits ''-rgc'', lits ''-lmc'', lits ''-rmc'', lits ''-cgi'', lits ''-dgi'', lits ''-cci'', lits ''-dci'', lits ''--power-limit'',
       lits ''--applications-clocks'', lits ''--reset-applications-clocks'', lits ''--persistence-mode'', lits ''--compute-mode'',
       lits ''--ecc-config'', lits ''--gpu-reset'', lits ''--lock-gpu-clocks'', lits ''--reset-gpu-clocks'', lits ''--lock-memory-clocks'',
       lits ''--reset-memory-clocks''], alts [RChr (\<lambda>c. py_space c \<or> c = CHR ''=''), REnd]])], ''{0} changes GPU settings'')]"

section \<open>Cutting a command line\<close>

datatype quoting = Unquoted | Single | Double

definition str_isdigit :: "char \<Rightarrow> bool" where
  "str_isdigit c = (is_digit c \<or> (of_char c :: nat) \<in> {178, 179, 185})"

text \<open>
  What was gathered of a segment, one entry for each append: an escaped pair is one entry. The stack holds,
  for each open substitution, what closes it and the quoting around it.
\<close>

definition cut :: "string list \<Rightarrow> string list" where
  "cut buf = (let seg = str_strip (concat buf) in if seg = [] then [] else [seg])"

text \<open>
  One round of the loop of \<open>_segments\<close> at the character \<open>c\<close> with \<open>nxt\<close>, the next one or nothing, behind it: what is
  gathered, nothing where the segment is cut; the quoting and the open substitutions; how many further
  characters were read.
\<close>

definition scan_step :: "quoting \<Rightarrow> (char \<times> quoting) list \<Rightarrow> string list \<Rightarrow> char \<Rightarrow> string \<Rightarrow>
    string option \<times> quoting \<times> (char \<times> quoting) list \<times> nat" where
  "scan_step q st buf c nxt =
     (if c = CHR 0x5C \<and> q \<noteq> Single then (Some (c # nxt), q, st, length nxt)
      else if q = Single then (Some [c], if c = CHR 0x27 then Unquoted else q, st, 0)
      else if q = Double \<and> c = CHR 0x22 then (Some [c], Unquoted, st, 0)
      else if c = CHR ''$'' \<and> nxt = ''('' then (None, Unquoted, (CHR '')'', q) # st, 1)
      else if c = CHR 0x60 then
        (if q = Unquoted \<and> st \<noteq> [] \<and> fst (hd st) = CHR 0x60 then (None, snd (hd st), tl st, 0)
         else (None, Unquoted, (CHR 0x60, q) # st, 0))
      else if q = Double then (Some [c], q, st, 0)
      else if c = CHR 0x27 \<or> c = CHR 0x22 then (Some [c], if c = CHR 0x27 then Single else Double, st, 0)
      else if c = CHR ''('' then (None, q, (CHR '')'', Unquoted) # st, 0)
      else if c = CHR '')'' then
        (if st \<noteq> [] \<and> fst (hd st) = CHR '')'' then (None, snd (hd st), tl st, 0) else (None, q, st, 0))
      else if c = CHR '';'' \<or> c = CHR 0x0A then (None, q, st, 0)
      else if c = CHR ''|'' then (None, q, st, if nxt = ''|'' then 1 else 0)
      else if c = CHR ''&'' then
        (if nxt = ''&'' then (None, q, st, 1)
         else if nxt = ''>'' \<or> (nxt \<noteq> [] \<and> str_isdigit (hd nxt)) \<or> (buf \<noteq> [] \<and> last buf \<in> {''<'', ''>''}) then (Some [c], q, st, 0)
         else (None, q, st, 0))
      else (Some [c], q, st, 0))"

text \<open>
  The segments of a text, and the quoting and the open substitutions it ends in, nothing when it ends in a lone
  backslash.
\<close>

function scan :: "quoting \<Rightarrow> (char \<times> quoting) list \<Rightarrow> string list \<Rightarrow> string \<Rightarrow> string list \<times> (quoting \<times> (char \<times> quoting) list) option" where
  "scan q st buf [] = (cut buf, Some (q, st))"
| "scan q st buf (c # s) = (case scan_step q st buf c (take 1 s) of (entry, q', st', n) \<Rightarrow>
     (case entry of
        None \<Rightarrow> apfst ((@) (cut buf)) (scan q' st' [] (drop n s))
      | Some w \<Rightarrow> apsnd (\<lambda>e. if s = [] \<and> c = CHR 0x5C \<and> q \<noteq> Single then None else e) (scan q' st' (buf @ [w]) (drop n s))))"
  by pat_completeness auto
termination
  by (relation "measure (\<lambda>(q, st, buf, s). length s)") auto

definition segments :: "string \<Rightarrow> string list" where
  "segments t = fst (scan Unquoted [] [] t)"

section \<open>Stripping the launchers\<close>

lemma sub_from_shorter: "length (sub_from r (\<lambda>q. []) l s) < length s \<or> sub_from r (\<lambda>q. []) l s = s"
proof (induction "length s" arbitrary: l s rule: less_induct)
  case less
  show ?case
  proof (cases s)
    case (Cons c t)
    show ?thesis
    proof (cases "\<exists>q. first_match r (At l (c # t) []) = Some q \<and> length (ahead q) < Suc (length t)")
      case True
      then obtain q where q: "first_match r (At l (c # t) []) = Some q" "length (ahead q) < Suc (length t)" by blast
      then have "length (sub_from r (\<lambda>q. []) (seen q) (ahead q)) \<le> length (ahead q)" using less [of "ahead q" "seen q"] Cons by auto
      with q Cons show ?thesis by simp
    next
      case False
      then have "sub_from r (\<lambda>q. []) l (c # t) = c # sub_from r (\<lambda>q. []) (c # l) t" by (auto split: option.splits)
      with less [of t "c # l"] Cons show ?thesis by auto
    qed
  qed simp
qed

definition peel :: "string \<Rightarrow> string" where
  "peel seg = rx_sub program_path [] (rx_sub wrapper [] (rx_sub env_assign [] seg))"

lemma peel_shorter: "peel s \<noteq> s \<Longrightarrow> length (peel s) < length s"
proof -
  have sub: "length (rx_sub r [] s) < length s \<or> rx_sub r [] s = s" for r s
    unfolding rx_sub_def by (rule sub_from_shorter)
  show "peel s \<noteq> s \<Longrightarrow> length (peel s) < length s"
    using sub [of env_assign s] sub [of wrapper "rx_sub env_assign [] s"] sub [of program_path "rx_sub wrapper [] (rx_sub env_assign [] s)"]
    unfolding peel_def by (elim disjE) simp_all
qed

function unwrap_loop :: "string \<Rightarrow> string" where
  "unwrap_loop seg = (if peel seg = seg then seg else unwrap_loop (peel seg))"
  by pat_completeness auto
termination
  by (relation "measure length") (auto intro: peel_shorter)

declare unwrap_loop.simps [simp del]

definition unwrap :: "string \<Rightarrow> string" where
  "unwrap segment = unwrap_loop (str_strip segment)"

section \<open>The verdict\<close>

text \<open>\<open>reason.format(*groups)\<close> for the fields \<open>{0}\<close> and \<open>{1}\<close>.\<close>

fun fill_in :: "string list \<Rightarrow> string \<Rightarrow> string" where
  "fill_in gs (a # b # c # s) =
     (if a = CHR 0x7B \<and> c = CHR 0x7D then gs ! digit_val b @ fill_in gs s else a # fill_in gs (b # c # s))"
| "fill_in gs s = s"

fun first_reason :: "('a \<Rightarrow> string option) \<Rightarrow> 'a list \<Rightarrow> string option" where
  "first_reason f [] = None"
| "first_reason f (x # xs) = (case f x of Some r \<Rightarrow> Some r | None \<Rightarrow> first_reason f xs)"

definition groups :: "place \<Rightarrow> string list" where
  "groups q = map (\<lambda>n. case group n q of None \<Rightarrow> [] | Some w \<Rightarrow> w) [1, 2]"

definition mutator_reason :: "string \<Rightarrow> string option" where
  "mutator_reason seg = first_reason (\<lambda>(r, reason). map_option (\<lambda>q. fill_in (groups q) reason) (rx_match r seg)) mutators"

definition redirects :: "string \<Rightarrow> bool" where
  "redirects seg = found redirect (rx_sub quoted_span [CHR 0x27, CHR 0x27] seg)"

text \<open>The body of a command handed over as a string.\<close>

definition body_of :: "string \<Rightarrow> string option" where
  "body_of seg = (case rx_match shell_c seg of
     Some q \<Rightarrow> group 2 q
   | None \<Rightarrow> Option.bind (rx_match wholly_quoted seg) (group 2))"

definition segment_reason :: "(string \<Rightarrow> string option) \<Rightarrow> string \<Rightarrow> string option" where
  "segment_reason inner raw = (let seg = unwrap raw in
     if seg = [] then None
     else if redirects seg then Some ''output is redirected to a file''
     else (case body_of seg of Some b \<Rightarrow> inner b | None \<Rightarrow> mutator_reason seg))"

text \<open>The recursion with the levels that are left: \<open>_MAX_NESTING - _depth + 1\<close>.\<close>

fun reason_within :: "nat \<Rightarrow> string \<Rightarrow> string option" where
  "reason_within 0 t = Some ''the command nests too deeply to classify''"
| "reason_within (Suc n) t = first_reason (segment_reason (reason_within n)) (segments t)"

definition max_nesting :: nat where "max_nesting = 8"

definition ssh_mutation_reason :: "string \<Rightarrow> string option" where
  "ssh_mutation_reason command = reason_within (Suc max_nesting) command"

section \<open>Socket readers\<close>

text \<open>\<open>s.split()[0].rsplit('/', 1)[-1]\<close> of the first word.\<close>

definition base_name :: "string \<Rightarrow> string" where
  "base_name w = rev (takeWhile (\<lambda>c. c \<noteq> CHR ''/'') (rev w))"

definition with_sudo_for_socket_reads :: "string \<Rightarrow> string" where
  "with_sudo_for_socket_reads command =
     (let body = lstrip_by py_space command;
          lead = takeWhile py_space command;
          env = (case rx_match env_assign body of None \<Rightarrow> [] | Some q \<Rightarrow> rev (seen q));
          rest = drop (length env) body
      in case py_words (split_head first_segment_end rest) of
           [] \<Rightarrow> command
         | w # ws \<Rightarrow> if base_name w \<in> {''docker'', ''crictl''} then lead @ env @ ''sudo -n '' @ rest else command)"

section \<open>What is classified as a write\<close>

text \<open>
  What a write is, without the order of the checks: some simple command of the line redirects into a file,
  hands over a body that writes, or is a known program that writes.
\<close>

inductive writes :: "string \<Rightarrow> bool" where
  writes_redirect: "raw \<in> set (segments t) \<Longrightarrow> unwrap raw \<noteq> [] \<Longrightarrow> redirects (unwrap raw) \<Longrightarrow> writes t"
| writes_body: "raw \<in> set (segments t) \<Longrightarrow> unwrap raw \<noteq> [] \<Longrightarrow> body_of (unwrap raw) = Some b \<Longrightarrow> writes b \<Longrightarrow> writes t"
| writes_program: "raw \<in> set (segments t) \<Longrightarrow> unwrap raw \<noteq> [] \<Longrightarrow> body_of (unwrap raw) = None \<Longrightarrow>
    (r, reason) \<in> set mutators \<Longrightarrow> rx_match r (unwrap raw) \<noteq> None \<Longrightarrow> writes t"

text \<open>Bodies within bodies, down to a level.\<close>

inductive nests :: "nat \<Rightarrow> string \<Rightarrow> bool" where
  nests_0: "nests 0 t"
| nests_Suc: "raw \<in> set (segments t) \<Longrightarrow> unwrap raw \<noteq> [] \<Longrightarrow> body_of (unwrap raw) = Some b \<Longrightarrow> nests n b \<Longrightarrow> nests (Suc n) t"

inductive_simps nests_0_iff [simp]: "nests 0 t"
inductive_simps nests_Suc_iff: "nests (Suc n) t"
inductive_simps writes_iff: "writes t"

lemma first_reason_None: "first_reason f xs = None \<longleftrightarrow> (\<forall>x \<in> set xs. f x = None)"
  by (induction xs) (auto split: option.splits)

lemma mutator_reason_None: "mutator_reason seg = None \<longleftrightarrow> (\<forall>(r, reason) \<in> set mutators. rx_match r seg = None)"
  unfolding mutator_reason_def first_reason_None by (simp add: case_prod_beta)

lemma segment_reason_None:
  "segment_reason inner raw = None \<longleftrightarrow> unwrap raw = [] \<or>
     \<not> redirects (unwrap raw) \<and> (case body_of (unwrap raw) of Some b \<Rightarrow> inner b = None | None \<Rightarrow> mutator_reason (unwrap raw) = None)"
  by (auto simp: segment_reason_def Let_def split: option.splits)

lemma reason_within_exact: "reason_within n t = None \<longleftrightarrow> \<not> writes t \<and> \<not> nests n t"
proof (induction n arbitrary: t)
  case (Suc n)
  have "reason_within (Suc n) t = None \<longleftrightarrow> (\<forall>raw \<in> set (segments t). unwrap raw = [] \<or>
      \<not> redirects (unwrap raw) \<and>
      (case body_of (unwrap raw) of Some b \<Rightarrow> \<not> writes b \<and> \<not> nests n b | None \<Rightarrow> mutator_reason (unwrap raw) = None))"
    by (simp add: first_reason_None segment_reason_None Suc.IH cong: option.case_cong)
  also have "\<dots> \<longleftrightarrow> \<not> writes t \<and> \<not> nests (Suc n) t"
    unfolding writes_iff [of t] nests_Suc_iff mutator_reason_None by (fastforce split: option.splits)
  finally show ?case .
qed simp

section \<open>Commands in sequence\<close>

text \<open>A text that leaves no quote, substitution or backslash open.\<close>

definition closed_command :: "string \<Rightarrow> bool" where
  "closed_command a = (snd (scan Unquoted [] [] a) = Some (Unquoted, []))"

lemma scan_step_reads: "scan_step q st buf c nxt = (entry, q', st', n) \<Longrightarrow> n \<le> length nxt"
  by (auto simp: scan_step_def split: if_splits)

lemma scan_step_semicolon: "\<not> (c = CHR 0x5C \<and> q \<noteq> Single) \<Longrightarrow> scan_step q st buf c '';'' = scan_step q st buf c []"
  unfolding scan_step_def by (simp add: str_isdigit_def is_digit_def)

lemma scan_semicolon:
  "snd (scan q st buf a) = Some (Unquoted, st') \<Longrightarrow>
   fst (scan q st buf (a @ CHR '';'' # b)) = fst (scan q st buf a) @ fst (scan Unquoted st' [] b)"
proof (induction "length a" arbitrary: q st buf a rule: less_induct)
  case less
  show ?case
  proof (cases a)
    case Nil
    with less.prems show ?thesis by (simp add: scan_step_def)
  next
    case (Cons c s)
    obtain entry q' st'' n where step: "scan_step q st buf c (take 1 s) = (entry, q', st'', n)" by (metis prod_cases4)
    have open_slash: "\<not> (s = [] \<and> c = CHR 0x5C \<and> q \<noteq> Single)"
    proof
      assume lone: "s = [] \<and> c = CHR 0x5C \<and> q \<noteq> Single"
      then have "scan_step q st buf c [] = (Some [c], q, st, 0)" by (simp add: scan_step_def)
      with lone Cons less.prems show False by simp
    qed
    have n: "n \<le> length s" using scan_step_reads [OF step] by simp
    have "scan_step q st buf c (take 1 (s @ CHR '';'' # b)) = (entry, q', st'', n)"
      using step open_slash scan_step_semicolon [of c q st buf] by (cases s) auto
    moreover have "drop n (s @ CHR '';'' # b) = drop n s @ CHR '';'' # b" using n by simp
    moreover have IH: "snd (scan q' st'' buf' (drop n s)) = Some (Unquoted, st') \<Longrightarrow>
        fst (scan q' st'' buf' (drop n s @ CHR '';'' # b)) = fst (scan q' st'' buf' (drop n s)) @ fst (scan Unquoted st' [] b)" for buf'
      by (rule less.hyps) (simp_all add: Cons)
    ultimately show ?thesis using less.prems step open_slash unfolding Cons by (cases entry) auto
  qed
qed

text \<open>
  A sequence of two commands is classified as read-only exactly when both are: a write cannot hide behind a
  command that closes its quotes and substitutions, in whichever order they come.
\<close>

theorem sequence_reads:
  assumes "closed_command a"
  shows "ssh_mutation_reason (a @ '';'' @ b) = None \<longleftrightarrow> ssh_mutation_reason a = None \<and> ssh_mutation_reason b = None"
proof -
  have "segments (a @ '';'' @ b) = segments a @ segments b"
    using scan_semicolon [of Unquoted "[]" "[]" a "[]" b] assms by (simp add: segments_def closed_command_def)
  then show ?thesis by (simp add: ssh_mutation_reason_def first_reason_None ball_Un)
qed

theorem sequence_reads_witness:
  "ssh_mutation_reason (''ls /'' @ '';'' @ ''rm x'') \<noteq> None"
proof -
  have "closed_command ''ls /''" by code_simp
  moreover have "ssh_mutation_reason ''rm x'' \<noteq> None" by code_simp
  ultimately show ?thesis using sequence_reads [of "''ls /''" "''rm x''"] by simp
qed


text \<open>
  Two writes it does not know. A program written in quotes runs as the plain one does; and a dot does not
  match a line break, so a quoted line break hides the option behind it from the pattern for \<open>sed -i\<close>.
\<close>

lemma quoted_program_passes:
  "ssh_mutation_reason ''rm -rf /x'' \<noteq> None"
  "ssh_mutation_reason ([CHR 0x27] @ ''rm'' @ [CHR 0x27] @ '' -rf /x'') = None"
  by code_simp+

lemma line_break_hides_option:
  "ssh_mutation_reason (''sed '' @ [CHR 0x22, CHR ''p'', CHR 0x22] @ '' -i f'') \<noteq> None"
  "ssh_mutation_reason (''sed '' @ [CHR 0x22, CHR ''p'', CHR 0x0A, CHR 0x22] @ '' -i f'') = None"
  by code_simp+

end
