(* ===== verification/Tool_Policy.thy ===== *)
theory Tool_Policy
  imports Ssh_Policy Node_Gate
begin

text \<open>
  The registry of the agent's tools and the policy of a turn, \<open>tools/__init__.py\<close>: which tools a turn is
  offered, what \<open>execute\<close> refuses, and the way of a host write to the person who confirms it. Tools and the
  confirmer are operations over an abstract world, given to the model as the entries of the registry and of the
  policy; \<open>json.loads\<close> is an argument. Log lines are left out.
\<close>

section \<open>Policies\<close>

type_synonym 'w confirmer = "string \<Rightarrow> string \<Rightarrow> string \<Rightarrow> string \<Rightarrow> ('w, pyval) op"

record 'w tool_policy =
  tp_role :: "string option"
  tp_verify :: bool
  tp_unattended :: bool
  tp_confirm :: "'w confirmer option"

definition admin_role :: string where "admin_role = ''admin''"

definition make_policy :: "string option \<Rightarrow> bool \<Rightarrow> bool \<Rightarrow> 'w confirmer option \<Rightarrow> 'w tool_policy res" where
  "make_policy role verify unattended confirm =
     (if unattended \<and> role \<noteq> None then value_error ''an unattended policy carries no actor_role''
      else if unattended \<and> confirm \<noteq> None then value_error ''an unattended policy carries no confirmer''
      else Inr \<lparr>tp_role = role, tp_verify = verify, tp_unattended = unattended, tp_confirm = confirm\<rparr>)"

definition unattended_policy :: "'w tool_policy" where
  "unattended_policy = \<lparr>tp_role = None, tp_verify = False, tp_unattended = True, tp_confirm = None\<rparr>"

definition role_allows_mutation :: "'w tool_policy \<Rightarrow> bool" where
  "role_allows_mutation p = (tp_role p = None \<or> tp_role p = Some admin_role)"

definition is_named_admin :: "'w tool_policy \<Rightarrow> bool" where
  "is_named_admin p = (tp_role p = Some admin_role \<and> \<not> tp_verify p)"

definition allows_mutation :: "'w tool_policy \<Rightarrow> bool" where
  "allows_mutation p = (role_allows_mutation p \<and> \<not> tp_verify p \<and> \<not> tp_unattended p)"

definition verify_command_gated :: "(string \<times> string) list" where
  "verify_command_gated = [(''ssh_execute'', ''command'')]"

definition unattended_command_gated :: "(string \<times> string) list" where
  "unattended_command_gated = verify_command_gated @ [(''k8s_exec_pod'', ''command'')]"

definition host_write_tools :: "string list" where
  "host_write_tools = [''ssh_execute'', ''ssh_docker_restart'', ''ssh_restart_service'']"

definition command_gated :: "'w tool_policy \<Rightarrow> (string \<times> string) list" where
  "command_gated p =
     (if allows_mutation p \<or> \<not> role_allows_mutation p then []
      else if tp_verify p then verify_command_gated
      else if tp_unattended p then unattended_command_gated else [])"

definition allows_tool :: "'w tool_policy \<Rightarrow> string \<Rightarrow> bool \<Rightarrow> bool \<Rightarrow> bool" where
  "allows_tool p name mutating unattended_ok =
     (if \<not> mutating then True
      else if allows_mutation p then True
      else if tp_unattended p \<and> unattended_ok \<and> \<not> tp_verify p then True
      else name \<in> fst ` set (command_gated p))"

definition turn_refusal :: "'w tool_policy \<Rightarrow> string \<Rightarrow> string" where
  "turn_refusal p name =
     (if tp_verify p \<and> role_allows_mutation p
        then name @ '' changes the system, and this turn is a verification pass. Report what you found and what should happen next; an operator applies changes from the console.''
      else if tp_unattended p
        then name @ '' changes the system, and this is an unattended run: it may observe, not change. Put the change in your FIX; the remediation queue applies it through a gated lane.''
      else name @ '' changes the system; that needs an admin. Say exactly what you would run and why, so an admin can do it from the console.'')"

definition turn_command_refusal :: "'w tool_policy \<Rightarrow> string \<Rightarrow> string \<Rightarrow> string" where
  "turn_command_refusal p name reason =
     (if tp_unattended p \<and> \<not> tp_verify p
        then name @ '' is available on this unattended run for read-only checks, but the command was refused: '' @ reason @
          ''. Run the check that observes the state, and put the change in your FIX; the remediation queue applies it.''
      else name @ '' is available on this verification turn for read-only checks, but the command was refused: '' @ reason @
          ''. Run the check that observes the state and report what should be done; an operator applies it.'')"

section \<open>The registry\<close>

text \<open>An entry: its keys other than the schema and the function, the schema with the markers, and the function.\<close>

record 'w tool_entry =
  te_keys :: "string list"
  te_schema :: pydict
  te_call :: "pyval \<Rightarrow> ('w, pyval) op"

record 'w tool_registry =
  tr_tools :: "(string \<times> 'w tool_entry) list"
  tr_hosts :: "string list option"

definition schema_markers :: "string list" where
  "schema_markers = [''mutating'', ''human_only'', ''unattended_ok'', ''attended_only'']"

definition marked :: "string \<Rightarrow> 'w tool_entry \<Rightarrow> bool" where
  "marked m e = truthy (pget (te_schema e) m)"

definition check_marker_placement :: "'w tool_registry \<Rightarrow> unit res" where
  "check_marker_placement reg =
     (let misplaced = sort_key id [name @ ''.'' @ m. (name, e) \<leftarrow> tr_tools reg, m \<leftarrow> schema_markers, m \<in> set (te_keys e)];
          stray = sort_key id [name. (name, e) \<leftarrow> tr_tools reg, marked ''unattended_ok'' e \<and> \<not> marked ''mutating'' e]
      in if misplaced \<noteq> [] then
           value_error (concat [''policy markers belong inside the tool'', [CHR 0x27], ''s schema, not on the registry entry: '', str_join '', '' misplaced])
         else if stray \<noteq> [] then value_error (''unattended_ok is only meaningful on a mutating tool: '' @ str_join '', '' stray)
         else Inr ())"

definition a_human_asked :: "'w tool_policy option \<Rightarrow> bool" where
  "a_human_asked p = (case p of None \<Rightarrow> False | Some p \<Rightarrow> is_named_admin p)"

definition a_person_is_there :: "'w tool_policy option \<Rightarrow> bool" where
  "a_person_is_there p = (case p of None \<Rightarrow> False | Some p \<Rightarrow> \<not> tp_unattended p \<and> tp_role p \<noteq> None)"

definition offers :: "string \<Rightarrow> 'w tool_entry \<Rightarrow> 'w tool_policy option \<Rightarrow> bool" where
  "offers name e p =
     (if marked ''human_only'' e \<and> \<not> a_human_asked p then False
      else if marked ''attended_only'' e \<and> \<not> a_person_is_there p then False
      else (case p of None \<Rightarrow> True | Some p \<Rightarrow> allows_tool p name (marked ''mutating'' e) (marked ''unattended_ok'' e)))"

definition get_schemas :: "'w tool_registry \<Rightarrow> 'w tool_policy option \<Rightarrow> pyval list" where
  "get_schemas reg p =
     [PDict [(''type'', PStr ''function''), (''function'', PDict (filter (\<lambda>(k, v). k \<notin> set schema_markers) (te_schema e)))].
        (name, e) \<leftarrow> tr_tools reg, offers name e p]"

section \<open>Host writes\<close>

text \<open>\<open>shlex.quote\<close>.\<close>

definition shell_safe :: "char \<Rightarrow> bool" where
  "shell_safe c = ((let n = of_char c :: nat in is_digit c \<or> n = 95 \<or> (65 \<le> n \<and> n \<le> 90) \<or> (97 \<le> n \<and> n \<le> 122)) \<or> c \<in> set ''@%+=:,./-'')"

definition shlex_quote :: "string \<Rightarrow> string" where
  "shlex_quote s =
     (if s = [] then [CHR 0x27, CHR 0x27]
      else if list_all shell_safe s then s
      else CHR 0x27 # concat (map (\<lambda>c. if c = CHR 0x27 then [CHR 0x27, CHR 0x22, CHR 0x27, CHR 0x22, CHR 0x27] else [c]) s) @ [CHR 0x27])"

definition refused :: "string \<Rightarrow> string \<Rightarrow> pyval" where
  "refused name msg = PDict [(''error'', PStr msg), (''refused'', PBool True), (''tool'', PStr name)]"

text \<open>\<open>str(d.get(k) or '')\<close>.\<close>

definition text_of :: "pyval \<Rightarrow> string" where
  "text_of v = py_str (por v (PStr []))"

text \<open>The command in its final form and why it is a write, nothing for a read, or the answer to an incomplete call.\<close>

definition host_write :: "string \<Rightarrow> pydict \<Rightarrow> (pyval + (string \<times> string) option)" where
  "host_write name args =
     (if name = ''ssh_execute'' then
        (let command = with_sudo_for_socket_reads (text_of (pget args ''command''))
         in Inr (map_option (\<lambda>reason. (command, reason)) (ssh_mutation_reason command)))
      else if name = ''ssh_docker_restart'' then
        (let container = str_strip (text_of (pget args ''container''))
         in if container = [] then Inl (PDict [(''error'', PStr ''container is required''), (''tool'', PStr name)])
            else Inr (Some (''sudo -n docker restart '' @ shlex_quote container, ''restarts a container'')))
      else
        (let service = str_strip (text_of (pget args ''service''))
         in if service = [] then Inl (PDict [(''error'', PStr ''service is required''), (''tool'', PStr name)])
            else Inr (Some (''sudo -n systemctl restart '' @ shlex_quote service, ''restarts a service''))))"

text \<open>Arguments may come as JSON text. A text that does not parse runs as before, which reports it.\<close>

definition route_args :: "(string \<Rightarrow> pyval res) \<Rightarrow> pyval \<Rightarrow> pydict option" where
  "route_args loads args =
     (case args of
        PStr s \<Rightarrow> if str_strip s = [] then Some [] else (case loads s of Inl e \<Rightarrow> None | Inr v \<Rightarrow> Some (dict_or_empty v))
      | _ \<Rightarrow> Some (dict_or_empty args))"

definition route_host_write :: "(string \<Rightarrow> pyval res) \<Rightarrow> string list \<Rightarrow> string \<Rightarrow> pyval \<Rightarrow> 'w tool_policy \<Rightarrow> ('w, pyval option) op" where
  "route_host_write loads hosts name args p =
     (case route_args loads args of
        None \<Rightarrow> st_return None
      | Some d \<Rightarrow> (let host = str_strip (text_of (pget d ''host'')) in
          case host_write name d of
            Inl answer \<Rightarrow> st_return (Some answer)
          | Inr None \<Rightarrow> st_return None
          | Inr (Some (command, reason)) \<Rightarrow>
              if str_strip command = [] then st_return (Some (PDict [(''error'', PStr ''command is required''), (''tool'', PStr name)]))
              else if host \<notin> set hosts then
                st_return (Some (PDict [(''success'', PBool False), (''error'', PStr (''Unknown host: '' @ host)), (''available_hosts'', PList (map PStr hosts))]))
              else (case tp_confirm p of
                  None \<Rightarrow> st_return (Some (refused name (name @ '' would change '' @ host @ '' ('' @ reason @ ''): `'' @ command @
                    ''`. A host write runs once a console admin confirms that exact command in the chat, and nobody on this turn can confirm it (it came in with an API token). Say what you would run and why.'')))
                | Some ask \<Rightarrow> st_bind (ask name host command reason) (\<lambda>r. st_return (Some r)))))"

section \<open>Execution\<close>

text \<open>Why a command-gated call is refused; arguments that are no dict cannot be classified.\<close>

definition gated_reason :: "'w tool_policy \<Rightarrow> string \<Rightarrow> pyval \<Rightarrow> string option" where
  "gated_reason p name args =
     (case map_of (command_gated p) name of
        None \<Rightarrow> None
      | Some arg \<Rightarrow> (case as_dict (por args (PDict [])) of
          Inl e \<Rightarrow> Some ''the command could not be classified''
        | Inr d \<Rightarrow> ssh_mutation_reason (text_of (pget d arg))))"

definition gate_refusal :: "string \<Rightarrow> 'w tool_entry \<Rightarrow> pyval \<Rightarrow> 'w tool_policy option \<Rightarrow> string option" where
  "gate_refusal name e args p =
     (if marked ''human_only'' e \<and> \<not> a_human_asked p
        then Some (name @ '' runs only when an admin asks for it directly. An automated run cannot use it - put the recommendation in your findings and let the queue classify it.'')
      else if marked ''attended_only'' e \<and> \<not> a_person_is_there p
        then Some (name @ '' is a connector tool and runs only in a console chat. An automated run cannot use it.'')
      else (case p of None \<Rightarrow> None | Some p \<Rightarrow>
        if \<not> marked ''mutating'' e then None
        else if \<not> allows_tool p name True (marked ''unattended_ok'' e) then Some (turn_refusal p name)
        else if allows_mutation p then None
        else map_option (turn_command_refusal p name) (gated_reason p name args)))"

text \<open>The call itself: JSON text is parsed, and what the tool raises becomes its answer.\<close>

definition call_args :: "(string \<Rightarrow> pyval res) \<Rightarrow> pyval \<Rightarrow> pyval res" where
  "call_args loads args =
     (case args of
        PStr s \<Rightarrow> if str_strip s = [] then Inr (PDict []) else loads s
      | PNone \<Rightarrow> Inr (PDict [])
      | _ \<Rightarrow> Inr args)"

definition call_tool :: "(string \<Rightarrow> pyval res) \<Rightarrow> 'w tool_entry \<Rightarrow> pyval \<Rightarrow> ('w, pyval) op" where
  "call_tool loads e args =
     st_try (st_bind (st_lift (call_args loads args)) (te_call e)) (\<lambda>x. st_return (PDict [(''error'', PStr (exn_text x))]))"

definition execute_tool :: "(string \<Rightarrow> pyval res) \<Rightarrow> 'w tool_registry \<Rightarrow> string \<Rightarrow> pyval \<Rightarrow> 'w tool_policy option \<Rightarrow> ('w, pyval) op" where
  "execute_tool loads reg name args p =
     (case map_of (tr_tools reg) name of
        None \<Rightarrow> st_return (PDict [(''error'', PStr (''Tool '' @ name @ '' not found''))])
      | Some e \<Rightarrow> (case gate_refusal name e args p of
          Some msg \<Rightarrow> st_return (refused name msg)
        | None \<Rightarrow> st_bind
            (case (p, tr_hosts reg) of
               (Some q, Some hosts) \<Rightarrow> if name \<in> set host_write_tools \<and> allows_mutation q then route_host_write loads hosts name args q else st_return None
             | _ \<Rightarrow> st_return None)
            (\<lambda>routed. case routed of Some r \<Rightarrow> st_return r | None \<Rightarrow> call_tool loads e args)))"

text \<open>Why an answer counts as a failure in the log.\<close>

definition tool_result_failure :: "pyval \<Rightarrow> string" where
  "tool_result_failure result = (case result of
     PDict d \<Rightarrow>
       if pget d ''success'' \<noteq> PBool False \<and> \<not> truthy (pget d ''error'') then []
       else (case filter (\<lambda>t. t \<noteq> []) (map (\<lambda>k. str_join '' '' (py_words (text_of (pget d k)))) [''error'', ''stderr'', ''message'']) of
           t # _ \<Rightarrow> take 160 t
         | [] \<Rightarrow> if pget d ''exit_code'' \<noteq> PNone then ''exit_code='' @ py_str (pget d ''exit_code'') else ''success=False'')
   | _ \<Rightarrow> [])"

section \<open>What a turn may run\<close>

text \<open>
  What the documentation grants: a tool for people needs one, and a tool that changes things needs an admin (or an
  internal caller) on a turn that is no verification, except that an unattended run may use what is marked for
  it, and that a verification or an unattended run may send a command that is no known write.
\<close>

definition reads_only :: "string \<Rightarrow> pyval \<Rightarrow> bool" where
  "reads_only arg args = (\<exists>d. por args (PDict []) = PDict d \<and> \<not> writes (text_of (pget d arg)))"

definition may_run :: "'w tool_policy \<Rightarrow> string \<Rightarrow> 'w tool_entry \<Rightarrow> pyval \<Rightarrow> bool" where
  "may_run p name e args \<longleftrightarrow>
     (marked ''human_only'' e \<longrightarrow> tp_role p = Some admin_role \<and> \<not> tp_verify p) \<and>
     (marked ''attended_only'' e \<longrightarrow> tp_role p \<noteq> None \<and> \<not> tp_unattended p) \<and>
     (marked ''mutating'' e \<longrightarrow>
        role_allows_mutation p \<and> \<not> tp_verify p \<and> \<not> tp_unattended p \<or>
        tp_unattended p \<and> \<not> tp_verify p \<and> (marked ''unattended_ok'' e \<or> name \<in> {''ssh_execute'', ''k8s_exec_pod''} \<and> reads_only ''command'' args) \<or>
        role_allows_mutation p \<and> tp_verify p \<and> name = ''ssh_execute'' \<and> reads_only ''command'' args)"

lemmas policy_defs = allows_tool_def allows_mutation_def role_allows_mutation_def is_named_admin_def command_gated_def
  a_human_asked_def a_person_is_there_def verify_command_gated_def unattended_command_gated_def

lemma as_dict_Inr: "as_dict v = Inr d \<longleftrightarrow> v = PDict d"
  by (cases v) (auto simp: as_dict_def no_attribute_def)

lemma gated_reason_None:
  "gated_reason p name args = None \<Longrightarrow> map_of (command_gated p) name = Some arg \<Longrightarrow> reads_only arg args"
proof -
  assume "gated_reason p name args = None" "map_of (command_gated p) name = Some arg"
  then obtain d where "as_dict (por args (PDict [])) = Inr d" "ssh_mutation_reason (text_of (pget d arg)) = None"
    by (auto simp: gated_reason_def split: sum.splits)
  then show ?thesis
    using reason_within_exact [of "Suc max_nesting"] unfolding reads_only_def as_dict_Inr ssh_mutation_reason_def by blast
qed

lemma command_gated_names:
  "map_of (command_gated p) name = Some arg \<longleftrightarrow>
     \<not> allows_mutation p \<and> role_allows_mutation p \<and> arg = ''command'' \<and>
     (name = ''ssh_execute'' \<and> (tp_verify p \<or> tp_unattended p) \<or> name = ''k8s_exec_pod'' \<and> tp_unattended p \<and> \<not> tp_verify p)"
  by (auto simp: command_gated_def verify_command_gated_def unattended_command_gated_def)

lemma gate_refusal_None:
  assumes "gate_refusal name e args (Some p) = None"
  shows "may_run p name e args"
proof (cases "marked ''mutating'' e \<and> \<not> allows_mutation p")
  case False
  with assms show ?thesis
    by (auto simp: gate_refusal_def may_run_def a_human_asked_def a_person_is_there_def is_named_admin_def allows_mutation_def split: if_splits)
next
  case True
  then have gate: "allows_tool p name True (marked ''unattended_ok'' e)" "gated_reason p name args = None"
    using assms by (auto simp: gate_refusal_def split: if_splits)
  have people: "(marked ''human_only'' e \<longrightarrow> tp_role p = Some admin_role \<and> \<not> tp_verify p) \<and>
      (marked ''attended_only'' e \<longrightarrow> tp_role p \<noteq> None \<and> \<not> tp_unattended p)"
    using assms by (auto simp: gate_refusal_def a_human_asked_def a_person_is_there_def is_named_admin_def split: if_splits)
  from gate(1) True consider "tp_unattended p" "marked ''unattended_ok'' e" "\<not> tp_verify p" | "name \<in> fst ` set (command_gated p)"
    by (auto simp: allows_tool_def split: if_splits)
  then show ?thesis
  proof cases
    case 1
    with people show ?thesis by (auto simp: may_run_def)
  next
    case 2
    then obtain arg where "map_of (command_gated p) name = Some arg" by (metis map_of_eq_None_iff not_None_eq)
    with gated_reason_None [OF gate(2)] command_gated_names [of p name arg] people show ?thesis by (auto simp: may_run_def)
  qed
qed

lemma execute_refused:
  "map_of (tr_tools reg) name = Some e \<Longrightarrow> gate_refusal name e args p = Some msg \<Longrightarrow>
   execute_tool loads reg name args p w = (Inr (refused name msg), w)"
  by (simp add: execute_tool_def st_return_def)

text \<open>
  C9: Whatever a turn with a policy changes, it changes through a tool the policy lets it run: nothing that changes
  the system runs for a member; a verification turn and an unattended run send only commands that are no known
  writes, apart from the tools marked for unattended use; and tools for people run only with one behind the turn.
\<close>

theorem tools_run_as_granted:
  assumes "execute_tool loads reg name args (Some p) w = (r, w')" "w' \<noteq> w"
  shows "\<exists>e. map_of (tr_tools reg) name = Some e \<and> may_run p name e args"
proof (cases "map_of (tr_tools reg) name")
  case None
  with assms show ?thesis by (simp add: execute_tool_def st_return_def)
next
  case (Some e)
  show ?thesis
  proof (cases "gate_refusal name e args (Some p)")
    case None
    with Some gate_refusal_None show ?thesis by blast
  next
    case (Some msg)
    with \<open>map_of (tr_tools reg) name = Some e\<close> assms show ?thesis by (simp add: execute_refused)
  qed
qed

definition restart_tool :: "nat tool_entry" where
  "restart_tool = \<lparr>te_keys = [], te_schema = [(''mutating'', PBool True)], te_call = (\<lambda>v n. (Inr PNone, Suc n))\<rparr>"

definition sample_registry :: "nat tool_registry" where
  "sample_registry = \<lparr>tr_tools = [(''k8s_exec_pod'', restart_tool), (''k8s_delete_pod'', restart_tool)], tr_hosts = None\<rparr>"

definition no_json :: "string \<Rightarrow> pyval res" where
  "no_json s = value_error ''no JSON''"

theorem tools_run_as_granted_witness:
  "\<exists>e. map_of (tr_tools sample_registry) ''k8s_exec_pod'' = Some e \<and>
     may_run unattended_policy ''k8s_exec_pod'' e (PDict [(''command'', PStr ''ls /'')])"
proof -
  have "execute_tool no_json sample_registry ''k8s_exec_pod'' (PDict [(''command'', PStr ''ls /'')]) (Some unattended_policy) 0 = (Inr PNone, 1)"
    by code_simp
  from tools_run_as_granted [OF this] show ?thesis by simp
qed

text \<open>
  The two layers agree: a tool that a turn is not offered is refused when the model names it anyway, and
  nothing happens; and what is offered is refused only for its command.
\<close>

theorem offered_iff_not_refused:
  assumes "map_of (tr_tools reg) name = Some e"
  shows "(\<not> offers name e p \<longrightarrow> (\<exists>msg. execute_tool loads reg name args p w = (Inr (refused name msg), w))) \<and>
     (offers name e p \<longrightarrow> gate_refusal name e args p = None \<or>
        (\<exists>q reason. p = Some q \<and> gated_reason q name args = Some reason \<and> gate_refusal name e args p = Some (turn_command_refusal q name reason)))"
proof (intro conjI impI)
  assume "\<not> offers name e p"
  then obtain msg where "gate_refusal name e args p = Some msg"
    by (auto simp: offers_def gate_refusal_def allows_tool_def split: option.splits if_splits)
  then show "\<exists>msg. execute_tool loads reg name args p w = (Inr (refused name msg), w)"
    using execute_refused [OF assms] by blast
next
  assume "offers name e p"
  then show "gate_refusal name e args p = None \<or>
      (\<exists>q reason. p = Some q \<and> gated_reason q name args = Some reason \<and> gate_refusal name e args p = Some (turn_command_refusal q name reason))"
    by (auto simp: offers_def gate_refusal_def split: option.splits if_splits)
qed

theorem offered_iff_not_refused_witness:
  "\<exists>msg. execute_tool no_json sample_registry ''k8s_delete_pod'' PNone (Some unattended_policy) 0 = (Inr (refused ''k8s_delete_pod'' msg), 0)"
proof -
  have "map_of (tr_tools sample_registry) ''k8s_delete_pod'' = Some restart_tool" by (simp add: sample_registry_def)
  from offered_iff_not_refused [OF this, of "Some unattended_policy" no_json PNone 0]
  have "\<not> offers ''k8s_delete_pod'' restart_tool (Some unattended_policy) \<longrightarrow> ?thesis" by (rule conjunct1)
  moreover have "\<not> offers ''k8s_delete_pod'' restart_tool (Some unattended_policy)" by code_simp
  ultimately show ?thesis by (rule mp)
qed

section \<open>Host writes go through the confirmer\<close>

text \<open>
  On a turn that may change things, a write through SSH has no effect but that of the confirmer, which is given
  the very command, the host and the reason: a command that reads, or the call as it came, is all that runs directly.
\<close>

theorem host_writes_confirmed:
  assumes "name \<in> set host_write_tools" "allows_mutation p" "tr_hosts reg = Some hosts"
    and "route_args loads args = Some d" "host_write name d = Inr (Some (command, reason))"
    and "execute_tool loads reg name args (Some p) w = (r, w')" "w' \<noteq> w"
  shows "\<exists>ask. tp_confirm p = Some ask \<and> (r, w') = ask name (str_strip (text_of (pget d ''host''))) command reason w \<and>
    str_strip (text_of (pget d ''host'')) \<in> set hosts"
proof -
  from assms(6,7) obtain e where e: "map_of (tr_tools reg) name = Some e"
    by (auto simp: execute_tool_def st_return_def split: option.splits)
  have "gate_refusal name e args (Some p) = None" using assms(6,7) execute_refused [OF e] by (cases "gate_refusal name e args (Some p)") auto
  then have run: "execute_tool loads reg name args (Some p) w =
      st_bind (route_host_write loads hosts name args p) (\<lambda>routed. case routed of Some r \<Rightarrow> st_return r | None \<Rightarrow> call_tool loads e args) w"
    using e assms(1-3) by (simp add: execute_tool_def)
  show ?thesis
  proof (cases "str_strip command = [] \<or> str_strip (text_of (pget d ''host'')) \<notin> set hosts \<or> tp_confirm p = None")
    case True
    then have "\<exists>x. route_host_write loads hosts name args p w = (Inr (Some x), w)"
      by (auto simp: route_host_write_def assms(4,5) st_return_def Let_def)
    with run assms(6,7) show ?thesis by (auto simp: st_bind_def st_return_def)
  next
    case False
    then obtain ask where ask: "tp_confirm p = Some ask" by blast
    let ?asked = "ask name (str_strip (text_of (pget d ''host''))) command reason w"
    have "execute_tool loads reg name args (Some p) w = ?asked"
      unfolding run using False ask
      by (cases ?asked; cases "fst ?asked") (auto simp: route_host_write_def assms(4,5) Let_def st_bind_def st_return_def)
    with assms(6) ask False show ?thesis by auto
  qed
qed

definition ask_nobody :: "nat confirmer" where
  "ask_nobody tool host command reason n = (Inr PNone, n + length command)"

definition admin_policy :: "nat tool_policy" where
  "admin_policy = \<lparr>tp_role = Some ''admin'', tp_verify = False, tp_unattended = False, tp_confirm = Some ask_nobody\<rparr>"

definition ssh_registry :: "nat tool_registry" where
  "ssh_registry = \<lparr>tr_tools = [(''ssh_restart_service'', restart_tool)], tr_hosts = Some [''pi'']\<rparr>"

theorem host_writes_confirmed_witness:
  "\<exists>ask. tp_confirm admin_policy = Some ask \<and>
     (Inr PNone, 31) = ask ''ssh_restart_service'' ''pi'' ''sudo -n systemctl restart kubed'' ''restarts a service'' 0"
proof -
  let ?args = "[(''host'', PStr ''pi''), (''service'', PStr ''kubed'')]"
  have "''ssh_restart_service'' \<in> set host_write_tools" "allows_mutation admin_policy" "tr_hosts ssh_registry = Some [''pi'']"
    "route_args no_json (PDict ?args) = Some ?args"
    "host_write ''ssh_restart_service'' ?args = Inr (Some (''sudo -n systemctl restart kubed'', ''restarts a service''))"
    "execute_tool no_json ssh_registry ''ssh_restart_service'' (PDict ?args) (Some admin_policy) 0 = (Inr PNone, 31)"
    by code_simp+
  from host_writes_confirmed [OF this] have "\<exists>ask. tp_confirm admin_policy = Some ask \<and>
      (Inr PNone, 31) = ask ''ssh_restart_service'' (str_strip (text_of (pget ?args ''host''))) ''sudo -n systemctl restart kubed'' ''restarts a service'' 0 \<and>
      str_strip (text_of (pget ?args ''host'')) \<in> set [''pi'']" by simp
  moreover have "str_strip (text_of (pget ?args ''host'')) = ''pi''" by code_simp
  ultimately show ?thesis by simp
qed

section \<open>Quoting\<close>

text \<open>A word without what the shell's lexer treats specially.\<close>

definition plain_char :: "char \<Rightarrow> bool" where
  "plain_char c = (\<not> lex_space c \<and> c \<noteq> CHR 0x5C \<and> \<not> lex_quote c)"

lemma shell_safe_plain: "shell_safe c \<Longrightarrow> plain_char c"
proof (rule ccontr)
  assume "shell_safe c" "\<not> plain_char c"
  then have "c \<in> {CHR '' '', CHR 0x09, CHR 0x0D, CHR 0x0A, CHR 0x5C, CHR 0x27, CHR 0x22}" by (auto simp: plain_char_def lex_space_def lex_quote_def)
  moreover have "\<not> shell_safe (CHR '' '')" "\<not> shell_safe (CHR 0x09)" "\<not> shell_safe (CHR 0x0D)" "\<not> shell_safe (CHR 0x0A)" "\<not> shell_safe (CHR 0x5C)"
    "\<not> shell_safe (CHR 0x27)" "\<not> shell_safe (CHR 0x22)" by code_simp+
  ultimately show False using \<open>shell_safe c\<close> by blast
qed

lemma lex_plain: "list_all plain_char w \<Longrightarrow> lex_run LexWord tok qd (w @ s) = lex_run LexWord (tok @ w) qd s"
  by (induction w arbitrary: tok) (auto simp: plain_char_def)

lemma lex_gap_plain: "w \<noteq> [] \<Longrightarrow> list_all plain_char w \<Longrightarrow> lex_run LexGap [] False (w @ s) = lex_run LexWord w False s"
  by (cases w) (auto simp: plain_char_def lex_plain)

lemma shlex_word: "w \<noteq> [] \<Longrightarrow> list_all plain_char w \<Longrightarrow> shlex_split (w @ CHR '' '' # s) = bind_res (shlex_split s) (\<lambda>ws. Inr (w # ws))"
  by (simp add: shlex_split_def lex_gap_plain lex_space_def lex_emit_def)

lemma lex_quoted:
  "lex_run (LexQuote (CHR 0x27)) tok qd
     (concat (map (\<lambda>c. if c = CHR 0x27 then [CHR 0x27, CHR 0x22, CHR 0x27, CHR 0x22, CHR 0x27] else [c]) s) @ [CHR 0x27]) = Inr [tok @ s]"
proof (induction s arbitrary: tok qd)
  case Nil
  then show ?case by (simp add: lex_emit_def)
next
  case (Cons c s)
  from Cons [of "tok @ [c]" True] show ?case by (auto simp: lex_space_def lex_quote_def)
qed

text \<open>A quoted value is one word for the shell, whatever it holds.\<close>

lemma quoted_is_one_word:
  "shlex_split (shlex_quote s) = Inr [s]"
proof -
  consider "s = []" | "s \<noteq> []" "list_all shell_safe s" | "s \<noteq> []" "\<not> list_all shell_safe s" by blast
  then show ?thesis
  proof cases
    case 1
    then show ?thesis by (simp add: shlex_quote_def shlex_split_def lex_space_def lex_quote_def lex_emit_def)
  next
    case 2
    then have "list_all plain_char s" using shell_safe_plain by (simp add: list_all_iff)
    with 2 show ?thesis using lex_gap_plain [of s "[]"] by (simp add: shlex_quote_def shlex_split_def lex_emit_def)
  next
    case 3
    then show ?thesis using lex_quoted [of "[]" False s] by (simp add: shlex_quote_def shlex_split_def lex_space_def lex_quote_def)
  qed
qed

text \<open>
  The command an admin is shown for a restart is one command of five words, the last of them the container or
  the service as it was named, whatever characters the name holds.
\<close>

theorem restart_is_one_command:
  assumes "name = ''ssh_docker_restart'' \<or> name = ''ssh_restart_service''" "host_write name args = Inr (Some (command, reason))"
  shows "shlex_split command = Inr [''sudo'', ''-n'', if name = ''ssh_docker_restart'' then ''docker'' else ''systemctl'', ''restart'',
    str_strip (text_of (pget args (if name = ''ssh_docker_restart'' then ''container'' else ''service'')))]"
proof -
  let ?program = "if name = ''ssh_docker_restart'' then ''docker'' else ''systemctl''"
  let ?arg = "str_strip (text_of (pget args (if name = ''ssh_docker_restart'' then ''container'' else ''service'')))"
  have command: "command = ''sudo'' @ CHR '' '' # ''-n'' @ CHR '' '' # ?program @ CHR '' '' # ''restart'' @ CHR '' '' # shlex_quote ?arg"
    using assms by (auto simp: host_write_def Let_def split: if_splits)
  have words: "list_all plain_char ''sudo''" "list_all plain_char ''-n''" "list_all plain_char ?program" "list_all plain_char ''restart''"
    using assms(1) by (auto simp: plain_char_def lex_space_def lex_quote_def)
  have "shlex_split (''restart'' @ CHR '' '' # shlex_quote ?arg) = Inr [''restart'', ?arg]"
    by (subst shlex_word [OF _ words(4)]) (simp_all add: quoted_is_one_word)
  then have "shlex_split (?program @ CHR '' '' # ''restart'' @ CHR '' '' # shlex_quote ?arg) = Inr [?program, ''restart'', ?arg]"
    by (subst shlex_word [OF _ words(3)]) simp_all
  then have "shlex_split (''-n'' @ CHR '' '' # ?program @ CHR '' '' # ''restart'' @ CHR '' '' # shlex_quote ?arg) = Inr [''-n'', ?program, ''restart'', ?arg]"
    by (subst shlex_word [OF _ words(2)]) simp_all
  then show ?thesis unfolding command by (subst shlex_word [OF _ words(1)]) simp_all
qed

theorem restart_is_one_command_witness:
  "shlex_split (''sudo -n docker restart '' @ [CHR 0x27] @ ''a; reboot'' @ [CHR 0x27]) = Inr [''sudo'', ''-n'', ''docker'', ''restart'', ''a; reboot'']"
proof -
  have "host_write ''ssh_docker_restart'' [(''container'', PStr ''a; reboot'')] =
      Inr (Some (''sudo -n docker restart '' @ [CHR 0x27] @ ''a; reboot'' @ [CHR 0x27], ''restarts a container''))" by code_simp
  from restart_is_one_command [OF _ this] have "shlex_split (''sudo -n docker restart '' @ [CHR 0x27] @ ''a; reboot'' @ [CHR 0x27]) =
      Inr [''sudo'', ''-n'', ''docker'', ''restart'', str_strip (text_of (pget [(''container'', PStr ''a; reboot'')] ''container''))]" by simp
  moreover have "str_strip (text_of (pget [(''container'', PStr ''a; reboot'')] ''container'')) = ''a; reboot''" by code_simp
  ultimately show ?thesis by simp
qed

end
