(* ===== verification/Host_Write.thy ===== *)
theory Host_Write
  imports Tool_Policy
begin

text \<open>
  Host writes that an admin confirms in the console, \<open>agent/host_write.py\<close>: the table of open questions, the
  turn's thread that asks, waits and runs, and the request threads that answer. The threads interleave between
  the lock's critical sections, which the step relation takes one at a time. What runs a confirmed command, the
  identifiers and the clock are given.
\<close>

section \<open>The table of questions\<close>

record pending_answer =
  pe_set :: bool
  pe_approved :: bool
  pe_approver :: string
  pe_decided :: "string option"
  pe_why :: string

definition new_pending :: pending_answer where
  "new_pending = \<lparr>pe_set = False, pe_approved = False, pe_approver = [], pe_decided = None, pe_why = []\<rparr>"

text \<open>
  The table names the open questions. The objects outlive their place in the table, as the thread that asked
  holds its own.
\<close>

record confirms =
  pc_table :: "string list"
  pc_object :: "string \<Rightarrow> pending_answer option"

definition pc_open :: "string \<Rightarrow> confirms \<Rightarrow> confirms" where
  "pc_open cid s = s\<lparr>pc_table := cid # pc_table s, pc_object := (pc_object s)(cid \<mapsto> new_pending)\<rparr>"

definition pc_close :: "string \<Rightarrow> confirms \<Rightarrow> confirms" where
  "pc_close cid s = s\<lparr>pc_table := filter (\<lambda>c. c \<noteq> cid) (pc_table s)\<rparr>"

definition pc_entry :: "string \<Rightarrow> confirms \<Rightarrow> pending_answer option" where
  "pc_entry cid s = (if cid \<in> set (pc_table s) then pc_object s cid else None)"

definition pc_is_open :: "string \<Rightarrow> confirms \<Rightarrow> bool" where
  "pc_is_open cid s = (case pc_entry cid s of None \<Rightarrow> False | Some e \<Rightarrow> \<not> pe_set e)"

definition approver_name :: "string \<Rightarrow> string" where
  "approver_name approver = (if str_strip approver = [] then ''unknown'' else str_strip approver)"

definition pc_resolve :: "string \<Rightarrow> bool \<Rightarrow> string \<Rightarrow> string \<Rightarrow> string \<Rightarrow> confirms \<Rightarrow> string \<times> confirms" where
  "pc_resolve cid approved approver why now s = (case pc_entry cid s of
     None \<Rightarrow> (''unknown'', s)
   | Some e \<Rightarrow> if pe_set e then (''answered'', s)
       else (''ok'', s\<lparr>pc_object := (pc_object s)(cid \<mapsto>
         \<lparr>pe_set = True, pe_approved = approved, pe_approver = approver_name approver, pe_decided = Some now, pe_why = why\<rparr>)\<rparr>))"

section \<open>The thread that asks\<close>

record ask =
  ak_tool :: string
  ak_host :: string
  ak_command :: string
  ak_reason :: string

text \<open>
  What the turn does once it waited: what it shows as the outcome, and the refusal it returns or the approver and
  the time it runs the command with. \<open>now\<close> is the clock, for an entry without a time.
\<close>

definition declined :: "ask \<Rightarrow> string \<Rightarrow> pyval" where
  "declined a msg = PDict [(''error'', PStr msg), (''refused'', PBool True), (''declined'', PBool True), (''tool'', PStr (ak_tool a))]"

definition after_wait :: "string \<Rightarrow> string \<Rightarrow> bool \<Rightarrow> pending_answer \<Rightarrow> ask \<Rightarrow> string \<times> (pyval + string \<times> string)" where
  "after_wait minutes now answered e a =
     (if \<not> answered then (''timeout'', Inl (declined a (''Nobody confirmed `'' @ ak_command a @ ''` on '' @ ak_host a @ '' within '' @ minutes @
          '' minutes, so nothing ran. Ask the operator whether they still want it.'')))
      else if \<not> pe_approved e then (if pe_why e = ''stopped'' then ''stopped'' else ''declined'',
        Inl (declined a (pe_approver e @ '' declined `'' @ ak_command a @ ''` on '' @ ak_host a @
          ''; nothing ran. Do not run it another way. Ask what they want instead.'')))
      else (''approved'', Inr (pe_approver e, case pe_decided e of Some t \<Rightarrow> (if t = [] then now else t) | None \<Rightarrow> now)))"

text \<open>Polling the row of the command: the row once it reached an outcome, nothing at the deadline; a failed read is no row.\<close>

definition row_outcomes :: "string list" where
  "row_outcomes = [''resolved'', ''failed'', ''needs-human'', ''rejected'']"

definition row_done :: "pyval res \<Rightarrow> bool" where
  "row_done r = (case r of Inl e \<Rightarrow> False | Inr v \<Rightarrow> (case v of PDict d \<Rightarrow> \<exists>s \<in> set row_outcomes. pget d ''status'' = PStr s | _ \<Rightarrow> False))"

text \<open>The reads and the clock behind each, as far as they were made; \<open>None\<close> while the loop still polls.\<close>

fun wait_for_row :: "int \<Rightarrow> (pyval res \<times> int) list \<Rightarrow> pyval option option" where
  "wait_for_row deadline [] = None"
| "wait_for_row deadline ((r, now) # polls) =
     (if row_done r then Some (case r of Inl e \<Rightarrow> None | Inr v \<Rightarrow> Some v)
      else if now \<ge> deadline then Some None else wait_for_row deadline polls)"

section \<open>Steps\<close>

datatype phase = Waiting | Woken bool | Closed bool | Finished

datatype hw_event =
    Asked string ask
  | Answered string bool string string string
  | Shown string string
  | Ran string ask string string

record hw_state =
  hw_confirms :: confirms
  hw_turns :: "string \<Rightarrow> (ask \<times> phase) option"
  hw_log :: "hw_event list"

definition hw_init :: hw_state where
  "hw_init = \<lparr>hw_confirms = \<lparr>pc_table = [], pc_object = Map.empty\<rparr>, hw_turns = Map.empty, hw_log = []\<rparr>"

definition hw_logs :: "hw_event list \<Rightarrow> hw_state \<Rightarrow> hw_state" where
  "hw_logs es s = s\<lparr>hw_log := hw_log s @ es\<rparr>"

definition set_phase :: "string \<Rightarrow> ask \<Rightarrow> phase \<Rightarrow> hw_state \<Rightarrow> hw_state" where
  "set_phase cid a ph s = s\<lparr>hw_turns := (hw_turns s)(cid \<mapsto> (a, ph))\<rparr>"

text \<open>
  A turn asks under a fresh identifier; a request answers; the wait ends with the answer or without; the entry
  leaves the table; the outcome is shown and an approved command runs. Showing can fail, which ends the turn.
\<close>

inductive hw_step :: "hw_state \<Rightarrow> hw_state \<Rightarrow> bool" where
  hw_ask: "hw_turns s cid = None \<Longrightarrow>
    hw_step s (hw_logs [Asked cid a] (set_phase cid a Waiting (s\<lparr>hw_confirms := pc_open cid (hw_confirms s)\<rparr>)))"
| hw_ask_fails: "hw_turns s cid = None \<Longrightarrow>
    hw_step s (set_phase cid a Finished (s\<lparr>hw_confirms := pc_close cid (pc_open cid (hw_confirms s))\<rparr>))"
| hw_answer: "pc_resolve cid approved approver why now (hw_confirms s) = (status, c) \<Longrightarrow>
    hw_step s (hw_logs [Answered cid approved (approver_name approver) now status] (s\<lparr>hw_confirms := c\<rparr>))"
| hw_wakes: "hw_turns s cid = Some (a, Waiting) \<Longrightarrow> pc_object (hw_confirms s) cid = Some e \<Longrightarrow>
    hw_step s (set_phase cid a (Woken (pe_set e)) s)"
| hw_close: "hw_turns s cid = Some (a, Woken b) \<Longrightarrow>
    hw_step s (set_phase cid a (Closed b) (s\<lparr>hw_confirms := pc_close cid (hw_confirms s)\<rparr>))"
| hw_ends: "hw_turns s cid = Some (a, Closed b) \<Longrightarrow> pc_object (hw_confirms s) cid = Some e \<Longrightarrow>
    after_wait minutes now b e a = (shown, Inl answer) \<Longrightarrow>
    hw_step s (hw_logs [Shown cid shown] (set_phase cid a Finished s))"
| hw_runs: "hw_turns s cid = Some (a, Closed b) \<Longrightarrow> pc_object (hw_confirms s) cid = Some e \<Longrightarrow>
    after_wait minutes now b e a = (shown, Inr (approver, decided)) \<Longrightarrow>
    hw_step s (hw_logs [Shown cid shown, Ran cid a approver decided] (set_phase cid a Finished s))"
| hw_show_fails: "hw_turns s cid = Some (a, Closed b) \<Longrightarrow> hw_step s (set_phase cid a Finished s)"

inductive hw_reaches :: "hw_state \<Rightarrow> bool" where
  hw_reaches_init: "hw_reaches hw_init"
| hw_reaches_step: "hw_reaches s \<Longrightarrow> hw_step s t \<Longrightarrow> hw_reaches t"

inductive_cases hw_stepE: "hw_step s t"

section \<open>What runs was confirmed\<close>

text \<open>The accepted answers to a question, and its runs.\<close>

definition accepted :: "string \<Rightarrow> hw_event list \<Rightarrow> hw_event list" where
  "accepted cid log = filter (\<lambda>ev. case ev of Answered c b n t st \<Rightarrow> c = cid \<and> st = ''ok'' | _ \<Rightarrow> False) log"

definition runs_of :: "string \<Rightarrow> hw_event list \<Rightarrow> hw_event list" where
  "runs_of cid log = filter (\<lambda>ev. case ev of Ran c a n t \<Rightarrow> c = cid | _ \<Rightarrow> False) log"

definition asked_of :: "string \<Rightarrow> hw_event list \<Rightarrow> hw_event list" where
  "asked_of cid log = filter (\<lambda>ev. case ev of Asked c a \<Rightarrow> c = cid | _ \<Rightarrow> False) log"

lemma log_filters [simp]:
  "accepted cid (l @ es) = accepted cid l @ accepted cid es" "runs_of cid (l @ es) = runs_of cid l @ runs_of cid es"
  "asked_of cid (l @ es) = asked_of cid l @ asked_of cid es"
  "accepted cid [] = []" "runs_of cid [] = []" "asked_of cid [] = []"
  "accepted cid (Asked c a # es) = accepted cid es" "accepted cid (Shown c w # es) = accepted cid es" "accepted cid (Ran c a n t # es) = accepted cid es"
  "accepted cid (Answered c b n t st # es) = (if c = cid \<and> st = ''ok'' then [Answered c b n t st] else []) @ accepted cid es"
  "runs_of cid (Asked c a # es) = runs_of cid es" "runs_of cid (Shown c w # es) = runs_of cid es" "runs_of cid (Answered c b n t st # es) = runs_of cid es"
  "runs_of cid (Ran c a n t # es) = (if c = cid then [Ran c a n t] else []) @ runs_of cid es"
  "asked_of cid (Ran c a n t # es) = asked_of cid es" "asked_of cid (Shown c w # es) = asked_of cid es" "asked_of cid (Answered c b n t st # es) = asked_of cid es"
  "asked_of cid (Asked c a # es) = (if c = cid then [Asked c a] else []) @ asked_of cid es"
  by (auto simp: accepted_def runs_of_def asked_of_def)

text \<open>
  The state of one question, phase by phase, from its turn, its object, whether it is in the table, and its accepted
  answers, runs and askings: an object is set by exactly one accepted answer, which it records, a turn that woke
  with an answer finds the object set, and nothing ran before the end.
\<close>

inductive question_view :: "string \<Rightarrow> (ask \<times> phase) option \<Rightarrow> pending_answer option \<Rightarrow> bool \<Rightarrow> hw_event list \<Rightarrow> hw_event list \<Rightarrow> hw_event list \<Rightarrow> bool"
  for cid where
  view_new: "question_view cid None None False [] [] []"
| view_open: "ph \<in> {Waiting, Woken False, Closed False} \<Longrightarrow> \<not> pe_set e \<Longrightarrow>
    question_view cid (Some (a, ph)) (Some e) tb [] [] [Asked cid a]"
| view_answered: "pe_set e \<Longrightarrow> pe_decided e = Some d \<Longrightarrow>
    question_view cid (Some (a, ph)) (Some e) tb [Answered cid (pe_approved e) (pe_approver e) d ''ok''] [] [Asked cid a]"
| view_lost: "\<not> pe_set e \<Longrightarrow> question_view cid (Some (a, Finished)) (Some e) tb [] [] asks"
| view_late: "pe_set e \<Longrightarrow> pe_decided e = Some d \<Longrightarrow>
    question_view cid (Some (a, Finished)) (Some e) tb [Answered cid (pe_approved e) (pe_approver e) d ''ok''] [] asks"
| view_run: "pe_set e \<Longrightarrow> pe_approved e \<Longrightarrow> pe_decided e = Some d \<Longrightarrow>
    question_view cid (Some (a, Finished)) (Some e) tb [Answered cid True (pe_approver e) d ''ok''] [Ran cid a (pe_approver e) t] [Asked cid a]"

definition question_ok :: "hw_state \<Rightarrow> string \<Rightarrow> bool" where
  "question_ok s cid = question_view cid (hw_turns s cid) (pc_object (hw_confirms s) cid) (cid \<in> set (pc_table (hw_confirms s)))
     (accepted cid (hw_log s)) (runs_of cid (hw_log s)) (asked_of cid (hw_log s))"

inductive_cases view_noneE: "question_view cid None obj tb acc runs asks"
inductive_cases view_waitingE: "question_view cid (Some (a, Waiting)) (Some e) tb acc runs asks"
inductive_cases view_wokenE: "question_view cid (Some (a, Woken b)) obj tb acc runs asks"
inductive_cases view_closedE: "question_view cid (Some (a, Closed b)) obj tb acc runs asks"
inductive_cases view_objectE: "question_view cid turn (Some e) tb acc runs asks"

lemmas hw_defs = hw_logs_def set_phase_def pc_open_def pc_close_def pc_entry_def

lemma resolve_cases:
  assumes "pc_resolve cid approved approver why now c = (status, d)"
  obtains e where "status = ''ok''" "pc_object c cid = Some e" "\<not> pe_set e" "cid \<in> set (pc_table c)"
      "d = c\<lparr>pc_object := (pc_object c)(cid \<mapsto>
         \<lparr>pe_set = True, pe_approved = approved, pe_approver = approver_name approver, pe_decided = Some now, pe_why = why\<rparr>)\<rparr>"
    | "status \<noteq> ''ok''" "d = c"
proof (cases "pc_entry cid c")
  case None
  with assms have "status \<noteq> ''ok''" "d = c" by (auto simp: pc_resolve_def)
  then show ?thesis by (rule that(2))
next
  case (Some e)
  show ?thesis
  proof (cases "pe_set e")
    case True
    with Some assms have "status \<noteq> ''ok''" "d = c" by (auto simp: pc_resolve_def)
    then show ?thesis by (rule that(2))
  next
    case False
    have "cid \<in> set (pc_table c)" "pc_object c cid = Some e" using Some by (simp_all add: pc_entry_def split: if_splits)
    moreover have "status = ''ok''" "d = c\<lparr>pc_object := (pc_object c)(cid \<mapsto>
         \<lparr>pe_set = True, pe_approved = approved, pe_approver = approver_name approver, pe_decided = Some now, pe_why = why\<rparr>)\<rparr>"
      using assms Some False by (simp_all add: pc_resolve_def)
    ultimately show ?thesis using that(1) False by simp
  qed
qed

text \<open>A first answer is recorded, whatever phase the turn is in.\<close>

lemma view_answer:
  assumes "question_view cid turn (Some e) tb acc runs asks" "\<not> pe_set e" "pe_set e'" "pe_decided e' = Some now"
  shows "question_view cid turn (Some e') tb (acc @ [Answered cid (pe_approved e') (pe_approver e') now ''ok'']) runs asks"
  using assms(1)
  by (rule view_objectE) (use assms(2) view_answered [OF assms(3,4)] view_late [OF assms(3,4)] in auto)

lemma answer_keeps_ok:
  assumes "pc_resolve c approved approver why now (hw_confirms s) = (status, d)" "question_ok s cid"
  shows "question_ok (hw_logs [Answered c approved (approver_name approver) now status] (s\<lparr>hw_confirms := d\<rparr>)) cid"
  using assms(1)
proof (cases rule: resolve_cases)
  case (1 e)
  show ?thesis
  proof (cases "c = cid")
    case True
    let ?e = "\<lparr>pe_set = True, pe_approved = approved, pe_approver = approver_name approver, pe_decided = Some now, pe_why = why\<rparr>"
    from assms(2) 1 True have "question_view cid (hw_turns s cid) (Some e) True
        (accepted cid (hw_log s)) (runs_of cid (hw_log s)) (asked_of cid (hw_log s))"
      by (simp add: question_ok_def)
    from view_answer [OF this 1(3), of ?e now] show ?thesis using 1 True by (simp add: question_ok_def hw_logs_def)
  next
    case False
    with 1 assms(2) show ?thesis by (simp add: question_ok_def hw_logs_def)
  qed
next
  case 2
  with assms(2) show ?thesis by (simp add: question_ok_def hw_logs_def)
qed

lemma run_keeps_ok:
  assumes "hw_turns s c = Some (a, Closed b)" "pc_object (hw_confirms s) c = Some e"
    "after_wait minutes now b e a = (shown, Inr (approver, decided))" "question_ok s cid"
  shows "question_ok (hw_logs [Shown c shown, Ran c a approver decided] (set_phase c a Finished s)) cid"
proof (cases "c = cid")
  case True
  have who: "b" "pe_approved e" "approver = pe_approver e" using assms(3) by (auto simp: after_wait_def split: if_splits)
  from assms(4) have "question_view cid (Some (a, Closed b)) (Some e) (cid \<in> set (pc_table (hw_confirms s)))
      (accepted cid (hw_log s)) (runs_of cid (hw_log s)) (asked_of cid (hw_log s))"
    using assms(1,2) True by (simp add: question_ok_def)
  then have "question_view cid (Some (a, Finished)) (Some e) (cid \<in> set (pc_table (hw_confirms s)))
      (accepted cid (hw_log s)) (runs_of cid (hw_log s) @ [Ran cid a approver decided]) (asked_of cid (hw_log s))"
    by (rule view_closedE) (use who view_run in auto)
  then show ?thesis using assms(2) True by (simp add: question_ok_def hw_logs_def set_phase_def)
next
  case False
  with assms(4) show ?thesis by (simp add: question_ok_def hw_logs_def set_phase_def)
qed

lemma question_ok_step:
  assumes "hw_step s t" "question_ok s cid"
  shows "question_ok t cid"
  using assms(1)
proof (cases rule: hw_step.cases)
  case (hw_ask c a)
  with assms(2) show ?thesis
    by (cases "c = cid") (auto simp: question_ok_def hw_defs new_pending_def elim!: view_noneE intro!: view_open)
next
  case (hw_ask_fails c a)
  with assms(2) show ?thesis
    by (cases "c = cid") (auto simp: question_ok_def hw_defs new_pending_def elim!: view_noneE intro!: view_lost)
next
  case (hw_answer c approved approver why now status d)
  then show ?thesis using answer_keeps_ok [OF _ assms(2)] by simp
next
  case (hw_wakes c a e)
  with assms(2) show ?thesis
    by (cases "c = cid"; cases "pe_set e") (auto simp: question_ok_def hw_defs elim!: view_waitingE intro!: view_open view_answered)
next
  case (hw_close c a b)
  with assms(2) show ?thesis
    by (cases "c = cid") (auto simp: question_ok_def hw_defs elim!: view_wokenE intro!: view_open view_answered)
next
  case (hw_ends c a b e minutes now shown answer)
  with assms(2) show ?thesis
    by (cases "c = cid") (auto simp: question_ok_def hw_defs elim!: view_closedE intro!: view_lost view_late)
next
  case (hw_runs c a b e minutes now shown approver decided)
  then show ?thesis using run_keeps_ok [OF _ _ _ assms(2)] by simp
next
  case (hw_show_fails c a b)
  with assms(2) show ?thesis
    by (cases "c = cid") (auto simp: question_ok_def hw_defs elim!: view_closedE intro!: view_lost view_late)
qed

lemma question_always_ok: "hw_reaches s \<Longrightarrow> question_ok s cid"
proof (induction rule: hw_reaches.induct)
  case hw_reaches_init
  show ?case using view_new by (simp add: question_ok_def hw_init_def)
qed (rule question_ok_step)

text \<open>
  C10: In every reachable state, however turns, answers and time-outs interleave, a command that ran was asked for,
  ran once, and is the command of the question; exactly one answer to the question was accepted, it approved, and
  the run names the person of that answer. A question that timed out, was declined or never answered ran nothing.
\<close>

theorem runs_only_confirmed:
  assumes "hw_reaches s" "runs_of cid (hw_log s) \<noteq> []"
  shows "\<exists>a approver decided ran_at. runs_of cid (hw_log s) = [Ran cid a approver ran_at] \<and> asked_of cid (hw_log s) = [Asked cid a] \<and>
    accepted cid (hw_log s) = [Answered cid True approver decided ''ok'']"
  using question_always_ok [OF assms(1), of cid] assms(2) by (auto simp: question_ok_def elim!: question_view.cases)

text \<open>One question, asked, answered in time, and run.\<close>

definition demo_ask :: ask where
  "demo_ask = \<lparr>ak_tool = ''ssh_execute'', ak_host = ''pi'', ak_command = ''sudo reboot'', ak_reason = ''reboot takes the host down''\<rparr>"

definition asked_state :: hw_state where
  "asked_state = hw_logs [Asked ''q'' demo_ask] (set_phase ''q'' demo_ask Waiting (hw_init\<lparr>hw_confirms := pc_open ''q'' (hw_confirms hw_init)\<rparr>))"

definition yes :: pending_answer where
  "yes = \<lparr>pe_set = True, pe_approved = True, pe_approver = ''ada'', pe_decided = Some ''noon'', pe_why = []\<rparr>"

definition answer_yes :: "hw_state \<Rightarrow> hw_state" where
  "answer_yes s = hw_logs [Answered ''q'' True ''ada'' ''noon'' ''ok'']
     (s\<lparr>hw_confirms := (hw_confirms s)\<lparr>pc_object := (pc_object (hw_confirms s))(''q'' \<mapsto> yes)\<rparr>\<rparr>)"

definition wake :: "bool \<Rightarrow> hw_state \<Rightarrow> hw_state" where
  "wake b s = set_phase ''q'' demo_ask (Woken b) s"

definition closed :: "bool \<Rightarrow> hw_state \<Rightarrow> hw_state" where
  "closed b s = set_phase ''q'' demo_ask (Closed b) (s\<lparr>hw_confirms := pc_close ''q'' (hw_confirms s)\<rparr>)"

definition run_state :: hw_state where
  "run_state = hw_logs [Shown ''q'' ''approved'', Ran ''q'' demo_ask ''ada'' ''noon''] (set_phase ''q'' demo_ask Finished (closed True (wake True (answer_yes asked_state))))"

definition late_state :: hw_state where
  "late_state = hw_logs [Shown ''q'' ''timeout''] (set_phase ''q'' demo_ask Finished (closed False (answer_yes (wake False asked_state))))"

lemmas demo_defs = asked_state_def answer_yes_def wake_def closed_def hw_init_def hw_defs

lemma ada: "approver_name ''ada'' = ''ada''"
  by code_simp

lemma step_asked: "hw_step hw_init asked_state"
  unfolding asked_state_def by (rule hw_ask) (simp add: hw_init_def)

lemma step_answer_yes:
  assumes "pc_object (hw_confirms s) ''q'' = Some new_pending" "''q'' \<in> set (pc_table (hw_confirms s))"
  shows "hw_step s (answer_yes s)"
proof -
  have "pc_resolve ''q'' True ''ada'' [] ''noon'' (hw_confirms s) =
      (''ok'', (hw_confirms s)\<lparr>pc_object := (pc_object (hw_confirms s))(''q'' \<mapsto> yes)\<rparr>)"
    using assms by (simp add: pc_resolve_def pc_entry_def new_pending_def yes_def ada)
  from hw_answer [OF this] show ?thesis by (simp add: answer_yes_def ada)
qed

lemma reaches_run: "hw_reaches run_state"
proof -
  have "hw_reaches asked_state" using hw_reaches_step [OF hw_reaches_init step_asked] .
  moreover have "hw_step asked_state (answer_yes asked_state)" by (rule step_answer_yes) (simp_all add: demo_defs)
  ultimately have "hw_reaches (answer_yes asked_state)" by (rule hw_reaches_step)
  moreover have "hw_step (answer_yes asked_state) (wake True (answer_yes asked_state))"
    using hw_wakes [of "answer_yes asked_state" "''q''" demo_ask yes] by (simp add: demo_defs yes_def)
  ultimately have "hw_reaches (wake True (answer_yes asked_state))" by (rule hw_reaches_step)
  moreover have "hw_step (wake True (answer_yes asked_state)) (closed True (wake True (answer_yes asked_state)))"
    unfolding closed_def by (rule hw_close) (simp add: wake_def set_phase_def)
  ultimately have "hw_reaches (closed True (wake True (answer_yes asked_state)))" by (rule hw_reaches_step)
  moreover have "hw_step (closed True (wake True (answer_yes asked_state))) run_state"
    unfolding run_state_def
    by (rule hw_runs [where b = True and e = yes and minutes = "''5''" and now = "''one''"])
      (simp_all add: demo_defs yes_def after_wait_def)
  ultimately show ?thesis by (rule hw_reaches_step)
qed

theorem runs_only_confirmed_witness:
  "\<exists>a approver decided ran_at. runs_of ''q'' (hw_log run_state) = [Ran ''q'' a approver ran_at] \<and>
    asked_of ''q'' (hw_log run_state) = [Asked ''q'' a] \<and> accepted ''q'' (hw_log run_state) = [Answered ''q'' True approver decided ''ok'']"
  by (rule runs_only_confirmed [OF reaches_run]) (simp add: run_state_def hw_logs_def)

text \<open>
  The table still takes an answer between the end of the wait and the removal of the question: the admin is told
  \<open>ok\<close> and nothing runs, and the turn reports that nobody answered.
\<close>

lemma late_answer_lost:
  "hw_reaches late_state \<and> Answered ''q'' True ''ada'' ''noon'' ''ok'' \<in> set (hw_log late_state) \<and>
   Shown ''q'' ''timeout'' \<in> set (hw_log late_state) \<and> runs_of ''q'' (hw_log late_state) = []"
proof -
  have "hw_reaches asked_state" using hw_reaches_step [OF hw_reaches_init step_asked] .
  moreover have "hw_step asked_state (wake False asked_state)"
    using hw_wakes [of asked_state "''q''" demo_ask new_pending] by (simp add: demo_defs new_pending_def)
  ultimately have "hw_reaches (wake False asked_state)" by (rule hw_reaches_step)
  moreover have "hw_step (wake False asked_state) (answer_yes (wake False asked_state))"
    by (rule step_answer_yes) (simp_all add: demo_defs)
  ultimately have "hw_reaches (answer_yes (wake False asked_state))" by (rule hw_reaches_step)
  moreover have "hw_step (answer_yes (wake False asked_state)) (closed False (answer_yes (wake False asked_state)))"
    unfolding closed_def by (rule hw_close) (simp add: wake_def answer_yes_def hw_logs_def set_phase_def)
  ultimately have "hw_reaches (closed False (answer_yes (wake False asked_state)))" by (rule hw_reaches_step)
  moreover have "hw_step (closed False (answer_yes (wake False asked_state))) late_state"
    unfolding late_state_def
    by (rule hw_ends [where b = False and e = yes and minutes = "''5''" and now = "''one''"])
      (simp_all add: demo_defs yes_def after_wait_def)
  ultimately have "hw_reaches late_state" by (rule hw_reaches_step)
  then show ?thesis by (simp add: late_state_def demo_defs)
qed

text \<open>Polling returns the first row that reached an outcome, and gives up only at the deadline.\<close>

lemma wait_for_row_finds:
  "wait_for_row deadline polls = Some (Some v) \<Longrightarrow>
   \<exists>before now later. polls = before @ (Inr v, now) # later \<and> row_done (Inr v) \<and> (\<forall>(r, t) \<in> set before. \<not> row_done r \<and> t < deadline)"
proof (induction polls)
  case (Cons poll polls)
  obtain r now where poll: "poll = (r, now)" by (cases poll)
  show ?case
  proof (cases "row_done r")
    case True
    with Cons.prems poll have "r = Inr v" by (cases r) (auto simp: row_done_def)
    with True poll have "poll # polls = [] @ (Inr v, now) # polls \<and> row_done (Inr v) \<and> (\<forall>(r, t) \<in> set []. \<not> row_done r \<and> t < deadline)" by simp
    then show ?thesis by blast
  next
    case False
    with Cons.prems poll have late: "now < deadline" "wait_for_row deadline polls = Some (Some v)" by (auto split: if_splits)
    from Cons.IH [OF late(2)] obtain before n later where
      "polls = before @ (Inr v, n) # later" "row_done (Inr v)" "\<forall>(r, t) \<in> set before. \<not> row_done r \<and> t < deadline" by blast
    then have "poll # polls = (poll # before) @ (Inr v, n) # later" "row_done (Inr v)" "\<forall>(r, t) \<in> set (poll # before). \<not> row_done r \<and> t < deadline"
      using False poll late(1) by auto
    then show ?thesis by blast
  qed
qed simp

end
