(* ===== verification/Py_Triple.thy ===== *)
theory Py_Triple
  imports Py_Base
begin

text \<open>
  Triples for operations on a state that may raise: what holds before, what holds with the value when the operation
  returns, and what holds when it raises. One rule per combinator, for components whose handlers are long.
\<close>

named_theorems triple_intros

definition triple :: "('s \<Rightarrow> bool) \<Rightarrow> ('s, 'a) op \<Rightarrow> ('a \<Rightarrow> 's \<Rightarrow> bool) \<Rightarrow> ('s \<Rightarrow> bool) \<Rightarrow> bool" where
  "triple P m Q E = (\<forall>s. P s \<longrightarrow> (case m s of (Inr x, s') \<Rightarrow> Q x s' | (Inl e, s') \<Rightarrow> E s'))"

lemma tripleI:
  "(\<And>s x s'. P s \<Longrightarrow> m s = (Inr x, s') \<Longrightarrow> Q x s') \<Longrightarrow> (\<And>s e s'. P s \<Longrightarrow> m s = (Inl e, s') \<Longrightarrow> E s') \<Longrightarrow> triple P m Q E"
  by (auto simp: triple_def split: prod.split sum.split)

lemma tripleD:
  assumes "triple P m Q E" "P s"
  shows "m s = (Inr x, s') \<Longrightarrow> Q x s'" "m s = (Inl e, s') \<Longrightarrow> E s'"
  using assms by (force simp: triple_def)+

lemma triple_conseq:
  assumes "triple P' m Q' E'" "\<And>s. P s \<Longrightarrow> P' s" "\<And>x s. Q' x s \<Longrightarrow> Q x s" "\<And>s. E' s \<Longrightarrow> E s"
  shows "triple P m Q E"
  by (rule tripleI) (use tripleD [OF assms(1)] assms(2-4) in blast)+

lemma triple_return [triple_intros]: "(\<And>s. P s \<Longrightarrow> Q x s) \<Longrightarrow> triple P (st_return x) Q E"
  by (simp add: triple_def st_return_def)

lemma triple_raise [triple_intros]: "(\<And>s. P s \<Longrightarrow> E s) \<Longrightarrow> triple P (st_raise e) Q E"
  by (simp add: triple_def st_raise_def)

lemma triple_lift [triple_intros]:
  "(\<And>x s. r = Inr x \<Longrightarrow> P s \<Longrightarrow> Q x s) \<Longrightarrow> (\<And>s. P s \<Longrightarrow> E s) \<Longrightarrow> triple P (st_lift r) Q E"
  by (auto simp: triple_def st_lift_def split: sum.split)

lemma triple_bind: "triple P m R E \<Longrightarrow> (\<And>x. triple (R x) (f x) Q E) \<Longrightarrow> triple P (st_bind m f) Q E"
  by (fastforce simp: triple_def st_bind_def split: prod.splits sum.splits)

lemma triple_try: "triple P m Q R \<Longrightarrow> (\<And>e. triple R (h e) Q E) \<Longrightarrow> triple P (st_try m h) Q E"
  by (fastforce simp: triple_def st_try_def split: prod.splits sum.splits)

lemma triple_modify [triple_intros]: "(\<And>s. P s \<Longrightarrow> Q () (f s)) \<Longrightarrow> triple P (st_modify f) Q E"
  by (simp add: triple_def st_modify_def)

text \<open>A value known before the operation.\<close>

lemma triple_pure: "(A \<Longrightarrow> triple P m Q E) \<Longrightarrow> triple (\<lambda>s. A \<and> P s) m Q E"
  by (auto simp: triple_def)

lemma triple_False: "triple (\<lambda>s. False) m Q E"
  by (simp add: triple_def)

end
