(* ===== verification/Remediation_Queue.thy ===== *)
theory Remediation_Queue
  imports Py_Value Py_Time
begin

text \<open>
  The queue of remediations, the table \<open>remediation_queue\<close> of \<open>agent/knowledge_base.py\<close> and its methods:
  the auto-execute gate and its configuration, enqueueing with suppression of duplicates, leases, retries,
  release, status changes, the reaper, and the operator's reclassification. The table is the list of its rows in
  the order of their ids. Each method is one transaction, which an outage of the database makes raise without a
  change. The clock is an argument; log lines are left out.
\<close>

section \<open>The auto-execute gate\<close>

definition remediation_classes :: "string list" where
  "remediation_classes = [''gitops-patch'', ''k8s-action'', ''k8s-imperative'', ''node-action'', ''data-fix'', ''external-system'', ''manual'']"

definition remediation_risks :: "string list" where
  "remediation_risks = [''low'', ''med'', ''high'']"

definition remediation_statuses :: "string list" where
  "remediation_statuses = [''queued'', ''claimed'', ''executing'', ''pr-open'', ''verifying'', ''resolved'', ''failed'', ''needs-human'', ''rejected'', ''filed'']"

definition never_auto_classes :: "string list" where
  "never_auto_classes = [''k8s-imperative'', ''data-fix'', ''external-system'', ''manual'']"

definition default_auto_classes :: "string list" where
  "default_auto_classes = [''gitops-patch'', ''node-action'']"

definition default_min_confidence :: pyfloat where "default_min_confidence = FDec 8 (-1)"

definition default_lease_timeout :: int where "default_lease_timeout = 1800"

definition default_max_attempts :: int where "default_max_attempts = 3"

definition default_summary_cap :: pyfloat where "default_summary_cap = FDec 5 (-1)"

definition inflight :: "string list" where "inflight = [''claimed'', ''executing'']"

definition confirmed_source :: string where "confirmed_source = ''console-chat-confirm''"

definition published_investigation_id :: "int option \<Rightarrow> int option" where
  "published_investigation_id i = (case i of None \<Rightarrow> None | Some n \<Rightarrow> if n \<le> 0 then None else Some n)"

definition normalize_fields :: "string \<Rightarrow> string \<Rightarrow> string \<times> string" where
  "normalize_fields cls risk =
     (if cls \<in> set remediation_classes then cls else ''manual'', if risk \<in> set remediation_risks then risk else ''high'')"

record queue_policy =
  qp_classes :: "string list"
  qp_floor :: pyfloat
  qp_lease :: int
  qp_attempts :: int
  qp_summary_cap :: pyfloat

text \<open>\<open>except (TypeError, ValueError)\<close>: an overflow passes through.\<close>

definition parse_error :: "pyexn \<Rightarrow> bool" where
  "parse_error e = (exn_class e = ''TypeError'' \<or> exn_class e = ''ValueError'')"

definition bounded_float :: "pyval \<Rightarrow> pyfloat \<Rightarrow> pyfloat \<Rightarrow> pyfloat \<Rightarrow> pyfloat res" where
  "bounded_float raw dflt lo hi =
     (if raw = PNone \<or> raw = PStr [] then Inr dflt
      else (case py_float raw of
          Inl e \<Rightarrow> if parse_error e then Inr dflt else Inl e
        | Inr v \<Rightarrow> Inr (if flt v lo \<or> flt hi v then dflt else v)))"

definition positive_int :: "pyval \<Rightarrow> int \<Rightarrow> int res" where
  "positive_int raw dflt =
     (if raw = PNone \<or> raw = PStr [] then Inr dflt
      else (case py_int raw of
          Inl e \<Rightarrow> if parse_error e then Inr dflt else Inl e
        | Inr v \<Rightarrow> Inr (if v < 1 then dflt else v)))"

definition class_names :: "pyval \<Rightarrow> string list option" where
  "class_names raw = (case raw of
     PStr s \<Rightarrow> Some (filter (\<lambda>t. t \<noteq> []) (split_pred (\<lambda>c. c = CHR '','' \<or> py_space c) (str_strip s)))
   | PList xs \<Rightarrow> Some (filter (\<lambda>t. t \<noteq> []) (map (\<lambda>v. str_strip (py_str v)) xs))
   | _ \<Rightarrow> None)"

text \<open>An explicit list, the empty one included, is honoured, without unknown, park-only and repeated names.\<close>

definition configured_auto_classes :: "pyval \<Rightarrow> string list" where
  "configured_auto_classes raw = (case class_names raw of
     None \<Rightarrow> default_auto_classes
   | Some names \<Rightarrow> foldl (\<lambda>out n. if n \<notin> set remediation_classes \<or> n \<in> set never_auto_classes \<or> n \<in> set out then out else out @ [n]) [] names)"

definition resolve_auto_policy :: "pyval \<Rightarrow> queue_policy res" where
  "resolve_auto_policy raw =
     (let rcfg = dict_or_empty raw; auto = dict_or_empty (pget rcfg ''auto'')
      in bind_res (bounded_float (pget auto ''min_confidence'') default_min_confidence f0 f1) (\<lambda>floor.
         bind_res (positive_int (pget rcfg ''lease_timeout_s'') default_lease_timeout) (\<lambda>lease.
         bind_res (positive_int (pget rcfg ''max_attempts'') default_max_attempts) (\<lambda>attempts.
         bind_res (bounded_float (pget rcfg ''summary_confidence_cap'') default_summary_cap f0 f1) (\<lambda>cap.
         Inr \<lparr>qp_classes = configured_auto_classes (pget auto ''classes''), qp_floor = floor, qp_lease = lease, qp_attempts = attempts,
              qp_summary_cap = cap\<rparr>)))))"

definition default_policy :: queue_policy where
  "default_policy = \<lparr>qp_classes = default_auto_classes, qp_floor = default_min_confidence, qp_lease = default_lease_timeout,
     qp_attempts = default_max_attempts, qp_summary_cap = default_summary_cap\<rparr>"

text \<open>\<open>a >= b\<close> on floats.\<close>

definition at_least_float :: "pyfloat \<Rightarrow> pyfloat \<Rightarrow> bool" where
  "at_least_float a b = (a \<noteq> FNaN \<and> b \<noteq> FNaN \<and> \<not> flt a b)"

definition is_auto_eligible :: "queue_policy \<Rightarrow> string \<Rightarrow> string \<Rightarrow> pyfloat option \<Rightarrow> bool" where
  "is_auto_eligible p cls risk confidence =
     (cls \<in> set (qp_classes p) \<and> risk = ''low'' \<and> (case confidence of None \<Rightarrow> False | Some c \<Rightarrow> at_least_float c (qp_floor p)))"

definition node_incident_is_auto_resolvable :: "string \<Rightarrow> bool" where
  "node_incident_is_auto_resolvable status = (status \<in> {''queued'', ''needs-human'', ''filed''})"

section \<open>The table\<close>

record rem_row =
  rr_id :: int
  rr_investigation :: "int option"
  rr_host :: string
  rr_class :: string
  rr_risk :: string
  rr_confidence :: "pyfloat option"
  rr_status :: string
  rr_priority :: int
  rr_attempts :: int
  rr_payload :: pydict
  rr_result :: "pydict option"
  rr_pr :: "string option"
  rr_job :: "string option"
  rr_error :: "string option"
  rr_created :: int
  rr_claimed :: "int option"
  rr_completed :: "int option"

text \<open>The faults ahead: whether the next transaction, the one behind it, and so on, fail. None when they have run out.\<close>

record kb_state =
  kb_rows :: "rem_row list"
  kb_next :: int
  kb_policy :: queue_policy
  kb_faults :: "bool list"

definition db_error :: pyexn where "db_error = PyExn ''OperationalError'' ''database unavailable''"

definition session :: "(kb_state, 'a) op \<Rightarrow> (kb_state, 'a) op" where
  "session m s = (case kb_faults s of
     [] \<Rightarrow> m s
   | fault # later \<Rightarrow> if fault then (Inl db_error, s\<lparr>kb_faults := later\<rparr>) else m (s\<lparr>kb_faults := later\<rparr>))"

definition find_row :: "int \<Rightarrow> kb_state \<Rightarrow> rem_row option" where
  "find_row i s = find (\<lambda>r. rr_id r = i) (kb_rows s)"

definition alter_row :: "int \<Rightarrow> (rem_row \<Rightarrow> rem_row) \<Rightarrow> kb_state \<Rightarrow> kb_state" where
  "alter_row i f s = s\<lparr>kb_rows := map (\<lambda>r. if rr_id r = i then f r else r) (kb_rows s)\<rparr>"

definition add_row :: "rem_row \<Rightarrow> kb_state \<Rightarrow> kb_state" where
  "add_row r s = s\<lparr>kb_rows := kb_rows s @ [r\<lparr>rr_id := kb_next s\<rparr>], kb_next := kb_next s + 1\<rparr>"

definition open_row :: "rem_row \<Rightarrow> bool" where
  "open_row r = (rr_status r \<notin> {''resolved'', ''rejected''})"

text \<open>\<open>payload->>'dedupe_key'\<close>.\<close>

definition row_key :: "rem_row \<Rightarrow> string option" where
  "row_key r = (case pget (rr_payload r) ''dedupe_key'' of PNone \<Rightarrow> None | PStr s \<Rightarrow> Some s | v \<Rightarrow> Some (json_dumps json_default v))"

definition merge_result :: "pydict \<Rightarrow> rem_row \<Rightarrow> rem_row" where
  "merge_result patch r = r\<lparr>rr_result := Some (dupdate (case rr_result r of None \<Rightarrow> [] | Some d \<Rightarrow> d) patch)\<rparr>"

definition is_confirmed :: "rem_row \<Rightarrow> bool" where
  "is_confirmed r = (pget (rr_payload r) ''source'' = PStr confirmed_source)"

section \<open>Enqueueing\<close>

definition gated_status :: "kb_state \<Rightarrow> string \<Rightarrow> string \<Rightarrow> pyfloat option \<Rightarrow> string" where
  "gated_status s cls risk confidence = (if is_auto_eligible (kb_policy s) cls risk confidence then ''queued'' else ''needs-human'')"

definition present_text :: "string option \<Rightarrow> string option" where
  "present_text t = (case t of None \<Rightarrow> None | Some u \<Rightarrow> if str_strip u = [] then None else Some (str_strip u))"

definition queue_remediation :: "string \<Rightarrow> pydict \<Rightarrow> int option \<Rightarrow> string \<Rightarrow> string \<Rightarrow> pyfloat option \<Rightarrow> int \<Rightarrow> string option \<Rightarrow> string option \<Rightarrow> int \<Rightarrow>
    (kb_state, int option) op" where
  "queue_remediation cls0 payload inv_id host risk0 confidence priority dedupe_key pr_url now = session (\<lambda>s.
     let (cls, risk) = normalize_fields cls0 risk0; pr = present_text pr_url;
         status = (if pr \<noteq> None then ''pr-open'' else gated_status s cls risk confidence);
         taken = (case dedupe_key of None \<Rightarrow> False | Some k \<Rightarrow> k \<noteq> [] \<and> (\<exists>r \<in> set (kb_rows s). open_row r \<and> row_key r = Some k))
     in if taken then (Inr None, s)
        else (Inr (Some (kb_next s)), add_row \<lparr>rr_id = 0, rr_investigation = published_investigation_id inv_id, rr_host = host, rr_class = cls,
           rr_risk = risk, rr_confidence = confidence, rr_status = status, rr_priority = priority, rr_attempts = 0, rr_payload = payload,
           rr_result = None, rr_pr = pr, rr_job = None, rr_error = None, rr_created = now, rr_claimed = None, rr_completed = None\<rparr> s))"

definition queue_confirmed_host_command :: "pydict \<Rightarrow> string \<Rightarrow> string \<Rightarrow> int \<Rightarrow> (kb_state, int) op" where
  "queue_confirmed_host_command payload job host now s =
     (if pget payload ''source'' \<noteq> PStr confirmed_source
        then (value_error (''a confirmed host command must carry source '' @ repr_str confirmed_source), s)
      else session (\<lambda>s. (Inr (kb_next s), add_row \<lparr>rr_id = 0, rr_investigation = None, rr_host = (if host = [] then ''default'' else host),
           rr_class = ''node-action'', rr_risk = ''high'', rr_confidence = None, rr_status = ''claimed'', rr_priority = 1, rr_attempts = 0,
           rr_payload = payload, rr_result = None, rr_pr = None, rr_job = Some job, rr_error = None, rr_created = now, rr_claimed = Some now,
           rr_completed = None\<rparr> s)) s)"

definition payload_carries_key :: "pydict \<Rightarrow> string \<Rightarrow> bool" where
  "payload_carries_key payload key =
     (key \<noteq> [] \<and> (pget payload ''dedupe_key'' = PStr key \<or> (case pget payload ''dedupe_aliases'' of PList xs \<Rightarrow> PStr key \<in> set xs | _ \<Rightarrow> False)))"

text \<open>The open row that carries a key: as its own, or, of the hundred newest, as an alias.\<close>

definition find_open_by_key :: "string \<Rightarrow> kb_state \<Rightarrow> rem_row option" where
  "find_open_by_key key s =
     (if key = [] then None
      else (case find (\<lambda>r. open_row r \<and> row_key r = Some key) (kb_rows s) of
          Some r \<Rightarrow> Some r
        | None \<Rightarrow> find (\<lambda>r. payload_carries_key (rr_payload r) key) (take 100 (sort_desc rr_created (filter open_row (kb_rows s))))))"

text \<open>A bounded list in the payload without repetition: folded keys and absorbed symptoms.\<close>

definition payload_list :: "string \<Rightarrow> pydict \<Rightarrow> pyval list" where
  "payload_list k payload = (case pget payload k of PList xs \<Rightarrow> xs | _ \<Rightarrow> [])"

definition record_alias :: "int \<Rightarrow> string \<Rightarrow> (kb_state, bool) op" where
  "record_alias i dedupe_key s =
     (let key = str_strip dedupe_key in
      if key = [] then (Inr False, s)
      else session (\<lambda>s. case find_row i s of None \<Rightarrow> (Inr False, s) | Some r \<Rightarrow>
        (let aliases = payload_list ''dedupe_aliases'' (rr_payload r) in
         if PStr key = pget (rr_payload r) ''dedupe_key'' \<or> PStr key \<in> set aliases \<or> length aliases \<ge> 25 then (Inr False, s)
         else (Inr True, alter_row i (\<lambda>r. r\<lparr>rr_payload := dset ''dedupe_aliases'' (PList (aliases @ [PStr key])) (rr_payload r)\<rparr>) s))) s)"

definition record_absorbed :: "int \<Rightarrow> string \<Rightarrow> (kb_state, bool) op" where
  "record_absorbed i summary s =
     (let txt = take 200 (str_strip summary) in
      if txt = [] then (Inr False, s)
      else session (\<lambda>s. case find_row i s of None \<Rightarrow> (Inr False, s) | Some r \<Rightarrow>
        (let absorbed = payload_list ''absorbed'' (rr_payload r) in
         if PStr txt \<in> set absorbed \<or> length absorbed \<ge> 25 then (Inr False, s)
         else (Inr True, alter_row i (\<lambda>r. r\<lparr>rr_payload := dset ''absorbed'' (PList (absorbed @ [PStr txt])) (rr_payload r)\<rparr>) s))) s)"

section \<open>Leases and outcomes\<close>

text \<open>Priority first, then age; rows of one priority and age in the order of their ids.\<close>

definition first_queued :: "int list \<Rightarrow> kb_state \<Rightarrow> rem_row option" where
  "first_queued skip s =
     (case sort_key rr_priority (sort_key rr_created (filter (\<lambda>r. rr_status r = ''queued'' \<and> rr_id r \<notin> set skip) (kb_rows s))) of
        [] \<Rightarrow> None
      | r # rs \<Rightarrow> Some r)"

definition claim_row :: "string \<Rightarrow> int \<Rightarrow> rem_row \<Rightarrow> rem_row" where
  "claim_row job now r = r\<lparr>rr_status := ''claimed'', rr_job := Some job, rr_claimed := Some now\<rparr>"

text \<open>The work order is the row as claimed.\<close>

definition claim_next :: "string \<Rightarrow> int list \<Rightarrow> int \<Rightarrow> (kb_state, rem_row option) op" where
  "claim_next job skip now = session (\<lambda>s. case first_queued skip s of
     None \<Rightarrow> (Inr None, s)
   | Some r \<Rightarrow> (Inr (Some (claim_row job now r)), alter_row (rr_id r) (claim_row job now) s))"

definition merge_payload :: "int \<Rightarrow> pydict \<Rightarrow> string option \<Rightarrow> (kb_state, bool) op" where
  "merge_payload i patch pr_url s =
     (if patch = [] \<and> pr_url = None then (Inr False, s)
      else session (\<lambda>s. if find_row i s = None then (Inr False, s)
        else (Inr True, alter_row i (\<lambda>r. r\<lparr>rr_payload := dupdate (rr_payload r) patch,
          rr_pr := (case pr_url of None \<Rightarrow> rr_pr r | Some u \<Rightarrow> Some u)\<rparr>) s)) s)"

definition merge_remediation_result :: "int \<Rightarrow> pydict \<Rightarrow> (kb_state, bool) op" where
  "merge_remediation_result i patch s =
     (if patch = [] then (Inr False, s)
      else session (\<lambda>s. if find_row i s = None then (Inr False, s) else (Inr True, alter_row i (merge_result patch) s)) s)"

definition set_status :: "string \<Rightarrow> string option \<Rightarrow> pydict option \<Rightarrow> string option \<Rightarrow> int \<Rightarrow> rem_row \<Rightarrow> rem_row" where
  "set_status status pr_url res err now r =
     (let r1 = r\<lparr>rr_status := status, rr_pr := (case pr_url of None \<Rightarrow> rr_pr r | Some u \<Rightarrow> Some u)\<rparr>;
          r2 = (case res of None \<Rightarrow> r1 | Some d \<Rightarrow> merge_result d r1);
          r3 = (case err of None \<Rightarrow> r2 | Some e \<Rightarrow> r2\<lparr>rr_error := Some e\<rparr>)
      in if status \<in> {''resolved'', ''rejected'', ''needs-human''} then r3\<lparr>rr_completed := Some now\<rparr> else r3)"

text \<open>The check constraint of the column refuses an unknown status.\<close>

definition update_status :: "int \<Rightarrow> string \<Rightarrow> string option \<Rightarrow> pydict option \<Rightarrow> string option \<Rightarrow> int \<Rightarrow> (kb_state, bool) op" where
  "update_status i status pr_url res err now = session (\<lambda>s.
     if find_row i s = None then (Inr False, s)
     else if status \<notin> set remediation_statuses then (Inl (PyExn ''IntegrityError'' ''valid_remediation_status''), s)
     else (Inr True, alter_row i (set_status status pr_url res err now) s))"

definition released :: "pydict option \<Rightarrow> string option \<Rightarrow> rem_row \<Rightarrow> rem_row" where
  "released res err r =
     (let r1 = r\<lparr>rr_status := ''queued'', rr_job := None, rr_claimed := None\<rparr>;
          r2 = (case res of None \<Rightarrow> r1 | Some d \<Rightarrow> merge_result d r1)
      in (case err of None \<Rightarrow> r2 | Some e \<Rightarrow> r2\<lparr>rr_error := Some e\<rparr>))"

definition release_claim :: "int \<Rightarrow> pydict option \<Rightarrow> string option \<Rightarrow> (kb_state, bool) op" where
  "release_claim i res err = session (\<lambda>s. if find_row i s = None then (Inr False, s) else (Inr True, alter_row i (released res err) s))"

definition failed_row :: "int \<Rightarrow> string \<Rightarrow> pydict option \<Rightarrow> int \<Rightarrow> rem_row \<Rightarrow> rem_row" where
  "failed_row cap err res now r0 =
     (let r1 = r0\<lparr>rr_attempts := rr_attempts r0 + 1, rr_error := Some err\<rparr>;
          r = (case res of None \<Rightarrow> r1 | Some d \<Rightarrow> merge_result d r1)
      in if is_confirmed r then r\<lparr>rr_status := ''failed'', rr_completed := Some now\<rparr>
         else if rr_attempts r \<ge> cap then r\<lparr>rr_status := ''needs-human'', rr_completed := Some now\<rparr>
         else r\<lparr>rr_status := ''queued'', rr_job := None, rr_claimed := None\<rparr>)"

definition fail_remediation :: "int \<Rightarrow> string \<Rightarrow> pydict option \<Rightarrow> int \<Rightarrow> (kb_state, string) op" where
  "fail_remediation i err res now = session (\<lambda>s. case find_row i s of
     None \<Rightarrow> (Inr ''unknown'', s)
   | Some r \<Rightarrow> (Inr (rr_status (failed_row (qp_attempts (kb_policy s)) err res now r)),
               alter_row i (failed_row (qp_attempts (kb_policy s)) err res now) s))"

definition lease_expired :: "int \<Rightarrow> rem_row \<Rightarrow> bool" where
  "lease_expired cutoff r = (rr_status r \<in> set inflight \<and> (case rr_claimed r of None \<Rightarrow> False | Some t \<Rightarrow> t < cutoff))"

text \<open>The reaper reads the stale leases in one transaction and fails each in one of its own.\<close>

definition stale_ids :: "int \<Rightarrow> (kb_state, int list) op" where
  "stale_ids cutoff = session (\<lambda>s. (Inr (map rr_id (filter (lease_expired cutoff) (kb_rows s))), s))"

definition lease_error :: string where "lease_error = ''lease expired (executor Job presumed dead)''"

definition requeue_stale :: "int option \<Rightarrow> int \<Rightarrow> (kb_state, nat) op" where
  "requeue_stale timeout now s =
     (let lease = (case timeout of None \<Rightarrow> qp_lease (kb_policy s) | Some t \<Rightarrow> t)
      in st_bind (stale_ids (now - seconds lease)) (\<lambda>ids.
         st_bind (st_fold (\<lambda>i _. st_bind (fail_remediation i lease_error None now) (\<lambda>_. st_return ())) ids ()) (\<lambda>_. st_return (length ids))) s)"

definition count_by_status :: "string \<Rightarrow> kb_state \<Rightarrow> nat" where
  "count_by_status status s = length (filter (\<lambda>r. rr_status r = status) (kb_rows s))"

definition resolve_node_incidents :: "string list \<Rightarrow> int \<Rightarrow> (kb_state, int list) op" where
  "resolve_node_incidents hosts now s =
     (let keys = map (\<lambda>h. ''node-down-'' @ str_lower (str_strip h)) (filter (\<lambda>h. str_strip h \<noteq> []) hosts);
          hit = (\<lambda>r. open_row r \<and> (case row_key r of None \<Rightarrow> False | Some k \<Rightarrow> k \<in> set keys) \<and> node_incident_is_auto_resolvable (rr_status r));
          close = (\<lambda>r. merge_result [(''auto_resolved'', PStr ''node returned to Ready'')] (r\<lparr>rr_status := ''resolved'', rr_completed := Some now\<rparr>))
      in if keys = [] then (Inr [], s)
         else session (\<lambda>s. (Inr (map rr_id (filter hit (kb_rows s))), s\<lparr>kb_rows := map (\<lambda>r. if hit r then close r else r) (kb_rows s)\<rparr>)) s)"

section \<open>The operator\<close>

definition approve_conflict :: "rem_row \<Rightarrow> string option" where
  "approve_conflict r =
     (if rr_class r = ''manual'' then Some (''manual-class rows are human-only work - the executor has nothing to mechanize. Reclassify it (gitops-patch / '' @
        ''k8s-action / node-action) if the executor should attempt it, or do it by hand and Resolve.'')
      else (case rr_pr r of None \<Rightarrow> None | Some u \<Rightarrow> if u = [] then None else Some (''a PR is already open for this row ('' @ u @
        ''). Merge it and the reconciler resolves the row, or close it and the row is rejected; approving would have the executor open a second PR for the same fix.'')))"

definition reclassified :: "string option \<Rightarrow> string option \<Rightarrow> pyfloat option \<Rightarrow> string option \<Rightarrow> queue_policy \<Rightarrow> rem_row \<Rightarrow> rem_row" where
  "reclassified cls risk confidence repo p r =
     (let (nc, nr) = normalize_fields (case cls of None \<Rightarrow> rr_class r | Some c \<Rightarrow> c) (case risk of None \<Rightarrow> rr_risk r | Some k \<Rightarrow> k);
          conf = (case confidence of None \<Rightarrow> rr_confidence r | Some c \<Rightarrow> Some c);
          payload = (case repo of None \<Rightarrow> rr_payload r | Some t \<Rightarrow> dset ''repo'' (if str_strip t = [] then PNone else PStr (str_strip t)) (rr_payload r))
      in r\<lparr>rr_class := nc, rr_risk := nr, rr_confidence := conf, rr_payload := payload,
           rr_status := (if rr_status r \<in> {''queued'', ''needs-human'', ''failed''}
             then (if is_auto_eligible p nc nr conf then ''queued'' else ''needs-human'') else rr_status r)\<rparr>)"

definition reclassify :: "int \<Rightarrow> string option \<Rightarrow> string option \<Rightarrow> pyfloat option \<Rightarrow> string option \<Rightarrow> (kb_state, rem_row option) op" where
  "reclassify i cls risk confidence repo = session (\<lambda>s. case find_row i s of
     None \<Rightarrow> (Inr None, s)
   | Some r \<Rightarrow> (Inr (Some (reclassified cls risk confidence repo (kb_policy s) r)), alter_row i (reclassified cls risk confidence repo (kb_policy s)) s))"

text \<open>The console's routes behind their role check: the status of the answer, the row's rules, an outage as 500.\<close>

definition get_row :: "int \<Rightarrow> (kb_state, rem_row option) op" where
  "get_row i = session (\<lambda>s. (Inr (find_row i s), s))"

definition answered :: "(kb_state, int) op \<Rightarrow> (kb_state, int) op" where
  "answered m = st_try m (\<lambda>e. st_return 500)"

definition approve_route :: "int \<Rightarrow> int \<Rightarrow> (kb_state, int) op" where
  "approve_route i now = answered (st_bind (get_row i) (\<lambda>row. case row of
     None \<Rightarrow> st_return 404
   | Some r \<Rightarrow> if approve_conflict r \<noteq> None then st_return 409
       else st_bind (update_status i ''queued'' None None None now) (\<lambda>ok. if ok then st_bind (get_row i) (\<lambda>_. st_return 200) else st_return 404)))"

definition reject_route :: "int \<Rightarrow> string option \<Rightarrow> int \<Rightarrow> (kb_state, int) op" where
  "reject_route i note now = answered (st_bind (update_status i ''rejected'' None None note now)
     (\<lambda>ok. if ok then st_bind (get_row i) (\<lambda>_. st_return 200) else st_return 404))"

definition resolve_route :: "int \<Rightarrow> string option \<Rightarrow> int \<Rightarrow> (kb_state, int) op" where
  "resolve_route i note now =
     (let why = (case note of None \<Rightarrow> PNone | Some t \<Rightarrow> if take 2000 (str_strip t) = [] then PNone else PStr (take 2000 (str_strip t)))
      in answered (st_bind (update_status i ''resolved'' None (Some [(''resolved_by'', PStr ''operator''), (''resolution_note'', why)]) None now)
        (\<lambda>ok. if ok then st_bind (get_row i) (\<lambda>_. st_return 200) else st_return 404)))"

section \<open>What may run unattended\<close>

lemma foldl_classes:
  assumes "c \<in> set (foldl (\<lambda>out n. if n \<notin> set known \<or> n \<in> set parked \<or> n \<in> set out then out else out @ [n]) out names)"
  shows "c \<in> set out \<or> c \<in> set known \<and> c \<notin> set parked"
  using assms
proof (induction names arbitrary: out)
  case (Cons a names)
  show ?case
  proof (cases "a \<notin> set known \<or> a \<in> set parked \<or> a \<in> set out")
    case True
    with Cons.prems show ?thesis by (intro Cons.IH) (simp only: foldl_Cons if_True)
  next
    case False
    with Cons.prems have "c \<in> set (out @ [a]) \<or> c \<in> set known \<and> c \<notin> set parked"
      by (intro Cons.IH) (simp only: foldl_Cons if_False)
    with False show ?thesis by auto
  qed
qed simp

lemma configured_classes_safe: "c \<in> set (configured_auto_classes raw) \<Longrightarrow> c \<in> set remediation_classes \<and> c \<notin> set never_auto_classes"
proof (cases "class_names raw")
  case None
  assume "c \<in> set (configured_auto_classes raw)"
  with None have "c \<in> set default_auto_classes" by (simp add: configured_auto_classes_def)
  then show ?thesis by (auto simp: default_auto_classes_def remediation_classes_def never_auto_classes_def)
next
  case (Some names)
  assume "c \<in> set (configured_auto_classes raw)"
  with Some foldl_classes [of c remediation_classes never_auto_classes "[]" names] show ?thesis by (simp add: configured_auto_classes_def)
qed

lemma bounded_float_unit:
  assumes "bounded_float raw dflt f0 f1 = Inr v" "unit_float dflt"
  shows "v = FNaN \<or> unit_float v"
  using assms by (auto simp: bounded_float_def unit_float_def split: if_splits sum.splits)

lemma positive_int_pos: "positive_int raw dflt = Inr v \<Longrightarrow> 1 \<le> dflt \<Longrightarrow> 1 \<le> v"
  by (auto simp: positive_int_def split: if_splits sum.splits)

text \<open>
  C24: Whatever the configuration says, a remediation is eligible to run unattended only if it is of a known class that
  is not one of the classes for people, its risk is low, and it has a confidence no lower than the floor, which
  lies between 0 and 1; and leases and attempts are limited by positive numbers.
\<close>

theorem gate_needs_low_risk:
  assumes "resolve_auto_policy raw = Inr p" "is_auto_eligible p cls risk confidence"
  shows "cls \<in> set remediation_classes \<and> cls \<notin> set never_auto_classes \<and> risk = ''low'' \<and>
    (\<exists>c. confidence = Some c \<and> \<not> flt c (qp_floor p) \<and> unit_float (qp_floor p)) \<and> 1 \<le> qp_lease p \<and> 1 \<le> qp_attempts p"
proof -
  let ?rcfg = "dict_or_empty raw"
  let ?auto = "dict_or_empty (pget ?rcfg ''auto'')"
  have p: "bounded_float (pget ?auto ''min_confidence'') default_min_confidence f0 f1 = Inr (qp_floor p)"
    "positive_int (pget ?rcfg ''lease_timeout_s'') default_lease_timeout = Inr (qp_lease p)"
    "positive_int (pget ?rcfg ''max_attempts'') default_max_attempts = Inr (qp_attempts p)"
    "qp_classes p = configured_auto_classes (pget ?auto ''classes'')"
    using assms(1) by (auto simp: resolve_auto_policy_def Let_def bind_res_Inr_iff)
  have "unit_float default_min_confidence" by code_simp
  then have floor: "qp_floor p = FNaN \<or> unit_float (qp_floor p)" using bounded_float_unit [OF p(1)] by simp
  have "1 \<le> qp_lease p" "1 \<le> qp_attempts p"
    using positive_int_pos [OF p(2)] positive_int_pos [OF p(3)] by (simp_all add: default_lease_timeout_def default_max_attempts_def)
  with assms(2) floor configured_classes_safe [of cls] show ?thesis
    by (auto simp: is_auto_eligible_def p(4) at_least_float_def split: option.splits)
qed

theorem gate_needs_low_risk_witness:
  "\<exists>c. Some (FDec 9 (-1)) = Some c \<and> \<not> flt c (FDec 8 (-1)) \<and> unit_float (FDec 8 (-1))"
proof -
  have p: "resolve_auto_policy (PDict [(''auto'', PDict [(''classes'', PList [PStr ''gitops-patch'', PStr ''manual''])])]) =
      Inr (default_policy\<lparr>qp_classes := [''gitops-patch'']\<rparr>)" by code_simp
  have "is_auto_eligible (default_policy\<lparr>qp_classes := [''gitops-patch'']\<rparr>) ''gitops-patch'' ''low'' (Some (FDec 9 (-1)))" by code_simp
  from gate_needs_low_risk [OF p this] show ?thesis by (simp add: default_policy_def default_min_confidence_def)
qed

section \<open>Rows and their updates\<close>

definition ids_ok :: "kb_state \<Rightarrow> bool" where
  "ids_ok s = (distinct (map rr_id (kb_rows s)) \<and> (\<forall>r \<in> set (kb_rows s). rr_id r < kb_next s))"

lemma find_row_Some: "find_row i s = Some r \<Longrightarrow> r \<in> set (kb_rows s) \<and> rr_id r = i"
  by (auto simp: find_row_def find_Some_iff)

lemma update_row_fields [simp]:
  "kb_next (alter_row i f s) = kb_next s" "kb_policy (alter_row i f s) = kb_policy s" "kb_faults (alter_row i f s) = kb_faults s"
  by (simp_all add: alter_row_def)

lemma find_row_unique: "ids_ok s \<Longrightarrow> r \<in> set (kb_rows s) \<Longrightarrow> rr_id r = i \<Longrightarrow> find_row i s = Some r"
proof -
  assume "ids_ok s" "r \<in> set (kb_rows s)" "rr_id r = i"
  moreover have "find (\<lambda>q. rr_id q = rr_id r) xs = Some r" if "distinct (map rr_id xs)" "r \<in> set xs" for xs
    using that by (induction xs) force+
  ultimately show ?thesis by (auto simp: find_row_def ids_ok_def)
qed

lemma find_map: "(\<And>r. rr_id (g r) = rr_id r) \<Longrightarrow> find (\<lambda>r. rr_id r = i) (map g xs) = map_option g (find (\<lambda>r. rr_id r = i) xs)"
  by (induction xs) auto

lemma find_row_update: "(\<And>r. rr_id (f r) = rr_id r) \<Longrightarrow> find_row j (alter_row i f s) = (if j = i then map_option f (find_row j s) else find_row j s)"
proof -
  assume f: "\<And>r. rr_id (f r) = rr_id r"
  have "find (\<lambda>r. rr_id r = j) (map (\<lambda>r. if rr_id r = i then f r else r) xs) =
      (if j = i then map_option f (find (\<lambda>r. rr_id r = j) xs) else find (\<lambda>r. rr_id r = j) xs)" for xs
    by (induction xs) (auto simp: f)
  then show ?thesis by (simp add: find_row_def alter_row_def)
qed

lemma row_ops_id [simp]:
  "rr_id (merge_result d r) = rr_id r" "rr_id (set_status st u res err now r) = rr_id r" "rr_id (released res err r) = rr_id r"
  "rr_id (failed_row cap e res now r) = rr_id r" "rr_id (reclassified c k f t p r) = rr_id r"
  by (simp_all add: merge_result_def set_status_def released_def failed_row_def reclassified_def Let_def split: option.splits prod.splits)

text \<open>The fields the operations on a row leave alone.\<close>

lemma merge_result_fields [simp]:
  "rr_status (merge_result d r) = rr_status r" "rr_attempts (merge_result d r) = rr_attempts r" "rr_job (merge_result d r) = rr_job r"
  "rr_payload (merge_result d r) = rr_payload r" "rr_class (merge_result d r) = rr_class r" "rr_risk (merge_result d r) = rr_risk r"
  "rr_confidence (merge_result d r) = rr_confidence r" "rr_claimed (merge_result d r) = rr_claimed r" "rr_pr (merge_result d r) = rr_pr r"
  by (simp_all add: merge_result_def)

lemma set_status_fields [simp]:
  "rr_status (set_status st u res err now r) = st" "rr_attempts (set_status st u res err now r) = rr_attempts r"
  "rr_job (set_status st u res err now r) = rr_job r" "rr_payload (set_status st u res err now r) = rr_payload r"
  "rr_class (set_status st u res err now r) = rr_class r" "rr_risk (set_status st u res err now r) = rr_risk r"
  "rr_confidence (set_status st u res err now r) = rr_confidence r"
  by (simp_all add: set_status_def Let_def split: option.splits)

lemma released_fields [simp]:
  "rr_status (released res err r) = ''queued''" "rr_attempts (released res err r) = rr_attempts r" "rr_job (released res err r) = None"
  "rr_payload (released res err r) = rr_payload r" "rr_class (released res err r) = rr_class r" "rr_risk (released res err r) = rr_risk r"
  "rr_confidence (released res err r) = rr_confidence r"
  by (simp_all add: released_def Let_def split: option.splits)

lemma failed_row_fields [simp]:
  "rr_attempts (failed_row cap e res now r) = rr_attempts r + 1" "rr_payload (failed_row cap e res now r) = rr_payload r"
  "rr_class (failed_row cap e res now r) = rr_class r" "rr_risk (failed_row cap e res now r) = rr_risk r"
  "rr_confidence (failed_row cap e res now r) = rr_confidence r"
  "rr_status (failed_row cap e res now r) =
     (if is_confirmed r then ''failed'' else if rr_attempts r + 1 \<ge> cap then ''needs-human'' else ''queued'')"
  "rr_job (failed_row cap e res now r) = (if is_confirmed r \<or> rr_attempts r + 1 \<ge> cap then rr_job r else None)"
  by (simp_all add: failed_row_def is_confirmed_def Let_def split: option.splits)

lemma session_cases:
  obtains later where "session m s = (Inl db_error, s\<lparr>kb_faults := later\<rparr>)" | later where "session m s = m (s\<lparr>kb_faults := later\<rparr>)"
proof (cases "kb_faults s")
  case Nil
  then have "s\<lparr>kb_faults := []\<rparr> = s" by (cases s) simp
  then have "session m s = m (s\<lparr>kb_faults := []\<rparr>)" using Nil by (simp only: session_def list.case)
  then show ?thesis by (rule that(2))
next
  case (Cons fault later)
  then show ?thesis using that(1) [of later] that(2) [of later] by (cases fault) (simp_all add: session_def)
qed

section \<open>What the queue hands out\<close>

definition gated_row :: "queue_policy \<Rightarrow> rem_row \<Rightarrow> bool" where
  "gated_row p r = is_auto_eligible p (rr_class r) (rr_risk r) (rr_confidence r)"

lemma row_ops_gated [simp]:
  "gated_row p (merge_result d r) = gated_row p r" "gated_row p (set_status st u res err now r) = gated_row p r"
  "gated_row p (released res err r) = gated_row p r" "gated_row p (failed_row cap e res now r) = gated_row p r"
  "is_confirmed (merge_result d r) = is_confirmed r" "is_confirmed (set_status st u res err now r) = is_confirmed r"
  "is_confirmed (released res err r) = is_confirmed r" "is_confirmed (failed_row cap e res now r) = is_confirmed r"
  by (simp_all add: gated_row_def is_confirmed_def)

text \<open>
  A history of the queue: its state, the rows the drainer was given, the leases known to the reaper or to a confirmed
  command, and the rows that a person asked to approve or to reclassify. Every operation is one step, an outage
  included, and steps of all components interleave: the drainer gives back or fails only rows it was given, the
  reaper fails what it read as stale, whatever happened to the row in between; jobs, reconcilers, trackers and
  people report any status but those of the queue.
\<close>

type_synonym queue_history = "kb_state \<times> int list \<times> int list \<times> int list"

inductive queue_run :: "queue_policy \<Rightarrow> queue_history \<Rightarrow> bool" for p :: queue_policy where
  start: "queue_run p (\<lparr>kb_rows = [], kb_next = 1, kb_policy = p, kb_faults = faults\<rparr>, [], [], [])"
| enqueue: "queue_run p (s, h, l, t) \<Longrightarrow> queue_run p (snd (queue_remediation cls payload inv_id host risk conf prio key pr now s), h, l, t)"
| confirmed: "queue_run p (s, h, l, t) \<Longrightarrow> queue_confirmed_host_command payload job host now s = (r, s') \<Longrightarrow>
    queue_run p (s', h, (case r of Inl e \<Rightarrow> l | Inr i \<Rightarrow> i # l), t)"
| claim: "queue_run p (s, h, l, t) \<Longrightarrow> claim_next job skip now s = (r, s') \<Longrightarrow>
    queue_run p (s', (case r of Inr (Some w) \<Rightarrow> rr_id w # h | _ \<Rightarrow> h), l, t)"
| give_back: "queue_run p (s, h, l, t) \<Longrightarrow> i \<in> set h \<Longrightarrow> queue_run p (snd (release_claim i res err s), h, l, t)"
| failing: "queue_run p (s, h, l, t) \<Longrightarrow> i \<in> set h \<union> set l \<Longrightarrow> queue_run p (snd (fail_remediation i e res now s), h, l, t)"
| keep: "queue_run p (s, h, l, t) \<Longrightarrow> i \<in> set h \<union> set l \<Longrightarrow> queue_run p (snd (update_status i ''claimed'' u res err now s), h, l, t)"
| report: "queue_run p (s, h, l, t) \<Longrightarrow> status \<notin> {''queued'', ''claimed'', ''executing''} \<Longrightarrow>
    queue_run p (snd (update_status i status u res err now s), h, l, t)"
| reap: "queue_run p (s, h, l, t) \<Longrightarrow> stale_ids cutoff s = (r, s') \<Longrightarrow> queue_run p (s', h, (case r of Inl e \<Rightarrow> l | Inr ids \<Rightarrow> ids @ l), t)"
| patch: "queue_run p (s, h, l, t) \<Longrightarrow> \<not> has_key d ''source'' \<Longrightarrow> queue_run p (snd (merge_payload i d u s), h, l, t)"
| note_result: "queue_run p (s, h, l, t) \<Longrightarrow> queue_run p (snd (merge_remediation_result i d s), h, l, t)"
| fold_key: "queue_run p (s, h, l, t) \<Longrightarrow> queue_run p (snd (record_alias i k s), h, l, t)"
| absorb: "queue_run p (s, h, l, t) \<Longrightarrow> queue_run p (snd (record_absorbed i sm s), h, l, t)"
| recover: "queue_run p (s, h, l, t) \<Longrightarrow> queue_run p (snd (resolve_node_incidents hosts now s), h, l, t)"
| approve: "queue_run p (s, h, l, t) \<Longrightarrow> queue_run p (snd (approve_route i now s), h, l, i # t)"
| regate: "queue_run p (s, h, l, t) \<Longrightarrow> queue_run p (snd (reclassify i c k f repo s), h, l, i # t)"

definition row_ok :: "queue_policy \<Rightarrow> int list \<Rightarrow> int list \<Rightarrow> int list \<Rightarrow> rem_row \<Rightarrow> bool" where
  "row_ok p h l t r = (rr_id r \<in> set t \<or> gated_row p r \<or>
     rr_status r \<noteq> ''queued'' \<and> rr_id r \<notin> set h \<and> (rr_status r \<in> set inflight \<or> rr_id r \<in> set l \<longrightarrow> is_confirmed r))"

fun run_ok :: "queue_policy \<Rightarrow> queue_history \<Rightarrow> bool" where
  "run_ok p (s, h, l, t) = (kb_policy s = p \<and> ids_ok s \<and> (\<forall>i \<in> set h \<union> set l. i < kb_next s) \<and> (\<forall>r \<in> set (kb_rows s). row_ok p h l t r))"

lemma run_okI:
  assumes "run_ok p (s, h, l, t)" "kb_rows s' = map g (kb_rows s)" "kb_next s' = kb_next s" "kb_policy s' = kb_policy s"
    "\<And>r. rr_id (g r) = rr_id r" "\<And>i. i \<in> set h' \<union> set l' \<Longrightarrow> i < kb_next s"
    "\<And>r. r \<in> set (kb_rows s) \<Longrightarrow> row_ok p h l t r \<Longrightarrow> row_ok p h' l' t' (g r)"
  shows "run_ok p (s', h', l', t')"
proof -
  have "map rr_id (kb_rows s') = map rr_id (kb_rows s)" using assms(2,5) by simp
  with assms show ?thesis by (auto simp: ids_ok_def simp del: map_map)
qed

lemma run_ok_faults: "run_ok p (s, h, l, t) \<Longrightarrow> run_ok p (s\<lparr>kb_faults := later\<rparr>, h, l, t)"
  by (simp add: ids_ok_def)

lemma run_ok_update:
  assumes "run_ok p (s, h, l, t)" "\<And>r. rr_id (f r) = rr_id r" "\<And>r. rr_id r = i \<Longrightarrow> row_ok p h l t r \<Longrightarrow> row_ok p h l t (f r)"
  shows "run_ok p (alter_row i f s, h, l, t)"
  by (rule run_okI [OF assms(1), where g = "\<lambda>r. if rr_id r = i then f r else r"]) (use assms in \<open>auto simp: alter_row_def\<close>)

lemma run_ok_add:
  assumes "run_ok p (s, h, l, t)" "\<And>i. row_ok p h l t (r\<lparr>rr_id := kb_next s\<rparr>)"
  shows "run_ok p (add_row r s, h, l, t)"
proof -
  have "i < kb_next s + 1" if "i \<in> set h \<union> set l" for i
  proof -
    have "i < kb_next s" using assms(1) that by auto
    then show ?thesis by simp
  qed
  moreover have "\<forall>q \<in> set (kb_rows s). rr_id q < kb_next s" using assms(1) by (simp add: ids_ok_def)
  then have "ids_ok (add_row r s)" using assms(1) by (auto simp: ids_ok_def add_row_def)
  ultimately show ?thesis using assms by (simp add: add_row_def)
qed

text \<open>One transaction keeps what its body keeps.\<close>

lemma run_ok_session:
  assumes "run_ok p (s, h, l, t)" "\<And>s. run_ok p (s, h, l, t) \<Longrightarrow> run_ok p (snd (m s), h, l, t)"
  shows "run_ok p (snd (session m s), h, l, t)"
  by (rule session_cases [of m s]) (simp_all add: assms run_ok_faults [OF assms(1)] del: run_ok.simps)

lemma fresh_row: "run_ok p (s, h, l, t) \<Longrightarrow> kb_next s \<notin> set h \<and> kb_next s \<notin> set l"
  by auto

lemma run_ok_touch: "run_ok p (s, h, l, t) \<Longrightarrow> run_ok p (s, h, l, i # t)"
  by (auto simp: row_ok_def)

lemma run_ok_enqueue: "run_ok p (s, h, l, t) \<Longrightarrow> run_ok p (snd (queue_remediation cls payload inv_id host risk conf prio key pr now s), h, l, t)"
  unfolding queue_remediation_def
proof (erule run_ok_session)
  fix s assume s: "run_ok p (s, h, l, t)"
  then show "run_ok p (snd (let (cls, risk) = normalize_fields cls risk; pr = present_text pr;
         status = (if pr \<noteq> None then ''pr-open'' else gated_status s cls risk conf);
         taken = (case key of None \<Rightarrow> False | Some k \<Rightarrow> k \<noteq> [] \<and> (\<exists>r \<in> set (kb_rows s). open_row r \<and> row_key r = Some k))
     in if taken then (Inr None, s)
        else (Inr (Some (kb_next s)), add_row \<lparr>rr_id = 0, rr_investigation = published_investigation_id inv_id, rr_host = host, rr_class = cls,
           rr_risk = risk, rr_confidence = conf, rr_status = status, rr_priority = prio, rr_attempts = 0, rr_payload = payload,
           rr_result = None, rr_pr = pr, rr_job = None, rr_error = None, rr_created = now, rr_claimed = None, rr_completed = None\<rparr> s)), h, l, t)"
    using fresh_row [OF s] s [unfolded run_ok.simps, THEN conjunct1]
    by (auto simp: Let_def gated_status_def inflight_def row_ok_def gated_row_def simp del: run_ok.simps split: prod.splits intro!: run_ok_add)
qed

lemma run_ok_confirmed:
  assumes "run_ok p (s, h, l, t)" "queue_confirmed_host_command payload job host now s = (r, s')"
  shows "run_ok p (s', h, (case r of Inl e \<Rightarrow> l | Inr i \<Rightarrow> i # l), t)"
proof (cases "pget payload ''source'' = PStr confirmed_source")
  case True
  let ?row = "\<lparr>rr_id = 0, rr_investigation = None, rr_host = (if host = [] then ''default'' else host), rr_class = ''node-action'', rr_risk = ''high'',
    rr_confidence = None, rr_status = ''claimed'', rr_priority = 1, rr_attempts = 0, rr_payload = payload, rr_result = None, rr_pr = None,
    rr_job = Some job, rr_error = None, rr_created = now, rr_claimed = Some now, rr_completed = None\<rparr>"
  have op: "session (\<lambda>s. (Inr (kb_next s), add_row ?row s)) s = (r, s')"
    using assms(2) True by (simp add: queue_confirmed_host_command_def)
  show ?thesis
  proof (rule session_cases [of "\<lambda>s. (Inr (kb_next s), add_row ?row s)" s])
    fix later assume "session (\<lambda>s. (Inr (kb_next s), add_row ?row s)) s = (Inl db_error, s\<lparr>kb_faults := later\<rparr>)"
    with op assms(1) show ?thesis by (auto simp: ids_ok_def)
  next
    fix later assume "session (\<lambda>s. (Inr (kb_next s), add_row ?row s)) s = (Inr (kb_next (s\<lparr>kb_faults := later\<rparr>)), add_row ?row (s\<lparr>kb_faults := later\<rparr>))"
    with op have r: "r = Inr (kb_next s)" and s': "s' = add_row ?row (s\<lparr>kb_faults := later\<rparr>)" by simp_all
    have more: "run_ok p (add_row ?row (s\<lparr>kb_faults := later\<rparr>), h, l, t)"
      using fresh_row [OF assms(1)] True by (intro run_ok_add run_ok_faults assms) (simp_all add: row_ok_def is_confirmed_def)
    have "row_ok p h (kb_next s # l) t q" if "q \<in> set (kb_rows (add_row ?row (s\<lparr>kb_faults := later\<rparr>)))" for q
    proof (cases "rr_id q = kb_next s")
      case True
      then have "q = ?row\<lparr>rr_id := kb_next s\<rparr>" using that assms(1) by (auto simp: add_row_def ids_ok_def)
      then show ?thesis using fresh_row [OF assms(1)] \<open>pget payload ''source'' = PStr confirmed_source\<close> by (simp add: row_ok_def is_confirmed_def)
    next
      case False
      then show ?thesis using more that by (simp add: row_ok_def)
    qed
    then show ?thesis using more r s' by (simp add: add_row_def)
  qed
next
  case False
  with assms show ?thesis by (auto simp: queue_confirmed_host_command_def value_error_def)
qed

lemma first_queued_Some:
  assumes "first_queued skip s = Some r"
  shows "r \<in> set (kb_rows s) \<and> rr_status r = ''queued'' \<and> rr_id r \<notin> set skip"
proof -
  let ?xs = "sort_key rr_priority (sort_key rr_created (filter (\<lambda>r. rr_status r = ''queued'' \<and> rr_id r \<notin> set skip) (kb_rows s)))"
  obtain rs where "?xs = r # rs" using assms by (auto simp: first_queued_def split: list.splits)
  then have "r \<in> set ?xs" by (metis list.set_intros(1))
  then show ?thesis by simp
qed

lemma claim_row_fields [simp]:
  "rr_id (claim_row job now r) = rr_id r" "rr_status (claim_row job now r) = ''claimed''" "gated_row p (claim_row job now r) = gated_row p r"
  "is_confirmed (claim_row job now r) = is_confirmed r"
  by (simp_all add: claim_row_def gated_row_def is_confirmed_def)

lemma claim_next_cases:
  assumes "claim_next job skip now s = (r, s')"
  obtains (none) later where "s' = s\<lparr>kb_faults := later\<rparr>" "r = Inr None \<or> r = Inl db_error"
  | (got) q later where "first_queued skip s = Some q" "r = Inr (Some (claim_row job now q))"
      "s' = alter_row (rr_id q) (claim_row job now) (s\<lparr>kb_faults := later\<rparr>)"
proof -
  let ?m = "\<lambda>s. case first_queued skip s of None \<Rightarrow> (Inr None, s)
    | Some r \<Rightarrow> (Inr (Some (claim_row job now r)), alter_row (rr_id r) (claim_row job now) s)"
  have op: "session ?m s = (r, s')" using assms by (simp add: claim_next_def)
  have same: "first_queued skip (s\<lparr>kb_faults := later\<rparr>) = first_queued skip s" for later by (simp add: first_queued_def)
  show thesis
  proof (rule session_cases [of ?m s])
    fix later assume "session ?m s = (Inl db_error, s\<lparr>kb_faults := later\<rparr>)"
    with op have "Inl db_error = r" "s\<lparr>kb_faults := later\<rparr> = s'" by simp_all
    then show thesis using none [of later] by simp
  next
    fix later assume "session ?m s = ?m (s\<lparr>kb_faults := later\<rparr>)"
    with op none got show thesis by (cases "first_queued skip s") (auto simp: same)
  qed
qed

lemma run_ok_claim:
  assumes "run_ok p (s, h, l, t)" "claim_next job skip now s = (r, s')"
  shows "run_ok p (s', (case r of Inr (Some w) \<Rightarrow> rr_id w # h | _ \<Rightarrow> h), l, t)"
  using assms(2)
proof (cases rule: claim_next_cases)
  case (none later)
  with assms(1) show ?thesis using run_ok_faults by (auto simp del: run_ok.simps)
next
  case (got q later)
  from first_queued_Some [OF got(1)] assms(1) have q: "rr_id q \<in> set t \<or> gated_row p q" "rr_id q < kb_next s" "distinct (map rr_id (kb_rows s))"
    "q \<in> set (kb_rows s)" by (auto simp: row_ok_def ids_ok_def)
  have one: "r = q" if "r \<in> set (kb_rows s)" "rr_id r = rr_id q" for r
    using that q(3,4) by (meson distinct_map inj_onD)
  show ?thesis
    by (rule run_okI [OF assms(1), where g = "\<lambda>r. if rr_id r = rr_id q then claim_row job now r else r"])
      (use assms(1) q one got in \<open>auto simp: alter_row_def row_ok_def\<close>)
qed

text \<open>The operations on one row, and those on the leases.\<close>

lemma row_ok_steps:
  "row_ok p h l t r \<Longrightarrow> rr_id r \<in> set h \<Longrightarrow> row_ok p h l t (released res err r)"
  "row_ok p h l t r \<Longrightarrow> rr_id r \<in> set h \<union> set l \<Longrightarrow> row_ok p h l t (failed_row cap e res now r)"
  "row_ok p h l t r \<Longrightarrow> rr_id r \<in> set h \<union> set l \<Longrightarrow> row_ok p h l t (set_status ''claimed'' u res err now r)"
  "row_ok p h l t r \<Longrightarrow> status \<notin> {''queued'', ''claimed'', ''executing''} \<Longrightarrow> row_ok p h l t (set_status status u res err now r)"
  "row_ok p h l t r \<Longrightarrow> row_ok p h l t (merge_result d r)"
  by (auto simp: row_ok_def inflight_def split: if_splits)

lemma row_ok_payload:
  assumes "row_ok p h l t r" "pget d ''source'' = pget (rr_payload r) ''source''"
  shows "row_ok p h l t (r\<lparr>rr_payload := d, rr_pr := u\<rparr>)"
  using assms by (simp add: row_ok_def gated_row_def is_confirmed_def)

lemma row_ok_payload1:
  assumes "row_ok p h l t r" "pget d ''source'' = pget (rr_payload r) ''source''"
  shows "row_ok p h l t (r\<lparr>rr_payload := d\<rparr>)"
  using assms by (simp add: row_ok_def gated_row_def is_confirmed_def)

lemma run_ok_release: "run_ok p (s, h, l, t) \<Longrightarrow> i \<in> set h \<Longrightarrow> run_ok p (snd (release_claim i res err s), h, l, t)"
  unfolding release_claim_def by (erule run_ok_session) (auto simp del: run_ok.simps intro!: run_ok_update row_ok_steps)

lemma run_ok_fail: "run_ok p (s, h, l, t) \<Longrightarrow> i \<in> set h \<union> set l \<Longrightarrow> run_ok p (snd (fail_remediation i e res now s), h, l, t)"
  unfolding fail_remediation_def
  by (erule run_ok_session) (auto simp del: run_ok.simps split: option.split intro!: run_ok_update row_ok_steps(2))

lemma run_ok_status:
  assumes "run_ok p (s, h, l, t)" "i \<in> set h \<union> set l \<and> status = ''claimed'' \<or> status \<notin> {''queued'', ''claimed'', ''executing''}"
  shows "run_ok p (snd (update_status i status u res err now s), h, l, t)"
proof -
  have "row_ok p h l t (set_status status u res err now r)" if "row_ok p h l t r" "rr_id r = i" for r
    using assms(2) that row_ok_steps(3) [OF that(1)] row_ok_steps(4) [OF that(1)] by auto
  then show ?thesis
    unfolding update_status_def using assms(1)
    by (elim run_ok_session) (auto simp del: run_ok.simps intro!: run_ok_update)
qed

lemma run_ok_note: "run_ok p (s, h, l, t) \<Longrightarrow> run_ok p (snd (merge_remediation_result i d s), h, l, t)"
  unfolding merge_remediation_result_def
  by (cases "d = []") (auto simp del: run_ok.simps intro!: run_ok_session run_ok_update row_ok_steps(5))

lemma pget_dupdate_other: "\<not> has_key d k \<Longrightarrow> pget (dupdate e d) k = pget e k"
  unfolding dupdate_def by (induction d arbitrary: e) (auto simp: has_key_def split: if_splits)

lemma run_ok_patch: "run_ok p (s, h, l, t) \<Longrightarrow> \<not> has_key d ''source'' \<Longrightarrow> run_ok p (snd (merge_payload i d u s), h, l, t)"
  unfolding merge_payload_def
  by (cases "d = [] \<and> u = None") (auto simp del: run_ok.simps simp: pget_dupdate_other intro!: run_ok_session run_ok_update row_ok_payload)

lemma run_ok_alias: "run_ok p (s, h, l, t) \<Longrightarrow> run_ok p (snd (record_alias i k s), h, l, t)"
  unfolding record_alias_def Let_def
  by (cases "str_strip k = []")
     (auto simp del: run_ok.simps split: option.split intro!: run_ok_session run_ok_update row_ok_payload1)

lemma run_ok_absorb: "run_ok p (s, h, l, t) \<Longrightarrow> run_ok p (snd (record_absorbed i sm s), h, l, t)"
  unfolding record_absorbed_def Let_def
  by (cases "take 200 (str_strip sm) = []")
     (auto simp del: run_ok.simps split: option.split intro!: run_ok_session run_ok_update row_ok_payload1)

lemma run_ok_recover: "run_ok p (s, h, l, t) \<Longrightarrow> run_ok p (snd (resolve_node_incidents hosts now s), h, l, t)"
proof -
  assume s: "run_ok p (s, h, l, t)"
  have close: "row_ok p h l t (merge_result d (r\<lparr>rr_status := ''resolved'', rr_completed := Some now\<rparr>))"
    if "row_ok p h l t r" for d r
    using that by (auto simp: row_ok_def inflight_def gated_row_def is_confirmed_def merge_result_def)
  have "run_ok p (s\<lparr>kb_rows := map (\<lambda>r. if hit r then merge_result d (r\<lparr>rr_status := ''resolved'', rr_completed := Some now\<rparr>) else r) (kb_rows s)\<rparr>, h, l, t)"
    if "run_ok p (s, h, l, t)" for s hit d
    by (rule run_okI [OF that, where g = "\<lambda>r. if hit r then merge_result d (r\<lparr>rr_status := ''resolved'', rr_completed := Some now\<rparr>) else r"])
      (use that close in \<open>auto simp: if_distrib [of "row_ok p h l t"]\<close>)
  with s show ?thesis
    unfolding resolve_node_incidents_def Let_def by (auto simp del: run_ok.simps intro!: run_ok_session)
qed

lemma row_ok_touched: "rr_id r \<in> set t \<Longrightarrow> row_ok p h l t r"
  by (simp add: row_ok_def)

lemma run_ok_reclassify: "run_ok p (s, h, l, t) \<Longrightarrow> run_ok p (snd (reclassify i c k f repo s), h, l, i # t)"
  unfolding reclassify_def
  by (drule run_ok_touch [of _ _ _ _ _ i], erule run_ok_session)
     (auto simp del: run_ok.simps split: option.split intro!: run_ok_update row_ok_touched)

lemma run_ok_queued: "run_ok p (s, h, l, t) \<Longrightarrow> i \<in> set t \<Longrightarrow> run_ok p (snd (update_status i ''queued'' u res err now s), h, l, t)"
  unfolding update_status_def
  by (erule run_ok_session) (auto simp del: run_ok.simps intro!: run_ok_update row_ok_touched)

lemma run_ok_get: "run_ok p (s, h, l, t) \<Longrightarrow> run_ok p (snd (get_row i s), h, l, t)"
  unfolding get_row_def by (erule run_ok_session) simp

text \<open>A sequence of operations keeps what each keeps.\<close>

lemma run_ok_bind:
  assumes "run_ok p (snd (m s), h, l, t)" "\<And>a s'. run_ok p (s', h, l, t) \<Longrightarrow> run_ok p (snd (f a s'), h, l, t)"
  shows "run_ok p (snd (st_bind m f s), h, l, t)"
  using assms by (cases "m s") (auto simp: st_bind_def simp del: run_ok.simps split: sum.split)

lemma run_ok_approve: "run_ok p (s, h, l, t) \<Longrightarrow> run_ok p (snd (approve_route i now s), h, l, i # t)"
proof -
  assume "run_ok p (s, h, l, t)"
  then have s: "run_ok p (s, h, l, i # t)" by (rule run_ok_touch)
  let ?body = "st_bind (get_row i) (\<lambda>row. case row of
     None \<Rightarrow> st_return (404 :: int)
   | Some r \<Rightarrow> if approve_conflict r \<noteq> None then st_return 409
       else st_bind (update_status i ''queued'' None None None now) (\<lambda>ok. if ok then st_bind (get_row i) (\<lambda>_. st_return 200) else st_return 404))"
  have "run_ok p (snd (?body s), h, l, i # t)"
    using s by (intro run_ok_bind run_ok_get) (auto simp del: run_ok.simps simp: st_return_def split: option.split intro!: run_ok_bind run_ok_queued run_ok_get)
  then show ?thesis
    by (cases "?body s") (auto simp: approve_route_def answered_def st_try_def st_return_def simp del: run_ok.simps split: sum.split)
qed

lemma run_ok_reap:
  assumes "run_ok p (s, h, l, t)" "stale_ids cutoff s = (r, s')"
  shows "run_ok p (s', h, (case r of Inl e \<Rightarrow> l | Inr ids \<Rightarrow> ids @ l), t)"
proof (rule session_cases [of "\<lambda>s. (Inr (map rr_id (filter (lease_expired cutoff) (kb_rows s))), s)" s])
  let ?m = "\<lambda>s. (Inr (map rr_id (filter (lease_expired cutoff) (kb_rows s))), s)"
  have op: "session ?m s = (r, s')" using assms(2) by (simp add: stale_ids_def)
  fix later
  show ?thesis if "session ?m s = (Inl db_error, s\<lparr>kb_faults := later\<rparr>)"
  proof -
    have "r = Inl db_error" "s' = s\<lparr>kb_faults := later\<rparr>" using that op by simp_all
    then show ?thesis using run_ok_faults [OF assms(1)] by simp
  qed
  let ?ids = "map rr_id (filter (lease_expired cutoff) (kb_rows s))"
  have one: "rr_status q \<in> set inflight" if "q \<in> set (kb_rows s)" "rr_id q \<in> set ?ids" for q
  proof -
    from that(2) obtain r where r: "r \<in> set (kb_rows s)" "lease_expired cutoff r" "rr_id r = rr_id q" by auto
    have "r = q" using assms(1) r that(1) by (auto simp: ids_ok_def) (meson distinct_map inj_onD)
    with r(2) show ?thesis by (simp add: lease_expired_def)
  qed
  show ?thesis if "session ?m s = ?m (s\<lparr>kb_faults := later\<rparr>)"
  proof -
    have r: "r = Inr ?ids" "s' = s\<lparr>kb_faults := later\<rparr>" using that op by simp_all
    have "row_ok p h (?ids @ l) t q" if "q \<in> set (kb_rows s)" for q
      using assms(1) that one [OF that] by (auto simp: row_ok_def)
    moreover have "\<forall>i \<in> set ?ids. i < kb_next s" using assms(1) by (auto simp: ids_ok_def)
    ultimately show ?thesis using assms(1) r by (auto simp: ids_ok_def)
  qed
qed

lemma queue_run_ok: "queue_run p x \<Longrightarrow> run_ok p x"
proof (induction rule: queue_run.induct)
  case (start faults)
  show ?case by (simp add: ids_ok_def)
next
  case (report s h l t status i u res err now)
  then show ?case by (intro run_ok_status) blast+
next
  case (keep s h l t i u res err now)
  then show ?case by (intro run_ok_status) blast+
qed (blast intro: run_ok_enqueue run_ok_confirmed run_ok_claim run_ok_release run_ok_fail run_ok_reap run_ok_patch run_ok_note run_ok_alias
     run_ok_absorb run_ok_recover run_ok_approve run_ok_reclassify)+


definition sample_queue :: kb_state where
  "sample_queue = snd (queue_remediation ''gitops-patch'' [] (Some 4) ''web'' ''low'' (Some (FDec 9 (-1))) 50 None None 7
     \<lparr>kb_rows = [], kb_next = 1, kb_policy = default_policy, kb_faults = []\<rparr>)"

lemma sample_queue_run: "queue_run default_policy (sample_queue, [], [], [])"
  unfolding sample_queue_def by (intro queue_run.enqueue queue_run.start)


text \<open>
  A claim that succeeds takes a queued row that is not to be skipped and than which no such row is more urgent: none
  has a smaller priority, and none of its priority is older. It leases this row and leaves every other row as it was.
\<close>

theorem claim_takes_most_urgent:
  assumes "ids_ok s" "claim_next job skip now s = (Inr (Some w), s')"
  shows "\<exists>q. find_row (rr_id w) s = Some q \<and> rr_status q = ''queued'' \<and> rr_id q \<notin> set skip \<and> w = claim_row job now q \<and>
    find_row (rr_id w) s' = Some w \<and> (\<forall>i. i \<noteq> rr_id w \<longrightarrow> find_row i s' = find_row i s) \<and>
    (\<forall>r \<in> set (kb_rows s). rr_status r = ''queued'' \<and> rr_id r \<notin> set skip \<longrightarrow>
       rr_priority q < rr_priority r \<or> rr_priority q = rr_priority r \<and> rr_created q \<le> rr_created r)"
  using assms(2)
proof (cases rule: claim_next_cases)
  case (got q later)
  let ?open = "filter (\<lambda>r. rr_status r = ''queued'' \<and> rr_id r \<notin> set skip) (kb_rows s)"
  let ?ys = "sort_key rr_created ?open"
  note q = first_queued_Some [OF got(1)]
  obtain rs where rs: "sort_key rr_priority ?ys = q # rs" using got(1) by (auto simp: first_queued_def split: list.splits)
  have least: "rr_priority q < rr_priority r \<or> rr_priority q = rr_priority r \<and> rr_created q \<le> rr_created r" if "r \<in> set ?open" for r
  proof -
    have prio: "\<forall>r \<in> set (q # rs). rr_priority q \<le> rr_priority r"
      using sorted_sort_key [of rr_priority ?ys] by (simp add: rs)
    have all: "set (q # rs) = set ?open" by (simp flip: rs)
    have "filter (\<lambda>r. rr_priority r = rr_priority q) (sort_key rr_priority ?ys) = filter (\<lambda>r. rr_priority r = rr_priority q) ?ys"
      by (rule sort_key_stable)
    then have same: "q # filter (\<lambda>r. rr_priority r = rr_priority q) rs = filter (\<lambda>r. rr_priority r = rr_priority q) ?ys" by (simp add: rs)
    have "sorted (map rr_created (filter (\<lambda>r. rr_priority r = rr_priority q) ?ys))" by (simp add: sorted_filter)
    then have old: "\<forall>r \<in> set (q # filter (\<lambda>r. rr_priority r = rr_priority q) rs). rr_created q \<le> rr_created r" by (simp flip: same)
    have "r = q \<or> r \<in> set rs" using that all by auto
    then show ?thesis using prio old by (cases "rr_priority r = rr_priority q") auto
  qed
  have "find_row (rr_id q) s = Some q" using assms(1) q by (intro find_row_unique) auto
  moreover have "find_row j s' = (if j = rr_id q then map_option (claim_row job now) (find_row j s) else find_row j s)" for j
    using got(3) by (simp add: find_row_update) (simp add: find_row_def)
  ultimately show ?thesis using got(2) q least by (auto simp: claim_row_def)
qed simp_all

text \<open>A row whose runs fail one after the other.\<close>

primrec fail_times :: "nat \<Rightarrow> int \<Rightarrow> string \<Rightarrow> int \<Rightarrow> kb_state \<Rightarrow> kb_state" where
  "fail_times 0 i err now s = s"
| "fail_times (Suc n) i err now s = snd (fail_remediation i err None now (fail_times n i err now s))"

lemma fail_times_state:
  "kb_faults s = [] \<Longrightarrow> kb_faults (fail_times n i err now s) = [] \<and> kb_policy (fail_times n i err now s) = kb_policy s"
  by (induction n) (auto simp: fail_remediation_def session_def split: option.split)

lemma fail_times_row:
  assumes "kb_faults s = []" "find_row i s = Some r"
  shows "find_row i (fail_times n i err now s) = Some ((failed_row (qp_attempts (kb_policy s)) err None now ^^ n) r)"
proof (induction n)
  case (Suc n)
  with fail_times_state [OF assms(1), of n i err now] show ?case
    by (simp add: fail_remediation_def session_def find_row_update)
qed (simp add: assms(2))

lemma failures_row:
  "rr_attempts ((failed_row cap err None now ^^ n) r) = rr_attempts r + int n \<and> is_confirmed ((failed_row cap err None now ^^ n) r) = is_confirmed r"
  by (induction n) auto



text \<open>
  Approving a row puts it in the queue again whatever its status was - one that runs, one that was rejected, a
  confirmed command that failed - unless it is of the class for people or has a pull request open. So an approved
  row that was being run is handed to a second executor, and a confirmed command to the drainer.
\<close>

theorem approve_requeues_any_status:
  assumes "kb_faults s = []" "find_row i s = Some r" "rr_class r \<noteq> ''manual''" "rr_pr r = None \<or> rr_pr r = Some []"
  shows "\<exists>s'. approve_route i now s = (Inr 200, s') \<and> find_row i s' = Some (r\<lparr>rr_status := ''queued''\<rparr>)"
proof -
  let ?s = "alter_row i (set_status ''queued'' None None None now) s"
  have none: "s\<lparr>kb_faults := []\<rparr> = s" using assms(1) by (cases s) simp
  have q: "''queued'' \<in> set remediation_statuses" by (simp add: remediation_statuses_def)
  have "approve_conflict r = None" using assms(3,4) by (auto simp: approve_conflict_def split: option.splits)
  then have "approve_route i now s = (Inr 200, ?s)"
    using assms(1,2) q
    by (simp add: approve_route_def answered_def get_row_def update_status_def session_def st_try_def st_bind_def st_return_def)
  moreover have "find_row i ?s = Some (r\<lparr>rr_status := ''queued''\<rparr>)"
    using assms(2) by (simp add: find_row_update set_status_def Let_def)
  ultimately show ?thesis by blast
qed

theorem approve_requeues_any_status_witness:
  "let s = snd (update_status 1 ''failed'' None None (Some ''exit 1'') 8
      (snd (queue_confirmed_host_command [(''source'', PStr confirmed_source)] ''job'' ''web'' 7 \<lparr>kb_rows = [], kb_next = 1, kb_policy = default_policy, kb_faults = []\<rparr>)));
     r = hd (kb_rows s)
   in rr_status r = ''failed'' \<and> is_confirmed r \<and> (\<exists>s'. approve_route 1 9 s = (Inr 200, s') \<and> find_row 1 s' = Some (r\<lparr>rr_status := ''queued''\<rparr>))"
proof -
  let ?s = "snd (update_status 1 ''failed'' None None (Some ''exit 1'') 8
      (snd (queue_confirmed_host_command [(''source'', PStr confirmed_source)] ''job'' ''web'' 7 \<lparr>kb_rows = [], kb_next = 1, kb_policy = default_policy, kb_faults = []\<rparr>)))"
  have "kb_faults ?s = []" "find_row 1 ?s = Some (hd (kb_rows ?s))" "rr_class (hd (kb_rows ?s)) \<noteq> ''manual''"
    "rr_pr (hd (kb_rows ?s)) = None \<or> rr_pr (hd (kb_rows ?s)) = Some []"
    by code_simp+
  from approve_requeues_any_status [OF this, of 9] have q: "\<exists>s'. approve_route 1 9 ?s = (Inr 200, s') \<and> find_row 1 s' = Some (hd (kb_rows ?s)\<lparr>rr_status := ''queued''\<rparr>)" .
  have "rr_status (hd (kb_rows ?s)) = ''failed'' \<and> is_confirmed (hd (kb_rows ?s))" by code_simp
  with q show ?thesis by (simp only: Let_def)
qed

text \<open>Giving a claim back queues the row again too, although it was closed since it was claimed.\<close>

lemma release_reopens:
  assumes "kb_faults s = []" "find_row i s = Some r"
  shows "find_row i (snd (release_claim i None None s)) = Some (r\<lparr>rr_status := ''queued'', rr_job := None, rr_claimed := None\<rparr>)"
  using assms by (simp add: release_claim_def session_def find_row_update released_def)

end
