(* ===== verification/Remediation_Drain.thy ===== *)
theory Remediation_Drain
  imports Py_Triple Remediation_Queue Executor
begin

text \<open>
  The drainer of the remediation queue in \<open>agent/agent.py\<close>, with its flags, the cap on open pull requests and the
  change-record gate of node actions (\<open>agent/change_record_client.py\<close>). The change recorder behind HTTP, the language
  model, \<open>kubectl\<close> and the job names are given. The settings are those of one tick. Metrics and log lines are left out.
\<close>

section \<open>Flags\<close>

definition scope_closure :: "string \<Rightarrow> string list" where
  "scope_closure s =
     (if s = ''read'' then [''read'']
      else if s = ''investigate'' then [''investigate'', ''read'']
      else if s = ''remediate'' then [''remediate'', ''investigate'', ''read'']
      else [])"

text \<open>An unknown profile is held to the safer of the two; a value that cannot be a key raises.\<close>

definition profile_allows :: "pyval \<Rightarrow> string \<Rightarrow> bool res" where
  "profile_allows profile scope = (case profile of
     PNone \<Rightarrow> Inr True
   | PList _ \<Rightarrow> type_error ''unhashable type''
   | PDict _ \<Rightarrow> type_error ''unhashable type''
   | _ \<Rightarrow> Inr (scope \<in> set (scope_closure (if profile = PStr ''remediate'' then ''remediate'' else ''investigate''))))"

text \<open>
  The configuration of the agent, its settings (a read may fail; a value may be null), its environment, and the services:
  the reply of the change recorder with its success, status and body, the model's plan, the reader of JSON, the creation of a job.
\<close>

record work_order =
  wo_row :: rem_row
  wo_ref :: string
  wo_url :: pyval
  wo_approval :: pydict
  wo_plan :: "(string \<times> string list \<times> string) option"
  wo_address :: string
  wo_origin :: "string option"

record 'w drain_env =
  dn_config :: pyval
  dn_setting :: "string \<Rightarrow> string option res"
  dn_env :: env
  dn_request :: "string \<Rightarrow> string \<Rightarrow> pydict option \<Rightarrow> ('w, bool \<times> int \<times> pyval) op"
  dn_plan_reply :: "rem_row \<Rightarrow> allow_list \<Rightarrow> ('w, string) op"
  dn_loads :: "string \<Rightarrow> pyval res"
  dn_spawn :: "string \<Rightarrow> work_order \<Rightarrow> ('w, unit) op"

definition remediation_config :: "'w drain_env \<Rightarrow> pyval" where
  "remediation_config d = (case dn_config d of PDict c \<Rightarrow> pget_or c ''remediation'' (PDict []) | _ \<Rightarrow> PDict [])"

definition configured_flag :: "'w drain_env \<Rightarrow> string \<Rightarrow> bool res" where
  "configured_flag d name = bind_res (as_dict (remediation_config d)) (\<lambda>rcfg. Inr
     (if name = ''node_action_enabled''
      then truthy (pget (dict_or_empty (pget (dict_or_empty (pget rcfg ''executor'')) ''node_action'')) ''enabled'')
      else truthy (pget rcfg name)))"

definition remediation_flag :: "'w drain_env \<Rightarrow> string \<Rightarrow> bool res" where
  "remediation_flag d name =
     bind_res (profile_allows (case dn_config d of PDict c \<Rightarrow> pget c ''profile'' | _ \<Rightarrow> PNone) ''remediate'') (\<lambda>ok.
     if \<not> ok then Inr False
     else (case dn_setting d (''remediation_'' @ name) of
         Inr (Some v) \<Rightarrow> if v = [] then configured_flag d name
           else Inr (str_lower (str_strip v) \<in> {''1'', ''true'', ''yes'', ''on''})
       | _ \<Rightarrow> configured_flag d name))"

definition executor_config :: "'w drain_env \<Rightarrow> pydict res" where
  "executor_config d = bind_res (as_dict (remediation_config d)) (\<lambda>rcfg. Inr (dict_or_empty (pget rcfg ''executor'')))"

definition node_action_config :: "'w drain_env \<Rightarrow> pydict res" where
  "node_action_config d = bind_res (executor_config d) (\<lambda>ec. Inr (dict_or_empty (pget ec ''node_action'')))"

definition change_record_url :: "'w drain_env \<Rightarrow> string res" where
  "change_record_url d =
     (let url = str_strip (env_get (dn_env d) ''CFOP_EXEC_CHANGE_URL'')
      in if url \<noteq> [] then Inr (rstrip_by (\<lambda>c. c = CHR ''/'') url)
         else bind_res (node_action_config d) (\<lambda>na.
           Inr (rstrip_by (\<lambda>c. c = CHR ''/'') (str_strip (py_str (por (pget (dict_or_empty (pget na ''change_record'')) ''url'') (PStr [])))))))"

text \<open>The stored selection: unset is the empty text, and a failed read or a null value refuses everything.\<close>

definition node_action_setting :: "'w drain_env \<Rightarrow> string \<Rightarrow> string option" where
  "node_action_setting d name = (case dn_setting d name of Inr v \<Rightarrow> v | Inl _ \<Rightarrow> None)"

definition node_action_allowlist :: "'w drain_env \<Rightarrow> allow_list res" where
  "node_action_allowlist d = bind_res (node_action_config d) (\<lambda>na.
     allowlist_from_config na (node_action_setting d ''node_action_allow_binaries'') (node_action_setting d ''node_action_allow_systemctl_verbs''))"

section \<open>The change recorder\<close>

text \<open>A failure of the client carries the HTTP status, 0 for a transport error.\<close>

type_synonym client_error = "int \<times> string"

definition error_text :: "pyval \<Rightarrow> pyval res" where
  "error_text data = bind_res (as_dict (por data (PDict []))) (\<lambda>e. Inr (pget_or e ''error'' data))"

definition open_record :: "'w drain_env \<Rightarrow> string \<Rightarrow> pydict \<Rightarrow> ('w, client_error + pydict) op" where
  "open_record d base intent =
     st_bind (dn_request d ''POST'' (rstrip_by (\<lambda>c. c = CHR ''/'') base @ ''/open'') (Some intent)) (\<lambda>(ok, status, data).
     if \<not> ok then st_bind (st_lift (error_text data)) (\<lambda>e. st_return (Inl (status, ''open failed ('' @ int_str status @ ''): '' @ py_str e)))
     else st_bind (st_lift (as_dict (por data (PDict [])))) (\<lambda>v.
       if \<not> truthy (pget v ''ref'') then st_return (Inl (status, ''open returned no ref'')) else st_return (Inr v)))"

definition url_safe :: "char \<Rightarrow> bool" where
  "url_safe c = (of_char c < (128 :: nat) \<and> (word_char c \<or> c \<in> {CHR ''-'', CHR ''.'', CHR ''~''}))"

definition percent_byte :: "nat \<Rightarrow> string" where
  "percent_byte n = CHR ''%'' # str_upper (hex2 n)"

definition url_quote :: "string \<Rightarrow> string" where
  "url_quote s = concat (map (\<lambda>c. if url_safe c then [c]
     else (let n = of_char c in if n < 128 then percent_byte n else percent_byte (192 + n div 64) @ percent_byte (128 + n mod 64))) s)"

definition get_approval :: "'w drain_env \<Rightarrow> string \<Rightarrow> string \<Rightarrow> ('w, client_error + pydict option) op" where
  "get_approval d base ref =
     st_bind (dn_request d ''GET'' (rstrip_by (\<lambda>c. c = CHR ''/'') base @ ''/approval/'' @ url_quote ref) None) (\<lambda>(ok, status, data).
     if status = 404 then st_return (Inr None)
     else if \<not> ok then st_bind (st_lift (error_text data)) (\<lambda>e. st_return (Inl (status, ''approval failed ('' @ int_str status @ ''): '' @ py_str e)))
     else st_bind (st_lift (as_dict (por data (PDict [])))) (\<lambda>v.
       if \<not> truthy (pget v ''identity'') then st_return (Inl (status, ''approval response missing identity'')) else st_return (Inr (Some v))))"

section \<open>The change-record gate\<close>

type_synonym plan = "string \<times> string list \<times> string"

definition plan_dict :: "plan \<Rightarrow> pydict" where
  "plan_dict p = (case p of (host, commands, why) \<Rightarrow>
     [(''host'', PStr host), (''commands'', PList (map PStr commands)), (''explanation'', PStr why)])"

record 'w drain_state =
  dr_kb :: kb_state
  dr_world :: 'w
  dr_spawned :: "(string \<times> work_order) list"

definition on_kb :: "(kb_state, 'a) op \<Rightarrow> ('w drain_state, 'a) op" where
  "on_kb m s = (case m (dr_kb s) of (r, k) \<Rightarrow> (r, s\<lparr>dr_kb := k\<rparr>))"

definition on_world :: "('w, 'a) op \<Rightarrow> ('w drain_state, 'a) op" where
  "on_world m s = (case m (dr_world s) of (r, w) \<Rightarrow> (r, s\<lparr>dr_world := w\<rparr>))"

text \<open>The record of the change kept in the row, and the plan already there: recorded first, else in the payload.\<close>

definition row_result :: "rem_row \<Rightarrow> pydict" where
  "row_result r = (case rr_result r of None \<Rightarrow> [] | Some d \<Rightarrow> d)"

definition stored_record :: "rem_row \<Rightarrow> pydict" where
  "stored_record r = dict_or_empty (pget (row_result r) ''change_record'')"

definition stored_plan :: "rem_row \<Rightarrow> pydict option" where
  "stored_plan r = find (\<lambda>c. truthy (pget c ''commands'')) (map dict_or_empty [pget (stored_record r) ''plan'', pget (rr_payload r) ''plan''])"

text \<open>A refused plan comes back with its stage and its refusals.\<close>

definition checked_plan :: "string \<Rightarrow> allow_list \<Rightarrow> pydict \<Rightarrow> ((string \<times> plan \<times> refusal list) + plan) res" where
  "checked_plan stage allow c = bind_res (normalize_plan c) (\<lambda>p.
     let refusals = plan_refusals (fst (snd p)) allow in Inr (if refusals = [] then Inr p else Inl (stage, p, refusals)))"

definition generate_node_action_plan :: "'w drain_env \<Rightarrow> rem_row \<Rightarrow> ('w, (string \<times> plan \<times> refusal list) + plan) op" where
  "generate_node_action_plan d r =
     st_bind (st_lift (node_action_allowlist d)) (\<lambda>allow. case stored_plan r of
       Some c \<Rightarrow> st_lift (checked_plan ''persisted plan'' allow c)
     | None \<Rightarrow> st_bind (dn_plan_reply d r allow) (\<lambda>reply.
         st_bind (st_lift (parse_command_plan (dn_loads d) reply)) (\<lambda>parsed. case parsed of
           None \<Rightarrow> st_raise (PyExn ''RuntimeError'' ''model produced no parseable command plan'')
         | Some (c, _) \<Rightarrow> st_lift (checked_plan ''command plan'' allow c))))"

definition cleared :: pydict where
  "cleared = [(''blocked_commands'', PNone), (''proposed_commands'', PNone)]"

definition opening_intent :: "rem_row \<Rightarrow> string \<Rightarrow> plan \<Rightarrow> string \<Rightarrow> pydict \<Rightarrow> pydict" where
  "opening_intent r host plan img snapshot =
     [(''remediation_id'', PInt (rr_id r)),
      (''investigation_id'', case rr_investigation r of None \<Rightarrow> PNone | Some i \<Rightarrow> PInt i),
      (''host'', PStr host), (''commands'', PList (map PStr (fst (snd plan)))),
      (''justification'', PStr (py_str (por (pget (rr_payload r) ''recommendation'') (PStr [])))),
      (''image'', PStr img), (''flag_snapshot'', PDict snapshot), (''risk'', PStr (rr_risk r)),
      (''confidence'', case rr_confidence r of None \<Rightarrow> PNone | Some c \<Rightarrow> PFloat c)]"

definition plain_order :: "rem_row \<Rightarrow> work_order" where
  "plain_order r = \<lparr>wo_row = r, wo_ref = [], wo_url = PNone, wo_approval = [], wo_plan = None, wo_address = [], wo_origin = None\<rparr>"

definition executor_image :: "'w drain_env \<Rightarrow> pydict \<Rightarrow> string" where
  "executor_image d ec = py_str (pget_or ec ''image'' (PStr (case map_of (dn_env d) ''CFOP_EXECUTOR_IMAGE'' of
     None \<Rightarrow> ''ghcr.io/aachtenberg/cfoperator-executor:main'' | Some i \<Rightarrow> i)))"

definition refused_result :: "plan \<Rightarrow> refusal list \<Rightarrow> pydict" where
  "refused_result p refusals =
     [(''proposed_commands'', PList (map (\<lambda>c. PStr (take 500 c)) (take 20 (fst (snd p))))),
      (''blocked_commands'', PList (map refusal_dict (take 20 refusals)))]"

text \<open>
  What the gate has found out about a row when its body ends: the plan was refused, the recorder failed (with the record
  kept so far), the claim was given back, or it is approved.
\<close>

datatype gate_outcome =
    Plan_Refused string plan "refusal list"
  | Recorder_Failed client_error pydict
  | Waiting
  | Approved pydict string pydict plan

text \<open>The reference of the change and what is kept of it: those of the row, or those of a change opened now.\<close>

definition ensure_record :: "'w drain_env \<Rightarrow> string \<Rightarrow> pydict \<Rightarrow> pydict \<Rightarrow> pydict \<Rightarrow> rem_row \<Rightarrow> plan \<Rightarrow> ('w, client_error + string \<times> pydict) op" where
  "ensure_record d base ec na snapshot r plan =
     (let ref = str_strip (py_str (por (pget (stored_record r) ''ref'') (PStr [])));
          target = dict_or_empty (pget (rr_payload r) ''target'');
          host = str_strip (if fst plan \<noteq> [] then fst plan else py_str (por (por (pget target ''host'') (pget na ''host'')) (PStr [])))
      in if ref \<noteq> [] then st_return (Inr (ref, dset ''plan'' (PDict (plan_dict plan)) (stored_record r)))
         else st_bind (open_record d base (opening_intent r host plan (executor_image d ec) snapshot)) (\<lambda>opened. case opened of
             Inl e \<Rightarrow> st_return (Inl e)
           | Inr v \<Rightarrow> st_return (Inr (py_str (pget v ''ref''),
               [(''ref'', PStr (py_str (pget v ''ref''))), (''url'', pget v ''url''), (''plan'', PDict (plan_dict plan))]))))"

definition poll_approval :: "'w drain_env \<Rightarrow> string \<Rightarrow> rem_row \<Rightarrow> plan \<Rightarrow> string \<Rightarrow> pydict \<Rightarrow> ('w drain_state, gate_outcome) op" where
  "poll_approval d base r plan ref cr =
     st_bind (on_world (get_approval d base ref)) (\<lambda>answer. case answer of
         Inl e \<Rightarrow> st_return (Recorder_Failed e cr)
       | Inr None \<Rightarrow> st_bind (on_kb (release_claim (rr_id r) (Some (dupdate [(''change_record'', PDict cr)] cleared)) (Some ''awaiting change-record approval'')))
           (\<lambda>_. st_return Waiting)
       | Inr (Some approval) \<Rightarrow> st_return (Approved cr ref approval plan))"

definition gate_body :: "'w drain_env \<Rightarrow> string \<Rightarrow> pydict \<Rightarrow> pydict \<Rightarrow> pydict \<Rightarrow> rem_row \<Rightarrow> ('w drain_state, gate_outcome) op" where
  "gate_body d base ec na snapshot r =
     st_bind (on_world (generate_node_action_plan d r)) (\<lambda>generated. case generated of
       Inl (stage, p, refusals) \<Rightarrow> st_return (Plan_Refused stage p refusals)
     | Inr plan \<Rightarrow> st_bind (on_world (ensure_record d base ec na snapshot r plan)) (\<lambda>recorded. case recorded of
         Inl e \<Rightarrow> st_return (Recorder_Failed e (dset ''plan'' (PDict (plan_dict plan)) (stored_record r)))
       | Inr (ref, cr) \<Rightarrow> poll_approval d base r plan ref cr))"

text \<open>
  The gate of a claimed row: the work order that may be spawned, or None when the row was parked or given back. Other
  classes pass. Whatever else goes wrong in its body, the database included, fails the claim.
\<close>

definition missing_recorder :: string where
  "missing_recorder = ''node-action refused: no change recorder configured, so the approval record that must precede shell on a host '' @
     ''cannot be opened. Set CFOP_EXEC_CHANGE_URL, or remediation.executor.node_action.change_record.url.''"

definition settle_gate :: "rem_row \<Rightarrow> int \<Rightarrow> gate_outcome \<Rightarrow> ('w drain_state, work_order option) op" where
  "settle_gate r now outcome = (case outcome of
     Plan_Refused stage p refusals \<Rightarrow>
       st_bind (on_kb (fail_remediation (rr_id r) (''change record plan: '' @ stage @ '' failed safety gate: '' @ rf_reason (hd refusals))
         (Some (refused_result p refusals)) now)) (\<lambda>_. st_return None)
   | Recorder_Failed (status, why) cr \<Rightarrow>
       if status = 409 then st_bind (on_kb (fail_remediation (rr_id r) (''change record gate: '' @ why) (Some cleared) now)) (\<lambda>_. st_return None)
       else st_bind (on_kb (release_claim (rr_id r) (Some (dupdate [(''change_record'', PDict cr)] cleared)) (Some (''change record transient: '' @ why))))
         (\<lambda>_. st_return None)
   | Waiting \<Rightarrow> st_return None
   | Approved cr ref approval plan \<Rightarrow>
       st_bind (st_try (on_kb (update_status (rr_id r) ''claimed'' None (Some (dupdate [(''change_record'',
           PDict (dset ''plan'' (PDict (plan_dict plan)) (dset ''approval'' (PDict approval) cr)))] cleared)) None now)) (\<lambda>_. st_return True))
         (\<lambda>_. st_return (Some \<lparr>wo_row = r, wo_ref = ref, wo_url = pget cr ''url'', wo_approval = approval, wo_plan = Some plan,
           wo_address = [], wo_origin = None\<rparr>)))"

definition flag_snapshot :: "bool \<Rightarrow> string \<Rightarrow> pydict" where
  "flag_snapshot drain base = [(''node_action.enabled'', PBool True), (''queue_drain'', PBool drain), (''change_record.url'', PStr base)]"

definition prepare_change_record :: "'w drain_env \<Rightarrow> int \<Rightarrow> rem_row \<Rightarrow> ('w drain_state, work_order option) op" where
  "prepare_change_record d now r =
     (if rr_class r \<noteq> ''node-action'' then st_return (Some (plain_order r))
      else st_bind (st_lift (remediation_flag d ''node_action_enabled'')) (\<lambda>enabled.
        if \<not> enabled then st_bind (st_try (on_kb (release_claim (rr_id r) None (Some ''node-action execution is disabled''))) (\<lambda>_. st_return False))
          (\<lambda>_. st_return None)
        else st_bind (st_lift (change_record_url d)) (\<lambda>base.
          if base = [] then st_bind (st_try (on_kb (update_status (rr_id r) ''needs-human'' None None (Some missing_recorder) now)) (\<lambda>_. st_return False))
            (\<lambda>_. st_return None)
          else st_bind (st_lift (executor_config d)) (\<lambda>ec. st_bind (st_lift (node_action_config d)) (\<lambda>na.
               st_bind (st_lift (remediation_flag d ''queue_drain'')) (\<lambda>drain.
               st_bind (st_try (st_bind (gate_body d base ec na (flag_snapshot drain base) r) (\<lambda>x. st_return (Some x)))
                   (\<lambda>e. st_bind (on_kb (fail_remediation (rr_id r) (''change record plan: '' @ exn_text e) (Some cleared) now)) (\<lambda>_. st_return None)))
                 (\<lambda>outcome. case outcome of None \<Rightarrow> st_return None | Some x \<Rightarrow> settle_gate r now x)))))))"

section \<open>The drainer\<close>

definition spawn_executor :: "'w drain_env \<Rightarrow> string \<Rightarrow> work_order \<Rightarrow> ('w drain_state, unit) op" where
  "spawn_executor d job wo = st_bind (on_world (dn_spawn d job wo)) (\<lambda>_. st_modify (\<lambda>s. s\<lparr>dr_spawned := dr_spawned s @ [(job, wo)]\<rparr>))"

definition pr_statuses :: "string list" where
  "pr_statuses = [''claimed'', ''executing'', ''pr-open'', ''verifying'']"

definition open_pr_rows :: "kb_state \<Rightarrow> nat" where
  "open_pr_rows s = sum_list (map (\<lambda>st. count_by_status st s) pr_statuses)"

text \<open>A count that cannot be read is taken for 0.\<close>

definition open_pr_count :: "(kb_state, int) op" where
  "open_pr_count = st_try (session (\<lambda>s. (Inr (int (open_pr_rows s)), s))) (\<lambda>_. st_return 0)"

text \<open>
  One claimed row: the gate, then the job; an exception of either fails the claim. Back comes whether a job was spawned.
\<close>

definition drain_row :: "'w drain_env \<Rightarrow> int \<Rightarrow> string \<Rightarrow> rem_row \<Rightarrow> ('w drain_state, bool) op" where
  "drain_row d now job r =
     st_try (st_bind (prepare_change_record d now r) (\<lambda>gated. case gated of
          None \<Rightarrow> st_return False
        | Some wo \<Rightarrow> st_bind (spawn_executor d job wo) (\<lambda>_. st_return True)))
       (\<lambda>e. st_bind (on_kb (fail_remediation (rr_id r) (''executor spawn failed: '' @ exn_text e) None now)) (\<lambda>_. st_return False))"

text \<open>The rounds of a tick, one job name each: the rows to skip and the number of jobs spawned so far.\<close>

fun drain_rounds :: "'w drain_env \<Rightarrow> int \<Rightarrow> int \<Rightarrow> string list \<Rightarrow> int list \<Rightarrow> nat \<Rightarrow> ('w drain_state, nat) op" where
  "drain_rounds d now cap [] skip n = st_return n"
| "drain_rounds d now cap (job # jobs) skip n =
     st_bind (if cap \<ge> 0 then on_kb open_pr_count else st_return (cap - 1)) (\<lambda>opened.
     if opened \<ge> cap then st_return n
     else st_bind (st_try (on_kb (claim_next job skip now)) (\<lambda>_. st_return None)) (\<lambda>work. case work of
       None \<Rightarrow> st_return n
     | Some r \<Rightarrow> st_bind (drain_row d now job r) (\<lambda>spawned.
         if spawned then drain_rounds d now cap jobs skip (n + 1) else drain_rounds d now cap jobs (rr_id r # skip) n)))"

text \<open>A tick; its job names are an unending supply.\<close>

definition drain_queue :: "'w drain_env \<Rightarrow> (nat \<Rightarrow> string) \<Rightarrow> int \<Rightarrow> ('w drain_state, nat) op" where
  "drain_queue d job now =
     st_bind (st_lift (remediation_flag d ''queue_drain'')) (\<lambda>on. if \<not> on then st_return 0
     else st_bind (st_lift (as_dict (remediation_config d))) (\<lambda>rcfg.
       st_bind (st_lift (py_int (pget_or rcfg ''max_drain_per_tick'' (PInt 3)))) (\<lambda>tick.
       st_bind (st_lift (py_int (pget_or rcfg ''max_open_prs'' (PInt 3)))) (\<lambda>cap.
       drain_rounds d now cap (map job [0 ..< nat (max 1 tick)]) [] 0))))"

section \<open>Node actions are approved\<close>

text \<open>What a spawned work order must be.\<close>

definition approved_order :: "'w drain_env \<Rightarrow> work_order \<Rightarrow> bool" where
  "approved_order d wo = (rr_class (wo_row wo) = ''node-action'' \<longrightarrow>
     remediation_flag d ''node_action_enabled'' = Inr True \<and> (\<exists>base. change_record_url d = Inr base \<and> base \<noteq> []) \<and>
     truthy (pget (wo_approval wo) ''identity'') \<and>
     (\<exists>p allow. wo_plan wo = Some p \<and> node_action_allowlist d = Inr allow \<and> plan_refusals (fst (snd p)) allow = []))"

definition new_orders_ok :: "'w drain_env \<Rightarrow> (string \<times> work_order) set \<Rightarrow> 'w drain_state \<Rightarrow> bool" where
  "new_orders_ok d old s = (\<forall>x \<in> set (dr_spawned s). x \<in> old \<or> approved_order d (snd x))"

text \<open>What the services can answer.\<close>

lemma get_approval_identity:
  "get_approval d base ref w = (Inr (Inr (Some v)), w') \<Longrightarrow> truthy (pget v ''identity'')"
  by (auto simp: get_approval_def st_bind_Inr st_return_def st_lift_def split: if_splits prod.splits sum.splits)

lemma checked_plan_passes: "checked_plan stage allow c = Inr (Inr p) \<Longrightarrow> plan_refusals (fst (snd p)) allow = []"
  by (auto simp: checked_plan_def bind_res_Inr_iff Let_def split: if_splits)

lemma generated_plan_passes:
  assumes "generate_node_action_plan d r w = (Inr (Inr p), w')"
  shows "\<exists>allow. node_action_allowlist d = Inr allow \<and> plan_refusals (fst (snd p)) allow = []"
proof -
  from assms obtain allow where allow: "node_action_allowlist d = Inr allow"
    and rest: "(case stored_plan r of Some c \<Rightarrow> st_lift (checked_plan ''persisted plan'' allow c)
     | None \<Rightarrow> st_bind (dn_plan_reply d r allow) (\<lambda>reply.
         st_bind (st_lift (parse_command_plan (dn_loads d) reply)) (\<lambda>parsed. case parsed of
           None \<Rightarrow> st_raise (PyExn ''RuntimeError'' ''model produced no parseable command plan'')
         | Some (c, _) \<Rightarrow> st_lift (checked_plan ''command plan'' allow c)))) w = (Inr (Inr p), w')"
    unfolding generate_node_action_plan_def st_bind_Inr by (auto simp: st_lift_def)
  have "\<exists>stage c. checked_plan stage allow c = Inr (Inr p)"
  proof (cases "stored_plan r")
    case None
    with rest obtain x :: "(pydict \<times> string list) option" and s where x: "(case x of None \<Rightarrow> st_raise (PyExn ''RuntimeError'' ''model produced no parseable command plan'')
         | Some (c, _) \<Rightarrow> st_lift (checked_plan ''command plan'' allow c)) s = (Inr (Inr p), w')"
      by (simp only: st_bind_Inr option.case) blast
    then show ?thesis by (cases x) (auto simp: st_raise_def st_lift_def, blast)
  next
    case (Some c)
    with rest show ?thesis by (auto simp: st_lift_def)
  qed
  with allow checked_plan_passes show ?thesis by blast
qed

definition approval_ok :: "'w drain_env \<Rightarrow> pydict \<Rightarrow> plan \<Rightarrow> bool" where
  "approval_ok d approval plan = (truthy (pget approval ''identity'') \<and>
     (\<exists>allow. node_action_allowlist d = Inr allow \<and> plan_refusals (fst (snd plan)) allow = []))"

text \<open>Rules for the gate: what the world does is invisible, and only a claim given back ends in waiting.\<close>

lemma triple_world:
  assumes "\<And>s w. I s \<Longrightarrow> I (s\<lparr>dr_world := w\<rparr>)"
  shows "triple I (on_world m) (\<lambda>x s. (\<exists>w w'. m w = (Inr x, w')) \<and> I s) I"
  using assms by (auto simp: triple_def on_world_def split: prod.split sum.split)

text \<open>
  One claimed row, for any invariant I of a row that holds the claim and J of one that has lost it; F is what holds when the
  database fails. The gate and the spawn need only this of the queue.
\<close>

locale claim_rules =
  fixes d :: "'w drain_env" and now :: int and r :: rem_row
    and I J F :: "'w drain_state \<Rightarrow> bool"
  assumes world: "\<And>s w. I s \<Longrightarrow> I (s\<lparr>dr_world := w\<rparr>)"
    and release: "\<And>res err. triple I (on_kb (release_claim (rr_id r) res err)) (\<lambda>_. J) F"
    and failure: "\<And>err res. triple I (on_kb (fail_remediation (rr_id r) err res now)) (\<lambda>_. J) F"
    and park: "\<And>err. triple I (on_kb (update_status (rr_id r) ''needs-human'' None None err now)) (\<lambda>_. J) F"
    and keep: "\<And>res. triple I (on_kb (update_status (rr_id r) ''claimed'' None res None now)) (\<lambda>_. I) F"
    and spawn: "\<And>s job wo. I s \<Longrightarrow> approved_order d wo \<Longrightarrow> wo_row wo = r \<Longrightarrow> J (s\<lparr>dr_spawned := dr_spawned s @ [(job, wo)]\<rparr>)"
    and fault: "\<And>s. F s \<Longrightarrow> I s \<and> J s"
begin

lemma triple_step:
  assumes "\<And>x. \<exists>w w'. m w = (Inr x, w') \<Longrightarrow> triple I (f x) Q I"
  shows "triple I (st_bind (on_world m) f) Q I"
proof (rule triple_bind)
  show "triple I (on_world m) (\<lambda>x s. (\<exists>w w'. m w = (Inr x, w')) \<and> I s) I" by (rule triple_world) (rule world)
  show "triple (\<lambda>s. (\<exists>w w'. m w = (Inr x, w')) \<and> I s) (f x) Q I" for x by (rule triple_pure) (rule assms)
qed

lemma release_None: "triple I (st_bind (on_kb (release_claim (rr_id r) res err)) (\<lambda>_. st_return x)) (\<lambda>_. J) I"
  by (rule triple_conseq [OF triple_bind [OF release]]) (auto intro: triple_return dest: fault)

lemma failure_None: "triple I (st_bind (on_kb (fail_remediation (rr_id r) err res now)) (\<lambda>_. st_return x)) (\<lambda>_. J) F"
  by (rule triple_bind [OF failure]) (auto intro: triple_return)

lemma poll_triple:
  assumes plan: "\<exists>allow. node_action_allowlist d = Inr allow \<and> plan_refusals (fst (snd plan)) allow = []"
  shows "triple I (poll_approval d base r plan ref cr)
    (\<lambda>x s. case x of Waiting \<Rightarrow> J s | Approved cr ref approval plan \<Rightarrow> approval_ok d approval plan \<and> I s | _ \<Rightarrow> I s) I"
  unfolding poll_approval_def
proof (rule triple_step)
  fix answer assume answer: "\<exists>w w'. get_approval d base ref w = (Inr answer, w')"
  consider (err) e where "answer = Inl e" | (wait) "answer = Inr None" | (yes) v where "answer = Inr (Some v)" by (metis option.exhaust sum.exhaust)
  then show "triple I (case answer of
         Inl e \<Rightarrow> st_return (Recorder_Failed e cr)
       | Inr None \<Rightarrow> st_bind (on_kb (release_claim (rr_id r) (Some (dupdate [(''change_record'', PDict cr)] cleared)) (Some ''awaiting change-record approval'')))
           (\<lambda>_. st_return Waiting)
       | Inr (Some approval) \<Rightarrow> st_return (Approved cr ref approval plan))
     (\<lambda>x s. case x of Waiting \<Rightarrow> J s | Approved cr ref approval plan \<Rightarrow> approval_ok d approval plan \<and> I s | _ \<Rightarrow> I s) I"
  proof cases
    case err
    then show ?thesis by (auto intro: triple_return)
  next
    case wait
    have "triple I (on_kb (release_claim (rr_id r) res e)) (\<lambda>_. J) I" for res e
      by (rule triple_conseq [OF release]) (auto dest: fault)
    with wait show ?thesis by (auto intro!: triple_bind triple_return)
  next
    case (yes v)
    with answer plan show ?thesis by (auto intro!: triple_return simp: approval_ok_def dest!: get_approval_identity)
  qed
qed

lemma gate_body_triple:
  "triple I (gate_body d base ec na snapshot r)
    (\<lambda>x s. case x of Waiting \<Rightarrow> J s | Approved cr ref approval plan \<Rightarrow> approval_ok d approval plan \<and> I s | _ \<Rightarrow> I s) I"
  unfolding gate_body_def
proof (rule triple_step)
  fix generated assume g: "\<exists>w w'. generate_node_action_plan d r w = (Inr generated, w')"
  show "triple I (case generated of
       Inl (stage, p, refusals) \<Rightarrow> st_return (Plan_Refused stage p refusals)
     | Inr plan \<Rightarrow> st_bind (on_world (ensure_record d base ec na snapshot r plan)) (\<lambda>recorded. case recorded of
         Inl e \<Rightarrow> st_return (Recorder_Failed e (dset ''plan'' (PDict (plan_dict plan)) (stored_record r)))
       | Inr (ref, cr) \<Rightarrow> poll_approval d base r plan ref cr))
    (\<lambda>x s. case x of Waiting \<Rightarrow> J s | Approved cr ref approval plan \<Rightarrow> approval_ok d approval plan \<and> I s | _ \<Rightarrow> I s) I"
  proof (cases generated)
    case (Inl x)
    then show ?thesis by (cases x) (auto intro: triple_return)
  next
    case (Inr plan)
    from g Inr obtain w w' where "generate_node_action_plan d r w = (Inr (Inr plan), w')" by auto
    note poll = poll_triple [OF generated_plan_passes [OF this]]
    show ?thesis
      unfolding Inr sum.case
    proof (rule triple_step)
      fix recorded :: "client_error + string \<times> pydict"
      show "triple I (case recorded of
         Inl e \<Rightarrow> st_return (Recorder_Failed e (dset ''plan'' (PDict (plan_dict plan)) (stored_record r)))
       | Inr (ref, cr) \<Rightarrow> poll_approval d base r plan ref cr)
        (\<lambda>x s. case x of Waiting \<Rightarrow> J s | Approved cr ref approval plan \<Rightarrow> approval_ok d approval plan \<and> I s | _ \<Rightarrow> I s) I"
        using poll by (cases recorded) (auto intro: triple_return split: prod.split)
    qed
  qed
qed

lemma settle_triple:
  assumes "remediation_flag d ''node_action_enabled'' = Inr True" "change_record_url d = Inr base" "base \<noteq> []"
  shows "triple (\<lambda>s. case x of Waiting \<Rightarrow> J s | Approved cr ref approval plan \<Rightarrow> approval_ok d approval plan \<and> I s | _ \<Rightarrow> I s)
    (settle_gate r now x) (\<lambda>wo s. case wo of None \<Rightarrow> J s | Some wo \<Rightarrow> approved_order d wo \<and> wo_row wo = r \<and> I s) I"
proof -
  have failing: "triple I (st_bind (on_kb (fail_remediation (rr_id r) err res now)) (\<lambda>_. st_return None))
    (\<lambda>wo s. case wo of None \<Rightarrow> J s | Some wo \<Rightarrow> approved_order d wo \<and> wo_row wo = r \<and> I s) I" for err res
    by (rule triple_conseq [OF triple_bind [OF failure]]) (auto intro: triple_return dest: fault)
  show ?thesis
proof (cases x)
  case (Plan_Refused stage p refusals)
  show ?thesis unfolding Plan_Refused settle_gate_def gate_outcome.case by (rule failing)
next
  case (Recorder_Failed e cr)
  have "triple I (st_bind (on_kb (release_claim (rr_id r) res err)) (\<lambda>_. st_return None))
    (\<lambda>wo s. case wo of None \<Rightarrow> J s | Some wo \<Rightarrow> approved_order d wo \<and> wo_row wo = r \<and> I s) I" for err res
    by (rule triple_conseq [OF triple_bind [OF release]]) (auto intro: triple_return dest: fault)
  with failing show ?thesis using Recorder_Failed by (cases e) (auto simp: settle_gate_def)
next
  case Waiting
  then show ?thesis by (auto simp: settle_gate_def intro: triple_return)
next
  case (Approved cr ref approval plan)
  let ?wo = "\<lparr>wo_row = r, wo_ref = ref, wo_url = pget cr ''url'', wo_approval = approval, wo_plan = Some plan,
           wo_address = [], wo_origin = None\<rparr>"
  have wo: "approved_order d ?wo" if "approval_ok d approval plan" using that assms by (auto simp: approved_order_def approval_ok_def)
  have kept: "triple I (st_try (on_kb (update_status (rr_id r) ''claimed'' None res None now)) (\<lambda>_. st_return True)) (\<lambda>_. I) I" for res
    by (rule triple_try [OF keep]) (auto intro!: triple_return dest: fault)
  show ?thesis
    unfolding settle_gate_def Approved gate_outcome.case
    by (rule triple_pure) (auto intro!: triple_bind [OF kept] triple_return wo)
qed
qed

lemma prepare_triple:
  "triple I (prepare_change_record d now r) (\<lambda>wo s. case wo of None \<Rightarrow> J s | Some wo \<Rightarrow> approved_order d wo \<and> wo_row wo = r \<and> I s) I"
    (is "triple I _ ?Q I")
proof (cases "rr_class r = ''node-action''")
  case False
  then have "approved_order d (plain_order r)" "wo_row (plain_order r) = r" by (simp_all add: approved_order_def plain_order_def)
  with False show ?thesis by (auto simp: prepare_change_record_def intro!: triple_return)
next
  case True
  have swallow: "triple I (st_bind (st_try m (\<lambda>_. st_return False)) (\<lambda>_. st_return None)) ?Q I" if "triple I m (\<lambda>_. J) F" for m
    by (rule triple_bind [OF triple_try [OF that]]) (auto intro!: triple_return dest: fault)
  have body: "triple I (st_bind (st_try (st_bind (gate_body d base ec na snap r) (\<lambda>x. st_return (Some x)))
        (\<lambda>e. st_bind (on_kb (fail_remediation (rr_id r) (msg e) (Some cleared) now)) (\<lambda>_. st_return None)))
      (\<lambda>outcome. case outcome of None \<Rightarrow> st_return None | Some x \<Rightarrow> settle_gate r now x)) ?Q I"
    if url: "remediation_flag d ''node_action_enabled'' = Inr True" "change_record_url d = Inr base" "base \<noteq> []" for base ec na snap and msg :: "pyexn \<Rightarrow> string"
  proof (rule triple_bind)
    let ?R = "\<lambda>outcome s. case outcome of None \<Rightarrow> J s | Some x \<Rightarrow> (case x of Waiting \<Rightarrow> J s | Approved cr ref approval plan \<Rightarrow> approval_ok d approval plan \<and> I s | _ \<Rightarrow> I s)"
    show "triple I (st_try (st_bind (gate_body d base ec na snap r) (\<lambda>x. st_return (Some x)))
        (\<lambda>e. st_bind (on_kb (fail_remediation (rr_id r) (msg e) (Some cleared) now)) (\<lambda>_. st_return None))) ?R I"
    proof (rule triple_try)
      show "triple I (st_bind (gate_body d base ec na snap r) (\<lambda>x. st_return (Some x))) ?R I"
        by (rule triple_bind [OF gate_body_triple]) (simp add: triple_return)
      show "triple I (st_bind (on_kb (fail_remediation (rr_id r) (msg e) (Some cleared) now)) (\<lambda>_. st_return None)) ?R I" for e
        by (rule triple_conseq [OF triple_bind [OF failure]]) (auto intro: triple_return dest: fault)
    qed
    show "triple (?R outcome) (case outcome of None \<Rightarrow> st_return None | Some x \<Rightarrow> settle_gate r now x) ?Q I" for outcome
      using settle_triple [OF url] by (cases outcome) (auto intro: triple_return)
  qed
  have lift: "triple I (st_bind (st_lift x) f) ?Q I" if "\<And>v. x = Inr v \<Longrightarrow> triple I (f v) ?Q I" for x :: "'b res" and f
    using that by (cases x) (auto simp: triple_def st_bind_def st_lift_def)
  show ?thesis
    unfolding prepare_change_record_def using True
    by (auto simp: prepare_change_record_def intro!: lift swallow release park body)
qed

lemma drain_row_triple: "triple I (drain_row d now job r) (\<lambda>_. J) F"
  unfolding drain_row_def
proof (rule triple_try)
  have spawned: "triple (\<lambda>s. approved_order d wo \<and> wo_row wo = r \<and> I s) (st_bind (spawn_executor d job wo) (\<lambda>_. st_return True)) (\<lambda>_. J) I" for wo
    unfolding spawn_executor_def
  proof (intro triple_pure)
    assume wo: "approved_order d wo" "wo_row wo = r"
    have "triple I (st_bind (on_world (dn_spawn d job wo)) (\<lambda>_. st_modify (\<lambda>s. s\<lparr>dr_spawned := dr_spawned s @ [(job, wo)]\<rparr>))) (\<lambda>_. J) I"
      by (rule triple_step) (auto intro!: triple_modify spawn wo)
    then show "triple I (st_bind (st_bind (on_world (dn_spawn d job wo)) (\<lambda>_. st_modify (\<lambda>s. s\<lparr>dr_spawned := dr_spawned s @ [(job, wo)]\<rparr>))) (\<lambda>_. st_return True)) (\<lambda>_. J) I"
      by (rule triple_bind) (auto intro: triple_return)
  qed
  show "triple I (st_bind (prepare_change_record d now r) (\<lambda>gated. case gated of
          None \<Rightarrow> st_return False
        | Some wo \<Rightarrow> st_bind (spawn_executor d job wo) (\<lambda>_. st_return True))) (\<lambda>_. J) I"
  proof (rule triple_bind [OF prepare_triple])
    fix gated
    show "triple (\<lambda>s. case gated of None \<Rightarrow> J s | Some wo \<Rightarrow> approved_order d wo \<and> wo_row wo = r \<and> I s) (case gated of
          None \<Rightarrow> st_return False
        | Some wo \<Rightarrow> st_bind (spawn_executor d job wo) (\<lambda>_. st_return True)) (\<lambda>_. J) I"
      using spawned by (cases gated) (auto intro: triple_return)
  qed
  show "triple I (st_bind (on_kb (fail_remediation (rr_id r) (''executor spawn failed: '' @ exn_text e) None now)) (\<lambda>_. st_return False)) (\<lambda>_. J) F" for e
    by (rule failure_None)
qed

end

text \<open>The approval of every new job is such an invariant, whatever the database does.\<close>

lemma new_orders_kb: "triple (new_orders_ok d old) (on_kb m) (\<lambda>_. new_orders_ok d old) (new_orders_ok d old)"
  by (auto simp: triple_def on_kb_def new_orders_ok_def split: prod.split sum.split)

interpretation orders: claim_rules d now r "new_orders_ok d old" "new_orders_ok d old" "new_orders_ok d old"
  for d :: "'w drain_env" and now r old
  by unfold_locales (auto simp: new_orders_ok_def intro: new_orders_kb)

lemma rounds_orders: "triple (new_orders_ok d old) (drain_rounds d now cap jobs skip n) (\<lambda>_. new_orders_ok d old) (new_orders_ok d old)"
proof (induction jobs arbitrary: skip n)
  case Nil
  show ?case by (auto intro: triple_return)
next
  case (Cons job jobs)
  let ?I = "new_orders_ok d old"
  have counted: "triple ?I (if cap \<ge> 0 then on_kb open_pr_count else st_return (cap - 1)) (\<lambda>_. ?I) ?I"
    by (auto intro: new_orders_kb triple_return)
  have claimed: "triple ?I (st_try (on_kb (claim_next job skip now)) (\<lambda>_. st_return None)) (\<lambda>_. ?I) ?I"
    by (rule triple_try [OF new_orders_kb]) (auto intro: triple_return)
  show ?case
  proof (simp only: drain_rounds.simps, rule triple_bind [OF counted])
    fix opened
    have "triple ?I (case work of None \<Rightarrow> st_return n
       | Some r \<Rightarrow> st_bind (drain_row d now job r) (\<lambda>spawned.
         if spawned then drain_rounds d now cap jobs skip (n + 1) else drain_rounds d now cap jobs (rr_id r # skip) n)) (\<lambda>_. ?I) ?I" for work
      using Cons.IH by (cases work) (auto intro!: triple_return triple_bind [OF orders.drain_row_triple])
    then show "triple ?I (if opened \<ge> cap then st_return n
     else st_bind (st_try (on_kb (claim_next job skip now)) (\<lambda>_. st_return None)) (\<lambda>work. case work of
       None \<Rightarrow> st_return n
     | Some r \<Rightarrow> st_bind (drain_row d now job r) (\<lambda>spawned.
         if spawned then drain_rounds d now cap jobs skip (n + 1) else drain_rounds d now cap jobs (rr_id r # skip) n))) (\<lambda>_. ?I) ?I"
      by (auto intro!: triple_return triple_bind [OF claimed])
  qed
qed

text \<open>A bind behind a pure step.\<close>

lemma triple_bind_lift: "(\<And>v. x = Inr v \<Longrightarrow> triple I (f v) Q I) \<Longrightarrow> triple I (st_bind (st_lift x) f) Q I"
  by (cases x) (auto simp: triple_def st_bind_def st_lift_def)

lemma drain_orders: "triple (new_orders_ok d old) (drain_queue d job now) (\<lambda>_. new_orders_ok d old) (new_orders_ok d old)"
  unfolding drain_queue_def by (auto intro!: triple_bind_lift triple_return rounds_orders)

lemma new_order_approved:
  assumes "drain_queue d job now s = (r, s')" "(name, wo) \<in> set (dr_spawned s')" "(name, wo) \<notin> set (dr_spawned s)"
  shows "approved_order d wo"
proof -
  have start: "new_orders_ok d (set (dr_spawned s)) s" by (simp add: new_orders_ok_def)
  have "new_orders_ok d (set (dr_spawned s)) s'"
    using tripleD [OF drain_orders [of d "set (dr_spawned s)" job now] start] assms(1) by (cases r) auto
  with assms(2,3) show ?thesis by (auto simp: new_orders_ok_def)
qed

text \<open>
  C1: Whatever the queue, the database, the recorder and the model answer, a tick of the drainer starts a job for a node
  action only if node actions are switched on, a change recorder is configured, the recorder named who approved the
  change, and the plan the job is given passes the gate under the allowlist in force.
\<close>

theorem node_jobs_are_approved:
  assumes "drain_queue d job now s = (r, s')" "(name, wo) \<in> set (dr_spawned s')" "(name, wo) \<notin> set (dr_spawned s)"
    "rr_class (wo_row wo) = ''node-action''"
  shows "remediation_flag d ''node_action_enabled'' = Inr True \<and> (\<exists>base. change_record_url d = Inr base \<and> base \<noteq> []) \<and>
    truthy (pget (wo_approval wo) ''identity'') \<and>
    (\<exists>plan allow. wo_plan wo = Some plan \<and> node_action_allowlist d = Inr allow \<and> plan_refusals (fst (snd plan)) allow = [])"
  using new_order_approved [OF assms(1-3)] assms(4) by (fastforce simp: approved_order_def)

section \<open>Leases and the cap\<close>

lemma open_pr_rows_filter: "open_pr_rows k = length (filter (\<lambda>r. rr_status r \<in> set pr_statuses) (kb_rows k))"
proof -
  have "sum_list (map (\<lambda>st. length (filter (\<lambda>r. rr_status r = st) xs)) pr_statuses) =
      length (filter (\<lambda>r. rr_status r \<in> set pr_statuses) xs)" for xs
    by (induction xs) (auto simp: pr_statuses_def)
  then show ?thesis by (simp add: open_pr_rows_def count_by_status_def)
qed

lemma length_filter_mono: "(\<And>x. x \<in> set xs \<Longrightarrow> Q (g x) \<Longrightarrow> Q x) \<Longrightarrow> length (filter Q (map g xs)) \<le> length (filter Q xs)"
  by (induction xs) (auto intro: le_SucI)

lemma length_filter_one:
  assumes "distinct (map k xs)" "\<And>x. x \<in> set xs \<Longrightarrow> k x \<noteq> i \<Longrightarrow> Q (g x) \<Longrightarrow> Q x"
  shows "length (filter Q (map g xs)) \<le> Suc (length (filter Q xs))"
  using assms
proof (induction xs)
  case (Cons x xs)
  show ?case
  proof (cases "k x = i")
    case True
    have "length (filter Q (map g xs)) \<le> length (filter Q xs)"
    proof (rule length_filter_mono)
      fix y assume y: "y \<in> set xs" "Q (g y)"
      then have "k y \<noteq> i" using True Cons.prems(1) by (force simp: image_iff)
      with y Cons.prems(2) show "Q y" by simp
    qed
    then show ?thesis by simp
  qed (use Cons in auto)
qed simp

lemma ids_ok_update: "(\<And>r. rr_id (f r) = rr_id r) \<Longrightarrow> ids_ok k \<Longrightarrow> ids_ok (alter_row i f k)"
proof -
  assume f: "\<And>r. rr_id (f r) = rr_id r" and k: "ids_ok k"
  have "map rr_id (kb_rows (alter_row i f k)) = map rr_id (kb_rows k)" by (simp add: alter_row_def f)
  with f k show ?thesis by (auto simp: ids_ok_def alter_row_def simp del: map_map)
qed

text \<open>
  A quiet state: the database is up, the open rows are within a bound if there is a cap, and every claimed row was claimed
  before or has its job. While a row is being handled, it is claimed besides.
\<close>

definition spawned_ids :: "'w drain_state \<Rightarrow> int set" where
  "spawned_ids s = (\<lambda>x. rr_id (wo_row (snd x))) ` set (dr_spawned s)"

definition calm :: "int \<Rightarrow> int \<Rightarrow> int set \<Rightarrow> 'w drain_state \<Rightarrow> bool" where
  "calm cap b c s = (kb_faults (dr_kb s) = [] \<and> ids_ok (dr_kb s) \<and> (0 \<le> cap \<longrightarrow> int (open_pr_rows (dr_kb s)) \<le> b) \<and>
     (\<forall>q \<in> set (kb_rows (dr_kb s)). rr_status q = ''claimed'' \<longrightarrow> rr_id q \<in> c \<union> spawned_ids s))"

definition holding :: "int \<Rightarrow> int \<Rightarrow> int set \<Rightarrow> int \<Rightarrow> 'w drain_state \<Rightarrow> bool" where
  "holding cap b c i s = ((\<exists>q. find_row i (dr_kb s) = Some q \<and> rr_status q = ''claimed'') \<and> calm cap b (insert i c) s)"

lemma rows_update:
  assumes "q \<in> set (kb_rows (alter_row i f k))" "\<And>r. rr_id (f r) = rr_id r"
  obtains p where "p \<in> set (kb_rows k)" "rr_id p = rr_id q" "q = (if rr_id p = i then f p else p)"
  using assms by (auto simp: alter_row_def split: if_splits)

lemma holding_alter:
  assumes "holding cap b c i s" "\<And>r. rr_id (f r) = rr_id r"
  shows "(\<And>r. rr_status (f r) = ''claimed'') \<Longrightarrow> holding cap b c i (s\<lparr>dr_kb := alter_row i f (dr_kb s)\<rparr>)"
    and "(\<And>r. rr_status (f r) \<noteq> ''claimed'') \<Longrightarrow> calm cap b c (s\<lparr>dr_kb := alter_row i f (dr_kb s)\<rparr>)"
proof -
  let ?k = "dr_kb s"
  obtain q where q: "find_row i ?k = Some q" "rr_status q = ''claimed''" using assms(1) by (auto simp: holding_def)
  have c: "kb_faults ?k = []" "ids_ok ?k" "0 \<le> cap \<longrightarrow> int (open_pr_rows ?k) \<le> b"
    "\<forall>p \<in> set (kb_rows ?k). rr_status p = ''claimed'' \<longrightarrow> rr_id p \<in> insert i c \<union> spawned_ids s"
    using assms(1) by (simp_all add: holding_def calm_def)
  have "p = q" if "p \<in> set (kb_rows ?k)" "rr_id p = i" for p
    using find_row_unique [OF c(2) that] q(1) by simp
  with q(2) have "length (filter (\<lambda>r. rr_status r \<in> set pr_statuses) (map (\<lambda>r. if rr_id r = i then f r else r) (kb_rows ?k))) \<le>
      length (filter (\<lambda>r. rr_status r \<in> set pr_statuses) (kb_rows ?k))"
    by (intro length_filter_mono) (auto simp: pr_statuses_def split: if_splits)
  then have "open_pr_rows (alter_row i f ?k) \<le> open_pr_rows ?k" by (simp add: open_pr_rows_filter alter_row_def)
  then have n: "0 \<le> cap \<longrightarrow> int (open_pr_rows (alter_row i f ?k)) \<le> b" using c(3) by linarith
  have ids: "ids_ok (alter_row i f ?k)" using assms(2) c(2) by (rule ids_ok_update)
  have row: "find_row i (alter_row i f ?k) = Some (f q)" using q(1) assms(2) by (simp add: find_row_update)
  have same: "spawned_ids (s\<lparr>dr_kb := k'\<rparr>) = spawned_ids s" for k' by (simp add: spawned_ids_def)
  have claimed: "rr_id p \<in> insert i c \<union> spawned_ids s" if "p \<in> set (kb_rows (alter_row i f ?k))" "rr_status p = ''claimed''" for p
    using that(1) assms(2) by (rule rows_update) (use c(4) that(2) in \<open>auto split: if_splits\<close>)
  show "holding cap b c i (s\<lparr>dr_kb := alter_row i f ?k\<rparr>)" if "\<And>r. rr_status (f r) = ''claimed''"
    using c(1) ids n row claimed that by (auto simp: holding_def calm_def same)
  show "calm cap b c (s\<lparr>dr_kb := alter_row i f ?k\<rparr>)" if f: "\<And>r. rr_status (f r) \<noteq> ''claimed''"
  proof -
    have "rr_id p \<in> c \<union> spawned_ids s" if p: "p \<in> set (kb_rows (alter_row i f ?k))" "rr_status p = ''claimed''" for p
      using p(1) assms(2) by (rule rows_update) (use f p(2) claimed [OF p] in \<open>auto split: if_splits\<close>)
    then show ?thesis using c(1) ids n by (simp add: calm_def same)
  qed
qed

text \<open>Each operation on the held row, with the database up.\<close>

lemma on_kb_update:
  assumes "kb_faults (dr_kb s) = []" "m = session b" "b (dr_kb s) = (r, k)"
  shows "on_kb m s = (r, s\<lparr>dr_kb := k\<rparr>)"
  using assms by (simp add: on_kb_def session_def)

lemma holding_release: "triple (holding cap b c i) (on_kb (release_claim i res err)) (\<lambda>_. calm cap b c) (\<lambda>_. False)"
proof (rule tripleI)
  fix s x s'
  assume h: "holding cap b c i s"
  then obtain q where "find_row i (dr_kb s) = Some q" "kb_faults (dr_kb s) = []" by (auto simp: holding_def calm_def)
  then have op: "on_kb (release_claim i res err) s = (Inr True, s\<lparr>dr_kb := alter_row i (released res err) (dr_kb s)\<rparr>)"
    by (simp add: on_kb_def release_claim_def session_def)
  have "calm cap b c (s\<lparr>dr_kb := alter_row i (released res err) (dr_kb s)\<rparr>)" by (rule holding_alter(2) [OF h]) simp_all
  then show "on_kb (release_claim i res err) s = (Inr x, s') \<Longrightarrow> calm cap b c s'" using op by auto
  show "on_kb (release_claim i res err) s = (Inl e, s') \<Longrightarrow> False" for e using op by simp
qed

lemma holding_fail: "triple (holding cap b c i :: 'w drain_state \<Rightarrow> bool) (on_kb (fail_remediation i err res now)) (\<lambda>_. calm cap b c) (\<lambda>_. False)"
proof (rule tripleI)
  fix s :: "'w drain_state" and x s'
  let ?f = "failed_row (qp_attempts (kb_policy (dr_kb s))) err res now"
  assume h: "holding cap b c i s"
  then obtain q where "find_row i (dr_kb s) = Some q" "kb_faults (dr_kb s) = []" by (auto simp: holding_def calm_def)
  then have op: "on_kb (fail_remediation i err res now) s = (Inr (rr_status (?f q)), s\<lparr>dr_kb := alter_row i ?f (dr_kb s)\<rparr>)"
    by (simp only: on_kb_def fail_remediation_def session_def list.case option.case prod.case)
  have "calm cap b c (s\<lparr>dr_kb := alter_row i ?f (dr_kb s)\<rparr>)" by (rule holding_alter(2) [OF h]) simp_all
  then show "on_kb (fail_remediation i err res now) s = (Inr x, s') \<Longrightarrow> calm cap b c s'" using op by auto
  show "on_kb (fail_remediation i err res now) s = (Inl e, s') \<Longrightarrow> False" for e using op by simp
qed

lemma holding_status:
  assumes "st \<in> set remediation_statuses"
  shows "st \<noteq> ''claimed'' \<Longrightarrow> triple (holding cap b c i :: 'w drain_state \<Rightarrow> bool) (on_kb (update_status i st u res err now)) (\<lambda>_. calm cap b c) (\<lambda>_. False)"
    and "st = ''claimed'' \<Longrightarrow> triple (holding cap b c i :: 'w drain_state \<Rightarrow> bool) (on_kb (update_status i st u res err now)) (\<lambda>_. holding cap b c i) (\<lambda>_. False)"
proof -
  have op: "on_kb (update_status i st u res err now) s = (Inr True, s\<lparr>dr_kb := alter_row i (set_status st u res err now) (dr_kb s)\<rparr>)"
    if "holding cap b c i s" for s :: "'w drain_state"
    using that assms by (auto simp: holding_def calm_def on_kb_def update_status_def session_def)
  show "triple (holding cap b c i :: 'w drain_state \<Rightarrow> bool) (on_kb (update_status i st u res err now)) (\<lambda>_. calm cap b c) (\<lambda>_. False)" if "st \<noteq> ''claimed''"
    by (rule tripleI) (use op holding_alter(2) [where f = "set_status st u res err now"] that in auto)
  show "triple (holding cap b c i :: 'w drain_state \<Rightarrow> bool) (on_kb (update_status i st u res err now)) (\<lambda>_. holding cap b c i) (\<lambda>_. False)" if "st = ''claimed''"
    by (rule tripleI) (use op holding_alter(1) [where f = "set_status st u res err now"] that in auto)
qed

interpretation claims: claim_rules d now r "holding cap b c (rr_id r)" "calm cap b c" "\<lambda>_. False"
  for d :: "'w drain_env" and now r cap b c
proof unfold_locales
  show "holding cap b c (rr_id r) s \<Longrightarrow> holding cap b c (rr_id r) (s\<lparr>dr_world := w\<rparr>)" for s :: "'w drain_state" and w
    by (simp add: holding_def calm_def spawned_ids_def)
  show "holding cap b c (rr_id r) s \<Longrightarrow> approved_order d wo \<Longrightarrow> wo_row wo = r \<Longrightarrow> calm cap b c (s\<lparr>dr_spawned := dr_spawned s @ [(job, wo)]\<rparr>)"
    for s :: "'w drain_state" and job wo
    by (auto simp: holding_def calm_def spawned_ids_def)
qed (auto intro: holding_release holding_fail holding_status simp: remediation_statuses_def)

text \<open>A claim below the cap, and the rounds of a tick.\<close>

lemma claim_holds:
  assumes s: "calm cap b c s" and room: "0 \<le> cap \<longrightarrow> int (open_pr_rows (dr_kb s)) < cap \<and> cap \<le> b"
    and claim: "on_kb (claim_next job skip now) s = (r, s')"
  shows "case r of Inr None \<Rightarrow> calm cap b c s' | Inr (Some w) \<Rightarrow> holding cap b c (rr_id w) s' | Inl e \<Rightarrow> False"
proof -
  let ?k = "dr_kb s"
  have up: "kb_faults ?k = []" "ids_ok ?k" using s by (simp_all add: calm_def)
  have r: "on_kb (claim_next job skip now) s = (case first_queued skip ?k of None \<Rightarrow> (Inr None, s)
      | Some q \<Rightarrow> (Inr (Some (claim_row job now q)), s\<lparr>dr_kb := alter_row (rr_id q) (claim_row job now) ?k\<rparr>))"
    using up(1) by (simp add: on_kb_def claim_next_def session_def split: option.split)
  show ?thesis
  proof (cases "first_queued skip ?k")
    case None
    with r claim s show ?thesis by auto
  next
    case (Some q)
    let ?i = "rr_id q" and ?g = "\<lambda>r. if rr_id r = rr_id q then claim_row job now r else r"
    have q: "find_row ?i ?k = Some q" using first_queued_Some [OF Some] up(2) by (auto intro: find_row_unique)
    have "length (filter (\<lambda>r. rr_status r \<in> set pr_statuses) (map ?g (kb_rows ?k))) \<le> Suc (open_pr_rows ?k)"
      unfolding open_pr_rows_filter by (rule length_filter_one [where k = rr_id and i = ?i]) (use up(2) in \<open>auto simp: ids_ok_def\<close>)
    then have "open_pr_rows (alter_row ?i (claim_row job now) ?k) \<le> Suc (open_pr_rows ?k)"
      by (simp add: open_pr_rows_filter alter_row_def)
    then have n: "0 \<le> cap \<longrightarrow> int (open_pr_rows (alter_row ?i (claim_row job now) ?k)) \<le> b" using room by linarith
    have row: "find_row ?i (alter_row ?i (claim_row job now) ?k) = Some (claim_row job now q)" using q by (simp add: find_row_update)
    have old: "\<forall>p \<in> set (kb_rows ?k). rr_status p = ''claimed'' \<longrightarrow> rr_id p \<in> c \<union> spawned_ids s" using s unfolding calm_def by blast
    have claimed: "rr_id p \<in> insert ?i c \<union> spawned_ids s"
      if "p \<in> set (kb_rows (alter_row ?i (claim_row job now) ?k))" "rr_status p = ''claimed''" for p
    proof -
      from that(1) claim_row_fields(1) obtain p' where p': "p' \<in> set (kb_rows ?k)" "rr_id p' = rr_id p"
        "p = (if rr_id p' = ?i then claim_row job now p' else p')" by (rule rows_update)
      show ?thesis
      proof (cases "rr_id p = ?i")
        case False
        then have "rr_id p' \<noteq> ?i" by (simp only: p'(2) not_False_eq_True)
        then have "p = p'" using p'(3) by (simp only: if_False)
        with old p'(1) that(2) show ?thesis by blast
      qed simp
    qed
    have "holding cap b c ?i (s\<lparr>dr_kb := alter_row ?i (claim_row job now) ?k\<rparr>)"
    proof -
      have "ids_ok (alter_row ?i (claim_row job now) ?k)" by (rule ids_ok_update [OF claim_row_fields(1) up(2)])
      moreover have "spawned_ids (s\<lparr>dr_kb := k'\<rparr>) = spawned_ids s" for k' by (simp add: spawned_ids_def)
      ultimately have "calm cap b (insert ?i c) (s\<lparr>dr_kb := alter_row ?i (claim_row job now) ?k\<rparr>)"
        unfolding calm_def using up(1) n claimed by (simp only:) auto
      with row show ?thesis by (simp add: holding_def)
    qed
    moreover have "r = Inr (Some (claim_row job now q))" "s' = s\<lparr>dr_kb := alter_row ?i (claim_row job now) ?k\<rparr>"
      using r claim Some by simp_all
    ultimately show ?thesis by simp
  qed
qed

lemma rounds_calm:
  assumes "0 \<le> cap \<longrightarrow> cap \<le> b"
  shows "triple (calm cap b c :: 'w drain_state \<Rightarrow> bool) (drain_rounds d now cap jobs skip n) (\<lambda>k s. calm cap b c s \<and> k \<le> n + length jobs) (\<lambda>_. False)"
proof (induction jobs arbitrary: skip n)
  case Nil
  show ?case by (auto intro: triple_return)
next
  case (Cons job jobs)
  have counted: "triple (calm cap b c :: 'w drain_state \<Rightarrow> bool) (if cap \<ge> 0 then on_kb open_pr_count else st_return (cap - 1))
     (\<lambda>opened s. calm cap b c s \<and> (0 \<le> cap \<longrightarrow> opened = int (open_pr_rows (dr_kb s)))) (\<lambda>_. False)"
    by (rule tripleI) (auto simp: calm_def on_kb_def open_pr_count_def st_try_def session_def st_return_def split: if_splits)
  have claimed: "triple (\<lambda>s :: 'w drain_state. calm cap b c s \<and> (0 \<le> cap \<longrightarrow> int (open_pr_rows (dr_kb s)) < cap)) (st_try (on_kb (claim_next job skip now)) (\<lambda>_. st_return None))
     (\<lambda>work s. case work of None \<Rightarrow> calm cap b c s | Some w \<Rightarrow> holding cap b c (rr_id w) s) (\<lambda>_. False)"
  proof (rule triple_try)
    show "triple (\<lambda>s :: 'w drain_state. calm cap b c s \<and> (0 \<le> cap \<longrightarrow> int (open_pr_rows (dr_kb s)) < cap)) (on_kb (claim_next job skip now))
       (\<lambda>work s. case work of None \<Rightarrow> calm cap b c s | Some w \<Rightarrow> holding cap b c (rr_id w) s) (\<lambda>_. False)"
    proof (rule tripleI)
      fix s :: "'w drain_state" and s'
      assume s: "calm cap b c s \<and> (0 \<le> cap \<longrightarrow> int (open_pr_rows (dr_kb s)) < cap)"
      then have room: "0 \<le> cap \<longrightarrow> int (open_pr_rows (dr_kb s)) < cap \<and> cap \<le> b" using assms by simp
      note rule = claim_holds [OF conjunct1 [OF s] room, of job skip now]
      show "on_kb (claim_next job skip now) s = (Inr work, s') \<Longrightarrow> case work of None \<Rightarrow> calm cap b c s' | Some w \<Rightarrow> holding cap b c (rr_id w) s'" for work
        using rule [of "Inr work" s'] by (auto split: option.splits)
      show "on_kb (claim_next job skip now) s = (Inl e, s') \<Longrightarrow> False" for e
        using rule [of "Inl e" s'] by simp
    qed
    show "triple (\<lambda>_. False) (st_return None) (\<lambda>work (s :: 'w drain_state). case work of None \<Rightarrow> calm cap b c s | Some w \<Rightarrow> holding cap b c (rr_id w) s) (\<lambda>_. False)"
      by (rule triple_False)
  qed
  have IH: "triple (calm cap b c) (drain_rounds d now cap jobs skip m) (\<lambda>k s. calm cap b c s \<and> k \<le> n + length (job # jobs)) (\<lambda>_. False)"
    if "m \<le> Suc n" for skip m
    by (rule triple_conseq [OF Cons.IH]) (use that in auto)
  show ?case
  proof (simp only: drain_rounds.simps, rule triple_bind [OF counted])
    fix opened
    let ?next = "\<lambda>work. case work of None \<Rightarrow> st_return n
       | Some r \<Rightarrow> st_bind (drain_row d now job r) (\<lambda>spawned.
         if spawned then drain_rounds d now cap jobs skip (n + 1) else drain_rounds d now cap jobs (rr_id r # skip) n)"
    have after: "triple (\<lambda>s. case work of None \<Rightarrow> calm cap b c s | Some w \<Rightarrow> holding cap b c (rr_id w) s) (?next work)
        (\<lambda>k s. calm cap b c s \<and> k \<le> n + length (job # jobs)) (\<lambda>_. False)" for work
      using IH by (cases work) (auto intro!: triple_return triple_bind [OF claims.drain_row_triple] simp del: list.size)
    show "triple (\<lambda>s. calm cap b c s \<and> (0 \<le> cap \<longrightarrow> opened = int (open_pr_rows (dr_kb s)))) (if opened \<ge> cap then st_return n
     else st_bind (st_try (on_kb (claim_next job skip now)) (\<lambda>_. st_return None)) ?next) (\<lambda>k s. calm cap b c s \<and> k \<le> n + length (job # jobs)) (\<lambda>_. False)"
    proof (cases "opened \<ge> cap")
      case True
      then show ?thesis by (auto intro: triple_return)
    next
      case False
      then show ?thesis
        by (simp only: if_False, intro triple_conseq [OF triple_bind [OF claimed after]]) auto
    qed
  qed
qed

lemma drain_calm:
  assumes "as_dict (remediation_config d) = Inr rcfg" "py_int (pget_or rcfg ''max_open_prs'' (PInt 3)) = Inr cap" "0 \<le> cap \<longrightarrow> cap \<le> b"
    "calm cap b c s" "drain_queue d job now s = (r, s')"
  shows "calm cap b c s'"
proof -
  have rounds: "triple (calm cap b c) (drain_rounds d now cap jobs [] 0) (\<lambda>_. calm cap b c) (calm cap b c)" for jobs
    by (rule triple_conseq [OF rounds_calm [OF assms(3)]]) auto
  have "triple (calm cap b c) (drain_queue d job now) (\<lambda>_. calm cap b c) (calm cap b c)"
    unfolding drain_queue_def assms(1,2)
    by (intro triple_bind_lift) (auto intro!: triple_return triple_bind_lift rounds simp: assms(2))
  from tripleD [OF this assms(4)] assms(5) show ?thesis by (cases r) auto
qed

text \<open>
  C13: While the database answers, a tick never leaves more rows open - claimed, executing, or with their pull request not
  merged - than the cap, or than there were before, however many rows it handles.
\<close>

theorem open_requests_capped:
  assumes "as_dict (remediation_config d) = Inr rcfg" "py_int (pget_or rcfg ''max_open_prs'' (PInt 3)) = Inr cap" "0 \<le> cap"
    "kb_faults (dr_kb s) = []" "ids_ok (dr_kb s)" "drain_queue d job now s = (r, s')"
  shows "int (open_pr_rows (dr_kb s')) \<le> max cap (int (open_pr_rows (dr_kb s)))"
proof -
  have "calm cap (max cap (int (open_pr_rows (dr_kb s)))) UNIV s" using assms(4,5) by (simp add: calm_def)
  from drain_calm [OF assms(1,2) _ this assms(6)] show ?thesis using assms(3) by (simp add: calm_def)
qed

text \<open>
  C12: While the database answers, a tick leaves no claim behind without a job: a row that is claimed afterwards was claimed
  before, or a job was started for it. Whatever the gate, the recorder, the model or the cluster did, every other row
  it took is queued again, for a person, or failed.
\<close>

theorem claims_have_jobs:
  assumes "as_dict (remediation_config d) = Inr rcfg" "py_int (pget_or rcfg ''max_open_prs'' (PInt 3)) = Inr cap"
    "kb_faults (dr_kb s) = []" "ids_ok (dr_kb s)" "drain_queue d job now s = (r, s')"
    "q \<in> set (kb_rows (dr_kb s'))" "rr_status q = ''claimed''"
  shows "(\<exists>p \<in> set (kb_rows (dr_kb s)). rr_id p = rr_id q \<and> rr_status p = ''claimed'') \<or>
    (\<exists>(name, wo) \<in> set (dr_spawned s'). rr_id (wo_row wo) = rr_id q)"
proof -
  let ?c = "rr_id ` {p \<in> set (kb_rows (dr_kb s)). rr_status p = ''claimed''}"
  have "calm cap (max cap (int (open_pr_rows (dr_kb s)))) ?c s" using assms(3,4) by (auto simp: calm_def)
  from drain_calm [OF assms(1,2) _ this assms(5)] assms(6,7) show ?thesis
    by (fastforce simp: calm_def spawned_ids_def)
qed

section \<open>A tick evaluated\<close>

definition drain_sample :: "unit drain_env" where
  "drain_sample = \<lparr>dn_config = PDict [(''remediation'', PDict [(''queue_drain'', PBool True), (''queue_feed'', PBool True), (''max_open_prs'', PInt 1),
       (''executor'', PDict [(''node_action'', PDict [(''enabled'', PBool True), (''allow_binaries'', PList [PStr ''uptime'']),
         (''change_record'', PDict [(''url'', PStr ''http://cr/'')])])])])],
     dn_setting = (\<lambda>_. Inr (Some [])), dn_env = [],
     dn_request = (\<lambda>verb url body w. (Inr (True, 200, PDict (if verb = ''POST'' then [(''ref'', PStr ''r1''), (''approval'', PDict [])] else [(''identity'', PStr ''ann'')])), w)),
     dn_plan_reply = (\<lambda>r allow w. (Inr [], w)), dn_loads = (\<lambda>_. value_error []), dn_spawn = (\<lambda>job wo w. (Inr (), w))\<rparr>"

definition node_queue :: kb_state where
  "node_queue = snd (queue_remediation ''node-action'' [(''plan'', PDict [(''commands'', PList [PStr ''uptime''])])] None ''web'' ''low''
     (Some (FDec 9 (-1))) 50 None None 7 \<lparr>kb_rows = [], kb_next = 1, kb_policy = default_policy, kb_faults = []\<rparr>)"

definition sample_tick :: "nat res \<times> unit drain_state" where
  "sample_tick = drain_queue drain_sample (\<lambda>n. ''job'') 9 \<lparr>dr_kb = node_queue, dr_world = (), dr_spawned = []\<rparr>"

theorem node_jobs_are_approved_witness:
  "let wo = snd (hd (dr_spawned (snd sample_tick)))
   in rr_class (wo_row wo) = ''node-action'' \<and> truthy (pget (wo_approval wo) ''identity'')"
proof -
  let ?x = "hd (dr_spawned (snd sample_tick))"
  have tick: "drain_queue drain_sample (\<lambda>n. ''job'') 9 \<lparr>dr_kb = node_queue, dr_world = (), dr_spawned = []\<rparr> = (fst sample_tick, snd sample_tick)"
    by (simp add: sample_tick_def)
  have "dr_spawned (snd sample_tick) \<noteq> []" by code_simp
  then have new: "(fst ?x, snd ?x) \<in> set (dr_spawned (snd sample_tick))" by simp
  have node: "rr_class (wo_row (snd ?x)) = ''node-action''" by code_simp
  from node_jobs_are_approved [OF tick new _ node] node show ?thesis by (simp add: Let_def)
qed

theorem open_requests_capped_witness: "int (open_pr_rows (dr_kb (snd sample_tick))) \<le> 1"
proof -
  let ?s = "\<lparr>dr_kb = node_queue, dr_world = (), dr_spawned = []\<rparr>"
  obtain rcfg where rcfg: "as_dict (remediation_config drain_sample) = Inr rcfg" "pget_or rcfg ''max_open_prs'' (PInt 3) = PInt 1"
    by (simp add: remediation_config_def drain_sample_def pget_or_def)
  have tick: "drain_queue drain_sample (\<lambda>n. ''job'') 9 ?s = (fst sample_tick, snd sample_tick)" by (simp add: sample_tick_def)
  have k: "kb_faults node_queue = []" "ids_ok node_queue" "open_pr_rows node_queue = 0" by code_simp+
  have "py_int (pget_or rcfg ''max_open_prs'' (PInt 3)) = Inr 1" by (simp add: rcfg(2))
  from open_requests_capped [OF rcfg(1) this _ _ _ tick] show ?thesis by (simp add: k)
qed

theorem claims_have_jobs_witness:
  "let q = hd (kb_rows (dr_kb (snd sample_tick)))
   in rr_status q = ''claimed'' \<and> (\<exists>(name, wo) \<in> set (dr_spawned (snd sample_tick)). rr_id (wo_row wo) = rr_id q)"
proof -
  let ?s = "\<lparr>dr_kb = node_queue, dr_world = (), dr_spawned = []\<rparr>" and ?q = "hd (kb_rows (dr_kb (snd sample_tick)))"
  obtain rcfg where rcfg: "as_dict (remediation_config drain_sample) = Inr rcfg" "pget_or rcfg ''max_open_prs'' (PInt 3) = PInt 1"
    by (simp add: remediation_config_def drain_sample_def pget_or_def)
  have tick: "drain_queue drain_sample (\<lambda>n. ''job'') 9 ?s = (fst sample_tick, snd sample_tick)" by (simp add: sample_tick_def)
  have k: "kb_faults node_queue = []" "ids_ok node_queue" "\<forall>p \<in> set (kb_rows node_queue). rr_status p \<noteq> ''claimed''" by code_simp+
  have "kb_rows (dr_kb (snd sample_tick)) \<noteq> []" "rr_status ?q = ''claimed''" by code_simp+
  then have q: "?q \<in> set (kb_rows (dr_kb (snd sample_tick)))" "rr_status ?q = ''claimed''" by simp_all
  have "py_int (pget_or rcfg ''max_open_prs'' (PInt 3)) = Inr 1" by (simp add: rcfg(2))
  from claims_have_jobs [OF rcfg(1) this _ _ tick q] k q(2) show ?thesis by (auto simp: Let_def)
qed

section \<open>Pull requests that were merged or closed\<close>

fun slashless :: "string \<Rightarrow> string \<times> string" where
  "slashless [] = ([], [])"
| "slashless (c # s) = (if c = CHR ''/'' then ([], c # s) else (let (a, b) = slashless s in (c # a, b)))"

text \<open>\<open>github\.com/([^/]+/[^/]+)/pull/(\d+)\<close> at one place, and at the first where it matches.\<close>

definition pr_url_at :: "string \<Rightarrow> (string \<times> nat) option" where
  "pr_url_at s = (let (owner, r1) = slashless (drop 11 s); (repo, r2) = slashless (drop 1 r1); n = takeWhile is_digit (drop 6 r2)
     in if starts_with s ''github.com/'' \<and> owner \<noteq> [] \<and> repo \<noteq> [] \<and> r1 \<noteq> [] \<and> starts_with r2 ''/pull/'' \<and> n \<noteq> []
        then Some (owner @ ''/'' @ repo, digits_val n) else None)"

fun parse_pr_url :: "string \<Rightarrow> (string \<times> nat) option" where
  "parse_pr_url [] = None"
| "parse_pr_url (c # s) = (case pr_url_at (c # s) of Some x \<Rightarrow> Some x | None \<Rightarrow> parse_pr_url s)"

definition rows_with_status :: "string \<Rightarrow> (kb_state, rem_row list) op" where
  "rows_with_status status = session (\<lambda>s. (Inr (take 50 (sort_key rr_created (filter (\<lambda>r. rr_status r = status) (kb_rows s)))), s))"

text \<open>
  The client of GitHub: the success of a request for a pull request and its data. The investigation that checks a merged
  fix is enqueued by the last argument, whose exceptions are swallowed.
\<close>

definition reconcile_row :: "(string \<Rightarrow> nat \<Rightarrow> ('w, bool \<times> pyval) op) \<Rightarrow> (rem_row \<Rightarrow> ('w, unit) op) \<Rightarrow> int \<Rightarrow> rem_row \<Rightarrow> ('w drain_state, nat) op" where
  "reconcile_row github verify now r = (case parse_pr_url (case rr_pr r of None \<Rightarrow> [] | Some u \<Rightarrow> u) of
     None \<Rightarrow> st_return 0
   | Some (repo, number) \<Rightarrow> st_bind (on_world (github repo number)) (\<lambda>(ok, data).
       if \<not> ok then st_return 0
       else st_bind (st_lift (as_dict (por data (PDict [])))) (\<lambda>d.
         if truthy (pget d ''merged'') then
           st_bind (on_kb (update_status (rr_id r) ''resolved'' None (Some [(''pr_merged'', PBool True)]) None now)) (\<lambda>_.
           st_bind (st_try (on_world (verify r)) (\<lambda>_. st_return ())) (\<lambda>_. st_return 1))
         else if pget d ''state'' = PStr ''closed'' then
           st_bind (on_kb (update_status (rr_id r) ''rejected'' None None (Some ''PR closed without merge'') now)) (\<lambda>_. st_return 1)
         else st_return 0)))"

definition reconcile_prs :: "'w drain_env \<Rightarrow> bool \<Rightarrow> (string \<Rightarrow> nat \<Rightarrow> ('w, bool \<times> pyval) op) \<Rightarrow> (rem_row \<Rightarrow> ('w, unit) op) \<Rightarrow> int \<Rightarrow> ('w drain_state, nat) op" where
  "reconcile_prs d token github verify now =
     st_bind (st_lift (remediation_flag d ''queue_verify'')) (\<lambda>on. if \<not> on then st_return 0
     else st_bind (st_try (on_kb (rows_with_status ''pr-open'')) (\<lambda>_. st_return [])) (\<lambda>rows.
       if \<not> token then st_return 0
       else st_fold (\<lambda>r n. st_bind (reconcile_row github verify now r) (\<lambda>k. st_return (n + k))) rows 0))"

section \<open>Commands confirmed in the console\<close>

record confirmed_command =
  cc_tool :: string
  cc_host :: string
  cc_command :: string
  cc_reason :: string
  cc_approver :: string
  cc_decided :: string
  cc_session :: pyval

definition nothing_ran :: "confirmed_command \<Rightarrow> string \<Rightarrow> pydict" where
  "nothing_ran c msg = [(''success'', PBool False), (''error'', PStr (msg @ '' Nothing ran.'')), (''tool'', PStr (cc_tool c)),
     (''host'', PStr (cc_host c)), (''command'', PStr (cc_command c))]"

definition console_approval :: "confirmed_command \<Rightarrow> pydict" where
  "console_approval c = [(''identity'', PStr (cc_approver c)), (''timestamp'', PStr (cc_decided c)), (''state'', PStr ''console-confirmed''),
     (''via'', PStr ''console-chat''), (''chat_session_id'', cc_session c), (''reason'', PStr (cc_reason c))]"

text \<open>The address of the host in the inventory.\<close>

definition inventory_address :: "'w drain_env \<Rightarrow> string \<Rightarrow> string res" where
  "inventory_address d host = (case dn_config d of
     PDict c \<Rightarrow> bind_res (as_dict (por (pget c ''infrastructure'') (PDict []))) (\<lambda>infra.
       (case por (pget infra ''hosts'') (PDict []) of
          PDict hosts \<Rightarrow> bind_res (as_dict (por (pget hosts host) (PDict []))) (\<lambda>h. Inr (str_strip (py_str (por (pget h ''address'') (PStr [])))))
        | _ \<Rightarrow> Inr []))
   | _ \<Rightarrow> Inr [])"

definition console_plan :: "confirmed_command \<Rightarrow> plan" where
  "console_plan c = (cc_host c, [cc_command c], ''Confirmed in the console chat by '' @ cc_approver c)"

definition console_plan_dict :: "confirmed_command \<Rightarrow> string \<Rightarrow> pydict" where
  "console_plan_dict c address = plan_dict (console_plan c) @ (if address = [] then [] else [(''address'', PStr address)])"

definition console_context :: "confirmed_command \<Rightarrow> string" where
  "console_context c = ''Confirmed by '' @ cc_approver c @ '' in the console chat ('' @ cc_tool c @ ''); no investigation ran for this row.''"

definition console_payload :: "confirmed_command \<Rightarrow> string \<Rightarrow> pydict" where
  "console_payload c address =
     [(''source'', PStr confirmed_source), (''recommendation'', PStr (''Run on '' @ cc_host c @ '': '' @ cc_command c)),
      (''rendered_context'', PStr (console_context c)), (''target'', PDict [(''host'', PStr (cc_host c))]),
      (''plan'', PDict (console_plan_dict c address)), (''confirmed_by'', PStr (cc_approver c)), (''confirmed_at'', PStr (cc_decided c)),
      (''chat_session_id'', cc_session c), (''tool'', PStr (cc_tool c)), (''classifier_reason'', PStr (cc_reason c))]"

definition console_intent :: "confirmed_command \<Rightarrow> int \<Rightarrow> string \<Rightarrow> string \<Rightarrow> pydict" where
  "console_intent c rid base img =
     [(''remediation_id'', PInt rid), (''investigation_id'', PNone), (''host'', PStr (cc_host c)), (''commands'', PList [PStr (cc_command c)]),
      (''justification'', PStr (console_context c)), (''image'', PStr img),
      (''flag_snapshot'', PDict [(''node_action.enabled'', PBool True), (''change_record.url'', PStr base), (''origin'', PStr confirmed_source)]),
      (''risk'', PStr ''high''), (''confidence'', PNone), (''approval'', PDict (console_approval c))]"

definition console_order :: "confirmed_command \<Rightarrow> string \<Rightarrow> int \<Rightarrow> string \<Rightarrow> int \<Rightarrow> pydict \<Rightarrow> work_order" where
  "console_order c job rid address now opened =
     \<lparr>wo_row = \<lparr>rr_id = rid, rr_investigation = None, rr_host = cc_host c, rr_class = ''node-action'', rr_risk = ''high'', rr_confidence = None,
        rr_status = ''claimed'', rr_priority = 1, rr_attempts = 0, rr_payload = console_payload c address, rr_result = None, rr_pr = None,
        rr_job = Some job, rr_error = None, rr_created = now, rr_claimed = Some now, rr_completed = None\<rparr>,
      wo_ref = py_str (pget opened ''ref''), wo_url = pget opened ''url'', wo_approval = console_approval c, wo_plan = Some (console_plan c),
      wo_address = address, wo_origin = Some confirmed_source\<rparr>"

definition fail_confirmed :: "confirmed_command \<Rightarrow> int \<Rightarrow> int \<Rightarrow> string \<Rightarrow> ('w drain_state, pydict) op" where
  "fail_confirmed c rid now msg =
     st_bind (st_try (on_kb (update_status rid ''failed'' None None (Some msg) now)) (\<lambda>_. st_return False))
       (\<lambda>_. st_return (nothing_ran c msg @ [(''remediation_id'', PInt rid)]))"

text \<open>What is answered once the job's row reached an outcome, or when nobody waits for it any longer.\<close>

definition run_report :: "confirmed_command \<Rightarrow> int \<Rightarrow> pyval \<Rightarrow> pydict option \<Rightarrow> pydict" where
  "run_report c rid url row = (case row of
     None \<Rightarrow> [(''success'', PNone), (''pending'', PBool True), (''remediation_id'', PInt rid), (''host'', PStr (cc_host c)), (''command'', PStr (cc_command c)),
       (''change_record_url'', url), (''confirmed_by'', PStr (cc_approver c))]
   | Some r \<Rightarrow> (let executed = (case pget (dict_or_empty (pget r ''result'')) ''executed'' of PList xs \<Rightarrow> xs | _ \<Rightarrow> []);
                  final = (if executed = [] then [] else dict_or_empty (last executed))
       in [(''success'', PBool (pget r ''status'' = PStr ''resolved'')), (''status'', pget r ''status''), (''host'', PStr (cc_host c)),
           (''command'', PStr (cc_command c)), (''exit_code'', pget final ''returncode''), (''stdout'', pget_or final ''stdout'' (PStr [])),
           (''stderr'', pget_or final ''stderr'' (PStr [])), (''detail'', por (pget r ''last_error'') (PStr [])), (''remediation_id'', PInt rid),
           (''change_record_url'', url), (''confirmed_by'', PStr (cc_approver c)),
           (''ran_as'', PStr ''the write identity, through an executor Job'')]))"

text \<open>The command with its row: the record opened as approved, the job, and what the wait for the row brought.\<close>

definition run_recorded :: "'w drain_env \<Rightarrow> string \<Rightarrow> int \<Rightarrow> (int \<Rightarrow> pydict option) \<Rightarrow> confirmed_command \<Rightarrow> string \<Rightarrow> string \<Rightarrow> int \<Rightarrow> ('w drain_state, pydict) op" where
  "run_recorded d job now waited c base address rid =
     st_bind (st_lift (executor_config d)) (\<lambda>ec.
     st_bind (on_world (open_record d base (console_intent c rid base (executor_image d ec)))) (\<lambda>answer. case answer of
       Inl e \<Rightarrow> fail_confirmed c rid now (''The change record could not be opened ('' @ snd e @ '').'')
     | Inr opened \<Rightarrow>
         if \<not> is_pdict (pget opened ''approval'') then
           fail_confirmed c rid now (''The change recorder does not record pre-approved commands (it opened a review instead: '' @
             py_str (por (pget opened ''url'') (PStr ''no url'')) @ ''); update cfop-changerecord and close that PR.'')
         else
           st_bind (st_try (on_kb (update_status rid ''claimed'' None (Some [(''change_record'', PDict [(''ref'', PStr (py_str (pget opened ''ref''))),
               (''url'', pget opened ''url''), (''plan'', PDict (console_plan_dict c address)), (''approval'', PDict (console_approval c))])]) None now))
             (\<lambda>_. st_return False)) (\<lambda>_.
           st_bind (st_try (st_bind (spawn_executor d job (console_order c job rid address now opened)) (\<lambda>_. st_return None)) (\<lambda>e. st_return (Some (exn_text e))))
             (\<lambda>failed. case failed of
                Some why \<Rightarrow> fail_confirmed c rid now (''The executor Job could not be started ('' @ why @ '').'')
              | None \<Rightarrow> st_return (run_report c rid (pget opened ''url'') (waited rid))))))"

text \<open>Recording comes first; a failure to record leaves nothing to run.\<close>

definition run_confirmed_host_command :: "'w drain_env \<Rightarrow> string \<Rightarrow> int \<Rightarrow> (int \<Rightarrow> pydict option) \<Rightarrow> confirmed_command \<Rightarrow> ('w drain_state, pydict) op" where
  "run_confirmed_host_command d job now waited c =
     st_bind (st_lift (remediation_flag d ''node_action_enabled'')) (\<lambda>enabled.
     if \<not> enabled then st_return (nothing_ran c ''Node-action execution is switched off (Remediations -> flags), so a confirmed host command has nowhere to run.'')
     else st_bind (st_lift (change_record_url d)) (\<lambda>base.
       if base = [] then st_return (nothing_ran c (''No change recorder is configured, and a host write is recorded before it runs '' @
         ''(remediation.executor.node_action.change_record.url).''))
       else st_bind (st_lift (inventory_address d (cc_host c))) (\<lambda>address.
         st_bind (st_try (st_bind (on_kb (queue_confirmed_host_command (console_payload c address) job (cc_host c) now)) (\<lambda>rid. st_return (Inr rid)))
             (\<lambda>e. st_return (Inl (exn_text e))))
           (\<lambda>recorded. case recorded of
              Inl why \<Rightarrow> st_return (nothing_ran c (''The command could not be recorded ('' @ why @ '').''))
            | Inr rid \<Rightarrow> run_recorded d job now waited c base address rid))))"

text \<open>Jobs started by an operation.\<close>

lemma spawned_kb: "triple (\<lambda>s. dr_spawned s = old) (on_kb m) (\<lambda>_ s. dr_spawned s = old) (\<lambda>s. dr_spawned s = old)"
  by (auto simp: triple_def on_kb_def split: prod.split sum.split)

lemma spawned_world: "triple (\<lambda>s. dr_spawned s = old) (on_world m) (\<lambda>_ s. dr_spawned s = old) (\<lambda>s. dr_spawned s = old)"
  by (auto simp: triple_def on_world_def split: prod.split sum.split)

text \<open>
  The answer of a confirmed command: it says that nothing ran, and no job was started, or it is the report on the one job, that
  holds this command for this host with the approval of the named admin.
\<close>

definition honest_answer :: "(string \<times> work_order) list \<Rightarrow> string \<Rightarrow> confirmed_command \<Rightarrow> pydict \<Rightarrow> 'w drain_state \<Rightarrow> bool" where
  "honest_answer old job c out s =
     (if has_key out ''error'' then dr_spawned s = old \<and> pget out ''success'' = PBool False
      else \<exists>wo. dr_spawned s = old @ [(job, wo)] \<and> wo_plan wo = Some (console_plan c) \<and> wo_approval wo = console_approval c \<and>
        wo_origin wo = Some confirmed_source \<and> pget out ''remediation_id'' = PInt (rr_id (wo_row wo)))"

lemma nothing_ran_honest: "dr_spawned s = old \<Longrightarrow> honest_answer old job c (nothing_ran c msg @ extra) s"
  by (simp add: honest_answer_def nothing_ran_def has_key_def)

lemma run_report_honest:
  "dr_spawned s = old @ [(job, console_order c job rid address now opened)] \<Longrightarrow> honest_answer old job c (run_report c rid url row) s"
  by (auto simp: honest_answer_def run_report_def has_key_def console_order_def Let_def split: option.split)

lemma fail_confirmed_triple:
  "triple (\<lambda>s. dr_spawned s = old) (fail_confirmed c rid now msg) (honest_answer old job c) (\<lambda>s. dr_spawned s = old)"
  unfolding fail_confirmed_def
  by (rule triple_bind [OF triple_try [OF spawned_kb]]) (auto intro!: triple_return nothing_ran_honest)

lemma run_recorded_triple:
  "triple (\<lambda>s. dr_spawned s = old) (run_recorded d job now waited c base address rid) (honest_answer old job c) (\<lambda>s. dr_spawned s = old)"
  unfolding run_recorded_def
proof (rule triple_bind_lift, rule triple_bind [OF spawned_world])
  fix ec answer
  let ?old = "\<lambda>s. dr_spawned s = old"
  have spawn: "triple ?old (st_try (st_bind (spawn_executor d job wo) (\<lambda>_. st_return None)) (\<lambda>e. st_return (Some (exn_text e))))
      (\<lambda>x s. case x of Some _ \<Rightarrow> dr_spawned s = old | None \<Rightarrow> dr_spawned s = old @ [(job, wo)]) ?old" for wo
    unfolding spawn_executor_def
  proof (rule triple_try [where R = ?old])
    have "triple ?old (st_bind (on_world (dn_spawn d job wo)) (\<lambda>_. st_modify (\<lambda>s. s\<lparr>dr_spawned := dr_spawned s @ [(job, wo)]\<rparr>)))
        (\<lambda>_ s. dr_spawned s = old @ [(job, wo)]) ?old"
      by (rule triple_bind [OF spawned_world]) (auto intro: triple_modify)
    then show "triple ?old (st_bind (st_bind (on_world (dn_spawn d job wo)) (\<lambda>_. st_modify (\<lambda>s. s\<lparr>dr_spawned := dr_spawned s @ [(job, wo)]\<rparr>))) (\<lambda>_. st_return None))
        (\<lambda>x s. case x of Some _ \<Rightarrow> dr_spawned s = old | None \<Rightarrow> dr_spawned s = old @ [(job, wo)]) ?old"
      by (rule triple_bind) (auto intro: triple_return)
  qed (auto intro: triple_return)
  have run: "triple ?old (st_bind (st_try (on_kb m) (\<lambda>_. st_return False)) (\<lambda>_.
           st_bind (st_try (st_bind (spawn_executor d job (console_order c job rid address now opened)) (\<lambda>_. st_return None)) (\<lambda>e. st_return (Some (exn_text e))))
             (\<lambda>failed. case failed of
                Some why \<Rightarrow> fail_confirmed c rid now (msg why)
              | None \<Rightarrow> st_return (run_report c rid (pget opened ''url'') (waited rid)))))
      (honest_answer old job c) ?old" for m opened and msg :: "string \<Rightarrow> string"
    by (rule triple_bind [OF triple_try [OF spawned_kb]], rule triple_return, assumption, rule triple_bind [OF spawn])
       (auto split: option.split intro: fail_confirmed_triple intro!: triple_return run_report_honest)
  show "triple ?old (case answer of
       Inl e \<Rightarrow> fail_confirmed c rid now (''The change record could not be opened ('' @ snd e @ '').'')
     | Inr opened \<Rightarrow>
         if \<not> is_pdict (pget opened ''approval'') then
           fail_confirmed c rid now (''The change recorder does not record pre-approved commands (it opened a review instead: '' @
             py_str (por (pget opened ''url'') (PStr ''no url'')) @ ''); update cfop-changerecord and close that PR.'')
         else
           st_bind (st_try (on_kb (update_status rid ''claimed'' None (Some [(''change_record'', PDict [(''ref'', PStr (py_str (pget opened ''ref''))),
               (''url'', pget opened ''url''), (''plan'', PDict (console_plan_dict c address)), (''approval'', PDict (console_approval c))])]) None now))
             (\<lambda>_. st_return False)) (\<lambda>_.
           st_bind (st_try (st_bind (spawn_executor d job (console_order c job rid address now opened)) (\<lambda>_. st_return None)) (\<lambda>e. st_return (Some (exn_text e))))
             (\<lambda>failed. case failed of
                Some why \<Rightarrow> fail_confirmed c rid now (''The executor Job could not be started ('' @ why @ '').'')
              | None \<Rightarrow> st_return (run_report c rid (pget opened ''url'') (waited rid)))))
      (honest_answer old job c) ?old"
  proof (cases answer)
    case (Inl e)
    show ?thesis unfolding Inl sum.case by (rule fail_confirmed_triple)
  next
    case (Inr opened)
    show ?thesis
      unfolding Inr sum.case
      by (cases "is_pdict (pget opened ''approval'')", simp_all only: not_True_eq_False not_False_eq_True if_True if_False)
         (rule run, rule fail_confirmed_triple)
  qed
qed


definition sample_command :: confirmed_command where
  "sample_command = \<lparr>cc_tool = ''ssh_execute'', cc_host = ''web'', cc_command = ''reboot'', cc_reason = ''writes'', cc_approver = ''ann'',
     cc_decided = ''now'', cc_session = PNone\<rparr>"

definition sample_run :: "pydict res \<times> unit drain_state" where
  "sample_run = run_confirmed_host_command drain_sample ''job'' 9 (\<lambda>_. None) sample_command \<lparr>dr_kb = node_queue, dr_world = (), dr_spawned = []\<rparr>"


end
