(* ===== verification/Executor_Job.thy ===== *)
theory Executor_Job
  imports Remediation_Drain
begin

text \<open>
  The Kubernetes job of an executor, \<open>_build_executor_manifest\<close> of \<open>agent/agent.py\<close>: its environment with the work order, the
  allowlist and the chain of language models, and the rest of the manifest. The executor reads its side of it in
  \<open>Executor\<close>; the two meet in the last section.
\<close>

section \<open>The work order as it travels\<close>

definition opt_int :: "int option \<Rightarrow> pyval" where
  "opt_int i = (case i of None \<Rightarrow> PNone | Some n \<Rightarrow> PInt n)"

definition order_plan :: "work_order \<Rightarrow> plan \<Rightarrow> pydict" where
  "order_plan wo p = plan_dict p @ (if wo_address wo = [] then [] else [(''address'', PStr (wo_address wo))])"

definition order_dict :: "work_order \<Rightarrow> pydict" where
  "order_dict wo = (let r = wo_row wo in
     [(''id'', PInt (rr_id r)), (''investigation_id'', opt_int (rr_investigation r)), (''host_id'', PStr (rr_host r)),
      (''remediation_class'', PStr (rr_class r)), (''risk'', PStr (rr_risk r)),
      (''confidence'', case rr_confidence r of None \<Rightarrow> PNone | Some c \<Rightarrow> PFloat c), (''attempts'', PInt (rr_attempts r)),
      (''payload'', PDict (rr_payload r)), (''result'', case rr_result r of None \<Rightarrow> PNone | Some x \<Rightarrow> PDict x),
      (''pr_url'', opt_str (rr_pr r))] @
     (case wo_origin wo of None \<Rightarrow> [] | Some t \<Rightarrow> [(''origin'', PStr t)]) @
     (case wo_plan wo of None \<Rightarrow> [] | Some p \<Rightarrow>
        [(''change_record_ref'', PStr (wo_ref wo)), (''change_record_url'', wo_url wo), (''change_record_approval'', PDict (wo_approval wo)),
         (''approved_plan'', PDict (order_plan wo p))]))"

section \<open>The chain of language models\<close>

definition default_exec_model :: string where "default_exec_model = ''claude-opus-4-8''"

definition default_key_env :: "string \<Rightarrow> string" where
  "default_key_env backend = (if backend = ''anthropic'' then ''ANTHROPIC_API_KEY'' else if backend = ''openai'' then ''OPENAI_API_KEY'' else [])"

definition stripped_field :: "pydict \<Rightarrow> string \<Rightarrow> string" where
  "stripped_field d k = str_strip (py_str (por (pget d k) (PStr [])))"

definition chain_rung :: "pydict \<Rightarrow> pydict" where
  "chain_rung rung =
     (let backend = str_lower (str_strip (py_str (por (pget rung ''backend'') (PStr ''anthropic''))))
      in [(''backend'', PStr backend), (''model'', PStr (stripped_field rung ''model'')), (''base_url'', PStr (stripped_field rung ''base_url'')),
          (''api_key_env'', PStr (str_strip (py_str (por (pget rung ''api_key_env'') (PStr (default_key_env backend))))))] @
         (case pget rung ''extra_body'' of PDict (x # xs) \<Rightarrow> [(''extra_body'', PDict (x # xs))] | _ \<Rightarrow> []))"

definition exec_llm_chain :: "pyval \<Rightarrow> pydict list" where
  "exec_llm_chain chain = (case chain of
     PList rungs \<Rightarrow> map chain_rung (concat (map (\<lambda>v. case v of PDict d \<Rightarrow> [d] | _ \<Rightarrow> []) rungs)) | _ \<Rightarrow> [])"

definition env_literal :: "string \<Rightarrow> string \<Rightarrow> pydict" where
  "env_literal name v = [(''name'', PStr name), (''value'', PStr v)]"

definition env_secret :: "pyval \<Rightarrow> string \<Rightarrow> string \<Rightarrow> bool \<Rightarrow> pydict" where
  "env_secret secrets name key optional = [(''name'', PStr name), (''valueFrom'', PDict [(''secretKeyRef'', PDict
     ([(''name'', secrets), (''key'', PStr key)] @ (if optional then [(''optional'', PBool True)] else [])))])]"

definition env_name :: "pydict \<Rightarrow> string" where
  "env_name e = (case pget e ''name'' of PStr n \<Rightarrow> n | _ \<Rightarrow> [])"

definition chain_keys :: "pydict list \<Rightarrow> string list" where
  "chain_keys rungs = sorted_list_of_set (set (filter (\<lambda>k. k \<noteq> []) (map (\<lambda>r. case pget r ''api_key_env'' of PStr k \<Rightarrow> k | _ \<Rightarrow> []) rungs)))"

definition chain_env :: "pydict list \<Rightarrow> pyval \<Rightarrow> string list \<Rightarrow> pydict list" where
  "chain_env rungs secrets present = env_literal ''CFOP_EXEC_LLM_CHAIN'' (json_dumps json_default (PList (map PDict rungs))) #
     map (\<lambda>k. env_secret secrets k k True) (filter (\<lambda>k. k \<notin> set present) (chain_keys rungs))"

section \<open>The manifest\<close>

definition env_or :: "env \<Rightarrow> string \<Rightarrow> string \<Rightarrow> string" where
  "env_or e k dflt = (case map_of e k of None \<Rightarrow> dflt | Some v \<Rightarrow> v)"

definition completion_url :: "'w drain_env \<Rightarrow> pydict \<Rightarrow> int \<Rightarrow> string res" where
  "completion_url d ec i = (case pget_or ec ''completion_base_url'' (PStr (env_or (dn_env d) ''CFOP_EXECUTOR_COMPLETION_BASE_URL''
       ''http://cfoperator.apps.svc.cluster.local:8083/v1/remediations'')) of
     PStr base \<Rightarrow> Inr (rstrip_by (\<lambda>c. c = CHR ''/'') base @ ''/'' @ int_str i @ ''/complete'')
   | v \<Rightarrow> no_attribute v ''rstrip'')"

definition base_env :: "'w drain_env \<Rightarrow> pydict \<Rightarrow> pydict \<Rightarrow> string \<Rightarrow> work_order \<Rightarrow> pydict list" where
  "base_env d ec llm url wo =
     (let secrets = pget_or ec ''secrets_name'' (PStr ''cfoperator-secrets'');
          repo = por (pget (rr_payload (wo_row wo)) ''repo'') (pget_or ec ''git_repo'' (PStr (env_or (dn_env d) ''CFOP_GIT_REPO'' ''aachtenberg/homelab-infra'')))
      in [env_secret secrets ''ANTHROPIC_API_KEY'' ''ANTHROPIC_API_KEY'' True, env_secret secrets ''GITHUB_TOKEN'' ''GITHUB_TOKEN'' False,
          env_secret secrets ''CFOP_COMPLETION_TOKEN'' ''CFOP_COMPLETION_SHARED_SECRET'' True,
          env_literal ''CFOP_COMPLETION_URL'' url, env_literal ''CFOP_REMEDIATION_JSON'' (json_dumps json_default (PDict (order_dict wo))),
          env_literal ''CFOP_GIT_REPO'' (py_str repo), env_literal ''CFOP_GIT_BASE'' (py_str (pget_or ec ''git_base'' (PStr ''main''))),
          env_literal ''CFOP_EXEC_LLM_BACKEND'' (py_str (pget_or llm ''backend'' (PStr ''anthropic''))),
          env_literal ''CFOP_EXEC_LLM_MODEL'' (py_str (pget_or llm ''model'' (PStr []))),
          env_literal ''CFOP_EXEC_LLM_BASE_URL'' (py_str (pget_or llm ''base_url'' (PStr [])))] @
         (if stripped_field ec ''github_api_url'' = [] then []
          else env_literal ''GITHUB_API_URL'' (stripped_field ec ''github_api_url'') #
            (if pget ec ''github_api_allow_http'' = PBool True then [env_literal ''CFOP_EXEC_GITHUB_ALLOW_HTTP'' ''true''] else [])))"

text \<open>What a node action gets besides: the opt-in, the host, and the allowlist in force.\<close>

definition node_env :: "pydict \<Rightarrow> allow_list \<Rightarrow> pydict list" where
  "node_env na allow =
     [env_literal ''CFOP_NODE_ACTION_ENABLED'' ''true'', env_literal ''CFOP_NODE_ACTION_HOST'' (py_str (pget_or na ''host'' (PStr []))),
      env_literal ''CFOP_SSH_USER'' (py_str (por (pget na ''ssh_user'') (PStr []))), env_literal ''CFOP_SSH_SECRET_DIR'' ''/ssh-secret'',
      env_literal ''CFOP_NODE_ACTION_ALLOW_BINARIES'' (str_join '','' (sorted_list_of_set (aw_binaries allow))),
      env_literal ''CFOP_NODE_ACTION_ALLOW_SYSTEMCTL_VERBS'' (str_join '','' (sorted_list_of_set (aw_verbs allow))),
      env_literal ''CFOP_NODE_ACTION_MAX_COMMANDS'' (int_str (aw_max allow))]"

definition change_env :: "'w drain_env \<Rightarrow> pyval \<Rightarrow> pydict list res" where
  "change_env d secrets = bind_res (change_record_url d) (\<lambda>url. Inr (if url = [] then []
     else [env_literal ''CFOP_EXEC_CHANGE_URL'' url, env_secret secrets ''CFOP_CHANGERECORD_SHARED_SECRET'' ''CFOP_CHANGERECORD_SHARED_SECRET'' True]))"

fun set_env_value :: "string \<Rightarrow> string \<Rightarrow> pydict list \<Rightarrow> pydict list" where
  "set_env_value name v [] = []"
| "set_env_value name v (e # es) = (if env_name e = name then dset ''value'' (PStr v) e # es else e # set_env_value name v es)"

definition node_model :: "pydict \<Rightarrow> string" where
  "node_model na = py_str (por (pget_or na ''model'' (PStr [])) (PStr default_exec_model))"

definition node_chain :: "pydict \<Rightarrow> pydict \<Rightarrow> pydict list \<Rightarrow> pydict list" where
  "node_chain na llm rungs =
     (let own = exec_llm_chain (pget na ''llm_chain''); backend = str_lower (str_strip (py_str (pget_or llm ''backend'' (PStr ''anthropic''))))
      in if own \<noteq> [] then own else if rungs = [] then []
         else [[(''backend'', PStr backend), (''model'', PStr (node_model na)), (''base_url'', PStr (py_str (pget_or llm ''base_url'' (PStr [])))),
           (''api_key_env'', PStr (default_key_env backend))]])"

definition node_job :: "'w drain_env \<Rightarrow> work_order \<Rightarrow> bool res" where
  "node_job d wo = (if rr_class (wo_row wo) = ''node-action'' then remediation_flag d ''node_action_enabled'' else Inr False)"

text \<open>The environment of the container.\<close>

definition container_env :: "'w drain_env \<Rightarrow> pydict \<Rightarrow> work_order \<Rightarrow> pydict list res" where
  "container_env d ec wo =
     (let llm = dict_or_empty (pget ec ''llm''); na = dict_or_empty (pget ec ''node_action'');
          secrets = pget_or ec ''secrets_name'' (PStr ''cfoperator-secrets''); shared = exec_llm_chain (pget llm ''chain'');
          chained = (\<lambda>rungs env. env @ (if rungs = [] then [] else chain_env rungs secrets (map env_name env)))
      in bind_res (completion_url d ec (rr_id (wo_row wo))) (\<lambda>url.
         bind_res (node_job d wo) (\<lambda>node.
         if \<not> node then Inr (chained shared (base_env d ec llm url wo))
         else bind_res (node_action_allowlist d) (\<lambda>allow. bind_res (change_env d secrets) (\<lambda>change. Inr
           (chained (node_chain na llm shared)
             (set_env_value ''CFOP_EXEC_LLM_MODEL'' (node_model na) (base_env d ec llm url wo @ node_env na allow @ change))))))))"

definition job_labels :: pydict where
  "job_labels = [(''app.kubernetes.io/managed-by'', PStr ''cfoperator''), (''cfop.dev/role'', PStr ''remediation-executor'')]"

definition ssh_volume :: "pydict \<Rightarrow> pyval" where
  "ssh_volume na = PDict [(''name'', PStr ''ssh''), (''secret'', PDict [(''secretName'', pget_or na ''ssh_secret'' (PStr ''cfop-forensics-ssh'')),
     (''defaultMode'', PInt 288)])]"

definition executor_container :: "'w drain_env \<Rightarrow> pydict \<Rightarrow> bool \<Rightarrow> pydict list \<Rightarrow> pyval" where
  "executor_container d ec node es = PDict
     ([(''name'', PStr ''executor''),
       (''image'', pget_or ec ''image'' (PStr (env_or (dn_env d) ''CFOP_EXECUTOR_IMAGE'' ''ghcr.io/aachtenberg/cfoperator-executor:main''))),
       (''imagePullPolicy'', PStr (py_str (por (pget ec ''image_pull_policy'') (PStr ''Always'')))), (''env'', PList (map PDict es)),
       (''resources'', PDict [(''requests'', PDict [(''cpu'', PStr ''100m''), (''memory'', PStr ''256Mi'')]),
          (''limits'', PDict [(''cpu'', PStr ''1''), (''memory'', PStr ''1Gi'')])])] @
      (if node then [(''volumeMounts'', PList [PDict [(''name'', PStr ''ssh''), (''mountPath'', PStr ''/ssh-secret''), (''readOnly'', PBool True)]])] else []))"

definition executor_pod :: "pydict \<Rightarrow> bool \<Rightarrow> pyval \<Rightarrow> pydict" where
  "executor_pod ec node container =
     [(''restartPolicy'', PStr ''Never''), (''serviceAccountName'', pget_or ec ''service_account'' (PStr ''cfoperator-executor'')),
      (''imagePullSecrets'', PList [PDict [(''name'', pget_or ec ''image_pull_secret'' (PStr ''ghcr-pull-secret''))]]),
      (''securityContext'', PDict [(''runAsUser'', PInt 10001), (''runAsGroup'', PInt 10001), (''fsGroup'', PInt 10001)]),
      (''containers'', PList [container])] @
     (if node then [(''volumes'', PList [ssh_volume (dict_or_empty (pget ec ''node_action''))])] else []) @
     (case pget ec ''tolerations'' of PList (t # ts) \<Rightarrow> [(''tolerations'', PList (filter is_pdict (t # ts)))] | _ \<Rightarrow> [])"

definition build_executor_manifest :: "'w drain_env \<Rightarrow> string \<Rightarrow> work_order \<Rightarrow> pydict res" where
  "build_executor_manifest d job wo =
     bind_res (executor_config d) (\<lambda>ec.
     bind_res (py_int (pget_or ec ''ttl_seconds_after_finished'' (PInt 3600))) (\<lambda>ttl.
     bind_res (py_int (pget_or ec ''active_deadline_seconds'' (PInt 900))) (\<lambda>deadline.
     bind_res (container_env d ec wo) (\<lambda>es.
     bind_res (node_job d wo) (\<lambda>node. Inr
       [(''apiVersion'', PStr ''batch/v1''), (''kind'', PStr ''Job''),
        (''metadata'', PDict [(''name'', PStr job), (''namespace'', pget_or ec ''namespace'' (PStr (env_or (dn_env d) ''CFOP_EXECUTOR_NAMESPACE'' ''apps''))),
           (''labels'', PDict job_labels)]),
        (''spec'', PDict [(''backoffLimit'', PInt 0), (''ttlSecondsAfterFinished'', PInt ttl), (''activeDeadlineSeconds'', PInt deadline),
           (''template'', PDict [(''metadata'', PDict [(''labels'', PDict job_labels)]),
              (''spec'', PDict (executor_pod ec node (executor_container d ec node es)))])])])))))"

text \<open>What the process in the container reads: the literal values of its environment.\<close>

definition process_env :: "pydict list \<Rightarrow> env" where
  "process_env es = concat (map (\<lambda>e. case pget e ''value'' of PStr v \<Rightarrow> [(env_name e, v)] | _ \<Rightarrow> []) es)"

section \<open>What the job is told\<close>

lemma process_env_append [simp]: "process_env (xs @ ys) = process_env xs @ process_env ys"
  by (simp add: process_env_def)

lemma process_env_Cons [simp]:
  "process_env (env_literal n v # es) = (n, v) # process_env es" "process_env (env_secret secrets n k b # es) = process_env es"
  "process_env [] = []"
  by (simp_all add: process_env_def env_literal_def env_secret_def env_name_def)

lemma set_env_value_other: "k \<noteq> n \<Longrightarrow> map_of (process_env (set_env_value n v es)) k = map_of (process_env es) k"
proof (induction es)
  case (Cons e es)
  have "env_name (dset ''value'' x e) = env_name e" for x by (simp add: env_name_def)
  with Cons show ?case by (auto simp: process_env_def split: pyval.split)
qed (simp add: process_env_def)

lemma finite_split_names [simp]: "finite (split_names v)"
  by (cases v) (simp_all add: split_names_def split: sum.split)

lemma max_commands_pos: "max_commands_of v = Inr n \<Longrightarrow> 1 \<le> n"
  by (auto simp: max_commands_of_def bind_res_Inr_iff)

lemma allow_resolved:
  assumes "node_action_allowlist d = Inr allow"
  shows "finite (aw_binaries allow)" "finite (aw_verbs allow)" "1 \<le> aw_max allow"
proof -
  have fin: "finite (narrowed (split_names v) (split_list s))" for v s by (simp add: narrowed_def)
  obtain na where na: "allowlist_from_config na (node_action_setting d ''node_action_allow_binaries'')
      (node_action_setting d ''node_action_allow_systemctl_verbs'') = Inr allow"
    using assms by (auto simp: node_action_allowlist_def bind_res_Inr_iff)
  have "finite (aw_binaries allow) \<and> finite (aw_verbs allow) \<and> 1 \<le> aw_max allow"
    if "allowlist_from_config na sel_b sel_v = Inr allow" for sel_b sel_v
  proof (cases "sel_b = None \<or> sel_v = None")
    case True
    with that show ?thesis by (auto simp: allowlist_from_config_def split: option.splits)
  next
    case False
    then obtain b v where "sel_b = Some b" "sel_v = Some v" by auto
    with that show ?thesis by (auto simp: allowlist_from_config_def bind_res_Inr_iff fin dest: max_commands_pos)
  qed
  from this [OF na] show "finite (aw_binaries allow)" "finite (aw_verbs allow)" "1 \<le> aw_max allow" by auto
qed

lemma max_commands_told: "1 \<le> n \<Longrightarrow> max_commands_of (PStr (int_str n)) = Inr n"
proof -
  assume n: "1 \<le> n"
  have "int_str n \<noteq> []"
  proof
    assume "int_str n = []"
    then have "parse_int [] = Some n" using parse_int_int_str [of n] by simp
    then show False by (simp add: parse_int_def str_strip_def lstrip_by_def rstrip_by_def)
  qed
  then show ?thesis using n by (simp add: max_commands_of_def por_def)
qed

text \<open>The names of the allowlist must be free of commas and white space, which the job's form of it needs.\<close>

definition clean_allow :: "allow_list \<Rightarrow> bool" where
  "clean_allow allow = ((\<forall>t \<in> aw_binaries allow. clean_name t) \<and> (\<forall>t \<in> aw_verbs allow. clean_name t))"

lemma node_env_told:
  assumes "node_action_allowlist d = Inr allow" "clean_allow allow"
    "\<And>k. k \<in> {''CFOP_NODE_ACTION_ALLOW_BINARIES'', ''CFOP_NODE_ACTION_ALLOW_SYSTEMCTL_VERBS'', ''CFOP_NODE_ACTION_MAX_COMMANDS''} \<Longrightarrow>
       map_of (process_env es) k = map_of (process_env (node_env na allow)) k"
  shows "allowlist_from_env (process_env es) = Inr allow"
proof -
  note fin = allow_resolved [OF assms(1)]
  have vals: "env_get (process_env es) ''CFOP_NODE_ACTION_ALLOW_BINARIES'' = str_join '','' (sorted_list_of_set (aw_binaries allow))"
    "env_get (process_env es) ''CFOP_NODE_ACTION_ALLOW_SYSTEMCTL_VERBS'' = str_join '','' (sorted_list_of_set (aw_verbs allow))"
    "env_get (process_env es) ''CFOP_NODE_ACTION_MAX_COMMANDS'' = int_str (aw_max allow)"
    using assms(3) by (simp_all add: env_get_def node_env_def)
  have "split_list (str_join '','' (sorted_list_of_set (aw_binaries allow))) = aw_binaries allow"
    "split_list (str_join '','' (sorted_list_of_set (aw_verbs allow))) = aw_verbs allow"
    using assms(2) fin by (simp_all add: split_list_join clean_allow_def)
  then show ?thesis by (simp add: allowlist_from_env_def vals max_commands_told [OF fin(3)])
qed

lemma base_env_silent:
  "k \<in> {''CFOP_NODE_ACTION_ALLOW_BINARIES'', ''CFOP_NODE_ACTION_ALLOW_SYSTEMCTL_VERBS'', ''CFOP_NODE_ACTION_MAX_COMMANDS''} \<Longrightarrow>
    map_of (process_env (base_env d ec llm url wo)) k = None"
  by (auto simp: base_env_def Let_def)

text \<open>
  What the executor reads from the environment of a node action's job is the allowlist the agent resolved for it, its
  limit on commands included.
\<close>

lemma job_told_allowlist:
  assumes "container_env d ec wo = Inr es" "node_job d wo = Inr True" "node_action_allowlist d = Inr allow" "clean_allow allow"
  shows "allowlist_from_env (process_env es) = Inr allow"
proof -
  let ?keys = "{''CFOP_NODE_ACTION_ALLOW_BINARIES'', ''CFOP_NODE_ACTION_ALLOW_SYSTEMCTL_VERBS'', ''CFOP_NODE_ACTION_MAX_COMMANDS''}"
  let ?na = "dict_or_empty (pget ec ''node_action'')" and ?llm = "dict_or_empty (pget ec ''llm'')"
  obtain url change extra where es: "es = set_env_value ''CFOP_EXEC_LLM_MODEL'' (node_model ?na) (base_env d ec ?llm url wo @ node_env ?na allow @ change) @ extra"
    using assms(1-3) by (auto simp: container_env_def Let_def bind_res_Inr_iff)
  have "map_of (process_env es) k = map_of (process_env (node_env ?na allow)) k" if k: "k \<in> ?keys" for k
  proof -
    have "k \<noteq> ''CFOP_EXEC_LLM_MODEL''" using k by auto
    moreover have "map_of (process_env (node_env ?na allow)) k \<noteq> None" using k by (auto simp: node_env_def)
    ultimately show ?thesis
      using base_env_silent [OF k, of d ec ?llm url wo] by (auto simp: es set_env_value_other map_add_def split: option.splits)
  qed
  with node_env_told [OF assms(3,4)] show ?thesis by blast
qed

section \<open>From the queue to the executor\<close>

lemma base_env_told:
  "map_of (process_env (base_env d ec llm url wo)) ''CFOP_REMEDIATION_JSON'' = Some (json_dumps json_default (PDict (order_dict wo)))"
  "map_of (process_env (base_env d ec llm url wo)) ''CFOP_NODE_ACTION_ENABLED'' = None"
  by (simp_all add: base_env_def Let_def)

lemma container_env_node:
  assumes "container_env d ec wo = Inr es" "node_job d wo = Inr True" "node_action_allowlist d = Inr allow"
  shows "env_get (process_env es) ''CFOP_REMEDIATION_JSON'' = json_dumps json_default (PDict (order_dict wo))"
    "env_get (process_env es) ''CFOP_NODE_ACTION_ENABLED'' = ''true''"
proof -
  let ?na = "dict_or_empty (pget ec ''node_action'')" and ?llm = "dict_or_empty (pget ec ''llm'')"
  obtain url change extra where es: "es = set_env_value ''CFOP_EXEC_LLM_MODEL'' (node_model ?na) (base_env d ec ?llm url wo @ node_env ?na allow @ change) @ extra"
    using assms by (auto simp: container_env_def Let_def bind_res_Inr_iff)
  have told: "map_of (process_env es) k = map_of (process_env (base_env d ec ?llm url wo @ node_env ?na allow @ change @ extra)) k"
    if "k \<noteq> ''CFOP_EXEC_LLM_MODEL''" for k by (simp add: es map_add_def set_env_value_other [OF that] split: option.split)
  have k: "''CFOP_REMEDIATION_JSON'' \<noteq> ''CFOP_EXEC_LLM_MODEL''" "''CFOP_NODE_ACTION_ENABLED'' \<noteq> ''CFOP_EXEC_LLM_MODEL''" by simp_all
  show "env_get (process_env es) ''CFOP_REMEDIATION_JSON'' = json_dumps json_default (PDict (order_dict wo))"
    by (simp add: env_get_def told [OF k(1)] map_add_def base_env_told del: json_dumps.simps)
  show "env_get (process_env es) ''CFOP_NODE_ACTION_ENABLED'' = ''true''"
    by (simp add: env_get_def told [OF k(2)] map_add_def base_env_told) (simp add: node_env_def)
qed

lemma approved_plan_order:
  assumes "wo_plan wo = Some (host, commands, why)" "commands \<noteq> []"
  shows "\<exists>p. approved_plan (order_dict wo) = Inr (Some (p, commands))"
proof -
  have plan: "pget (order_dict wo) ''approved_plan'' = PDict (order_plan wo (host, commands, why))"
    by (simp add: order_dict_def Let_def assms(1) pget_def split: option.split)
  have cs: "pget (order_plan wo (host, commands, why)) ''commands'' = PList (map PStr commands)"
    by (simp add: order_plan_def plan_dict_def pget_def)
  have "map py_str (map PStr commands) = commands" by (induction commands) simp_all
  then have "plan_texts (order_plan wo (host, commands, why)) = Inr commands"
    using assms(2) by (simp add: plan_texts_def cs por_def py_iter_def)
  then show ?thesis using assms(2) by (simp add: approved_plan_def plan cs)
qed

text \<open>
  C2: From the queue to the node. When a tick of the drainer spawns a node action, its job carries the work order whole, is
  opted in, and reads the very allowlist the agent resolved; the executor then takes the commands of the approved plan, without
  asking a model, and its gate lets exactly those commands through. The names of the allowlist must be free of commas and
  white space, in which the job's form of it is written.
\<close>

theorem node_job_runs_approved_plan:
  assumes "drain_queue d job now s = (r, s')" "(name, wo) \<in> set (dr_spawned s')" "(name, wo) \<notin> set (dr_spawned s)"
    "rr_class (wo_row wo) = ''node-action''" "container_env d ec wo = Inr es" "node_action_allowlist d = Inr allow" "clean_allow allow"
  shows "\<exists>host commands why. wo_plan wo = Some (host, commands, why) \<and>
    env_get (process_env es) ''CFOP_REMEDIATION_JSON'' = json_dumps json_default (PDict (order_dict wo)) \<and>
    node_action_enabled (process_env es) \<and> allowlist_from_env (process_env es) = Inr allow \<and>
    (\<exists>p. \<forall>(io :: 'v job_io) w. choose_plan io allow (order_dict wo) w = (Inr (Inr (p, commands, PNone)), w)) \<and>
    validate_plan commands allow = (True, ''ok'')"
proof -
  obtain host commands why where flag: "remediation_flag d ''node_action_enabled'' = Inr True"
    and plan: "wo_plan wo = Some (host, commands, why)" and ok: "plan_refusals commands allow = []"
    using new_order_approved [OF assms(1-3)] assms(4,6) by (fastforce simp: approved_order_def)
  have gate: "validate_plan commands allow = (True, ''ok'')" by (simp add: validate_plan_def ok)
  then have "commands \<noteq> []" by (simp add: validate_plan_ok)
  from approved_plan_order [OF plan this] obtain p where p: "approved_plan (order_dict wo) = Inr (Some (p, commands))" by blast
  have node: "node_job d wo = Inr True" by (simp add: node_job_def assms(4) flag)
  note told = container_env_node [OF assms(5) node assms(6)] job_told_allowlist [OF assms(5) node assms(6,7)]
  have "node_action_enabled (process_env es)" unfolding node_action_enabled_def told(2) by code_simp
  moreover have "choose_plan io allow (order_dict wo) w = (Inr (Inr (p, commands, PNone)), w)" for io w
    by (simp add: choose_plan_def p st_bind_def st_lift_def st_return_def)
  ultimately show ?thesis using plan told gate by blast
qed

definition sample_job_order :: work_order where
  "sample_job_order = snd (hd (dr_spawned (snd sample_tick)))"

definition sample_job_env :: "pydict list res" where
  "sample_job_env = container_env drain_sample (dict_or_empty (pget (dict_or_empty (remediation_config drain_sample)) ''executor'')) sample_job_order"

theorem node_job_runs_approved_plan_witness:
  "\<exists>es p. sample_job_env = Inr es \<and> node_action_enabled (process_env es) \<and>
     (\<forall>(io :: unit job_io) w. choose_plan io \<lparr>aw_binaries = {''uptime''}, aw_verbs = {}, aw_max = 4\<rparr> (order_dict sample_job_order) w =
       (Inr (Inr (p, [''uptime''], PNone)), w))"
proof -
  let ?x = "hd (dr_spawned (snd sample_tick))" and ?a = "\<lparr>aw_binaries = {''uptime''}, aw_verbs = {}, aw_max = 4\<rparr>"
  have tick: "drain_queue drain_sample (\<lambda>n. ''job'') 9 \<lparr>dr_kb = node_queue, dr_world = (), dr_spawned = []\<rparr> = (fst sample_tick, snd sample_tick)"
    by (simp add: sample_tick_def)
  have "dr_spawned (snd sample_tick) \<noteq> []" by code_simp
  then have new: "(fst ?x, sample_job_order) \<in> set (dr_spawned (snd sample_tick))" by (simp add: sample_job_order_def)
  have node: "rr_class (wo_row sample_job_order) = ''node-action''" by code_simp
  have "case sample_job_env of Inl _ \<Rightarrow> False | Inr _ \<Rightarrow> True" by code_simp
  then obtain es where es: "sample_job_env = Inr es" by (auto split: sum.splits)
  have allow: "node_action_allowlist drain_sample = Inr ?a" by code_simp
  have clean: "clean_allow ?a" by code_simp
  have plan: "map_option (\<lambda>p. fst (snd p)) (wo_plan sample_job_order) = Some [''uptime'']" by code_simp
  from node_job_runs_approved_plan [where 'v = unit, OF tick new _ node es [unfolded sample_job_env_def] allow clean] plan es
  show ?thesis by auto
qed

end
