(* ===== verification/Judge.thy ===== *)
theory Judge
  imports Prompt_Injection Remediation_Drain
begin

text \<open>
  The judge of unattended changes, in \<open>agent/agent.py\<close>: which language models may hold the veto, the prompt they get, the reading
  of their reply, and the order in which they are asked. HTTP, the inventory of nodes, the contents of repositories, the keys and the
  redaction of secrets (\<open>cfshared/tool_args.py\<close>) are arguments. A call that fails carries the status of an HTTP error,
  if it was one. Metrics, log lines and latencies are left out.
\<close>

section \<open>Who may judge\<close>

definition judge_floor :: "(string \<times> string) list" where
  "judge_floor = [(''anthropic'', ''claude-opus-4-8''), (''xai'', ''grok-4.5''), (''gemini'', ''gemini-3.1-pro-preview''), (''deepseek'', ''deepseek-v4-pro'')]"

definition judge_default_order :: "string list" where
  "judge_default_order = [''deepseek'', ''anthropic'', ''xai'', ''gemini'']"

definition fast_tier_tokens :: "string list" where
  "fast_tier_tokens = [''flash'', ''mini'', ''nano'', ''micro'', ''tiny'', ''fast'', ''haiku'', ''lite'', ''turbo'', ''instant'', ''small'']"

definition model_char :: "char \<Rightarrow> bool" where
  "model_char c = (let n = of_char c :: nat in (97 \<le> n \<and> n \<le> 122) \<or> (48 \<le> n \<and> n \<le> 57))"

definition is_fast_tier_model :: "string \<Rightarrow> bool" where
  "is_fast_tier_model model = (\<exists>t \<in> set (split_pred (\<lambda>c. \<not> model_char c) (str_lower model)). t \<in> set fast_tier_tokens)"

text \<open>The routers among the providers, with the vendors they rename.\<close>

definition routes_vendors :: "string \<Rightarrow> (string \<times> string) list option" where
  "routes_vendors head = (if head = ''openrouter'' then Some [(''x-ai'', ''xai''), (''google'', ''gemini'')] else None)"

text \<open>The tag of the reporter, with a router replaced by the vendor behind it.\<close>

definition vendor_tag :: "string \<Rightarrow> string" where
  "vendor_tag tag = (case split_once CHR ''/'' tag of
     (head, Some rest) \<Rightarrow> (case (routes_vendors head, split_once CHR ''/'' rest) of
        (Some vendors, (vendor, Some model)) \<Rightarrow> (case map_of vendors vendor of None \<Rightarrow> vendor | Some v \<Rightarrow> v) @ ''/'' @ model
      | _ \<Rightarrow> tag)
   | _ \<Rightarrow> tag)"

definition judge_is_self_review :: "string \<Rightarrow> string \<Rightarrow> string \<Rightarrow> bool" where
  "judge_is_self_review reporter backend model =
     (let tag = str_lower (str_strip reporter); tag' = vendor_tag tag
      in tag \<noteq> [] \<and> (fst (split_once CHR ''/'' tag') = str_lower (str_strip backend) \<or>
         (snd (split_once CHR ''/'' tag') = None \<and> tag' = str_lower (str_strip model))))"

section \<open>The surroundings of a judge\<close>

type_synonym failure = "pyexn \<times> int option"

record 'w judge_env =
  jd_agent :: "'w drain_env"
  jd_key :: "string \<Rightarrow> string"
  jd_notready :: "'w \<Rightarrow> string list res \<times> 'w"
  jd_read :: "string \<Rightarrow> string \<Rightarrow> 'w \<Rightarrow> string option \<times> 'w"
  jd_post :: "string \<Rightarrow> string \<Rightarrow> chars \<Rightarrow> 'w \<Rightarrow> (failure + pyval) \<times> 'w"
  jd_redact :: "string \<Rightarrow> string"

definition judge_config :: "'w judge_env \<Rightarrow> pydict res" where
  "judge_config d = bind_res (as_dict (remediation_config (jd_agent d))) (\<lambda>rcfg. Inr (dict_or_empty (pget rcfg ''judge'')))"

definition backend_name :: "pyval \<Rightarrow> string" where
  "backend_name v = str_lower (str_strip (py_str (por v (PStr []))))"

definition take_backend :: "'w judge_env \<Rightarrow> string list \<Rightarrow> pyval \<Rightarrow> string list" where
  "take_backend d out v = (let b = backend_name v in
     if b \<notin> fst ` set judge_floor \<or> b \<in> set out \<or> jd_key d b = [] then out else out @ [b])"

definition keyed_backends :: "'w judge_env \<Rightarrow> pyval list \<Rightarrow> string list" where
  "keyed_backends d names = foldl (take_backend d) [] names"

definition judge_providers :: "'w judge_env \<Rightarrow> string list res" where
  "judge_providers d = bind_res (judge_config d) (\<lambda>jcfg. Inr (keyed_backends d (case pget jcfg ''providers'' of
     PStr s \<Rightarrow> [PStr s]
   | PList (x # xs) \<Rightarrow> x # xs
   | _ \<Rightarrow> map PStr judge_default_order)))"

definition judge_model_setting :: "'w judge_env \<Rightarrow> string \<Rightarrow> string" where
  "judge_model_setting d backend = (case dn_setting (jd_agent d) (''judge_model_'' @ backend) of
     Inr (Some s) \<Rightarrow> str_strip s | _ \<Rightarrow> [])"

definition judge_model_config :: "'w judge_env \<Rightarrow> string \<Rightarrow> string res" where
  "judge_model_config d backend = bind_res (judge_config d) (\<lambda>jcfg. Inr (truthy_str (pget (dict_or_empty (pget jcfg ''models'')) backend)))"

definition judge_model :: "'w judge_env \<Rightarrow> string \<Rightarrow> string res" where
  "judge_model d backend = bind_res (judge_model_config d backend) (\<lambda>configured.
     Inr (case filter (\<lambda>m. m \<noteq> [] \<and> \<not> is_fast_tier_model m) [judge_model_setting d backend, configured] of
       m # _ \<Rightarrow> m
     | [] \<Rightarrow> (case map_of judge_floor backend of None \<Rightarrow> [] | Some m \<Rightarrow> m)))"

section \<open>One completion\<close>

definition compat_providers :: "string list" where
  "compat_providers = [''groq'', ''xai'', ''gemini'', ''deepseek'', ''openrouter'']"

definition text_blocks :: "pyval list \<Rightarrow> pyval list res" where
  "text_blocks bs = bind_res (map_res as_dict bs) (\<lambda>ds.
     Inr (map (\<lambda>b. pget_or b ''text'' (PStr [])) (filter (\<lambda>b. pget b ''type'' = PStr ''text'') ds)))"

definition str_item :: "pyval \<Rightarrow> string res" where
  "str_item v = (case v of PStr s \<Rightarrow> Inr s | _ \<Rightarrow> type_error ''expected str instance'')"

definition anthropic_text :: "pyval \<Rightarrow> string res" where
  "anthropic_text resp = bind_res (as_dict resp) (\<lambda>d. bind_res (py_iter (pget_or d ''content'' (PList []))) (\<lambda>bs.
     bind_res (text_blocks bs) (\<lambda>ts. bind_res (map_res str_item ts) (\<lambda>ss. Inr (str_join [CHR 0x0A] ss)))))"

definition first_item :: "pyval \<Rightarrow> pyval res" where
  "first_item v = (case v of
     PList (x # xs) \<Rightarrow> Inr x
   | PStr (c # s) \<Rightarrow> Inr (PStr [c])
   | PDict d \<Rightarrow> Inl (PyExn ''KeyError'' ''0'')
   | _ \<Rightarrow> type_error (CHR 0x27 # type_name v @ [CHR 0x27] @ '' object is not subscriptable''))"

definition compat_text :: "pyval \<Rightarrow> string res" where
  "compat_text resp = bind_res (as_dict resp) (\<lambda>d.
     let choices = por (pget d ''choices'') (PList []) in
     if \<not> truthy choices then Inr []
     else bind_res (first_item choices) (\<lambda>c. bind_res (as_dict c) (\<lambda>c.
          bind_res (as_dict (por (pget c ''message'') (PDict []))) (\<lambda>m. Inr (py_str (por (pget m ''content'') (PStr [])))))))"

definition plain :: "'a res \<Rightarrow> failure + 'a" where
  "plain r = (case r of Inl e \<Rightarrow> Inl (e, None) | Inr x \<Rightarrow> Inr x)"

definition complete_judge :: "'w judge_env \<Rightarrow> string \<Rightarrow> string \<Rightarrow> chars \<Rightarrow> 'w \<Rightarrow> (failure + string) \<times> 'w" where
  "complete_judge d backend model msg w =
     (if jd_key d backend = [] then (Inl (PyExn ''RuntimeError'' (''no API key for judge backend '' @ CHR 0x27 # backend @ [CHR 0x27]), None), w)
      else if backend \<noteq> ''anthropic'' \<and> backend \<notin> set compat_providers then
        (Inl (PyExn ''RuntimeError'' (''unknown judge backend '' @ CHR 0x27 # backend @ [CHR 0x27]), None), w)
      else (case jd_post d backend model msg w of
         (Inl f, w') \<Rightarrow> (Inl f, w')
       | (Inr resp, w') \<Rightarrow> (plain (if backend = ''anthropic'' then anthropic_text resp else compat_text resp), w')))"

text \<open>A 4xx, but for "not now", is a refusal of this request.\<close>

definition is_request_refusal :: "int option \<Rightarrow> bool" where
  "is_request_refusal status = (case status of None \<Rightarrow> False | Some n \<Rightarrow> 400 \<le> n \<and> n < 500 \<and> n \<notin> {408, 429})"

definition refusal_note :: "string \<Rightarrow> failure \<Rightarrow> string" where
  "refusal_note backend f = backend @ '' refused ('' @ (case snd f of None \<Rightarrow> ''None'' | Some n \<Rightarrow> int_str n) @ '': '' @ exn_text (fst f) @ '')''"

definition stamp_judge_refusals :: "string \<Rightarrow> string list \<Rightarrow> string \<Rightarrow> string" where
  "stamp_judge_refusals reason refusals decided_by =
     (if refusals = [] then reason
      else (let stamp = str_join ''; '' refusals @ (if decided_by = [] then [] else ''; judged by '' @ decided_by); body = str_strip reason
            in if body = [] then stamp else stamp @ ''. '' @ body))"

section \<open>The verdict in a reply\<close>

definition drop_prefix :: "string \<Rightarrow> string \<Rightarrow> string" where
  "drop_prefix p s = (if starts_with p s then drop (length p) s else s)"

text \<open>\<open>^\s*```(?:json)?|```\s*$\<close> removed from a stripped text.\<close>

definition fence :: string where "fence = ''```''"

definition unfenced :: "string \<Rightarrow> string" where
  "unfenced s = (let t = (if starts_with fence s then drop_prefix ''json'' (drop 3 s) else s)
     in if ends_with fence t then take (length t - 3) t else t)"

text \<open>From the first opening brace to the last closing one.\<close>

definition braced :: "string \<Rightarrow> string option" where
  "braced s = (let t = dropWhile (\<lambda>c. c \<noteq> CHR 0x7B) s; u = rstrip_by (\<lambda>c. c \<noteq> CHR 0x7D) t in if u = [] then None else Some u)"

definition parse_judge_verdict :: "(string \<Rightarrow> pyval res) \<Rightarrow> string \<Rightarrow> (string \<times> string) option res" where
  "parse_judge_verdict loads reply =
     (let t = str_strip (unfenced (str_strip reply)) in
      if starts_with ''['' t then Inr None
      else (case braced t of None \<Rightarrow> Inr None | Some u \<Rightarrow>
        (case loads u of
           Inl e \<Rightarrow> if exn_class e \<in> {''JSONDecodeError'', ''ValueError''} then Inr None else Inl e
         | Inr (PDict payload) \<Rightarrow>
             (let verdict = str_lower (truthy_str (pget payload ''verdict'')) in
              Inr (if verdict \<notin> {''confirm'', ''downgrade'', ''reject''} then None
                   else Some (verdict, take 500 (truthy_str (pget payload ''reason'')))))
         | Inr _ \<Rightarrow> Inr None)))"

section \<open>The prompt\<close>

definition detail_text :: "pydict \<Rightarrow> string \<Rightarrow> string \<Rightarrow> string" where
  "detail_text details k dflt = py_str (por (pget details k) (PStr dflt))"

text \<open>At most two manifests the change names, as they are now.\<close>

fun target_lines :: "'w judge_env \<Rightarrow> nat \<Rightarrow> pyval list \<Rightarrow> 'w \<Rightarrow> chars list \<times> 'w" where
  "target_lines d shown [] w = ([], w)"
| "target_lines d shown (t # ts) w =
     (let target = dict_or_empty t; repo = truthy_str (pget target ''repo''); path = lstrip_by (\<lambda>c. c = CHR ''/'') (truthy_str (pget target ''id'')) in
      if shown \<ge> 2 then ([], w)
      else if \<not> is_pdict t \<or> pget target ''kind'' \<noteq> PStr ''gitops-manifest'' \<or> repo = [] \<or> path = [] then target_lines d shown ts w
      else (case jd_read d repo path w of (body, w1) \<Rightarrow> (case target_lines d (Suc shown) ts w1 of (ls, w2) \<Rightarrow>
        ((codes (''Target file '' @ repo @ '':'' @ path) @ (case body of
            None \<Rightarrow> codes '': could not read''
          | Some b \<Rightarrow> codes '' as it is now:'' @ 10 # (if length b > 4000 then codes (take 4000 b) @ 10 # 8230 # codes ''(truncated)'' else codes b))) # ls, w2))))"

definition judge_gitops_context :: "'w judge_env \<Rightarrow> pydict \<Rightarrow> 'w \<Rightarrow> chars \<times> 'w" where
  "judge_gitops_context d details w =
     (let check = dict_or_empty (pget details ''observed_check'');
          head = (if truthy (pget check ''status'')
            then [codes (''Observed check: '' @ py_str (pget check ''status'')) @ [32, 8212, 32] @ codes (take 300 (detail_text check ''reason'' []))] else []);
          targets = (case pget details ''targets'' of PList ts \<Rightarrow> ts | _ \<Rightarrow> [])
      in case target_lines d 0 targets w of (ls, w') \<Rightarrow> (join_lines (head @ ls), w'))"

definition judge_message :: "'w judge_env \<Rightarrow> pydict \<Rightarrow> string \<Rightarrow> string \<Rightarrow> pyval \<Rightarrow> 'w \<Rightarrow> chars \<times> 'w" where
  "judge_message d details cls risk confidence w = (case jd_notready d w of (nodes, w1) \<Rightarrow>
     (let down = (case nodes of Inl e \<Rightarrow> [] | Inr ns \<Rightarrow> sort ns);
          framed = (\<lambda>s label n. frame_untrusted_data (codes s) (codes label) n);
          labels = PDict (dict_or_empty (pget details ''alert_labels''))
      in case judge_gitops_context d details w1 of (context, w2) \<Rightarrow>
        (framed (take 300 (detail_text details ''trigger'' [])) ''alert trigger'' 300 @ 10 #
         framed (take 300 (json_dumps json_default labels)) ''alert labels'' 300 @ 10 #
         framed (detail_text details ''host'' ''unknown'') ''affected host'' 200 @ 10 #
         codes (if down = [] then ''All nodes are Ready right now.'' else ''Nodes NOT Ready right now: '' @ str_join '', '' down) @ 10 #
         codes (''Target repo: '' @ detail_text details ''repo'' ''unknown'') @ 10 #
         framed (take 2000 (detail_text details ''report'' [])) ''investigation findings'' 2000 @ 10 # 10 #
         framed (take 800 (detail_text details ''recommendation'' [])) ''proposed remediation'' 800 @ 10 #
         codes (''Classified by a smaller model as: '' @ cls @ '' / risk='' @ risk @ '' / confidence='' @ py_str confidence) @ 10 # 10 #
         context @ 10 # codes ''Should this be done unattended?'', w2)))"

section \<open>Asking one after the other\<close>

record judge_peer =
  jp_backend :: string
  jp_model :: string
  jp_outcome :: string
  jp_detail :: string

record judge_verdict =
  jv_verdict :: string
  jv_backend :: "string option"
  jv_model :: "string option"
  jv_reason :: string
  jv_peers :: "judge_peer list"

text \<open>\<open>s.replace(old, new)\<close> for an \<open>old\<close> that is not empty.\<close>

fun replace_text :: "nat \<Rightarrow> string \<Rightarrow> string \<Rightarrow> string \<Rightarrow> string" where
  "replace_text 0 old new s = s"
| "replace_text (Suc n) old new s = (case s of [] \<Rightarrow> [] | c # t \<Rightarrow>
     if starts_with old s then new @ replace_text n old new (drop (length old) s) else c # replace_text n old new t)"

definition peer_entry :: "'w judge_env \<Rightarrow> string \<Rightarrow> string \<Rightarrow> string \<Rightarrow> string \<Rightarrow> judge_peer" where
  "peer_entry d backend model outcome detail =
     (let key = jd_key d backend; text' = (if length key \<ge> 8 then replace_text (length detail) key ''***'' detail else detail)
      in \<lparr>jp_backend = backend, jp_model = model, jp_outcome = outcome, jp_detail = take 240 (jd_redact d text')\<rparr>)"

definition parked :: "string option \<Rightarrow> string option \<Rightarrow> string \<Rightarrow> judge_peer list \<Rightarrow> judge_verdict" where
  "parked backend model why peers =
     \<lparr>jv_verdict = ''downgrade'', jv_backend = backend, jv_model = model, jv_reason = why, jv_peers = peers\<rparr>"

definition nobody_judged :: "string list \<Rightarrow> string list \<Rightarrow> string list \<Rightarrow> judge_peer list \<Rightarrow> judge_verdict" where
  "nobody_judged refusals unavailable selfs peers = parked None None
     (if selfs \<noteq> [] \<and> unavailable = [] \<and> refusals = []
      then ''the only available judge ('' @ str_join '', '' selfs @ '') is the model that wrote this recommendation; parked rather than letting it review its own work''
      else ''judge unavailable ('' @ (let named = str_join ''; '' (refusals @ unavailable) in if named = [] then ''unknown'' else named) @
        ''); parked rather than executed unattended'') peers"

definition nudge_text :: "string \<Rightarrow> chars" where
  "nudge_text reply = 10 # 10 # codes ''Your previous reply was not the required format:'' @ 10 # codes (take 1000 reply) @ 10 # 10 #
     codes ''Reply again with ONLY the single JSON object {\"verdict\": ..., \"reason\": ...}.''"

text \<open>The one nudge: its verdict, and the note of a refusal.\<close>

definition nudge_judge :: "'w judge_env \<Rightarrow> string \<Rightarrow> string \<Rightarrow> chars \<Rightarrow> string \<Rightarrow> 'w \<Rightarrow> (string \<times> string) option \<times> string list \<times> 'w" where
  "nudge_judge d backend model msg reply w = (case complete_judge d backend model (msg @ nudge_text reply) w of
     (Inl f, w') \<Rightarrow> (None, if is_request_refusal (snd f) then [take 240 (refusal_note backend f)] else [], w')
   | (Inr second, w') \<Rightarrow> (case parse_judge_verdict (dn_loads (jd_agent d)) second of Inl e \<Rightarrow> None | Inr v \<Rightarrow> v, [], w'))"

definition judged_by :: "'w judge_env \<Rightarrow> string \<Rightarrow> string \<Rightarrow> string list \<Rightarrow> judge_peer list \<Rightarrow> (string \<times> string) option \<Rightarrow> judge_verdict" where
  "judged_by d backend model refusals peers v = (case v of
     Some (verdict, why) \<Rightarrow> \<lparr>jv_verdict = verdict, jv_backend = Some backend, jv_model = Some model,
       jv_reason = stamp_judge_refusals why refusals backend, jv_peers = peers @ [peer_entry d backend model ''verdict'' verdict]\<rparr>
   | None \<Rightarrow> parked (Some backend) (Some model)
       (stamp_judge_refusals ''judge verdict unparseable; parked rather than executed unattended'' refusals [])
       (peers @ [peer_entry d backend model ''unparseable'' ''reply was not a verdict, after one nudge'']))"

fun judge_ladder :: "'w judge_env \<Rightarrow> string \<Rightarrow> chars \<Rightarrow> string list \<Rightarrow> string list \<Rightarrow> string list \<Rightarrow> string list \<Rightarrow> judge_peer list \<Rightarrow> 'w \<Rightarrow>
    judge_verdict res \<times> 'w" where
  "judge_ladder d reporter msg [] refusals unavailable selfs peers w = (Inr (nobody_judged refusals unavailable selfs peers), w)"
| "judge_ladder d reporter msg (b # bs) refusals unavailable selfs peers w = (case judge_model d b of
     Inl e \<Rightarrow> (Inl e, w)
   | Inr model \<Rightarrow>
       if judge_is_self_review reporter b model then
         judge_ladder d reporter msg bs refusals unavailable (selfs @ [b @ ''/'' @ model])
           (peers @ [peer_entry d b model ''self_review_skipped'' (''wrote the recommendation ('' @ reporter @ '')'')]) w
       else (case complete_judge d b model msg w of
         (Inl f, w1) \<Rightarrow>
           if is_request_refusal (snd f) then
             judge_ladder d reporter msg bs (refusals @ [take 240 (refusal_note b f)]) unavailable selfs
               (peers @ [peer_entry d b model ''refused'' (refusal_note b f)]) w1
           else judge_ladder d reporter msg bs refusals (unavailable @ [take 240 (b @ '': '' @ exn_text (fst f))]) selfs
               (peers @ [peer_entry d b model ''unavailable'' (exn_text (fst f))]) w1
       | (Inr reply, w1) \<Rightarrow> (case parse_judge_verdict (dn_loads (jd_agent d)) reply of
           Inl e \<Rightarrow> (Inl e, w1)
         | Inr (Some v) \<Rightarrow> (Inr (judged_by d b model refusals peers (Some v)), w1)
         | Inr None \<Rightarrow> (case nudge_judge d b model msg reply w1 of (v, added, w2) \<Rightarrow>
             (Inr (judged_by d b model (refusals @ added) peers v), w2)))))"

definition judge_mutation :: "'w judge_env \<Rightarrow> pydict \<Rightarrow> string \<Rightarrow> string \<Rightarrow> pyval \<Rightarrow> 'w \<Rightarrow> judge_verdict res \<times> 'w" where
  "judge_mutation d details cls risk confidence w = (case judge_message d details cls risk confidence w of (msg, w1) \<Rightarrow>
     (case judge_providers d of
        Inl e \<Rightarrow> (Inl e, w1)
      | Inr [] \<Rightarrow> (Inr (parked None None (''no frontier judge available (no API key for any of '' @ str_join '', '' judge_default_order @
          ''); parked rather than executed unattended'') []), w1)
      | Inr (b # bs) \<Rightarrow> judge_ladder d (truthy_str (pget details ''provider'')) msg (b # bs) [] [] [] [] w1))"

text \<open>A judge that raises parks the row.\<close>

definition judge_for_enqueue :: "'w judge_env \<Rightarrow> pydict \<Rightarrow> string \<Rightarrow> string \<Rightarrow> pyval \<Rightarrow> 'w \<Rightarrow> judge_verdict \<times> 'w" where
  "judge_for_enqueue d details cls risk confidence w = (case judge_mutation d details cls risk confidence w of
     (Inl e, w') \<Rightarrow> (parked None None (''judge error ('' @ exn_text e @ ''); parked rather than executed unattended'') [], w')
   | (Inr v, w') \<Rightarrow> (v, w'))"

section \<open>The veto\<close>

text \<open>A reply of the model, to this prompt or to the nudge, that reads as this verdict.\<close>

definition answered_with :: "'w judge_env \<Rightarrow> string \<Rightarrow> string \<Rightarrow> chars \<Rightarrow> string \<Rightarrow> bool" where
  "answered_with d backend model msg verdict =
     (\<exists>reply why w w' msg'. (msg' = msg \<or> (\<exists>r. msg' = msg @ nudge_text r)) \<and> complete_judge d backend model msg' w = (Inr reply, w') \<and>
        parse_judge_verdict (dn_loads (jd_agent d)) reply = Inr (Some (verdict, why)))"

definition silent :: "judge_peer \<Rightarrow> bool" where
  "silent p = (jp_outcome p \<in> {''self_review_skipped'', ''refused'', ''unavailable''})"

text \<open>Who may hold the veto on the work of a reporter.\<close>

definition may_judge :: "'w judge_env \<Rightarrow> string \<Rightarrow> string \<Rightarrow> string \<Rightarrow> bool" where
  "may_judge d reporter backend model = (backend \<in> fst ` set judge_floor \<and> jd_key d backend \<noteq> [] \<and> judge_model d backend = Inr model \<and>
     \<not> is_fast_tier_model model \<and> \<not> judge_is_self_review reporter backend model)"

lemma floor_is_not_fast: "(b, m) \<in> set judge_floor \<Longrightarrow> \<not> is_fast_tier_model m"
proof -
  have "\<forall>(b, m) \<in> set judge_floor. \<not> is_fast_tier_model m" by code_simp
  then show "(b, m) \<in> set judge_floor \<Longrightarrow> \<not> is_fast_tier_model m" by blast
qed

lemma judge_model_tier: "judge_model d b = Inr m \<Longrightarrow> b \<in> fst ` set judge_floor \<Longrightarrow> \<not> is_fast_tier_model m"
proof -
  assume m: "judge_model d b = Inr m" and b: "b \<in> fst ` set judge_floor"
  obtain f where f: "map_of judge_floor b = Some f" using b by (metis map_of_eq_None_iff not_None_eq)
  then have "\<not> is_fast_tier_model f" using floor_is_not_fast map_of_SomeD by metis
  moreover obtain c where c: "m = (case filter (\<lambda>m. m \<noteq> [] \<and> \<not> is_fast_tier_model m) [judge_model_setting d b, c] of
      m # _ \<Rightarrow> m | [] \<Rightarrow> (case map_of judge_floor b of None \<Rightarrow> [] | Some m \<Rightarrow> m))"
    using m unfolding judge_model_def by (cases "judge_model_config d b") auto
  ultimately show ?thesis
  proof (cases "filter (\<lambda>m. m \<noteq> [] \<and> \<not> is_fast_tier_model m) [judge_model_setting d b, c]")
    case (Cons x xs)
    then have "x \<in> set (filter (\<lambda>m. m \<noteq> [] \<and> \<not> is_fast_tier_model m) [judge_model_setting d b, c])" by (metis list.set_intros(1))
    then have "\<not> is_fast_tier_model x" by (simp only: set_filter mem_Collect_eq) blast
    then show ?thesis using c Cons by (simp only: list.case not_False_eq_True)
  qed (simp add: c f)
qed

definition keyed :: "'w judge_env \<Rightarrow> string \<Rightarrow> bool" where
  "keyed d b = (b \<in> fst ` set judge_floor \<and> jd_key d b \<noteq> [])"

lemma keyed_backends_ok: "\<forall>b \<in> set (keyed_backends d names). keyed d b"
proof -
  have "\<forall>b \<in> set out. keyed d b \<Longrightarrow> \<forall>b \<in> set (foldl (take_backend d) out names). keyed d b" for out
  proof (induction names arbitrary: out)
    case (Cons v names)
    have "\<forall>b \<in> set (take_backend d out v). keyed d b" using Cons.prems by (auto simp: take_backend_def keyed_def Let_def)
    then show ?case by (simp add: Cons.IH)
  qed simp
  from this [of "[]"] show ?thesis by (simp add: keyed_backends_def)
qed

lemma judge_providers_ok: "judge_providers d = Inr bs \<Longrightarrow> \<forall>b \<in> set bs. keyed d b"
proof -
  assume "judge_providers d = Inr bs"
  then obtain names where "bs = keyed_backends d names" by (auto simp: judge_providers_def bind_res_Inr_iff)
  then show ?thesis using keyed_backends_ok by simp
qed

lemma nudge_answered:
  assumes "nudge_judge d b m msg reply w = (Some (verdict, why), added, w')"
  shows "answered_with d b m msg verdict"
proof -
  obtain r w1 where call: "complete_judge d b m (msg @ nudge_text reply) w = (r, w1)" by (cases "complete_judge d b m (msg @ nudge_text reply) w")
  then obtain second where r: "r = Inr second" using assms by (cases r) (auto simp: nudge_judge_def)
  then have "parse_judge_verdict (dn_loads (jd_agent d)) second = Inr (Some (verdict, why))"
    using assms call by (cases "parse_judge_verdict (dn_loads (jd_agent d)) second") (simp_all add: nudge_judge_def)
  with call r show ?thesis unfolding answered_with_def by blast
qed

lemma judged_by_confirm:
  assumes "jv_verdict (judged_by d b m refusals peers v) = ''confirm''"
  shows "(\<exists>why. v = Some (''confirm'', why)) \<and> jv_backend (judged_by d b m refusals peers v) = Some b \<and>
    jv_model (judged_by d b m refusals peers v) = Some m \<and>
    (\<exists>p. jv_peers (judged_by d b m refusals peers v) = peers @ [p] \<and> jp_outcome p = ''verdict'')"
proof (cases v)
  case (Some x)
  then show ?thesis using assms by (cases x) (simp add: judged_by_def peer_entry_def Let_def)
qed (use assms in \<open>simp add: judged_by_def parked_def\<close>)

lemma ladder_confirm:
  assumes "judge_ladder d reporter msg bs refusals unavailable selfs peers w = (Inr v, w')" "jv_verdict v = ''confirm''"
    "\<forall>b \<in> set bs. keyed d b" "\<forall>p \<in> set peers. silent p"
  shows "\<exists>b m. jv_backend v = Some b \<and> jv_model v = Some m \<and> may_judge d reporter b m \<and> answered_with d b m msg ''confirm'' \<and>
    (\<exists>earlier p. jv_peers v = earlier @ [p] \<and> jp_outcome p = ''verdict'' \<and> (\<forall>q \<in> set earlier. silent q))"
  using assms
proof (induction bs arbitrary: refusals unavailable selfs peers w)
  case Nil
  then show ?case by (auto simp: nobody_judged_def parked_def)
next
  case (Cons b bs)
  obtain m where m: "judge_model d b = Inr m" using Cons.prems(1) by (auto split: sum.splits)
  have quiet: "silent (peer_entry d b m k x)" if "k \<in> {''self_review_skipped'', ''refused'', ''unavailable''}" for k x
    using that by (simp add: silent_def peer_entry_def Let_def)
  show ?case
  proof (cases "judge_is_self_review reporter b m")
    case True
    have "judge_ladder d reporter msg bs refusals unavailable (selfs @ [b @ ''/'' @ m])
        (peers @ [peer_entry d b m ''self_review_skipped'' (''wrote the recommendation ('' @ reporter @ '')'')]) w = (Inr v, w')"
      using Cons.prems(1) m True by simp
    from Cons.IH [OF this Cons.prems(2)] Cons.prems(3,4) quiet show ?thesis by simp
  next
    case False
    have may: "may_judge d reporter b m"
      using Cons.prems(3) m False judge_model_tier [OF m] by (simp add: may_judge_def keyed_def)
    obtain r w1 where call: "complete_judge d b m msg w = (r, w1)" by (cases "complete_judge d b m msg w")
    show ?thesis
    proof (cases r)
      case (Inl f)
      then obtain refusals' unavailable' k x where "judge_ladder d reporter msg bs refusals' unavailable' selfs (peers @ [peer_entry d b m k x]) w1 = (Inr v, w')"
        "k \<in> {''self_review_skipped'', ''refused'', ''unavailable''}"
        using Cons.prems(1) m False call by (cases "is_request_refusal (snd f)") force+
      from Cons.IH [OF this(1) Cons.prems(2)] Cons.prems(3,4) quiet [OF this(2)] show ?thesis by simp
    next
      case (Inr reply)
      obtain v0 added w2 where v: "v = judged_by d b m (refusals @ added) peers v0"
        "v0 \<noteq> None \<Longrightarrow> answered_with d b m msg (fst (the v0))"
      proof (cases "parse_judge_verdict (dn_loads (jd_agent d)) reply")
        case (Inr p)
        show thesis
        proof (cases p)
          case None
          obtain v0 added w2 where n: "nudge_judge d b m msg reply w1 = (v0, added, w2)" by (cases "nudge_judge d b m msg reply w1")
          then have "v = judged_by d b m (refusals @ added) peers v0"
            using Cons.prems(1) m False call \<open>r = Inr reply\<close> Inr None by simp
          with n nudge_answered show thesis by (intro that) auto
        next
          case (Some x)
          then have "v = judged_by d b m (refusals @ []) peers (Some x)"
            using Cons.prems(1) m False call \<open>r = Inr reply\<close> Inr by simp
          moreover have "answered_with d b m msg (fst x)"
            unfolding answered_with_def using call \<open>r = Inr reply\<close> Inr Some by (metis prod.collapse)
          ultimately show thesis by (intro that [of "[]" "Some x"]) simp_all
        qed
      qed (use Cons.prems(1) m False call \<open>r = Inr reply\<close> in simp)
      from judged_by_confirm [of d b m "refusals @ added" peers v0] Cons.prems(2) v may Cons.prems(4)
      show ?thesis by fastforce
    qed
  qed
qed

lemma confirmed_by_a_judge_core:
  assumes "judge_mutation d details cls risk confidence w = (Inr v, w')" "jv_verdict v = ''confirm''"
  shows "\<exists>b m msg. jv_backend v = Some b \<and> jv_model v = Some m \<and> may_judge d (truthy_str (pget details ''provider'')) b m \<and>
    msg = fst (judge_message d details cls risk confidence w) \<and> answered_with d b m msg ''confirm'' \<and>
    (\<exists>earlier p. jv_peers v = earlier @ [p] \<and> jp_outcome p = ''verdict'' \<and> (\<forall>q \<in> set earlier. silent q))"
proof -
  obtain msg w1 where msg: "judge_message d details cls risk confidence w = (msg, w1)" by (cases "judge_message d details cls risk confidence w")
  obtain bs where bs: "judge_providers d = Inr bs" using assms(1) msg by (cases "judge_providers d") (simp_all add: judge_mutation_def)
  have "bs \<noteq> []" using assms msg bs by (auto simp: judge_mutation_def parked_def)
  then have "judge_ladder d (truthy_str (pget details ''provider'')) msg bs [] [] [] [] w1 = (Inr v, w')"
    using assms(1) msg bs by (cases bs) (simp_all add: judge_mutation_def)
  from ladder_confirm [OF this assms(2) judge_providers_ok [OF bs]] msg show ?thesis by simp
qed

text \<open>
  C5: The judge confirms an unattended change only by the word of a model that may hold the veto: a backend of the fixed list with
  a key, on a model of no fast tier, and not of the vendor that wrote the recommendation. That model answered this prompt, or the one
  nudge, with "confirm"; everyone asked before it stayed silent, so no answer was passed over in search of a milder one.
\<close>

theorem confirmed_by_a_judge:
  assumes "judge_mutation d details cls risk confidence w = (Inr v, w')" "jv_verdict v = ''confirm''"
  shows "\<exists>b m msg. jv_backend v = Some b \<and> jv_model v = Some m \<and> may_judge d (truthy_str (pget details ''provider'')) b m \<and>
    msg = fst (judge_message d details cls risk confidence w) \<and> answered_with d b m msg ''confirm'' \<and>
    (\<exists>earlier p. jv_peers v = earlier @ [p] \<and> jp_outcome p = ''verdict'' \<and> (\<forall>q \<in> set earlier. silent q))"
  using confirmed_by_a_judge_core [OF assms] .

lemma enqueue_confirm:
  assumes "judge_for_enqueue d details cls risk confidence w = (v, w')" "jv_verdict v = ''confirm''"
  shows "judge_mutation d details cls risk confidence w = (Inr v, w')"
proof (cases "judge_mutation d details cls risk confidence w")
  case (Pair r x)
  with assms show ?thesis by (cases r) (auto simp: judge_for_enqueue_def parked_def)
qed

definition sample_judge :: "unit judge_env" where
  "sample_judge = \<lparr>jd_agent = drain_sample\<lparr>dn_loads := (\<lambda>_. Inr (PDict [(''verdict'', PStr ''Confirm''), (''reason'', PStr ''proportionate'')]))\<rparr>,
     jd_key = (\<lambda>b. if b = ''xai'' then ''secret'' else []), jd_notready = (\<lambda>w. (Inr [], w)), jd_read = (\<lambda>repo path w. (None, w)),
     jd_post = (\<lambda>b m msg w. (Inr (PDict [(''choices'', PList [PDict [(''message'', PDict [(''content'', PStr ''{}'')])]])]), w)), jd_redact = (\<lambda>t. t)\<rparr>"

definition sample_hint :: pydict where
  "sample_hint = [(''recommendation'', PStr ''raise the limit''), (''provider'', PStr ''anthropic/claude-opus-4-8'')]"

definition sample_verdict :: judge_verdict where
  "sample_verdict = \<lparr>jv_verdict = ''confirm'', jv_backend = Some ''xai'', jv_model = Some ''grok-4.5'', jv_reason = ''proportionate'',
     jv_peers = [peer_entry sample_judge ''xai'' ''grok-4.5'' ''verdict'' ''confirm'']\<rparr>"

lemma sample_judged:
  assumes "pget details ''provider'' = PStr ''anthropic/claude-opus-4-8''"
  shows "judge_mutation sample_judge details cls risk confidence () = (Inr sample_verdict, ())"
proof -
  obtain msg where msg: "judge_message sample_judge details cls risk confidence () = (msg, ())"
    by (cases "judge_message sample_judge details cls risk confidence ()") simp
  have 1: "judge_providers sample_judge = Inr [''xai'']" "judge_model sample_judge ''xai'' = Inr ''grok-4.5''"
    "\<not> judge_is_self_review (truthy_str (PStr ''anthropic/claude-opus-4-8'')) ''xai'' ''grok-4.5''"
    "parse_judge_verdict (dn_loads (jd_agent sample_judge)) ''{}'' = Inr (Some (''confirm'', ''proportionate''))"
    "jd_key sample_judge ''xai'' = ''secret''" "''xai'' \<noteq> ''anthropic'' \<and> ''xai'' \<in> set compat_providers"
    "compat_text (PDict [(''choices'', PList [PDict [(''message'', PDict [(''content'', PStr ''{}'')])]])]) = Inr ''{}''" by code_simp+
  have 2: "complete_judge sample_judge ''xai'' ''grok-4.5'' msg () = (Inr ''{}'', ())"
    using 1(5-7) by (simp add: complete_judge_def) (simp add: sample_judge_def plain_def)
  show ?thesis
    by (simp add: assms judge_mutation_def msg 1(1-4) 2 judged_by_def stamp_judge_refusals_def sample_verdict_def del: judge_ladder.simps)
      (simp add: 1(1-4) 2 judged_by_def stamp_judge_refusals_def)
qed

theorem confirmed_by_a_judge_witness:
  "jv_backend sample_verdict = Some ''xai'' \<and> may_judge sample_judge ''anthropic/claude-opus-4-8'' ''xai'' ''grok-4.5''"
proof -
  have v: "jv_verdict sample_verdict = ''confirm''" "jv_backend sample_verdict = Some ''xai''" "jv_model sample_verdict = Some ''grok-4.5''"
    by (simp_all add: sample_verdict_def)
  have p: "pget sample_hint ''provider'' = PStr ''anthropic/claude-opus-4-8''" by (simp add: sample_hint_def)
  have "truthy_str (PStr ''anthropic/claude-opus-4-8'') = ''anthropic/claude-opus-4-8''" by code_simp
  moreover obtain b m where "jv_backend sample_verdict = Some b" "jv_model sample_verdict = Some m"
    "may_judge sample_judge (truthy_str (PStr ''anthropic/claude-opus-4-8'')) b m"
    using confirmed_by_a_judge [OF sample_judged [OF p] v(1), of "''gitops-patch''" "''low''" PNone] p by auto
  ultimately show ?thesis using v(2,3) by simp
qed

end
