(* ===== verification/Remediation_Intake.thy ===== *)
theory Remediation_Intake
  imports Judge Py_Regex
begin

text \<open>
  The way of a finding into the queue, \<open>_maybe_queue_remediation\<close> of \<open>agent/agent.py\<close> with \<open>agent/dedupe_client.py\<close>: whether it is
  new, a fold onto an open row or a repeat, which the service \<open>cfop-dedupe\<close> decides, or the exact key when it cannot; and the judge, who
  is asked outside the lock. The service, the inventory of nodes, the model that hints at a fold, and what other threads do to the
  table while the lock is free are arguments. A finding is a dict; its confidence is kept apart, as the number it is. Metrics, spans and
  log lines are left out. A row number of the service that is no integer fails in the driver of the database.
\<close>

section \<open>The client of the service\<close>

definition payload_fields :: "string list" where
  "payload_fields = [''dedupe_key'', ''dedupe_aliases'', ''recommendation'', ''targets'', ''fold_targets'']"

definition candidate_fields :: "string list" where
  "candidate_fields = [''dedupe_key'', ''recommendation'', ''targets'', ''fold_targets'', ''host'', ''title'', ''trigger'', ''remediation_class'', ''source'']"

definition restricted :: "string list \<Rightarrow> pydict \<Rightarrow> pydict" where
  "restricted ks d = map (\<lambda>k. (k, pget d k)) (filter (\<lambda>k. pget d k \<noteq> PNone) ks)"

definition candidate_from :: "pydict \<Rightarrow> pydict" where
  "candidate_from details = restricted candidate_fields details"

definition trim_rows :: "rem_row list \<Rightarrow> pydict list" where
  "trim_rows rows = map (\<lambda>r. [(''id'', PInt (rr_id r)), (''status'', PStr (rr_status r)), (''payload'', PDict (restricted payload_fields (rr_payload r)))]) rows"

definition exact_key :: "pydict \<Rightarrow> pydict list \<Rightarrow> pydict" where
  "exact_key candidate rows =
     (let key = py_str (por (pget candidate ''dedupe_key'') (PStr []));
          hit = (\<lambda>r. pget r ''status'' \<notin> {PStr ''resolved'', PStr ''rejected''} \<and> pget (dict_or_empty (pget r ''payload'')) ''dedupe_key'' = PStr key);
          fresh = [(''decision'', PStr ''new''), (''dedupe_key'', PStr key), (''reason'', PStr ''exact key only: no open row carries it'')]
      in if key = [] then fresh
         else (case find hit rows of None \<Rightarrow> fresh | Some r \<Rightarrow>
           [(''decision'', PStr ''suppress''), (''row_id'', pget r ''id''), (''tier'', PStr ''key''), (''dedupe_key'', PStr key),
            (''reason'', PStr (''open row #'' @ py_str (pget r ''id'') @ '' already carries '' @ key))]))"

text \<open>An answer that is no decision, or names no row where it has to, is a failure without a status.\<close>

definition client_failure :: "string \<Rightarrow> failure" where
  "client_failure msg = (PyExn ''DedupeClientError'' msg, Some 0)"

definition checked_decision :: "pyval \<Rightarrow> failure + pydict" where
  "checked_decision body =
     (let known = (\<lambda>d. pget d ''decision'' \<in> {PStr ''new'', PStr ''fold'', PStr ''suppress''}); shown = take 200 (py_str body)
      in (case body of
        PDict d \<Rightarrow> if \<not> known d then Inl (client_failure (''decide answered without a decision: '' @ shown))
          else if pget d ''decision'' \<noteq> PStr ''new'' \<and> \<not> truthy (pget d ''row_id'')
            then Inl (client_failure (''decide answered '' @ py_str (pget d ''decision'') @ '' without a row: '' @ shown))
          else Inr d
      | _ \<Rightarrow> Inl (client_failure (''decide answered without a decision: '' @ shown))))"

definition failure_name :: "failure \<Rightarrow> string" where
  "failure_name f = (case snd f of None \<Rightarrow> exn_class (fst f) | Some n \<Rightarrow> if n = 0 then exn_class (fst f) else ''http '' @ int_str n)"

definition resolve_decision ::
  "(string \<Rightarrow> pydict \<Rightarrow> 'w \<Rightarrow> (failure + pyval) \<times> 'w) \<Rightarrow> string \<Rightarrow> pydict \<Rightarrow> pydict list option \<Rightarrow> string list \<Rightarrow> 'w \<Rightarrow> pydict \<times> 'w" where
  "resolve_decision service url candidate rows nodes w =
     (if url = [] then (dset ''source'' (PStr ''unconfigured'') (exact_key candidate (case rows of None \<Rightarrow> [] | Some rs \<Rightarrow> rs)), w)
      else (case rows of
        None \<Rightarrow> (dupdate (exact_key candidate []) [(''source'', PStr ''fallback''), (''error'', PStr ''snapshot'')], w)
      | Some rs \<Rightarrow>
          (let request = [(''candidate'', PDict candidate), (''open_rows'', PList (map PDict rs)), (''closed_rows'', PList []),
                 (''vocabulary'', PDict [(''notready_nodes'', PList (map PStr nodes))])]
           in (case service url request w of
               (answer, w') \<Rightarrow> (case (case answer of Inl f \<Rightarrow> Inl f | Inr body \<Rightarrow> checked_decision body) of
                  Inr d \<Rightarrow> (dset ''source'' (PStr ''service'') d, w')
                | Inl f \<Rightarrow> (dupdate (exact_key candidate rs) [(''source'', PStr ''fallback''), (''error'', PStr (failure_name f))], w'))))))"

section \<open>The decision under the lock\<close>

record 'w intake_env =
  fi_judge :: "'w judge_env"
  fi_service :: "string \<Rightarrow> pydict \<Rightarrow> 'w \<Rightarrow> (failure + pyval) \<times> 'w"
  fi_nodes :: "pydict \<Rightarrow> ('w, string list) op"
  fi_hint :: "pydict \<Rightarrow> ('w, pydict option) op"
  fi_resolve :: "int \<Rightarrow> int option"
  fi_others :: "'w \<Rightarrow> kb_state \<Rightarrow> kb_state"

abbreviation fi_agent :: "'w intake_env \<Rightarrow> 'w drain_env" where
  "fi_agent f \<equiv> jd_agent (fi_judge f)"

definition dedupe_url :: "'w drain_env \<Rightarrow> string" where
  "dedupe_url d = (let url = str_strip (env_get (dn_env d) ''CFOP_DEDUPE_URL'') in rstrip_by (\<lambda>c. c = CHR ''/'')
     (if url \<noteq> [] then url else truthy_str (pget (dict_or_empty (pget (dict_or_empty (remediation_config d)) ''dedupe'')) ''url'')))"

definition list_open_rows :: "(kb_state, rem_row list) op" where
  "list_open_rows = session (\<lambda>s. (Inr (sort_desc rr_created (filter open_row (kb_rows s))), s))"

definition row_of :: "pyval \<Rightarrow> (kb_state, rem_row option) op" where
  "row_of rid = (case rid of PInt i \<Rightarrow> get_row i | _ \<Rightarrow> session (\<lambda>s. (Inl (PyExn ''DataError'' ''invalid row number''), s)))"

definition dedupe_row_open :: "pyval \<Rightarrow> ('w drain_state, bool) op" where
  "dedupe_row_open rid = st_try
     (st_bind (on_kb (row_of rid)) (\<lambda>row. st_return (case row of None \<Rightarrow> False | Some r \<Rightarrow> open_row r))) (\<lambda>e. st_return True)"

definition snapshot :: "('w drain_state, pydict list option) op" where
  "snapshot = st_try (st_bind (on_kb list_open_rows) (\<lambda>rows. st_return (Some (trim_rows rows)))) (\<lambda>e. st_return None)"

definition asked :: "'w intake_env \<Rightarrow> pydict \<Rightarrow> pydict list option \<Rightarrow> ('w drain_state, pydict) op" where
  "asked f cand rows = st_bind (if rows = None then st_return [] else on_world (fi_nodes f cand)) (\<lambda>nodes.
     on_world (\<lambda>w. case resolve_decision (fi_service f) (dedupe_url (fi_agent f)) cand rows nodes w of (d, w') \<Rightarrow> (Inr d, w')))"

text \<open>A row that was closed meanwhile makes the snapshot stale; after two of them the exact key decides, over the others.\<close>

fun dedupe_rounds :: "'w intake_env \<Rightarrow> pydict \<Rightarrow> nat \<Rightarrow> pyval list \<Rightarrow> ('w drain_state, pydict) op" where
  "dedupe_rounds f cand n stale = st_bind snapshot (\<lambda>rows. st_bind (asked f cand rows) (\<lambda>decision.
     let rid = pget decision ''row_id'' in
     st_bind (if pget decision ''decision'' = PStr ''new'' then st_return True else dedupe_row_open rid) (\<lambda>ok.
     if ok then st_return decision
     else (case n of
         0 \<Rightarrow> st_return (dupdate (exact_key cand (filter (\<lambda>r. pget r ''id'' \<notin> set (rid # stale)) (case rows of None \<Rightarrow> [] | Some rs \<Rightarrow> rs)))
               [(''source'', PStr ''fallback''), (''error'', PStr ''stale'')])
       | Suc m \<Rightarrow> dedupe_rounds f cand m (rid # stale)))))"

declare dedupe_rounds.simps [simp del]

definition hint_note :: "pydict \<Rightarrow> pyval" where
  "hint_note hint = PDict (map (\<lambda>k. (k, pget hint k)) [''mode'', ''outcome'', ''row_id'', ''reason'', ''backend'', ''model''])"

definition hint_fold :: "pydict \<Rightarrow> pydict \<Rightarrow> pydict" where
  "hint_fold cand hint =
     (let rid = pget hint ''row_id''; key = pget cand ''dedupe_key''
      in [(''decision'', PStr ''fold''), (''row_id'', rid), (''tier'', PStr ''model''), (''source'', PStr ''model''),
          (''reason'', PStr (''same fix as open row #'' @ py_str rid @ '', per '' @ py_str (pget hint ''backend'') @ ''/'' @ py_str (pget hint ''model'') @ '': '' @ py_str (pget hint ''reason''))),
          (''absorbed'', PStr (take 200 (py_str (por (por (pget cand ''trigger'') (pget cand ''recommendation'')) (PStr []))))),
          (''alias'', if truthy key \<and> key \<noteq> pget hint ''row_key'' then key else PNone), (''model'', hint_note hint)])"

definition dedupe_apply_hint :: "pydict \<Rightarrow> pydict \<Rightarrow> pydict \<Rightarrow> ('w drain_state, pydict) op" where
  "dedupe_apply_hint cand decision0 hint =
     (let decision = dset ''model'' (hint_note hint) decision0 in
      if pget hint ''outcome'' \<noteq> PStr ''fold'' \<or> pget hint ''mode'' \<noteq> PStr ''fold'' \<or> truthy (pget decision ''host'') then st_return decision
      else st_bind (dedupe_row_open (pget hint ''row_id'')) (\<lambda>ok. st_return (if ok then hint_fold cand hint else decision)))"

definition dedupe_decide :: "'w intake_env \<Rightarrow> pydict \<Rightarrow> pydict option \<Rightarrow> ('w drain_state, pydict) op" where
  "dedupe_decide f candidate hint =
     (let cand = candidate_from candidate in
      st_bind (dedupe_rounds f cand 1 []) (\<lambda>decision. case hint of
        Some (x # xs) \<Rightarrow> if pget decision ''decision'' = PStr ''new'' then dedupe_apply_hint cand decision (x # xs) else st_return decision
      | _ \<Rightarrow> st_return decision))"

section \<open>Folding\<close>

definition noted :: "(int \<Rightarrow> string \<Rightarrow> (kb_state, bool) op) \<Rightarrow> pyval \<Rightarrow> pyval \<Rightarrow> ('w drain_state, unit) op" where
  "noted m rid v = (if \<not> truthy v then st_return ()
     else on_kb (case rid of PInt i \<Rightarrow> st_bind (m i (py_str v)) (\<lambda>_. st_return ()) | _ \<Rightarrow> st_bind (row_of rid) (\<lambda>_. st_return ())))"

definition apply_dedupe_fold :: "pydict \<Rightarrow> ('w drain_state, pyval) op" where
  "apply_dedupe_fold decision =
     (let rid = pget decision ''row_id'' in
      st_bind (st_try (st_bind (noted record_absorbed rid (pget decision ''absorbed'')) (\<lambda>_. noted record_alias rid (pget decision ''alias'')))
        (\<lambda>e. st_return ())) (\<lambda>_. st_return rid))"

text \<open>A pull request that is already open goes with the row that absorbed its finding, unless that row has a driver.\<close>

definition stamp_opened_pr :: "rem_row option \<Rightarrow> string \<Rightarrow> int \<Rightarrow> ('w drain_state, bool) op" where
  "stamp_opened_pr row pr_url now =
     (let url = str_strip pr_url in
      case row of None \<Rightarrow> st_return False | Some r \<Rightarrow>
        if url = [] \<or> rr_id r = 0 \<or> (case rr_pr r of None \<Rightarrow> False | Some u \<Rightarrow> u \<noteq> []) \<or> rr_status r \<notin> {''queued'', ''needs-human''} then st_return False
        else st_try (st_bind (on_kb (update_status (rr_id r) ''pr-open'' (Some url) None None now)) (\<lambda>_. st_return True)) (\<lambda>e. st_return False))"

definition fold_choke_point :: "pydict \<Rightarrow> string option \<Rightarrow> int \<Rightarrow> ('w drain_state, pyval) op" where
  "fold_choke_point decision pr_url now =
     st_bind (apply_dedupe_fold decision) (\<lambda>rid. case pr_url of None \<Rightarrow> st_return rid | Some u \<Rightarrow>
       st_bind (st_try (st_bind (on_kb (row_of rid)) (\<lambda>row. stamp_opened_pr row u now)) (\<lambda>e. st_return False)) (\<lambda>_. st_return rid))"

section \<open>The new row\<close>

text \<open>A recommendation that offers alternatives.\<close>

definition fork_verbs :: "string list" where
  "fork_verbs = [''update'', ''add'', ''remove'', ''delete'', ''set'', ''change'', ''switch'', ''use'', ''configure'', ''increase'', ''decrease'', ''truncate'',
     ''chunk'', ''restart'', ''scale'', ''migrate'', ''rotate'', ''adjust'', ''modify'', ''patch'', ''upgrade'', ''downgrade'', ''enable'', ''disable'', ''replace'',
     ''move'', ''retarget'', ''recreate'']"

definition fork_shape :: rx where
  "fork_shape = alts
     [seqs [RChr (\<lambda>c. c = CHR '','' \<or> c = CHR '';''), plus True (RChr py_space), lits ''or'', plus True (RChr py_space), alts (map lits fork_verbs), RWordB],
      seqs [alts [RStart, seqs [RChr (\<lambda>c. c = CHR ''.''), plus True (RChr py_space)]], alts [lits ''Alternatively'', lits ''Either''], RWordB]]"

definition published_id :: "(int \<Rightarrow> int option) \<Rightarrow> int option \<Rightarrow> int option" where
  "published_id resolve i = (case i of None \<Rightarrow> None | Some n \<Rightarrow> if n > 0 then Some n
     else (case resolve n of None \<Rightarrow> None | Some m \<Rightarrow> if m > 0 then Some m else None))"

definition key_text :: "pyval \<Rightarrow> string" where
  "key_text v = py_str (por v (PStr []))"

definition adopt_decision :: "pydict \<Rightarrow> pydict \<Rightarrow> pyval \<Rightarrow> pyval \<Rightarrow> pydict" where
  "adopt_decision details decision given_key given_host =
     (let key = key_text (pget decision ''dedupe_key'')
      in dset ''host'' (por (pget decision ''host'') given_host)
        (dset ''dedupe_key'' (if key \<noteq> key_text given_key then (if key = [] then PNone else PStr key) else given_key) details))"

definition dedupe_note :: "pydict \<Rightarrow> pydict" where
  "dedupe_note decision = [(''source'', pget decision ''source''), (''reason'', pget decision ''reason'')] @
     (if truthy (pget decision ''model'') then [(''model'', pget decision ''model'')] else [])"

definition opened_prs :: "pydict \<Rightarrow> pydict res" where
  "opened_prs details = (if truthy (pget details ''opened_prs'')
     then bind_res (py_iter (pget details ''opened_prs'')) (\<lambda>xs. Inr [(''opened_prs'', PList xs)]) else Inr [])"

definition finding_payload :: "pydict \<Rightarrow> pydict \<Rightarrow> pydict res" where
  "finding_payload details decision = bind_res (opened_prs details) (\<lambda>prs.
     let text' = (\<lambda>k. py_str (por (pget details k) (PStr []))); provider = pget details ''provider''; repo = truthy_str (pget details ''repo'');
         key = key_text (pget details ''dedupe_key'')
     in Inr ([(''recommendation'', PStr (text' ''recommendation'')), (''rendered_context'', PStr (take 5000 (text' ''report''))),
        (''proposed_diff'', PStr (text' ''proposed_diff'')), (''target'', PDict [(''host'', pget details ''host'')])] @
       (if truthy provider then [(''provider'', PStr (py_str provider))] else []) @ (if repo = [] then [] else [(''repo'', PStr repo)]) @
       (if truthy (pget details ''source'') then [(''source'', PStr (py_str (pget details ''source'')))] else []) @
       (if key = [] then [] else [(''dedupe_key'', PStr key)]) @ [(''dedupe'', PDict (dedupe_note decision))] @
       restricted [''targets'', ''observed'', ''steps'', ''verify'', ''rejected'', ''observed_check''] details @
       (if truthy (pget details ''fold_targets'') \<and> \<not> truthy (pget details ''targets'') then [(''fold_targets'', pget details ''fold_targets'')] else []) @ prs))"

definition classifier_note :: "pydict \<Rightarrow> pydict" where
  "classifier_note details = (if \<not> truthy (pget details ''classifier_model'') then []
     else [(''classifier'', PDict [(''backend'', PStr (key_text (pget details ''classifier_backend''))), (''model'', PStr (key_text (pget details ''classifier_model'')))])])"

definition peer_dict :: "judge_peer \<Rightarrow> pyval" where
  "peer_dict p = PDict [(''backend'', PStr (jp_backend p)), (''model'', PStr (jp_model p)), (''outcome'', PStr (jp_outcome p)), (''detail'', PStr (jp_detail p))]"

definition verdict_note :: "judge_verdict \<Rightarrow> pydict" where
  "verdict_note v = [(''backend'', opt_str (jv_backend v)), (''model'', opt_str (jv_model v)), (''verdict'', PStr (jv_verdict v)), (''reason'', PStr (jv_reason v))] @
     (if jv_peers v = [] then [] else [(''peers'', PList (map peer_dict (jv_peers v)))])"

text \<open>The payload with who decided, and the confidence the row may carry.\<close>

definition judged_payload :: "pydict \<Rightarrow> pydict \<Rightarrow> judge_verdict option \<Rightarrow> pyfloat option \<Rightarrow> pydict \<times> pyfloat option" where
  "judged_payload payload decided verdict confidence = (case verdict of
     None \<Rightarrow> (if decided = [] then payload else dset ''decided_by'' (PDict decided) payload, confidence)
   | Some v \<Rightarrow>
       (let decided' = dset ''judge'' (PDict (verdict_note v)) decided
        in if jv_verdict v = ''confirm'' then (dset ''decided_by'' (PDict decided') payload, confidence)
           else (dset ''decided_by'' (PDict decided') (dset ''judge_reason'' (PStr (jv_reason v)) payload), None)))"

definition insert_finding :: "pydict \<Rightarrow> pydict \<Rightarrow> string \<Rightarrow> string \<Rightarrow> int option \<Rightarrow> string option \<Rightarrow> judge_verdict option \<Rightarrow> pyfloat option \<Rightarrow> int \<Rightarrow>
    ('w drain_state, pyval) op" where
  "insert_finding details decision cls risk inv_id pr_url verdict confidence now =
     st_bind (st_lift (finding_payload details decision)) (\<lambda>payload.
     let (payload, confidence) = judged_payload payload (classifier_note details) verdict confidence; key = key_text (pget details ''dedupe_key'')
     in st_try (st_bind (on_kb (queue_remediation cls payload inv_id (take 64 (py_str (por (pget details ''host'') (PStr ''default'')))) risk confidence 5
            (if key = [] then None else Some key) pr_url now)) (\<lambda>rid.
          case rid of None \<Rightarrow> st_return PNone | Some i \<Rightarrow>
            if i \<noteq> 0 \<and> map_option jv_verdict verdict = Some ''reject'' then
              st_bind (st_try (st_bind (on_kb (update_status i ''rejected'' None None
                  (Some (''mutation judge rejected: '' @ (case verdict of None \<Rightarrow> [] | Some v \<Rightarrow> jv_reason v))) now)) (\<lambda>_. st_return ()))
                (\<lambda>e. st_return ())) (\<lambda>_. st_return (PInt i))
            else st_return (PInt i)))
        (\<lambda>e. st_return PNone))"

section \<open>The funnel\<close>

text \<open>What is known of a finding before the lock is taken.\<close>

record finding =
  fn_details :: pydict
  fn_class :: string
  fn_risk :: string
  fn_confidence :: "pyfloat option"
  fn_investigation :: "int option"
  fn_pr :: "string option"

text \<open>One round under the lock: the answer, or, for a row the judge has to see first, the details as the round leaves them.\<close>

definition intake_round :: "'w intake_env \<Rightarrow> finding \<Rightarrow> pydict option \<Rightarrow> judge_verdict option \<Rightarrow> bool \<Rightarrow> int \<Rightarrow> pydict \<Rightarrow> ('w drain_state, pyval + pydict) op" where
  "intake_round f fn hint verdict judged now details0 =
     st_bind (dedupe_decide f (fn_details fn) hint) (\<lambda>decision.
     let kind = pget decision ''decision'';
         details = (if kind = PStr ''new'' then adopt_decision details0 decision (pget (fn_details fn) ''dedupe_key'') (pget (fn_details fn) ''host'') else details0)
     in if kind = PStr ''new'' \<and> \<not> judged then st_return (Inr details)
        else if kind = PStr ''fold'' then st_bind (fold_choke_point decision (fn_pr fn) now) (\<lambda>rid. st_return (Inl rid))
        else if kind = PStr ''suppress'' then st_return (Inl PNone)
        else st_bind (insert_finding details decision (fn_class fn) (fn_risk fn) (fn_investigation fn) (fn_pr fn) verdict (fn_confidence fn) now)
          (\<lambda>rid. st_return (Inl rid)))"

definition ask_judge :: "'w intake_env \<Rightarrow> pydict \<Rightarrow> string \<Rightarrow> string \<Rightarrow> pyfloat option \<Rightarrow> ('w drain_state, judge_verdict) op" where
  "ask_judge f details cls risk confidence s =
     (case judge_for_enqueue (fi_judge f) details cls risk (case confidence of None \<Rightarrow> PNone | Some c \<Rightarrow> PFloat c) (dr_world s) of
        (v, w) \<Rightarrow> (Inr v, s\<lparr>dr_world := w, dr_kb := fi_others f w (dr_kb s)\<rparr>))"

definition run_intake :: "'w intake_env \<Rightarrow> finding \<Rightarrow> int \<Rightarrow> ('w drain_state, pyval) op" where
  "run_intake f fn now =
     st_bind (st_lift (resolve_auto_policy (remediation_config (fi_agent f)))) (\<lambda>policy.
     let (cls, risk) = normalize_fields (fn_class fn) (fn_risk fn); judged = \<not> is_auto_eligible policy cls risk (fn_confidence fn)
     in st_bind (on_world (fi_hint f (candidate_from (fn_details fn)))) (\<lambda>hint.
        st_bind (intake_round f fn hint None judged now (fn_details fn)) (\<lambda>first. case first of
          Inl answer \<Rightarrow> st_return answer
        | Inr details \<Rightarrow> st_bind (ask_judge f details cls risk (fn_confidence fn)) (\<lambda>verdict.
            st_bind (intake_round f fn hint (Some verdict) True now details) (\<lambda>second. case second of
              Inl answer \<Rightarrow> st_return answer | Inr _ \<Rightarrow> st_return PNone)))))"

definition finding_of :: "'w intake_env \<Rightarrow> int option \<Rightarrow> pydict \<Rightarrow> pyfloat option \<Rightarrow> finding" where
  "finding_of f inv_id details confidence =
     (let url = truthy_str (pget details ''pr_url''); pr = (if url = [] then None else Some url)
      in \<lparr>fn_details = details, fn_class = py_str (pget details ''remediation_class''), fn_risk = py_str (por (pget details ''risk'') (PStr ''high'')),
          fn_confidence = (if pr \<noteq> None \<or> found fork_shape (key_text (pget details ''recommendation'')) then None else confidence),
          fn_investigation = published_id (fi_resolve f) inv_id, fn_pr = pr\<rparr>)"

definition maybe_queue :: "'w intake_env \<Rightarrow> int option \<Rightarrow> pydict \<Rightarrow> pyfloat option \<Rightarrow> int \<Rightarrow> ('w drain_state, pyval) op" where
  "maybe_queue f inv_id details confidence now =
     st_bind (st_lift (remediation_flag (fi_agent f) ''queue_feed'')) (\<lambda>on.
     if \<not> on \<or> \<not> truthy (pget details ''remediation_class'') then st_return PNone
     else run_intake f (finding_of f inv_id details confidence) now)"

section \<open>What a round leaves of the table\<close>

named_theorems kept_rules

definition kept :: "(kb_state \<Rightarrow> bool) \<Rightarrow> ('w drain_state, 'a) op \<Rightarrow> bool" where
  "kept I m = (\<forall>s. I (dr_kb s) \<longrightarrow> I (dr_kb (snd (m s))))"

lemma kept_return [kept_rules]: "kept I (st_return x)"
  by (simp add: kept_def st_return_def)

lemma kept_lift [kept_rules]: "kept I (st_lift r)"
  by (simp add: kept_def st_lift_def)

lemma kept_world [kept_rules]: "kept I (on_world m)"
  by (simp add: kept_def on_world_def split: prod.split)

lemma kept_kb: "(\<And>s. I s \<Longrightarrow> I (snd (m s))) \<Longrightarrow> kept I (on_kb m)"
  by (simp add: kept_def on_kb_def split: prod.split) (metis snd_conv)

lemma kept_bind_value:
  fixes m :: "('w drain_state, 'a) op"
  assumes "kept I m" "\<And>x s s'. m s = (Inr x, s') \<Longrightarrow> kept I (f x)"
  shows "kept I (st_bind m f)"
  unfolding kept_def
proof (intro allI impI)
  fix s :: "'w drain_state" assume I: "I (dr_kb s)"
  obtain r s' where m: "m s = (r, s')" by (cases "m s")
  then have "I (dr_kb s')" using assms(1) I unfolding kept_def by (metis snd_conv)
  with m assms(2) show "I (dr_kb (snd (st_bind m f s)))" by (cases r) (simp_all add: st_bind_def kept_def)
qed

lemma kept_bind [kept_rules]: "kept I m \<Longrightarrow> (\<And>x. kept I (f x)) \<Longrightarrow> kept I (st_bind m f)"
  by (rule kept_bind_value)

lemma kept_try [kept_rules]:
  fixes m :: "('w drain_state, 'a) op"
  assumes "kept I m" "\<And>e. kept I (h e)"
  shows "kept I (st_try m h)"
  unfolding kept_def
proof (intro allI impI)
  fix s :: "'w drain_state" assume I: "I (dr_kb s)"
  obtain r s' where m: "m s = (r, s')" by (cases "m s")
  then have "I (dr_kb s')" using assms(1) I unfolding kept_def by (metis snd_conv)
  with m assms(2) show "I (dr_kb (snd (st_try m h s)))" by (cases r) (simp_all add: st_try_def kept_def)
qed

lemma kept_if [kept_rules]: "kept I m \<Longrightarrow> kept I n \<Longrightarrow> kept I (if b then m else n)"
  by simp

lemma kept_option [kept_rules]: "kept I m \<Longrightarrow> (\<And>x. kept I (n x)) \<Longrightarrow> kept I (case v of None \<Rightarrow> m | Some x \<Rightarrow> n x)"
  by (cases v) simp_all

text \<open>One transaction that keeps what its body keeps, if outages do not matter.\<close>

lemma kept_session: "(\<And>s x. I s \<Longrightarrow> I (s\<lparr>kb_faults := x\<rparr>)) \<Longrightarrow> (\<And>s. I s \<Longrightarrow> I (snd (m s))) \<Longrightarrow> I s \<Longrightarrow> I (snd (session m s))"
  by (rule session_cases [of m s]) simp_all

lemma session_state: "(\<And>x. I (s\<lparr>kb_faults := x\<rparr>)) \<Longrightarrow> (\<And>x. I (snd (m (s\<lparr>kb_faults := x\<rparr>)))) \<Longrightarrow> I (snd (session m s))"
  by (rule session_cases [of m s]) simp_all

lemma kept_read: "(\<And>s x. I s \<Longrightarrow> I (s\<lparr>kb_faults := x\<rparr>)) \<Longrightarrow> (\<And>s. snd (m s) = s) \<Longrightarrow> kept I (on_kb (session m))"
  by (rule kept_kb, rule kept_session [of I]) simp_all

lemma kept_row_read: "(\<And>s x. I s \<Longrightarrow> I (s\<lparr>kb_faults := x\<rparr>)) \<Longrightarrow> kept I (on_kb (row_of rid))"
  by (cases rid) (auto simp: row_of_def get_row_def intro!: kept_read)

lemma kept_stamp:
  assumes "\<And>s x. I s \<Longrightarrow> I (s\<lparr>kb_faults := x\<rparr>)" "\<And>s i u. I s \<Longrightarrow> I (snd (update_status i ''pr-open'' u None None now s))"
  shows "kept I (st_bind (on_kb (row_of rid)) (\<lambda>row. stamp_opened_pr row u now) :: ('w drain_state, bool) op)"
proof (rule kept_bind)
  show "kept I (on_kb (row_of rid) :: ('w drain_state, rem_row option) op)" by (rule kept_row_read) (rule assms(1))
  show "kept I (stamp_opened_pr row u now :: ('w drain_state, bool) op)" for row
    unfolding stamp_opened_pr_def Let_def by (intro kept_option kept_if kept_return kept_try kept_bind kept_kb assms(2))
qed

text \<open>What the payload of a finding says of its key and of the model that reported it.\<close>

lemma pget_append: "pget (xs @ ys) k = (if k \<in> fst ` set xs then pget xs k else pget ys k)"
proof (cases "map_of xs k")
  case None
  then have "k \<notin> fst ` set xs" by (simp add: map_of_eq_None_iff)
  then show ?thesis using None by (simp add: pget_def map_add_def)
next
  case (Some v)
  then have "k \<in> fst ` set xs" by (metis map_of_eq_None_iff option.distinct(1))
  then show ?thesis using Some by (simp add: pget_def map_add_def split: option.split)
qed

lemma restricted_keys: "k \<in> fst ` set (restricted ks d) \<Longrightarrow> k \<in> set ks"
  by (auto simp: restricted_def)

lemma payload_marks:
  assumes "finding_payload details decision = Inr p"
  shows "pget p ''dedupe_key'' = (if key_text (pget details ''dedupe_key'') = [] then PNone else PStr (key_text (pget details ''dedupe_key'')))"
    "pget p ''provider'' = (if truthy (pget details ''provider'') then PStr (py_str (pget details ''provider'')) else PNone)"
    "pget p ''recommendation'' = PStr (key_text (pget details ''recommendation''))"
proof -
  obtain prs where prs: "prs = [] \<or> (\<exists>xs. prs = [(''opened_prs'', PList xs)])" and p: "p = [(''recommendation'', PStr (py_str (por (pget details ''recommendation'') (PStr [])))), (''rendered_context'', PStr (take 5000 (py_str (por (pget details ''report'') (PStr []))))),
        (''proposed_diff'', PStr (py_str (por (pget details ''proposed_diff'') (PStr [])))), (''target'', PDict [(''host'', pget details ''host'')])] @
       (if truthy (pget details ''provider'') then [(''provider'', PStr (py_str (pget details ''provider'')))] else []) @ (if truthy_str (pget details ''repo'') = [] then [] else [(''repo'', PStr (truthy_str (pget details ''repo'')))]) @
       (if truthy (pget details ''source'') then [(''source'', PStr (py_str (pget details ''source'')))] else []) @
       (if key_text (pget details ''dedupe_key'') = [] then [] else [(''dedupe_key'', PStr (key_text (pget details ''dedupe_key'')))]) @ [(''dedupe'', PDict (dedupe_note decision))] @
       restricted [''targets'', ''observed'', ''steps'', ''verify'', ''rejected'', ''observed_check''] details @
       (if truthy (pget details ''fold_targets'') \<and> \<not> truthy (pget details ''targets'') then [(''fold_targets'', pget details ''fold_targets'')] else []) @ prs"
    using assms by (auto simp: finding_payload_def opened_prs_def bind_res_Inr_iff Let_def split: if_splits)
  have rest: "''dedupe_key'' \<notin> fst ` set (restricted [''targets'', ''observed'', ''steps'', ''verify'', ''rejected'', ''observed_check''] details)"
    "''provider'' \<notin> fst ` set (restricted [''targets'', ''observed'', ''steps'', ''verify'', ''rejected'', ''observed_check''] details)"
    using restricted_keys by fastforce+
  show "pget p ''recommendation'' = PStr (key_text (pget details ''recommendation''))"
    unfolding p by (simp add: pget_append key_text_def)
  show "pget p ''dedupe_key'' = (if key_text (pget details ''dedupe_key'') = [] then PNone else PStr (key_text (pget details ''dedupe_key'')))"
    "pget p ''provider'' = (if truthy (pget details ''provider'') then PStr (py_str (pget details ''provider'')) else PNone)"
    unfolding p using prs rest by (auto simp: pget_append)
qed

text \<open>A decision is one of three.\<close>

definition known_kind :: "pydict \<Rightarrow> bool" where
  "known_kind d = (pget d ''decision'' = PStr ''new'' \<or> pget d ''decision'' = PStr ''fold'' \<or> pget d ''decision'' = PStr ''suppress'')"

lemma known_kind_dset [simp]: "k \<noteq> ''decision'' \<Longrightarrow> known_kind (dset k v d) = known_kind d"
  by (simp add: known_kind_def)

lemma exact_key_kind [simp]: "known_kind (exact_key cand rows)"
  by (simp add: exact_key_def known_kind_def Let_def split: option.split)

lemma checked_decision_kind: "checked_decision body = Inr d \<Longrightarrow> known_kind d"
  by (cases body) (auto simp: checked_decision_def known_kind_def Let_def split: if_splits)

lemma resolve_kind: "resolve_decision service url cand rows nodes w = (d, w') \<Longrightarrow> known_kind d"
  by (auto simp: resolve_decision_def dupdate_def Let_def checked_decision_kind split: if_splits option.splits prod.splits sum.splits)

lemma asked_kind: "asked f cand rows s = (Inr d, s') \<Longrightarrow> known_kind d"
  by (auto simp: asked_def st_bind_Inr on_world_def resolve_kind split: prod.splits)

lemma rounds_kind: "dedupe_rounds f cand n stale s = (Inr d, s') \<Longrightarrow> known_kind d"
proof (induction n arbitrary: stale s)
  case 0
  then show ?case
    by (subst (asm) dedupe_rounds.simps) (auto simp: st_bind_Inr Let_def st_return_def dupdate_def asked_kind split: if_splits)
next
  case (Suc n)
  from Suc.prems show ?case
    by (subst (asm) dedupe_rounds.simps) (auto simp: st_bind_Inr Let_def st_return_def dupdate_def asked_kind split: if_splits intro: Suc.IH)
qed

lemma hint_kind: "known_kind decision \<Longrightarrow> dedupe_apply_hint cand decision hint s = (Inr d, s') \<Longrightarrow> known_kind d"
  by (auto simp: dedupe_apply_hint_def Let_def st_bind_Inr st_return_def split: if_splits) (simp add: hint_fold_def known_kind_def Let_def)

lemma decide_kind: "dedupe_decide f cand hint s = (Inr d, s') \<Longrightarrow> known_kind d"
proof -
  assume "dedupe_decide f cand hint s = (Inr d, s')"
  then obtain decision t where r: "known_kind decision" and
    d: "(case hint of Some (x # xs) \<Rightarrow> if pget decision ''decision'' = PStr ''new'' then dedupe_apply_hint (candidate_from cand) decision (x # xs) else st_return decision
      | _ \<Rightarrow> st_return decision) t = (Inr d, s')"
    unfolding dedupe_decide_def Let_def st_bind_Inr using rounds_kind by blast
  show ?thesis
  proof (cases "hint = None \<or> hint = Some [] \<or> pget decision ''decision'' \<noteq> PStr ''new''")
    case True
    then show ?thesis using r d by (auto simp: st_return_def split: option.splits list.splits)
  next
    case False
    then obtain x xs where "hint = Some (x # xs)" by (metis neq_Nil_conv not_None_eq)
    then show ?thesis using False d hint_kind [OF r] by auto
  qed
qed

section \<open>What the funnel keeps\<close>

text \<open>The judge's entry in a payload, and whether it is the word of a model that may judge the reporter's work, on this recommendation.\<close>

definition judge_entry :: "pydict \<Rightarrow> pydict" where
  "judge_entry payload = dict_or_empty (pget (dict_or_empty (pget payload ''decided_by'')) ''judge'')"

definition saw_and_confirmed :: "'w judge_env \<Rightarrow> string \<Rightarrow> string \<Rightarrow> string \<Rightarrow> bool" where
  "saw_and_confirmed j backend model recommendation = (\<exists>details cls risk confidence w. key_text (pget details ''recommendation'') = recommendation \<and>
     answered_with j backend model (fst (judge_message j details cls risk confidence w)) ''confirm'')"

definition vetted :: "'w intake_env \<Rightarrow> pydict \<Rightarrow> bool" where
  "vetted f payload = (\<exists>b m t. pget (judge_entry payload) ''verdict'' = PStr ''confirm'' \<and> pget (judge_entry payload) ''backend'' = PStr b \<and>
     pget (judge_entry payload) ''model'' = PStr m \<and> may_judge (fi_judge f) (truthy_str (pget payload ''provider'')) b m \<and>
     pget payload ''recommendation'' = PStr t \<and> saw_and_confirmed (fi_judge f) b m t)"

definition may_run_unattended :: "'w intake_env \<Rightarrow> finding \<Rightarrow> pyfloat option \<Rightarrow> bool" where
  "may_run_unattended f fn confidence = (\<exists>policy. resolve_auto_policy (remediation_config (fi_agent f)) = Inr policy \<and>
     (case normalize_fields (fn_class fn) (fn_risk fn) of (cls, risk) \<Rightarrow> is_auto_eligible policy cls risk confidence))"

text \<open>What the funnel may insert: a row under the key its payload carries, and vetted wherever the gate would let it through.\<close>

definition insertable :: "'w intake_env \<Rightarrow> finding \<Rightarrow> pydict \<Rightarrow> string option \<Rightarrow> pyfloat option \<Rightarrow> bool" where
  "insertable f fn payload key confidence =
     ((case key of None \<Rightarrow> pget payload ''dedupe_key'' = PNone | Some k \<Rightarrow> k \<noteq> [] \<and> pget payload ''dedupe_key'' = PStr k) \<and>
      (may_run_unattended f fn confidence \<longrightarrow> vetted f payload))"

definition genuine :: "'w intake_env \<Rightarrow> pydict \<Rightarrow> judge_verdict \<Rightarrow> bool" where
  "genuine f details v = (jv_verdict v = ''confirm'' \<longrightarrow> (\<exists>b m. jv_backend v = Some b \<and> jv_model v = Some m \<and>
     may_judge (fi_judge f) (truthy_str (pget details ''provider'')) b m \<and>
     saw_and_confirmed (fi_judge f) b m (key_text (pget details ''recommendation''))))"

lemma ask_judge_genuine: "ask_judge f details cls risk confidence s = (Inr v, s') \<Longrightarrow> genuine f details v"
proof -
  let ?c = "case confidence of None \<Rightarrow> PNone | Some c \<Rightarrow> PFloat c"
  assume a: "ask_judge f details cls risk confidence s = (Inr v, s')"
  obtain w where w: "judge_for_enqueue (fi_judge f) details cls risk ?c (dr_world s) = (v, w)"
    using a by (cases "judge_for_enqueue (fi_judge f) details cls risk ?c (dr_world s)") (simp add: ask_judge_def)
  show ?thesis
    unfolding genuine_def saw_and_confirmed_def using confirmed_by_a_judge_core [OF enqueue_confirm [OF w]] by metis
qed

lemma judged_payload_vetted:
  assumes "finding_payload details decision = Inr payload" "genuine f details v"
    "judged_payload payload decided (Some v) confidence = (payload', Some c)"
  shows "vetted f payload'"
proof -
  have ok: "jv_verdict v = ''confirm''" and p: "payload' = dset ''decided_by'' (PDict (dset ''judge'' (PDict (verdict_note v)) decided)) payload"
    using assms(3) by (auto simp: judged_payload_def Let_def split: if_splits)
  obtain b m where g: "jv_backend v = Some b" "jv_model v = Some m" "may_judge (fi_judge f) (truthy_str (pget details ''provider'')) b m"
    "saw_and_confirmed (fi_judge f) b m (key_text (pget details ''recommendation''))" using assms(2) ok unfolding genuine_def by blast
  have "truthy_str (pget payload' ''provider'') = truthy_str (pget details ''provider'')"
    using payload_marks(2) [OF assms(1)] by (simp add: p truthy_str_def por_def)
  moreover have "judge_entry payload' = verdict_note v" by (simp add: judge_entry_def p dict_or_empty_def)
  moreover have "pget (verdict_note v) ''verdict'' = PStr ''confirm''" "pget (verdict_note v) ''backend'' = PStr b" "pget (verdict_note v) ''model'' = PStr m"
    by (simp_all add: verdict_note_def opt_str_def ok g)
  moreover have "pget payload' ''recommendation'' = PStr (key_text (pget details ''recommendation''))"
    using payload_marks(3) [OF assms(1)] by (simp add: p)
  ultimately show ?thesis unfolding vetted_def using g(3,4) by metis
qed

lemma judged_payload_key: "pget (fst (judged_payload payload decided verdict confidence)) ''dedupe_key'' = pget payload ''dedupe_key''"
  by (simp add: judged_payload_def Let_def split: option.split)

lemma entry_insertable:
  assumes "finding_payload details decision = Inr payload"
    "case verdict of None \<Rightarrow> \<not> may_run_unattended f fn confidence | Some v \<Rightarrow> genuine f details v"
  shows "insertable f fn (fst (judged_payload payload (classifier_note details) verdict confidence))
    (if key_text (pget details ''dedupe_key'') = [] then None else Some (key_text (pget details ''dedupe_key'')))
    (snd (judged_payload payload (classifier_note details) verdict confidence))"
proof -
  have "vetted f (fst (judged_payload payload (classifier_note details) verdict confidence))"
    if e: "may_run_unattended f fn (snd (judged_payload payload (classifier_note details) verdict confidence))"
  proof (cases verdict)
    case None
    with assms(2) e show ?thesis by (simp add: judged_payload_def)
  next
    case (Some v)
    obtain payload' c' where j: "judged_payload payload (classifier_note details) (Some v) confidence = (payload', c')"
      by (cases "judged_payload payload (classifier_note details) (Some v) confidence")
    then obtain c where "c' = Some c" using e Some by (cases c') (auto simp: may_run_unattended_def is_auto_eligible_def)
    with judged_payload_vetted [OF assms(1)] assms(2) Some j show ?thesis by simp
  qed
  then show ?thesis
    using payload_marks(1) [OF assms(1)] by (auto simp: insertable_def judged_payload_key)
qed

locale intake_rules =
  fixes f :: "'w intake_env" and fn :: finding and now :: int and I :: "kb_state \<Rightarrow> bool"
  assumes outage: "\<And>s x. I s \<Longrightarrow> I (s\<lparr>kb_faults := x\<rparr>)"
    and absorbed: "\<And>s i t. I s \<Longrightarrow> I (snd (record_absorbed i t s))"
    and alias_kept: "\<And>s i t. I s \<Longrightarrow> I (snd (record_alias i t s))"
    and stamp: "\<And>rid u. kept I (st_bind (on_kb (row_of rid)) (\<lambda>row. stamp_opened_pr row u now) :: ('w drain_state, bool) op)"
    and reject: "\<And>s i e. I s \<Longrightarrow> I (snd (update_status i ''rejected'' None None e now s))"
    and insert_row: "\<And>s payload inv_id host confidence key. I s \<Longrightarrow> insertable f fn payload key confidence \<Longrightarrow>
        I (snd (queue_remediation (fn_class fn) payload inv_id host (fn_risk fn) confidence 5 key (fn_pr fn) now s))"
    and others: "\<And>s w. I s \<Longrightarrow> I (fi_others f w s)"
begin

lemma kept_row_of: "kept I (on_kb (row_of rid))"
  by (rule kept_row_read) (rule outage)

lemma kept_list: "kept I (on_kb list_open_rows)"
  unfolding list_open_rows_def by (rule kept_read) (simp_all add: outage)

lemma kept_open: "kept I (dedupe_row_open rid)"
  unfolding dedupe_row_open_def by (intro kept_rules kept_row_of)

lemma kept_rounds: "kept I (dedupe_rounds f cand n stale)"
proof (induction n arbitrary: stale)
  have snap: "kept I snapshot" unfolding snapshot_def by (intro kept_rules kept_list)
  have ask: "kept I (asked f cand rows)" for rows unfolding asked_def by (intro kept_rules)
  {
    case 0
    show ?case by (subst dedupe_rounds.simps) (unfold Let_def nat.case, intro kept_rules kept_open snap ask)
  next
    case (Suc n)
    show ?case by (subst dedupe_rounds.simps) (unfold Let_def nat.case, intro kept_rules kept_open snap ask Suc.IH)
  }
qed

lemma kept_decide: "kept I (dedupe_decide f candidate hint)"
  unfolding dedupe_decide_def Let_def dedupe_apply_hint_def
  by (intro kept_rules kept_rounds) (auto split: option.split list.split intro!: kept_rules kept_open)

lemma kept_noted:
  assumes "\<And>s i t. I s \<Longrightarrow> I (snd (m i t s))"
  shows "kept I (noted m rid v)"
proof -
  have "kept I (on_kb (st_bind (m i t) (\<lambda>_. st_return ())))" for i t
    by (rule kept_kb) (use assms [of _ i t] in \<open>auto simp: st_bind_def st_return_def split: prod.split sum.split\<close>, (metis snd_conv)+)
  moreover have "kept I (on_kb (st_bind (row_of rid) (\<lambda>_. st_return ())))"
    using kept_row_of [of rid] unfolding kept_def on_kb_def
    by (auto simp: st_bind_def st_return_def split: prod.splits sum.splits)
  ultimately show ?thesis unfolding noted_def by (cases rid) (auto intro!: kept_rules)
qed

lemma kept_fold: "kept I (fold_choke_point decision pr_url now :: ('w drain_state, pyval) op)"
proof -
  have fold: "kept I (apply_dedupe_fold decision)"
    unfolding apply_dedupe_fold_def Let_def by (intro kept_rules kept_noted absorbed alias_kept)
  have pr: "kept I (st_try (st_bind (on_kb (row_of rid)) (\<lambda>row. stamp_opened_pr row u now)) (\<lambda>e. st_return False) :: ('w drain_state, bool) op)" for rid u
    by (rule kept_try [OF stamp]) (rule kept_return)
  show ?thesis unfolding fold_choke_point_def by (intro kept_bind kept_option kept_return fold pr)
qed

lemma kept_insert:
  assumes "\<And>payload. finding_payload details decision = Inr payload \<Longrightarrow>
      insertable f fn (fst (judged_payload payload (classifier_note details) verdict confidence))
        (if key_text (pget details ''dedupe_key'') = [] then None else Some (key_text (pget details ''dedupe_key'')))
        (snd (judged_payload payload (classifier_note details) verdict confidence))"
  shows "kept I (insert_finding details decision (fn_class fn) (fn_risk fn) inv_id (fn_pr fn) verdict confidence now)"
  unfolding insert_finding_def
proof (rule kept_bind_value [OF kept_lift], goal_cases)
  case (1 payload s s')
  then have ok: "insertable f fn (fst (judged_payload payload (classifier_note details) verdict confidence))
        (if key_text (pget details ''dedupe_key'') = [] then None else Some (key_text (pget details ''dedupe_key'')))
        (snd (judged_payload payload (classifier_note details) verdict confidence))"
    using assms by (simp add: st_lift_def)
  have q: "kept I (on_kb (queue_remediation (fn_class fn) (fst (judged_payload payload (classifier_note details) verdict confidence)) inv_id host
      (fn_risk fn) (snd (judged_payload payload (classifier_note details) verdict confidence)) 5
      (if key_text (pget details ''dedupe_key'') = [] then None else Some (key_text (pget details ''dedupe_key''))) (fn_pr fn) now))" for host
    by (rule kept_kb) (rule insert_row [OF _ ok])
  have r: "kept I (on_kb (update_status i ''rejected'' None None (Some t) now))" for i t by (rule kept_kb) (rule reject)
  show ?case unfolding split_def Let_def by (intro kept_rules q r)
qed

lemma kept_round:
  assumes "judged \<Longrightarrow> case verdict of None \<Rightarrow> \<not> may_run_unattended f fn (fn_confidence fn) | Some v \<Rightarrow> genuine f details0 v"
  shows "kept I (intake_round f fn hint verdict judged now details0 :: ('w drain_state, pyval + pydict) op)"
  unfolding intake_round_def
proof (rule kept_bind_value [OF kept_decide], goal_cases)
  case (1 decision s s')
  have kind: "known_kind decision" by (rule decide_kind [OF 1])
  define details where "details = (if pget decision ''decision'' = PStr ''new''
    then adopt_decision details0 decision (pget (fn_details fn) ''dedupe_key'') (pget (fn_details fn) ''host'') else details0)"
  have p: "pget details ''provider'' = pget details0 ''provider''" "pget details ''recommendation'' = pget details0 ''recommendation''"
    by (simp_all add: details_def adopt_decision_def Let_def)
  have ins: "kept I (insert_finding details decision (fn_class fn) (fn_risk fn) (fn_investigation fn) (fn_pr fn) verdict (fn_confidence fn) now)" if judged
    by (rule kept_insert, rule entry_insertable) (use assms [OF that] p in \<open>simp_all add: genuine_def split: option.splits\<close>)
  show ?case
    unfolding Let_def details_def [symmetric]
  proof (cases "pget decision ''decision'' = PStr ''new''")
    case True
    then show "kept I (if pget decision ''decision'' = PStr ''new'' \<and> \<not> judged then st_return (Inr details)
        else if pget decision ''decision'' = PStr ''fold'' then st_bind (fold_choke_point decision (fn_pr fn) now) (\<lambda>rid. st_return (Inl rid))
        else if pget decision ''decision'' = PStr ''suppress'' then st_return (Inl PNone)
        else st_bind (insert_finding details decision (fn_class fn) (fn_risk fn) (fn_investigation fn) (fn_pr fn) verdict (fn_confidence fn) now)
          (\<lambda>rid. st_return (Inl rid)) :: ('w drain_state, pyval + pydict) op)"
      using ins by (cases judged) (auto intro!: kept_rules)
  next
    case False
    with kind have "pget decision ''decision'' = PStr ''fold'' \<or> pget decision ''decision'' = PStr ''suppress''" by (simp add: known_kind_def)
    then show "kept I (if pget decision ''decision'' = PStr ''new'' \<and> \<not> judged then st_return (Inr details)
        else if pget decision ''decision'' = PStr ''fold'' then st_bind (fold_choke_point decision (fn_pr fn) now) (\<lambda>rid. st_return (Inl rid))
        else if pget decision ''decision'' = PStr ''suppress'' then st_return (Inl PNone)
        else st_bind (insert_finding details decision (fn_class fn) (fn_risk fn) (fn_investigation fn) (fn_pr fn) verdict (fn_confidence fn) now)
          (\<lambda>rid. st_return (Inl rid)) :: ('w drain_state, pyval + pydict) op)"
      using kept_fold by (auto intro!: kept_bind kept_return)
  qed
qed

lemma kept_ask: "kept I (ask_judge f details cls risk confidence)"
  using others by (simp add: kept_def ask_judge_def split: prod.split)

lemma kept_run: "kept I (run_intake f fn now :: ('w drain_state, pyval) op)"
  unfolding run_intake_def
proof (rule kept_bind_value [OF kept_lift], goal_cases)
  case (1 policy s s')
  then have policy: "resolve_auto_policy (remediation_config (fi_agent f)) = Inr policy" by (simp add: st_lift_def)
  obtain cls risk where n: "normalize_fields (fn_class fn) (fn_risk fn) = (cls, risk)" by (cases "normalize_fields (fn_class fn) (fn_risk fn)")
  let ?judged = "\<not> is_auto_eligible policy cls risk (fn_confidence fn)"
  have first: "kept I (intake_round f fn hint None ?judged now (fn_details fn) :: ('w drain_state, pyval + pydict) op)" for hint
    by (rule kept_round) (simp add: may_run_unattended_def policy n)
  have second: "kept I (intake_round f fn hint (Some verdict) True now details :: ('w drain_state, pyval + pydict) op)" if "genuine f details verdict" for hint verdict details
    by (rule kept_round) (simp add: that)
  have after: "kept I (st_bind (ask_judge f details cls risk (fn_confidence fn)) (\<lambda>verdict.
      st_bind (intake_round f fn hint (Some verdict) True now details) (\<lambda>second. case second of
              Inl answer \<Rightarrow> st_return answer | Inr _ \<Rightarrow> st_return PNone)) :: ('w drain_state, pyval) op)" for hint details
    by (rule kept_bind_value [OF kept_ask]) (auto intro!: kept_bind second ask_judge_genuine kept_return split: sum.split)
  show ?case unfolding n prod.case Let_def
    by (intro kept_bind kept_world first) (auto split: sum.split intro!: kept_return after)
qed

lemma kept_maybe: "fn = finding_of f inv_id details confidence \<Longrightarrow> kept I (maybe_queue f inv_id details confidence now :: ('w drain_state, pyval) op)"
  unfolding maybe_queue_def using kept_run by (intro kept_bind kept_if kept_lift kept_return) simp

end

section \<open>No change unattended without a judge\<close>

definition only_vetted :: "'w intake_env \<Rightarrow> queue_policy \<Rightarrow> int set \<Rightarrow> kb_state \<Rightarrow> bool" where
  "only_vetted f policy old s = (kb_policy s = policy \<and>
     (\<forall>r \<in> set (kb_rows s). rr_status r = ''queued'' \<longrightarrow> rr_id r \<in> old \<or> vetted f (rr_payload r)))"

text \<open>The queue works under the policy of the configuration, and the other threads queue nothing unvetted but the rows in \<open>old\<close>.\<close>

definition others_vet :: "'w intake_env \<Rightarrow> queue_policy \<Rightarrow> int set \<Rightarrow> bool" where
  "others_vet f policy old = (resolve_auto_policy (remediation_config (fi_agent f)) = Inr policy \<and>
     (\<forall>w s. only_vetted f policy old s \<longrightarrow> only_vetted f policy old (fi_others f w s)))"

lemma only_vetted_alter:
  assumes "only_vetted f policy old s" "\<And>r. rr_id (g r) = rr_id r"
    "\<And>r. rr_status (g r) = ''queued'' \<Longrightarrow> rr_status r = ''queued'' \<and> (vetted f (rr_payload r) \<longrightarrow> vetted f (rr_payload (g r)))"
  shows "only_vetted f policy old (alter_row i g s)"
  using assms by (fastforce simp: only_vetted_def alter_row_def)

lemma vetted_marks: "pget p ''decided_by'' = pget q ''decided_by'' \<Longrightarrow> pget p ''provider'' = pget q ''provider'' \<Longrightarrow>
    pget p ''recommendation'' = pget q ''recommendation'' \<Longrightarrow> vetted f p = vetted f q"
  unfolding vetted_def judge_entry_def by simp

lemma vetted_dset: "k \<noteq> ''decided_by'' \<Longrightarrow> k \<noteq> ''provider'' \<Longrightarrow> k \<noteq> ''recommendation'' \<Longrightarrow> vetted f (dset k v payload) = vetted f payload"
  by (rule vetted_marks) simp_all

lemma only_vetted_session:
  assumes "only_vetted f policy old s" "\<And>s. only_vetted f policy old s \<Longrightarrow> only_vetted f policy old (snd (m s))"
  shows "only_vetted f policy old (snd (session m s))"
  by (rule kept_session [of "only_vetted f policy old"]) (use assms in \<open>auto simp: only_vetted_def\<close>)

lemma vetted_absorbed: "only_vetted f policy old s \<Longrightarrow> only_vetted f policy old (snd (record_absorbed i t s))"
  unfolding record_absorbed_def Let_def
  by (auto intro!: only_vetted_session only_vetted_alter simp: vetted_dset split: option.split)

lemma vetted_alias: "only_vetted f policy old s \<Longrightarrow> only_vetted f policy old (snd (record_alias i t s))"
  unfolding record_alias_def Let_def
  by (auto intro!: only_vetted_session only_vetted_alter simp: vetted_dset split: option.split)

lemma vetted_status: "only_vetted f policy old s \<Longrightarrow> st \<noteq> ''queued'' \<Longrightarrow> only_vetted f policy old (snd (update_status i st u res e now s))"
  unfolding update_status_def by (erule only_vetted_session) (auto intro!: only_vetted_alter)

lemma vetted_insert:
  assumes "only_vetted f policy old s" "resolve_auto_policy (remediation_config (fi_agent f)) = Inr policy" "insertable f fn payload key confidence"
  shows "only_vetted f policy old (snd (queue_remediation (fn_class fn) payload inv_id host (fn_risk fn) confidence prio key pr now s))"
  unfolding queue_remediation_def
proof (rule only_vetted_session [OF assms(1)])
  fix s assume s: "only_vetted f policy old s"
  obtain cls risk where n: "normalize_fields (fn_class fn) (fn_risk fn) = (cls, risk)" by (cases "normalize_fields (fn_class fn) (fn_risk fn)")
  have "vetted f payload" if "gated_status s cls risk confidence = ''queued''"
    using that s assms(2,3) n by (simp add: gated_status_def only_vetted_def insertable_def may_run_unattended_def split: if_splits)
  with s show "only_vetted f policy old (snd (let (cls, risk) = normalize_fields (fn_class fn) (fn_risk fn); pr = present_text pr;
         status = (if pr \<noteq> None then ''pr-open'' else gated_status s cls risk confidence);
         taken = (case key of None \<Rightarrow> False | Some k \<Rightarrow> k \<noteq> [] \<and> (\<exists>r \<in> set (kb_rows s). open_row r \<and> row_key r = Some k))
     in if taken then (Inr None, s)
        else (Inr (Some (kb_next s)), add_row \<lparr>rr_id = 0, rr_investigation = published_investigation_id inv_id, rr_host = host, rr_class = cls,
           rr_risk = risk, rr_confidence = confidence, rr_status = status, rr_priority = prio, rr_attempts = 0, rr_payload = payload,
           rr_result = None, rr_pr = pr, rr_job = None, rr_error = None, rr_created = now, rr_claimed = None, rr_completed = None\<rparr> s)))"
    unfolding n Let_def prod.case by (simp add: only_vetted_def add_row_def)
qed

lemma vetted_fault: "only_vetted f policy old s \<Longrightarrow> only_vetted f policy old (s\<lparr>kb_faults := x\<rparr>)"
  by (simp add: only_vetted_def)

interpretation vetting: intake_rules f fn now "\<lambda>s. others_vet f policy old \<longrightarrow> only_vetted f policy old s"
  for f :: "'w intake_env" and fn now policy old
proof
  let ?I = "\<lambda>s. others_vet f policy old \<longrightarrow> only_vetted f policy old s"
  have pr: "?I s \<Longrightarrow> ?I (snd (update_status i ''pr-open'' u None None now s))" for s i u by (simp add: vetted_status)
  show f: "?I s \<Longrightarrow> ?I (s\<lparr>kb_faults := x\<rparr>)" for s x by (simp add: vetted_fault)
  show "?I s \<Longrightarrow> ?I (snd (record_absorbed i t s))" for s i t by (simp add: vetted_absorbed)
  show "?I s \<Longrightarrow> ?I (snd (record_alias i t s))" for s i t by (simp add: vetted_alias)
  show "kept ?I (st_bind (on_kb (row_of rid)) (\<lambda>row. stamp_opened_pr row u now) :: ('w drain_state, bool) op)" for rid u
    by (rule kept_stamp [of ?I]) (rule f pr, assumption)+
  show "?I s \<Longrightarrow> ?I (snd (update_status i ''rejected'' None None e now s))" for s i e by (simp add: vetted_status)
  show "?I s \<Longrightarrow> insertable f fn payload key confidence \<Longrightarrow>
    ?I (snd (queue_remediation (fn_class fn) payload inv_id host (fn_risk fn) confidence 5 key (fn_pr fn) now s))" for s payload inv_id host confidence key
    using vetted_insert by (auto simp: others_vet_def)
  show "?I s \<Longrightarrow> ?I (fi_others f w s)" for s w by (auto simp: others_vet_def)
qed

text \<open>
  C4: A finding never becomes work for the unattended executor on its own word. Where the other threads queue nothing unvetted, every
  queued row after the funnel was there before, or names a judge that may hold the veto on its reporter, was shown the recommendation
  the row carries and answered "confirm". So it is whatever the duplicate service, the fold hint and the outages of the database do.
\<close>

theorem unattended_rows_judged:
  assumes "resolve_auto_policy (remediation_config (jd_agent (fi_judge f))) = Inr policy"
    "\<And>w s. only_vetted f policy old s \<Longrightarrow> only_vetted f policy old (fi_others f w s)"
    "only_vetted f policy old (dr_kb s)" "maybe_queue f inv_id details confidence now s = (answer, s')"
    "r \<in> set (kb_rows (dr_kb s'))" "rr_status r = ''queued''" "rr_id r \<notin> old"
  shows "\<exists>b m t. pget (judge_entry (rr_payload r)) ''verdict'' = PStr ''confirm'' \<and> pget (judge_entry (rr_payload r)) ''backend'' = PStr b \<and>
     pget (judge_entry (rr_payload r)) ''model'' = PStr m \<and> may_judge (fi_judge f) (truthy_str (pget (rr_payload r) ''provider'')) b m \<and>
     pget (rr_payload r) ''recommendation'' = PStr t \<and> saw_and_confirmed (fi_judge f) b m t"
proof -
  have "others_vet f policy old" using assms(1,2) by (simp add: others_vet_def)
  then have "only_vetted f policy old (dr_kb s')"
    using vetting.kept_maybe [OF refl, of f policy old inv_id details confidence now] assms(3,4) by (fastforce simp: kept_def)
  then have "vetted f (rr_payload r)" using assms(5-7) by (auto simp: only_vetted_def)
  then show ?thesis unfolding vetted_def .
qed

section \<open>One open row per key\<close>

definition keyed_once :: "kb_state \<Rightarrow> bool" where
  "keyed_once s = (ids_ok s \<and> (\<forall>r \<in> set (kb_rows s). \<forall>q \<in> set (kb_rows s). \<forall>k. open_row r \<and> open_row q \<and> k \<noteq> [] \<and>
     row_key r = Some k \<and> row_key q = Some k \<longrightarrow> rr_id r = rr_id q))"

lemma keyed_alter:
  assumes "keyed_once s" "\<And>r. rr_id (g r) = rr_id r" "\<And>r. row_key (g r) = row_key r"
    "\<And>r. r \<in> set (kb_rows s) \<Longrightarrow> rr_id r = i \<Longrightarrow> open_row (g r) \<Longrightarrow> open_row r"
  shows "keyed_once (alter_row i g s)"
proof -
  have ids: "map rr_id (kb_rows (alter_row i g s)) = map rr_id (kb_rows s)" using assms(2) by (simp add: alter_row_def)
  have before: "\<exists>r0 \<in> set (kb_rows s). rr_id r0 = rr_id r \<and> row_key r0 = row_key r \<and> (open_row r \<longrightarrow> open_row r0)"
    if r: "r \<in> set (kb_rows (alter_row i g s))" for r
  proof -
    have "r \<in> (\<lambda>r. if rr_id r = i then g r else r) ` set (kb_rows s)" using r by (simp add: alter_row_def)
    then obtain r0 where r0: "r = (if rr_id r0 = i then g r0 else r0)" "r0 \<in> set (kb_rows s)" by (rule imageE)
    show ?thesis
    proof (rule bexI [OF _ r0(2)], cases "rr_id r0 = i")
      case True
      then show "rr_id r0 = rr_id r \<and> row_key r0 = row_key r \<and> (open_row r \<longrightarrow> open_row r0)"
        using r0 assms(2,3) [of r0] assms(4) [of r0] by simp
    next
      case False
      then have "r = r0" using r0(1) by (simp only: if_False)
      then show "rr_id r0 = rr_id r \<and> row_key r0 = row_key r \<and> (open_row r \<longrightarrow> open_row r0)" by blast
    qed
  qed
  have o: "ids_ok s" using assms(1) unfolding keyed_once_def by blast
  have "rr_id r < kb_next s" if "r \<in> set (kb_rows (alter_row i g s))" for r
    using before [OF that] o unfolding ids_ok_def by metis
  then have "ids_ok (alter_row i g s)" using o unfolding ids_ok_def ids by simp
  moreover have "rr_id r = rr_id q" if "r \<in> set (kb_rows (alter_row i g s))" "q \<in> set (kb_rows (alter_row i g s))"
    "open_row r" "open_row q" "k \<noteq> []" "row_key r = Some k" "row_key q = Some k" for r q k
    using before [OF that(1)] before [OF that(2)] that(3-7) assms(1) unfolding keyed_once_def by metis
  ultimately show ?thesis unfolding keyed_once_def by blast
qed

lemma keyed_fault: "keyed_once s \<Longrightarrow> keyed_once (s\<lparr>kb_faults := x\<rparr>)"
proof -
  have same: "kb_rows (s\<lparr>kb_faults := x\<rparr>) = kb_rows s" "kb_next (s\<lparr>kb_faults := x\<rparr>) = kb_next s" by simp_all
  show "keyed_once s \<Longrightarrow> keyed_once (s\<lparr>kb_faults := x\<rparr>)" unfolding keyed_once_def ids_ok_def same .
qed

lemma keyed_session: "keyed_once s \<Longrightarrow> (\<And>s. keyed_once s \<Longrightarrow> keyed_once (snd (m s))) \<Longrightarrow> keyed_once (snd (session m s))"
  by (rule kept_session [of keyed_once]) (simp_all add: keyed_fault)

lemma row_key_dset: "k \<noteq> ''dedupe_key'' \<Longrightarrow> row_key (r\<lparr>rr_payload := dset k v (rr_payload r)\<rparr>) = row_key r"
  by (simp add: row_key_def)

lemma keyed_absorbed: "keyed_once s \<Longrightarrow> keyed_once (snd (record_absorbed i t s))"
  unfolding record_absorbed_def Let_def
  by (auto intro!: keyed_session keyed_alter simp: row_key_dset open_row_def split: option.split)

lemma keyed_alias: "keyed_once s \<Longrightarrow> keyed_once (snd (record_alias i t s))"
  unfolding record_alias_def Let_def
  by (auto intro!: keyed_session keyed_alter simp: row_key_dset open_row_def split: option.split)

lemma keyed_rejected: "keyed_once s \<Longrightarrow> keyed_once (snd (update_status i ''rejected'' u res e now s))"
  unfolding update_status_def by (erule keyed_session) (auto intro!: keyed_alter simp: row_key_def open_row_def)

text \<open>A row that is stamped was read as queued or waiting, so it does not come back among the open ones.\<close>

lemma keyed_opened:
  assumes "keyed_once s" "r \<in> set (kb_rows s)" "open_row r"
  shows "keyed_once (snd (update_status (rr_id r) ''pr-open'' u res e now s))"
proof -
  have "open_row q" if "q \<in> set (kb_rows s)" "rr_id q = rr_id r" for q
  proof -
    have "ids_ok s" using assms(1) unfolding keyed_once_def by blast
    then have "Some q = Some r" using find_row_unique that assms(2) by metis
    then show ?thesis using assms(3) by simp
  qed
  then have "keyed_once (alter_row (rr_id r) (set_status ''pr-open'' u res e now) (s\<lparr>kb_faults := x\<rparr>))" for x
    using assms(1) by (intro keyed_alter keyed_fault) (simp_all add: row_key_def)
  then show ?thesis
    unfolding update_status_def by (intro session_state [of keyed_once]) (simp_all add: keyed_fault assms(1))
qed

lemma row_of_found: "row_of rid s = (Inr (Some r), s') \<Longrightarrow> r \<in> set (kb_rows s')"
proof (cases rid)
  case (PInt i)
  assume "row_of rid s = (Inr (Some r), s')"
  then have "session (\<lambda>s. (Inr (find_row i s), s)) s = (Inr (Some r), s')" using PInt by (simp add: row_of_def get_row_def)
  then have "find_row i s' = Some r" by (simp add: session_def split: list.splits if_splits) (auto simp: find_row_def)
  then show ?thesis using find_row_Some by blast
qed (simp_all add: row_of_def session_def split: list.splits if_splits)

lemma keyed_stamp: "kept keyed_once (st_bind (on_kb (row_of rid)) (\<lambda>row. stamp_opened_pr row u now) :: ('w drain_state, bool) op)"
  unfolding kept_def
proof (intro allI impI)
  fix s :: "'w drain_state" assume k: "keyed_once (dr_kb s)"
  obtain x s1 where x: "on_kb (row_of rid) s = (x, s1)" by (cases "on_kb (row_of rid) s")
  have "kept keyed_once (on_kb (row_of rid) :: ('w drain_state, rem_row option) op)" by (rule kept_row_read) (rule keyed_fault)
  then have k1: "keyed_once (dr_kb s1)" using k x unfolding kept_def by (metis snd_conv)
  have mem: "r \<in> set (kb_rows (dr_kb s1))" if "x = Inr (Some r)" for r
  proof -
    obtain y kb where "row_of rid (dr_kb s) = (y, kb)" by (cases "row_of rid (dr_kb s)")
    then have "row_of rid (dr_kb s) = (Inr (Some r), dr_kb s1)" using x that by (auto simp: on_kb_def)
    then show ?thesis by (rule row_of_found)
  qed
  have "keyed_once (dr_kb (snd (stamp_opened_pr row u now s1)))" if row: "x = Inr row" for row
  proof (cases row)
    case (Some r)
    have "keyed_once (snd (update_status (rr_id r) ''pr-open'' (Some (str_strip u)) None None now (dr_kb s1)))" if "open_row r"
      by (rule keyed_opened [OF k1 mem that]) (simp add: row Some)
    moreover have "open_row r" if "rr_status r \<in> {''queued'', ''needs-human''}" using that by (auto simp: open_row_def)
    moreover obtain y kb where "update_status (rr_id r) ''pr-open'' (Some (str_strip u)) None None now (dr_kb s1) = (y, kb)"
      by (cases "update_status (rr_id r) ''pr-open'' (Some (str_strip u)) None None now (dr_kb s1)")
    ultimately show ?thesis using k1 unfolding Some stamp_opened_pr_def Let_def option.case
      by (cases y) (simp_all add: st_return_def st_try_def st_bind_def on_kb_def)
  qed (simp add: stamp_opened_pr_def Let_def st_return_def k1)
  then show "keyed_once (dr_kb (snd (st_bind (on_kb (row_of rid)) (\<lambda>row. stamp_opened_pr row u now) s)))"
    using k1 by (cases x) (simp_all add: st_bind_def x)
qed

lemma keyed_insert:
  assumes "keyed_once s" "insertable f fn payload key confidence"
  shows "keyed_once (snd (queue_remediation cls0 payload inv_id host risk0 confidence prio key pr now s))"
proof -
  have "keyed_once (add_row q s)" if k: "keyed_once s" "rr_payload q = payload"
    "\<not> (case key of None \<Rightarrow> False | Some k \<Rightarrow> k \<noteq> [] \<and> (\<exists>r \<in> set (kb_rows s). open_row r \<and> row_key r = Some k))" for q s
  proof -
    have new: "row_key (q\<lparr>rr_id := kb_next s\<rparr>) = key" using assms(2) k(2) by (simp add: insertable_def row_key_def split: option.splits)
    have o: "ids_ok s" using k(1) unfolding keyed_once_def by blast
    then have "ids_ok (add_row q s)" by (force simp: ids_ok_def add_row_def)
    moreover have "\<not> (open_row r \<and> row_key r = Some k)" if "r \<in> set (kb_rows s)" "key = Some k" "k \<noteq> []" for r k
      using k(3) that by auto
    then have "rr_id r = rr_id r'" if "r \<in> set (kb_rows (add_row q s))" "r' \<in> set (kb_rows (add_row q s))" "open_row r" "open_row r'" "k \<noteq> []"
      "row_key r = Some k" "row_key r' = Some k" for r r' k
      using that k(1) new unfolding keyed_once_def add_row_def by simp metis
    ultimately show ?thesis unfolding keyed_once_def by blast
  qed
  then show ?thesis unfolding queue_remediation_def Let_def
    by (intro keyed_session assms(1)) (auto simp: split_def)
qed

interpretation keys: intake_rules f fn now "\<lambda>s. (\<forall>w s. keyed_once s \<longrightarrow> keyed_once (fi_others f w s)) \<longrightarrow> keyed_once s"
  for f :: "'w intake_env" and fn now
proof
  let ?I = "\<lambda>s. (\<forall>w s. keyed_once s \<longrightarrow> keyed_once (fi_others f w s)) \<longrightarrow> keyed_once s"
  show "?I s \<Longrightarrow> ?I (s\<lparr>kb_faults := x\<rparr>)" for s x using keyed_fault by blast
  show "?I s \<Longrightarrow> ?I (snd (record_absorbed i t s))" for s i t using keyed_absorbed by blast
  show "?I s \<Longrightarrow> ?I (snd (record_alias i t s))" for s i t using keyed_alias by blast
  show "kept ?I (st_bind (on_kb (row_of rid)) (\<lambda>row. stamp_opened_pr row u now) :: ('w drain_state, bool) op)" for rid u
    using keyed_stamp unfolding kept_def by blast
  show "?I s \<Longrightarrow> ?I (snd (update_status i ''rejected'' None None e now s))" for s i e using keyed_rejected by blast
  show "?I s \<Longrightarrow> insertable f fn payload key confidence \<Longrightarrow>
    ?I (snd (queue_remediation (fn_class fn) payload inv_id host (fn_risk fn) confidence 5 key (fn_pr fn) now s))" for s payload inv_id host confidence key
    using keyed_insert by blast
  show "?I s \<Longrightarrow> ?I (fi_others f w s)" for s w by blast
qed

text \<open>
  C11: One open row per key. Whatever the duplicate service answers, however stale its snapshot, and although the lock is given up
  while a judge is asked: where the other threads leave at most one open row under a key, so does the funnel.
\<close>

theorem one_open_row_per_key:
  assumes "\<And>w s. keyed_once s \<Longrightarrow> keyed_once (fi_others f w s)" "keyed_once (dr_kb s)"
    "maybe_queue f inv_id details confidence now s = (answer, s')"
    "r \<in> set (kb_rows (dr_kb s'))" "q \<in> set (kb_rows (dr_kb s'))" "open_row r" "open_row q" "row_key r = Some k" "row_key q = Some k" "k \<noteq> []"
  shows "r = q"
proof -
  have "keyed_once (dr_kb s')"
    using keys.kept_maybe [OF refl, of f inv_id details confidence now] assms(1-3) unfolding kept_def by (metis snd_conv)
  then have "ids_ok (dr_kb s')" "rr_id r = rr_id q" using assms(4-10) unfolding keyed_once_def by blast+
  then have "Some r = Some q" using find_row_unique assms(4,5) by metis
  then show ?thesis by simp
qed

section \<open>A sample\<close>

definition sample_intake :: "unit intake_env" where
  "sample_intake = \<lparr>fi_judge = sample_judge, fi_service = (\<lambda>url request w. (Inl (client_failure []), w)), fi_nodes = (\<lambda>cand w. (Inr [], w)),
     fi_hint = (\<lambda>cand w. (Inr None, w)), fi_resolve = (\<lambda>i. None), fi_others = (\<lambda>w s. s)\<rparr>"

definition sample_report :: pydict where
  "sample_report = [(''remediation_class'', PStr ''gitops-patch''), (''risk'', PStr ''low''), (''recommendation'', PStr ''raise the limit''),
     (''provider'', PStr ''anthropic/claude-opus-4-8''), (''dedupe_key'', PStr ''k1'')]"

definition sample_desk :: "unit drain_state" where
  "sample_desk = \<lparr>dr_kb = snd (queue_remediation ''manual'' [(''dedupe_key'', PStr ''k0'')] None ''web'' ''low'' None 5 (Some ''k0'') None 3
       \<lparr>kb_rows = [], kb_next = 1, kb_policy = default_policy, kb_faults = []\<rparr>), dr_world = (), dr_spawned = []\<rparr>"

definition sample_found :: finding where
  "sample_found = finding_of sample_intake None sample_report (Some (FDec 9 (-1)))"

definition sample_details :: pydict where
  "sample_details = sample_report @ [(''host'', PNone)]"

definition sample_second :: "(pyval + pydict) res \<times> unit drain_state" where
  "sample_second = intake_round sample_intake sample_found None (Some sample_verdict) True 5 sample_details sample_desk"

lemma sample_first: "intake_round sample_intake sample_found None None False 5 (fn_details sample_found) sample_desk = (Inr (Inr sample_details), sample_desk)"
  by code_simp

lemma sample_inserted:
  "fst sample_second = Inr (Inl (PInt 2))" "map rr_status (kb_rows (dr_kb (snd sample_second))) = [''needs-human'', ''queued'']"
  by code_simp+

lemma sample_intake_run: "maybe_queue sample_intake None sample_report (Some (FDec 9 (-1))) 5 sample_desk = (Inr (PInt 2), snd sample_second)"
proof -
  have on: "remediation_flag (fi_agent sample_intake) ''queue_feed'' = Inr True" "truthy (pget sample_report ''remediation_class'')"
    "resolve_auto_policy (remediation_config (fi_agent sample_intake)) = Inr default_policy"
    "normalize_fields (fn_class sample_found) (fn_risk sample_found) = (''gitops-patch'', ''low'')"
    "is_auto_eligible default_policy ''gitops-patch'' ''low'' (fn_confidence sample_found)" by code_simp+
  have hint: "on_world (fi_hint sample_intake c) sample_desk = (Inr None, sample_desk)" for c
    by (simp add: on_world_def sample_intake_def sample_desk_def)
  have p: "pget sample_details ''provider'' = PStr ''anthropic/claude-opus-4-8''" by code_simp
  have judge: "ask_judge sample_intake sample_details cls risk c sample_desk = (Inr sample_verdict, sample_desk)" for cls risk c
    by (simp add: ask_judge_def judge_for_enqueue_def sample_intake_def sample_judged [OF p])
  have "intake_round sample_intake sample_found None (Some sample_verdict) True 5 sample_details sample_desk = (Inr (Inl (PInt 2)), snd sample_second)"
    using sample_inserted(1) by (metis prod.collapse sample_second_def)
  then have "run_intake sample_intake sample_found 5 sample_desk = (Inr (PInt 2), snd sample_second)"
    unfolding run_intake_def by (simp add: on st_bind_def st_lift_def st_return_def hint sample_first judge Let_def)
  then show ?thesis
    unfolding maybe_queue_def by (simp add: on st_bind_def st_lift_def sample_found_def)
qed

lemma sample_length: "length (kb_rows (dr_kb (snd sample_second))) = 2"
proof -
  have "length (map rr_status (kb_rows (dr_kb (snd sample_second)))) = 2" by (simp only: sample_inserted(2)) simp
  then show ?thesis by simp
qed

lemma sample_keyed: "keyed_once (dr_kb sample_desk)"
proof -
  have "map rr_id (kb_rows (dr_kb sample_desk)) = [1]" "kb_next (dr_kb sample_desk) = 2" by code_simp+
  moreover from this(1) obtain r where "kb_rows (dr_kb sample_desk) = [r]" by (auto simp: map_eq_Cons_conv)
  ultimately show ?thesis unfolding keyed_once_def ids_ok_def by simp
qed

theorem unattended_rows_judged_witness:
  "let r = kb_rows (dr_kb (snd sample_second)) ! 1
   in rr_status r = ''queued'' \<and> (\<exists>b m. pget (judge_entry (rr_payload r)) ''backend'' = PStr b \<and>
     may_judge sample_judge (truthy_str (pget (rr_payload r) ''provider'')) b m)"
proof -
  let ?r = "kb_rows (dr_kb (snd sample_second)) ! 1"
  have policy: "resolve_auto_policy (remediation_config (jd_agent (fi_judge sample_intake))) = Inr default_policy" by code_simp
  have others: "only_vetted sample_intake default_policy {} s \<Longrightarrow> only_vetted sample_intake default_policy {} (fi_others sample_intake w s)" for w s
    by (simp add: sample_intake_def)
  have "kb_policy (dr_kb sample_desk) = default_policy" "map rr_status (kb_rows (dr_kb sample_desk)) = [''needs-human'']" by code_simp+
  then have before: "only_vetted sample_intake default_policy {} (dr_kb sample_desk)"
    by (auto simp: only_vetted_def map_eq_Cons_conv)
  have len: "length (kb_rows (dr_kb (snd sample_second))) = 2" by (rule sample_length)
  then have mem: "?r \<in> set (kb_rows (dr_kb (snd sample_second)))" by simp
  have queued: "rr_status ?r = ''queued''"
  proof -
    have "map rr_status (kb_rows (dr_kb (snd sample_second))) ! 1 = ''queued''" by (simp add: sample_inserted(2))
    with len show ?thesis by simp
  qed
  from unattended_rows_judged [OF policy others before sample_intake_run mem queued] queued show ?thesis
    by (simp add: Let_def) (auto simp: sample_intake_def)
qed

theorem one_open_row_per_key_witness:
  "{r. r \<in> set (kb_rows (dr_kb (snd sample_second))) \<and> open_row r \<and> row_key r = Some ''k1''} = {kb_rows (dr_kb (snd sample_second)) ! 1}"
proof -
  let ?rows = "kb_rows (dr_kb (snd sample_second))"
  have others: "keyed_once s \<Longrightarrow> keyed_once (fi_others sample_intake w s)" for w s by (simp add: sample_intake_def)
  have len: "length ?rows = 2" by (rule sample_length)
  then have mem: "?rows ! 1 \<in> set ?rows" by simp
  have "map open_row ?rows ! 1" "map row_key ?rows ! 1 = Some ''k1''" by code_simp+
  with len have new: "open_row (?rows ! 1)" "row_key (?rows ! 1) = Some ''k1''" by simp_all
  have "r = ?rows ! 1" if "r \<in> set ?rows" "open_row r" "row_key r = Some ''k1''" for r
    by (rule one_open_row_per_key [OF others sample_keyed sample_intake_run that(1) mem that(2) new(1) that(3) new(2)]) simp_all
  with mem new show ?thesis by blast
qed

end
