(* ===== verification/Spec2Isabelle.thy ===== *)
theory Spec2Isabelle
  imports Activity Alert_Store Engine Llm_Fallback Worker Executor Replay Remediation Web_Auth Prompt_Injection Host_Write Executor_Job Remediation_Intake
begin

text \<open>
  A verification library of CFOperator, an operations agent that watches a cluster and its hosts, investigates alerts with
  language models, and carries out remediations that a gate, a change recorder or an admin let through. The program is
  written in Python; this development models its decision-making core and proves what keeps it safe.

  The program and its parts:

  \<^item> The event runtime (\<open>event_runtime/\<close>) takes in alerts. A source polls Alertmanager, policies suppress duplicates, the
    engine runs one pass over an alert (context, decision, action, record), a worker does so in the background with retries
    over a state file, events go to a durable log that is replayed to remote stores, and the console reads an activity feed and
    pages of alerts from them.
  \<^item> The agent (\<open>agent/\<close>, \<open>tools/\<close>) investigates. A turn of a model runs tools under a policy; what a host or an alert says
    is framed before it enters a prompt; a circuit breaker chooses the model. A finding becomes a row of the remediation queue,
    unless it repeats an open one, gated by class, risk and confidence, and by a second model before it may run unattended. A drainer claims gated rows, gets a plan approved by the change recorder and starts
    a Kubernetes job for it. An admin can also confirm a command on a host in the console.
  \<^item> The executor (\<open>executor/\<close>) is that job. It checks the plan again, runs it over SSH, or opens a pull request with a diff.
  \<^item> The console (\<open>web_auth.py\<close>, \<open>auth/\<close>) authenticates people and tokens and holds the roles they act under.

  The theories, each with the source it models; the definitions carry the names of the functions they translate:

  \<^item> \<open>Py_Base\<close>, \<open>Py_Value\<close>, \<open>Py_Time\<close>, \<open>Py_Regex\<close>, \<open>Py_Triple\<close> are the prelude: what the program takes from Python. Exceptions are values
    (\<open>'a res = pyexn + 'a\<close>), an operation on a state is a function to a result and the new state (\<open>op\<close>), so a raise keeps what
    was written before it. JSON values are \<open>pyval\<close>, dictionaries are association lists in insertion order, a datetime is its local time
    with an offset, a regular expression is a datatype with the backtracking semantics of \<open>re\<close>, and triples with a
    postcondition for raising carry long handlers.
  \<^item> \<open>Models\<close> (\<open>event_runtime/models.py\<close>), \<open>Alert_Source\<close> (\<open>sources.py\<close>, \<open>escalation.py\<close>), \<open>Dedupe_Policy\<close> (\<open>dedupe.py\<close>), \<open>Notify\<close>
    (\<open>notifications.py\<close>), \<open>Engine\<close> (\<open>engine.py\<close>), \<open>Worker\<close> (\<open>worker.py\<close>), \<open>Activity\<close> (\<open>activity.py\<close>), \<open>Alert_Store\<close> (\<open>alert_store.py\<close>),
    \<open>Outbox\<close> (\<open>state/local_outbox.py\<close>) and \<open>Replay\<close> (\<open>state/replay.py\<close>, \<open>state/composite.py\<close>) are the event runtime. The engine is
    a function over plugins that are arguments; the worker is a step relation over its threads, timers and state file.
  \<^item> \<open>Llm_Fallback\<close> (\<open>agent/llm_fallback.py\<close>), \<open>Prompt_Injection\<close> (\<open>agent/prompt_injection.py\<close>), \<open>Ssh_Policy\<close> (\<open>tools/ssh.py\<close>), \<open>Tool_Policy\<close>
    (\<open>tools/__init__.py\<close>) and \<open>Host_Write\<close> (\<open>agent/host_write.py\<close>) are the turn of a model: which provider answers, what it reads,
    what it may run, and the questions an admin answers while it waits.
  \<^item> \<open>Remediation\<close> (\<open>agent/remediation.py\<close>) proposes manifest patches; \<open>Remediation_Queue\<close> (\<open>agent/knowledge_base.py\<close>) is the queue with its
    gate and leases; \<open>Remediation_Drain\<close> (\<open>agent/agent.py\<close>, \<open>agent/change_record_client.py\<close>) drains it; \<open>Executor_Job\<close> (\<open>agent/agent.py\<close>)
    writes the manifest of the job. \<open>Judge\<close> (\<open>agent/agent.py\<close>) is the model that rules on unattended changes, and \<open>Remediation_Intake\<close>
    (\<open>_maybe_queue_remediation\<close> of \<open>agent/agent.py\<close>, \<open>agent/dedupe_client.py\<close>) is the way of a finding into the queue: it decides under
    a lock, asks the judge without it, and decides again.
  \<^item> \<open>Node_Gate\<close> (\<open>executor/nodeaction.py\<close>, \<open>agent/node_action_plan.py\<close>), \<open>Patch\<close> (\<open>executor/diff.py\<close>) and \<open>Executor\<close>
    (\<open>executor/entrypoint.py\<close>, \<open>executor/github.py\<close>) are the job.
  \<^item> \<open>Auth_Store\<close> (\<open>auth/store.py\<close>, \<open>models.py\<close>, \<open>tokens.py\<close>, \<open>bootstrap.py\<close>) and \<open>Web_Auth\<close> (\<open>web_auth.py\<close>, \<open>auth/routes.py\<close>) are
    the console.

  What the lemmas show, by group:

  \<^item> From a finding to the queue: a row the funnel queues for unattended work was shown to a judge that may hold the veto on its
    reporter and confirmed it; there is at most one open row under a key.
  \<^item> From the queue to the host: only rows that pass the gate or that a person asked for are claimed; a job for a node action exists only
    with an approval and a plan that passes the allowlist; the executor is told that allowlist and that plan and runs
    nothing but an initial segment of it; a claimed row has a job; the cap on open requests holds; failures end.
  \<^item> What a turn may do: tools run as the policy grants, the classifier calls a command a read exactly when nothing
    it runs is a known write, host writes run only after one accepted answer, frames cannot be broken out of.
  \<^item> Nothing is lost: a job is in one place and stays pending until it ends, the log reads back what it acknowledged after torn
    writes and restarts, the replay skips nothing and catches up, the feed counts each event once, pages partition the result.
  \<^item> Who may do what: credentials the gate accepts, the ceiling on new tokens, one admin remaining, failing closed.
  \<^item> Diffs and patches: applied hunks replace exact matches, printed diffs parse back, pull requests are guarded.

  Four contracts are locales. \<open>window_policy\<close> (\<open>Dedupe_Policy\<close>) is what a suppression policy owes its callers, with both policies
  as interpretations; \<open>cursor_log\<close> (\<open>Outbox\<close>) is an append-only log read by cursor, on which \<open>Replay\<close> rests, with the outbox as its
  interpretation; \<open>claim_rules\<close> (\<open>Remediation_Drain\<close>) is what a tick may do to a claimed row, interpreted once for the approval
  of spawned jobs and once for the leases; \<open>intake_rules\<close> (\<open>Remediation_Intake\<close>) is what an invariant of the table has to keep for the funnel
  to keep it, interpreted once for "only vetted rows are queued" and once for "one open row per key".

  What is an argument of the model: the clock, random identifiers, SHA-256 and password hashes, the JSON codec (\<open>codec_ok\<close>: what is encoded
  decodes again, and a proper prefix of a line does not), the YAML reader, SSH, the GitHub API, the cluster, the language models,
  the change recorder, the duplicate service, what other threads do to the queue while its lock is free, and the plugins of the engine. Their answers are arbitrary, errors included, unless a theorem names a hypothesis.

  Bounds: strings are lists of characters below 256, so text outside Latin-1 is not covered and an em dash in a message is
  written as a hyphen. The outbox numbers its files up to 999999 (\<open>has_room\<close>). Matching a starred group is bounded by the length of the text,
  which suffices because every round consumes a character. The classifier stops at the nesting depth of the source, and calls
  what lies deeper a write, as the source does.

  Not modelled: the OODA loop, the sweeps, investigations and the chat of the agent, which order calls of models and services; the
  SQL and the vectors of the knowledge base and of the Postgres sink; the HTTP servers, metrics and tracing; the tools that call clusters and
  hosts; terminal sessions (\<open>cockpit/\<close>); the adapters of trackers, Slack and Dynatrace; scripts and benchmarks. They consist mostly of
  calls of services whose behaviour is not in the repository.
\<close>

end
